(* ===== verification/Prelude.thy ===== *)
theory Prelude
  imports Complex_Main "HOL-Library.List_Lexorder"
begin

text \<open>
  What every component shares: the collections of facts the proofs are driven by, the error
  monad in which every \<open>throw\<close>, \<open>return null\<close> and early return of the source becomes a value,
  and the list functions behind \<open>String.prototype.split\<close>, \<open>Array.prototype.join\<close>,
  \<open>Array.prototype.splice\<close> and the loops that stop at the first failure.
\<close>

named_theorems eval_defs
  \<open>definitions to unfold when a model is evaluated at a concrete input\<close>

named_theorems wf_intros
  \<open>rules that build well-formed values\<close>

named_theorems err_simps
  \<open>equations about the error monad\<close>

section \<open>Errors as values\<close>

definition andThen :: "'e + 'a \<Rightarrow> ('a \<Rightarrow> 'e + 'b) \<Rightarrow> 'e + 'b" where
  "andThen r f = (case r of Inl e \<Rightarrow> Inl e | Inr x \<Rightarrow> f x)"

definition guardR :: "bool \<Rightarrow> 'e \<Rightarrow> 'e + unit" where
  "guardR b e = (if b then Inr () else Inl e)"

fun mapR :: "('a \<Rightarrow> 'e + 'b) \<Rightarrow> 'a list \<Rightarrow> 'e + 'b list" where
  "mapR f [] = Inr []"
| "mapR f (x # xs) =
     (case f x of Inl e \<Rightarrow> Inl e
      | Inr y \<Rightarrow> (case mapR f xs of Inl e \<Rightarrow> Inl e | Inr ys \<Rightarrow> Inr (y # ys)))"

lemma mapR_cong [fundef_cong]:
  assumes "xs = ys" and "\<And>x. x \<in> set ys \<Longrightarrow> f x = g x"
  shows "mapR f xs = mapR g ys"
  using assms by (induction xs arbitrary: ys) (auto split: sum.splits)

lemma andThen_simps [simp]:
  "andThen (Inl e) f = Inl e"
  "andThen (Inr x) f = f x"
  by (simp_all add: andThen_def)

lemma andThen_eq_Inr [err_simps]:
  "andThen r f = Inr y \<longleftrightarrow> (\<exists>x. r = Inr x \<and> f x = Inr y)"
  by (cases r) auto

lemma andThen_eq_Inl [err_simps]:
  "andThen r f = Inl e \<longleftrightarrow> r = Inl e \<or> (\<exists>x. r = Inr x \<and> f x = Inl e)"
  by (cases r) auto

lemma andThen_assoc: "andThen (andThen r f) g = andThen r (\<lambda>x. andThen (f x) g)"
  by (cases r) auto

lemma guardR_eq_Inr [err_simps]: "guardR b e = Inr u \<longleftrightarrow> b"
  by (simp add: guardR_def)

lemma guardR_simps [simp]: "guardR True e = Inr ()" "guardR False e = Inl e"
  by (simp_all add: guardR_def)

lemma mapR_eq_Inr: "mapR f xs = Inr ys \<longleftrightarrow> list_all2 (\<lambda>x y. f x = Inr y) xs ys"
proof (induction xs arbitrary: ys)
  case (Cons x xs)
  show ?case
    by (cases "f x"; cases "mapR f xs") (auto simp: list_all2_Cons1 Cons.IH[symmetric])
qed auto

lemma mapR_total: "(\<And>x. x \<in> set xs \<Longrightarrow> f x = Inr (g x)) \<Longrightarrow> mapR f xs = Inr (map g xs)"
  by (induction xs) auto

lemma mapR_length: "mapR f xs = Inr ys \<Longrightarrow> length ys = length xs"
  by (simp add: mapR_eq_Inr list_all2_lengthD)

lemma mapR_no_error:
  "(\<And>x. x \<in> set xs \<Longrightarrow> \<exists>y. f x = Inr y) \<Longrightarrow> \<exists>ys. mapR f xs = Inr ys"
  by (induction xs) (fastforce)+

text \<open>A sequential left fold that stops at the first error, as a loop with \<open>throw\<close> does.\<close>

fun foldR :: "('s \<Rightarrow> 'a \<Rightarrow> 'e + 's) \<Rightarrow> 's \<Rightarrow> 'a list \<Rightarrow> 'e + 's" where
  "foldR f s [] = Inr s"
| "foldR f s (x # xs) = andThen (f s x) (\<lambda>s'. foldR f s' xs)"

lemma foldR_cong [fundef_cong]:
  assumes "xs = ys" and "s = t" and "\<And>u x. x \<in> set ys \<Longrightarrow> f u x = g u x"
  shows "foldR f s xs = foldR g t ys"
  using assms by (induction xs arbitrary: ys s t) (auto intro!: arg_cong2[where f = andThen])

lemma andThen_cong [fundef_cong]:
  "r = r' \<Longrightarrow> (\<And>x. r' = Inr x \<Longrightarrow> f x = g x) \<Longrightarrow> andThen r f = andThen r' g"
  by (cases r') auto

text \<open>A loop that returns the first error it meets.\<close>

fun firstSome :: "('a \<Rightarrow> 'e option) \<Rightarrow> 'a list \<Rightarrow> 'e option" where
  "firstSome f [] = None"
| "firstSome f (x # xs) = (case f x of None \<Rightarrow> firstSome f xs | Some e \<Rightarrow> Some e)"

lemma firstSome_cong [fundef_cong]:
  assumes "xs = ys" and "\<And>x. x \<in> set ys \<Longrightarrow> f x = g x"
  shows "firstSome f xs = firstSome g ys"
  using assms by (induction xs arbitrary: ys) (auto split: option.split)

lemma firstSome_None: "firstSome f xs = None \<longleftrightarrow> list_all (\<lambda>x. f x = None) xs"
  by (induction xs) (auto split: option.split)

lemma firstSome_Some: "firstSome f xs = Some e \<Longrightarrow> \<exists>x\<in>set xs. f x = Some e"
  by (induction xs) (auto split: option.splits)

lemma foldR_append: "foldR f s (xs @ ys) = andThen (foldR f s xs) (\<lambda>s'. foldR f s' ys)"
  by (induction xs arbitrary: s) (auto simp: andThen_assoc)

lemma foldR_invariant:
  assumes "\<And>s x s'. P s \<Longrightarrow> x \<in> set xs \<Longrightarrow> f s x = Inr s' \<Longrightarrow> P s'"
    and "P s" and "foldR f s xs = Inr s'"
  shows "P s'"
  using assms
proof (induction xs arbitrary: s)
  case (Cons x xs)
  from Cons.prems(3) obtain t where t: "f s x = Inr t" "foldR f t xs = Inr s'"
    by (auto simp: err_simps)
  show ?case
    by (rule Cons.IH[OF _ _ t(2)]) (use Cons.prems(1,2) t(1) in auto)
qed auto

section \<open>Splitting and joining\<close>

text \<open>\<open>s.split(d)\<close> for a one-character separator, and \<open>parts.join(d)\<close>.\<close>

fun splitOn :: "'a \<Rightarrow> 'a list \<Rightarrow> 'a list list" where
  "splitOn d [] = [[]]"
| "splitOn d (c # cs) =
     (if c = d then [] # splitOn d cs
      else (case splitOn d cs of [] \<Rightarrow> [[c]] | w # ws \<Rightarrow> (c # w) # ws))"

fun joinWith :: "'a list \<Rightarrow> 'a list list \<Rightarrow> 'a list" where
  "joinWith d [] = []"
| "joinWith d [w] = w"
| "joinWith d (w # v # ws) = w @ d @ joinWith d (v # ws)"

lemma splitOn_nonempty [simp]: "splitOn d cs \<noteq> []"
  by (induction cs) (auto split: list.splits)

lemma joinWith_Cons: "ws \<noteq> [] \<Longrightarrow> joinWith d (w # ws) = w @ d @ joinWith d ws"
  by (cases ws) auto

lemma joinWith_head: "joinWith d ((c # w) # ws) = c # joinWith d (w # ws)"
  by (cases ws) auto

lemma joinWith_splitOn [simp]: "joinWith [d] (splitOn d cs) = cs"
proof (induction cs)
  case (Cons c cs)
  then show ?case
    by (cases "splitOn d cs") (auto simp: joinWith_head)
qed simp

lemma splitOn_no_sep: "d \<notin> set w \<Longrightarrow> splitOn d w = [w]"
  by (induction w) auto

lemma splitOn_append_sep: "d \<notin> set w \<Longrightarrow> splitOn d (w @ d # cs) = w # splitOn d cs"
  by (induction w) auto

lemma splitOn_joinWith:
  assumes "ws \<noteq> []" and "\<forall>w\<in>set ws. d \<notin> set w"
  shows "splitOn d (joinWith [d] ws) = ws"
  using assms
proof (induction ws)
  case (Cons w ws)
  then show ?case
    by (cases "ws = []") (auto simp: joinWith_Cons splitOn_append_sep splitOn_no_sep)
qed simp

lemma splitOn_pieces: "w \<in> set (splitOn d cs) \<Longrightarrow> d \<notin> set w"
proof (induction cs arbitrary: w)
  case (Cons c cs)
  then show ?case
    by (cases "splitOn d cs") (auto split: if_splits)
qed simp

section \<open>Array updates\<close>

text \<open>\<open>xs.splice(i, 0, v)\<close> and \<open>xs.splice(i, 1)\<close>, for an index in range.\<close>

definition insertAt :: "nat \<Rightarrow> 'a \<Rightarrow> 'a list \<Rightarrow> 'a list" where
  "insertAt i v xs = take i xs @ v # drop i xs"

definition removeAt :: "nat \<Rightarrow> 'a list \<Rightarrow> 'a list" where
  "removeAt i xs = take i xs @ drop (Suc i) xs"

lemma length_insertAt [simp]: "i \<le> length xs \<Longrightarrow> length (insertAt i v xs) = Suc (length xs)"
  by (simp add: insertAt_def)

lemma length_removeAt [simp]: "i < length xs \<Longrightarrow> length (removeAt i xs) = length xs - 1"
  by (simp add: removeAt_def)

lemma removeAt_insertAt [simp]: "i \<le> length xs \<Longrightarrow> removeAt i (insertAt i v xs) = xs"
  by (simp add: removeAt_def insertAt_def min_absorb2)

lemma insertAt_removeAt [simp]: "i < length xs \<Longrightarrow> insertAt i (xs ! i) (removeAt i xs) = xs"
  by (simp add: removeAt_def insertAt_def min_absorb2 id_take_nth_drop[symmetric])

lemma nth_insertAt [simp]: "i \<le> length xs \<Longrightarrow> insertAt i v xs ! i = v"
  by (simp add: insertAt_def nth_append)

lemma insertAt_length [simp]: "insertAt (length xs) v xs = xs @ [v]"
  by (simp add: insertAt_def)

lemma set_insertAt: "set (insertAt i v xs) = insert v (set xs)"
  by (simp add: insertAt_def) (metis append_take_drop_id set_append)

lemma set_removeAt: "set (removeAt i xs) \<subseteq> set xs"
  by (auto simp: removeAt_def dest: in_set_takeD in_set_dropD)

end
