(* ===== verification/JsString.thy ===== *)
theory JsString
  imports Prelude
begin

text \<open>
  JavaScript strings: sequences of UTF-16 code units, read one unit at a time by the source
  (\<open>s[i]\<close>, \<open>charCodeAt\<close>) and compared unit by unit (\<open><\<close> on strings is the lexicographic order
  of \<open>HOL-Library.List_Lexorder\<close>). \<open>lit\<close> embeds an ASCII literal. The theory also holds the
  string operations the source takes from the language: \<open>startsWith\<close>, \<open>replace\<close> with a global
  literal pattern, decimal printing and reading.
\<close>

type_synonym cu = nat
type_synonym jsstr = "cu list"

abbreviation cu :: "char \<Rightarrow> cu" where
  "cu c \<equiv> of_char c"

definition lit :: "string \<Rightarrow> jsstr" where
  "lit s = map of_char s"

lemma lit_simps [simp]:
  "lit [] = []"
  "lit (c # s) = cu c # lit s"
  by (simp_all add: lit_def)

lemma lit_append: "lit (s @ t) = lit s @ lit t"
  by (simp add: lit_def)

definition startsWith :: "jsstr \<Rightarrow> jsstr \<Rightarrow> bool" where
  "startsWith s p \<longleftrightarrow> take (length p) s = p"

lemma startsWith_append [simp]: "startsWith (p @ r) p"
  by (simp add: startsWith_def)

lemma startsWith_iff: "startsWith s p \<longleftrightarrow> (\<exists>r. s = p @ r)"
  unfolding startsWith_def by (metis append_eq_conv_conj append_take_drop_id)

section \<open>Global replacement of a literal pattern\<close>

text \<open>\<open>s.replace(/a/g, w)\<close> for a one-unit pattern and \<open>s.replace(/ab/g, w)\<close> for a two-unit one.\<close>

fun replaceUnit :: "cu \<Rightarrow> jsstr \<Rightarrow> jsstr \<Rightarrow> jsstr" where
  "replaceUnit a w [] = []"
| "replaceUnit a w (c # cs) = (if c = a then w @ replaceUnit a w cs else c # replaceUnit a w cs)"

fun replacePair :: "cu \<Rightarrow> cu \<Rightarrow> jsstr \<Rightarrow> jsstr \<Rightarrow> jsstr" where
  "replacePair a b w [] = []"
| "replacePair a b w [c] = [c]"
| "replacePair a b w (c # d # cs) =
     (if c = a \<and> d = b then w @ replacePair a b w cs else c # replacePair a b w (d # cs))"

lemma replaceUnit_append: "replaceUnit a w (s @ t) = replaceUnit a w s @ replaceUnit a w t"
  by (induction s) auto

lemma set_replaceUnit: "set (replaceUnit a w s) \<subseteq> set w \<union> (set s - {a})"
  by (induction s) auto

section \<open>Decimal digits\<close>

definition isDigit :: "cu \<Rightarrow> bool" where
  "isDigit c \<longleftrightarrow> 48 \<le> c \<and> c \<le> 57"

definition digitVal :: "cu \<Rightarrow> nat" where
  "digitVal c = c - 48"

fun readDigits :: "nat \<Rightarrow> jsstr \<Rightarrow> nat" where
  "readDigits n [] = n"
| "readDigits n (c # cs) = readDigits (10 * n + digitVal c) cs"

lemma readDigits_bound: "list_all isDigit ds \<Longrightarrow> readDigits n ds < (n + 1) * 10 ^ length ds"
proof (induction ds arbitrary: n)
  case (Cons d ds)
  then have d: "digitVal d < 10" by (auto simp: digitVal_def isDigit_def)
  have "readDigits (10 * n + digitVal d) ds < (10 * n + digitVal d + 1) * 10 ^ length ds" using Cons by auto
  also have "\<dots> \<le> (10 * n + 10) * 10 ^ length ds" using d by (intro mult_right_mono) auto
  finally show ?case by (simp add: algebra_simps)
qed simp

text \<open>The order of digit strings of one length is the order of the numbers.\<close>

lemma readDigits_ge: "n * 10 ^ length ds \<le> readDigits n ds"
proof (induction ds arbitrary: n)
  case (Cons d ds)
  have "n * 10 ^ length (d # ds) \<le> (10 * n + digitVal d) * 10 ^ length ds" by (simp add: algebra_simps)
  also have "\<dots> \<le> readDigits (10 * n + digitVal d) ds" by (rule Cons)
  finally show ?case by simp
qed simp

lemma digits_lex:
  assumes "length xs = length ys" "list_all isDigit xs" "list_all isDigit ys"
  shows "xs < ys \<longleftrightarrow> readDigits n xs < readDigits n ys"
  using assms
proof (induction xs ys arbitrary: n rule: list_induct2)
  case (Cons x xs y ys)
  have less: "readDigits (10 * n + digitVal a) as < readDigits (10 * n + digitVal b) bs"
    if "a < b" "isDigit a" "isDigit b" "list_all isDigit as" "length as = length bs" for a b as bs
  proof -
    have "readDigits (10 * n + digitVal a) as < (10 * n + digitVal a + 1) * 10 ^ length as"
      by (rule readDigits_bound[OF that(4)])
    also have "\<dots> \<le> (10 * n + digitVal b) * 10 ^ length bs"
    proof -
      have "10 * n + digitVal a + 1 \<le> 10 * n + digitVal b" using that by (auto simp: digitVal_def isDigit_def)
      then show ?thesis unfolding that(5) by (rule mult_le_mono1)
    qed
    also have "\<dots> \<le> readDigits (10 * n + digitVal b) bs" by (rule readDigits_ge)
    finally show ?thesis .
  qed
  show ?case
    using less[of x y xs ys] less[of y x ys xs] Cons by (cases x y rule: linorder_cases) auto
qed simp

text \<open>\<open>parseInt(s, 10)\<close> on a string of digits.\<close>

definition parseDec :: "jsstr \<Rightarrow> nat" where
  "parseDec s = readDigits 0 s"

text \<open>\<open>String(n)\<close> for a non-negative integer.\<close>

fun showNat :: "nat \<Rightarrow> jsstr" where
  "showNat n = (if n < 10 then [48 + n] else showNat (n div 10) @ [48 + n mod 10])"

declare showNat.simps [simp del]

lemma showNat_small: "n < 10 \<Longrightarrow> showNat n = [48 + n]"
  by (simp add: showNat.simps)

lemma showNat_large: "10 \<le> n \<Longrightarrow> showNat n = showNat (n div 10) @ [48 + n mod 10]"
  by (subst showNat.simps) simp

lemma readDigits_append: "readDigits n (s @ t) = readDigits (readDigits n s) t"
  by (induction s arbitrary: n) auto

lemma parseDec_showNat [simp]: "parseDec (showNat n) = n"
proof (induction n rule: less_induct)
  case (less n)
  show ?case
  proof (cases "n < 10")
    case True
    then show ?thesis by (simp add: showNat_small parseDec_def digitVal_def)
  next
    case False
    then have "parseDec (showNat (n div 10)) = n div 10" by (intro less) simp
    with False show ?thesis
      by (simp add: showNat_large parseDec_def readDigits_append digitVal_def)
  qed
qed

lemma showNat_digits: "c \<in> set (showNat n) \<Longrightarrow> isDigit c"
proof (induction n rule: less_induct)
  case (less n)
  show ?case
  proof (cases "n < 10")
    case True
    with less.prems show ?thesis by (auto simp: showNat_small isDigit_def)
  next
    case False
    then have "n div 10 < n" by simp
    with less.IH have "c \<in> set (showNat (n div 10)) \<Longrightarrow> isDigit c" by blast
    with False less.prems show ?thesis
      by (auto simp: showNat_large isDigit_def)
  qed
qed

lemma showNat_nonempty [simp]: "showNat n \<noteq> []"
  by (subst showNat.simps) simp

text \<open>No leading zero: the first digit of a positive number is not \<open>0\<close>.\<close>

lemma showNat_hd: "0 < n \<Longrightarrow> hd (showNat n) \<noteq> 48"
proof (induction n rule: less_induct)
  case (less n)
  show ?case
  proof (cases "n < 10")
    case True
    with less.prems show ?thesis by (simp add: showNat_small)
  next
    case False
    then have "hd (showNat (n div 10)) \<noteq> 48" by (intro less) auto
    with False show ?thesis by (simp add: showNat_large)
  qed
qed

lemma showNat_0 [simp]: "showNat 0 = [48]"
  by (simp add: showNat_small)

lemma showNat_inj: "showNat m = showNat n \<longleftrightarrow> m = n"
  by (metis parseDec_showNat)

section \<open>Hexadecimal digits\<close>

definition isHexDigit :: "cu \<Rightarrow> bool" where
  "isHexDigit c \<longleftrightarrow> isDigit c \<or> (0x41 \<le> c \<and> c \<le> 0x46) \<or> (0x61 \<le> c \<and> c \<le> 0x66)"

definition hexVal :: "cu \<Rightarrow> nat" where
  "hexVal c = (if c \<le> 57 then c - 48 else if c \<le> 0x46 then c - 55 else c - 87)"

text \<open>\<open>parseInt(hex, 16)\<close>\<close>

definition parseHex :: "jsstr \<Rightarrow> nat" where
  "parseHex s = foldl (\<lambda>n c. 16 * n + hexVal c) 0 s"

text \<open>\<open>byte.toString(16).padStart(2, '0')\<close>\<close>

definition isLowerHex :: "cu \<Rightarrow> bool" where
  "isLowerHex c \<longleftrightarrow> isDigit c \<or> (0x61 \<le> c \<and> c \<le> 0x66)"

definition hexChar :: "nat \<Rightarrow> cu" where
  "hexChar n = (if n < 10 then 48 + n else 87 + n)"

definition hexByte :: "nat \<Rightarrow> jsstr" where
  "hexByte n = [hexChar (n div 16), hexChar (n mod 16)]"

lemma hexVal_char [simp]: "n < 16 \<Longrightarrow> hexVal (hexChar n) = n"
  by (auto simp: hexVal_def hexChar_def)

lemma hexChar_lower [simp]: "n < 16 \<Longrightarrow> isLowerHex (hexChar n)"
  by (auto simp: isLowerHex_def hexChar_def isDigit_def)

lemma hexByte_lower: "n < 256 \<Longrightarrow> list_all isLowerHex (hexByte n)"
  by (simp add: hexByte_def less_mult_imp_div_less)

lemma length_hexByte [simp]: "length (hexByte n) = 2"
  by (simp add: hexByte_def)

lemma parseHex_byte [simp]: "n < 256 \<Longrightarrow> parseHex (hexByte n) = n"
  by (simp add: parseHex_def hexByte_def less_mult_imp_div_less)

section \<open>White space\<close>

text \<open>\<open>s.trim()\<close>: the white space and line terminators of the language.\<close>

definition isJsSpace :: "cu \<Rightarrow> bool" where
  "isJsSpace c \<longleftrightarrow>
     (9 \<le> c \<and> c \<le> 13) \<or> c = 32 \<or> c = 0xA0 \<or> c = 0x1680 \<or> (0x2000 \<le> c \<and> c \<le> 0x200A) \<or>
     c = 0x2028 \<or> c = 0x2029 \<or> c = 0x202F \<or> c = 0x205F \<or> c = 0x3000 \<or> c = 0xFEFF"

definition jsTrim :: "jsstr \<Rightarrow> jsstr" where
  "jsTrim s = rev (dropWhile isJsSpace (rev (dropWhile isJsSpace s)))"

lemma jsTrim_id: "s = [] \<or> (\<not> isJsSpace (hd s) \<and> \<not> isJsSpace (last s)) \<Longrightarrow> jsTrim s = s"
proof (cases "s = []")
  case False
  assume "s = [] \<or> (\<not> isJsSpace (hd s) \<and> \<not> isJsSpace (last s))"
  with False have "dropWhile isJsSpace s = s" "dropWhile isJsSpace (rev s) = rev s"
    by (simp_all add: dropWhile_eq_self_iff hd_rev)
  then show ?thesis by (simp add: jsTrim_def)
qed (simp add: jsTrim_def)

section \<open>Code points\<close>

text \<open>\<open>String.fromCodePoint\<close>\<close>

definition fromCodePoint :: "nat \<Rightarrow> jsstr" where
  "fromCodePoint n =
     (if n < 0x10000 then [n]
      else [0xD800 + (n - 0x10000) div 1024, 0xDC00 + (n - 0x10000) mod 1024])"

text \<open>The code points of a string; a lone surrogate stands for U+FFFD, as \<open>TextEncoder\<close> has it.\<close>

definition isHighSurrogate :: "cu \<Rightarrow> bool" where
  "isHighSurrogate c \<longleftrightarrow> 0xD800 \<le> c \<and> c \<le> 0xDBFF"

definition isLowSurrogate :: "cu \<Rightarrow> bool" where
  "isLowSurrogate c \<longleftrightarrow> 0xDC00 \<le> c \<and> c \<le> 0xDFFF"

fun codePoints :: "jsstr \<Rightarrow> nat list" where
  "codePoints [] = []"
| "codePoints (c # cs) =
     (if isHighSurrogate c then
        (case cs of
           d # ds \<Rightarrow>
             if isLowSurrogate d then (0x10000 + (c - 0xD800) * 1024 + (d - 0xDC00)) # codePoints ds
             else 0xFFFD # codePoints cs
         | [] \<Rightarrow> [0xFFFD])
      else (if isLowSurrogate c then 0xFFFD else c) # codePoints cs)"

end
