(* ===== verification/JsNumber.thy ===== *)
theory JsNumber
  imports JsString "HOL-Library.Log_Nat"
begin

text \<open>
  JavaScript numbers. A finite double is a dyadic rational, so a number is \<open>Fin q\<close> with its exact
  rational value, one of the infinities, or \<open>NaN\<close>; the two zeros are one value, since none of the
  code modelled tells them apart. \<open>roundDouble n d\<close> is the double nearest to \<open>n/d\<close>
  (round half to even, 53 bits, subnormals, overflow to infinity), which is what \<open>Number(text)\<close>
  computes from a decimal literal.
\<close>

datatype jsnum = Fin rat | PosInf | NegInf | NaN

instantiation jsnum :: ord
begin

fun less_jsnum :: "jsnum \<Rightarrow> jsnum \<Rightarrow> bool" where
  "less_jsnum (Fin a) (Fin b) \<longleftrightarrow> a < b"
| "less_jsnum (Fin a) PosInf \<longleftrightarrow> True"
| "less_jsnum NegInf (Fin b) \<longleftrightarrow> True"
| "less_jsnum NegInf PosInf \<longleftrightarrow> True"
| "less_jsnum _ _ \<longleftrightarrow> False"

definition less_eq_jsnum :: "jsnum \<Rightarrow> jsnum \<Rightarrow> bool" where
  "less_eq_jsnum a b \<longleftrightarrow> a \<noteq> NaN \<and> b \<noteq> NaN \<and> (a < b \<or> a = b)"

instance ..

end

text \<open>\<open>===\<close> on two numbers: \<open>NaN\<close> differs from itself.\<close>

definition numEq :: "jsnum \<Rightarrow> jsnum \<Rightarrow> bool" where
  "numEq a b \<longleftrightarrow> a = b \<and> a \<noteq> NaN"

text \<open>\<open>Number.isFinite\<close> and \<open>Number.isInteger\<close>.\<close>

fun isFiniteNum :: "jsnum \<Rightarrow> bool" where
  "isFiniteNum (Fin q) = True"
| "isFiniteNum _ = False"

definition isIntegerNum :: "jsnum \<Rightarrow> bool" where
  "isIntegerNum x = (case x of Fin q \<Rightarrow> snd (quotient_of q) = 1 | _ \<Rightarrow> False)"

definition intOfNum :: "jsnum \<Rightarrow> int" where
  "intOfNum x = (case x of Fin q \<Rightarrow> fst (quotient_of q) | _ \<Rightarrow> 0)"

lemma isIntegerNum_of_int [simp]: "isIntegerNum (Fin (of_int n))"
  by (simp add: isIntegerNum_def quotient_of_int)

lemma intOfNum_of_int [simp]: "intOfNum (Fin (of_int n)) = n"
  by (simp add: intOfNum_def quotient_of_int)

lemma isIntegerNum_iff: "isIntegerNum x \<longleftrightarrow> (\<exists>n. x = Fin (of_int n))"
proof
  assume "isIntegerNum x"
  then obtain q where q: "x = Fin q" "snd (quotient_of q) = 1"
    by (auto simp: isIntegerNum_def split: jsnum.splits)
  then have "q = of_int (fst (quotient_of q))"
    by (metis div_by_1 of_int_1 prod.collapse quotient_of_div)
  with q show "\<exists>n. x = Fin (of_int n)" by metis
qed auto

section \<open>Rounding to a double\<close>

text \<open>\<open>a/d\<close> rounded to an integer, ties to even, for \<open>a \<ge> 0\<close> and \<open>d > 0\<close>.\<close>

definition roundHalfEven :: "int \<Rightarrow> int \<Rightarrow> int" where
  "roundHalfEven a d =
     (let q = a div d; r = a mod d
      in if 2 * r < d \<or> (2 * r = d \<and> even q) then q else q + 1)"

text \<open>The exponent of the unit in the last place of the double nearest to \<open>a/d > 0\<close>.\<close>

definition ulpExp :: "int \<Rightarrow> int \<Rightarrow> int" where
  "ulpExp a d =
     (let e = bitlen a - bitlen d - 53;
          e' = (if (if 0 \<le> e + 53 then d * 2 ^ nat (e + 53) \<le> a else d \<le> a * 2 ^ nat (- (e + 53)))
                then e + 1 else e)
      in max e' (- 1074))"

definition roundDouble :: "int \<Rightarrow> int \<Rightarrow> jsnum" where
  "roundDouble n d =
     (if n = 0 then Fin 0
      else
        let a = \<bar>n\<bar>; e = ulpExp a d;
            m = (if 0 \<le> e then roundHalfEven a (d * 2 ^ nat e)
                 else roundHalfEven (a * 2 ^ nat (- e)) d)
        in if 0 \<le> e \<and> 2 ^ 1024 \<le> m * 2 ^ nat e then (if n < 0 then NegInf else PosInf)
           else Fin (of_int (sgn n * m) * (if 0 \<le> e then 2 ^ nat e else 1 / 2 ^ nat (- e))))"

lemma roundHalfEven_exact: "0 < d \<Longrightarrow> roundHalfEven (m * d) d = m"
  by (simp add: roundHalfEven_def)

lemma bitlen_le_53: "0 \<le> a \<Longrightarrow> a < 2 ^ 53 \<Longrightarrow> bitlen a \<le> 53"
  by (simp add: bitlen_le_iff_power)

text \<open>Integers of at most 53 bits, the I-JSON range among them, are read without rounding.\<close>

lemma roundDouble_int:
  assumes "\<bar>n\<bar> < 2 ^ 53"
  shows "roundDouble n 1 = Fin (of_int n)"
proof (cases "n = 0")
  case False
  define e where "e = ulpExp \<bar>n\<bar> 1"
  have b: "bitlen \<bar>n\<bar> \<le> 53" by (rule bitlen_le_53) (use assms in auto)
  have "bitlen (1::int) = 1" by (simp add: bitlen_def floorlog_def)
  with b have e: "e \<le> 0"
    unfolding e_def ulpExp_def Let_def by auto
  show ?thesis
  proof (cases "e = 0")
    case True
    have "(2::int) ^ 53 \<le> 2 ^ 1024" by (rule power_increasing) auto
    with assms have "\<not> (2::int) ^ 1024 \<le> \<bar>n\<bar>" by linarith
    with True False show ?thesis
      by (simp add: roundDouble_def e_def[symmetric] Let_def roundHalfEven_exact[where d = 1, simplified]
          sgn_mult_abs abs_mult_sgn)
  next
    case neg: False
    with e have lt: "e < 0" by simp
    have "roundHalfEven (\<bar>n\<bar> * 2 ^ nat (- e)) 1 = \<bar>n\<bar> * 2 ^ nat (- e)"
      using roundHalfEven_exact[of 1] by simp
    with lt False show ?thesis
      by (simp add: roundDouble_def e_def[symmetric] Let_def)
        (metis mult_sgn_abs of_int_abs of_int_mult mult.commute)
  qed
qed (simp add: roundDouble_def)

section \<open>Reading a decimal literal\<close>

text \<open>
  \<open>Number(raw)\<close> for \<open>raw\<close> of the form sign, integer digits, fraction digits, exponent: the parts
  as the lexers split them, an absent fraction or exponent being the empty string.
\<close>

definition numberOfParts :: "bool \<Rightarrow> jsstr \<Rightarrow> jsstr \<Rightarrow> int \<Rightarrow> jsnum" where
  "numberOfParts neg ip fp ex =
     (let m = int (parseDec (ip @ fp)); n = (if neg then - m else m); k = ex - int (length fp)
      in if 0 \<le> k then roundDouble (n * 10 ^ nat k) 1 else roundDouble n (10 ^ nat (- k)))"

lemma numberOfParts_int:
  assumes "parseDec ip < 2 ^ 53"
  shows "numberOfParts neg ip [] 0 = Fin (of_int (if neg then - int (parseDec ip) else int (parseDec ip)))"
proof -
  have "int (parseDec ip) < 2 ^ 53" using assms by (metis of_nat_less_iff of_nat_numeral of_nat_power)
  then show ?thesis
    by (auto simp: numberOfParts_def Let_def roundDouble_int[where n = "- int (parseDec ip)", simplified]
        roundDouble_int)
qed

end
