(* ===== verification/JsValue.thy ===== *)
theory JsValue
  imports JsNumber
begin

text \<open>
  JavaScript values as the JSON modules see them. A value of type \<open>unknown\<close> is a \<open>jsval\<close>: a
  primitive, or a reference into a heap of arrays and objects, so that sharing and cycles are
  representable. An object holds its own enumerable string-keyed properties in enumeration order.
  \<open>json\<close> is the type of the trees such values denote when they are JSON; \<open>unfolds h v j\<close> relates
  the two. The second half is the ordered property map of one object: \<open>objPut\<close> is
  \<open>Object.defineProperty\<close> of a data property (array-index keys enumerate first, in numeric order,
  then the other keys in insertion order), \<open>objDel\<close> is \<open>delete\<close>.
\<close>

datatype jsval =
    Undefined
  | Null
  | Bool bool
  | Num jsnum
  | Str jsstr
  | Ref nat          \<comment> \<open>an array or an object: an address of the heap\<close>
  | Exotic nat       \<comment> \<open>a function, a symbol or a bigint, by identity\<close>

datatype proto = ObjectProto | NullProto | OtherProto

datatype heapobj =
    HArr "jsval list"
  | HObj proto "(jsstr \<times> jsval) list"

type_synonym heap = "nat \<Rightarrow> heapobj option"

text \<open>\<open>===\<close>: numbers by value (\<open>NaN\<close> apart), strings by content, objects by identity.\<close>

definition strictEq :: "jsval \<Rightarrow> jsval \<Rightarrow> bool" where
  "strictEq v w \<longleftrightarrow> (case (v, w) of (Num a, Num b) \<Rightarrow> numEq a b | _ \<Rightarrow> v = w)"

text \<open>\<open>Array.isArray(v)\<close> with the elements, and the own properties of a non-array object.\<close>

definition arrayOf :: "heap \<Rightarrow> jsval \<Rightarrow> jsval list option" where
  "arrayOf h v = (case v of Ref a \<Rightarrow> (case h a of Some (HArr vs) \<Rightarrow> Some vs | _ \<Rightarrow> None) | _ \<Rightarrow> None)"

definition recordOf :: "heap \<Rightarrow> jsval \<Rightarrow> (jsstr \<times> jsval) list option" where
  "recordOf h v =
     (case v of
        Ref a \<Rightarrow> (case h a of Some (HArr vs) \<Rightarrow> None | Some (HObj p ps) \<Rightarrow> Some ps | None \<Rightarrow> Some [])
      | _ \<Rightarrow> None)"

text \<open>An object whose prototype is \<open>Object.prototype\<close> or \<open>null\<close>.\<close>

definition plainObjectOf :: "heap \<Rightarrow> jsval \<Rightarrow> (jsstr \<times> jsval) list option" where
  "plainObjectOf h v =
     (case v of
        Ref a \<Rightarrow> (case h a of Some (HObj p ps) \<Rightarrow> (if p = OtherProto then None else Some ps) | _ \<Rightarrow> None)
      | _ \<Rightarrow> None)"

text \<open>Reading a property that only the object itself can have.\<close>

definition getProp :: "(jsstr \<times> jsval) list \<Rightarrow> jsstr \<Rightarrow> jsval" where
  "getProp ps k = (case map_of ps k of None \<Rightarrow> Undefined | Some v \<Rightarrow> v)"

definition hasOwnKey :: "(jsstr \<times> 'v) list \<Rightarrow> jsstr \<Rightarrow> bool" where
  "hasOwnKey ps k \<longleftrightarrow> k \<in> fst ` set ps"

lemma hasOwnKey_map_of: "hasOwnKey ps k \<longleftrightarrow> map_of ps k \<noteq> None"
  by (simp add: hasOwnKey_def map_of_eq_None_iff)

section \<open>JSON trees\<close>

datatype json =
    JNull
  | JBool bool
  | JNum rat
  | JStr jsstr
  | JArr "json list"
  | JObj "(jsstr \<times> json) list"

lemma size_json_elem [termination_simp]: "j \<in> set js \<Longrightarrow> size j < Suc (size_list size js)"
  by (induction js) auto

lemma size_json_field [termination_simp]:
  "(k, j) \<in> set ps \<Longrightarrow> size j < Suc (size_list (size_prod (\<lambda>_. 0) size) ps)"
  by (induction ps) auto

text \<open>Nested at most \<open>n\<close> levels deep: an array or object whose entries are at most \<open>n - 1\<close> deep.\<close>

fun depthLE :: "nat \<Rightarrow> json \<Rightarrow> bool" where
  "depthLE n (JArr js) = (js = [] \<or> (0 < n \<and> list_all (depthLE (n - 1)) js))"
| "depthLE n (JObj ps) = (ps = [] \<or> (0 < n \<and> list_all (\<lambda>(k, j). depthLE (n - 1) j) ps))"
| "depthLE n j = True"

inductive unfolds :: "heap \<Rightarrow> jsval \<Rightarrow> json \<Rightarrow> bool" for h where
  null: "unfolds h Null JNull"
| bool: "unfolds h (Bool b) (JBool b)"
| num: "unfolds h (Num (Fin q)) (JNum q)"
| str: "unfolds h (Str s) (JStr s)"
| arr: "h a = Some (HArr vs) \<Longrightarrow> list_all2 (unfolds h) vs js \<Longrightarrow> unfolds h (Ref a) (JArr js)"
| obj: "h a = Some (HObj p ps) \<Longrightarrow> p \<noteq> OtherProto \<Longrightarrow>
     list_all2 (rel_prod (=) (unfolds h)) ps qs \<Longrightarrow> unfolds h (Ref a) (JObj qs)"

inductive_simps unfolds_simps:
  "unfolds h Undefined j"
  "unfolds h Null j"
  "unfolds h (Bool b) j"
  "unfolds h (Num x) j"
  "unfolds h (Str s) j"
  "unfolds h (Exotic e) j"
  "unfolds h (Ref a) j"

inductive_cases unfolds_JArrE: "unfolds h v (JArr js)"
inductive_cases unfolds_JObjE: "unfolds h v (JObj qs)"

text \<open>A value denotes at most one tree, and a subtree is smaller: so no value contains itself.\<close>

lemma unfolds_det: "unfolds h v i \<Longrightarrow> unfolds h v j \<Longrightarrow> i = j"
proof (induction arbitrary: j rule: unfolds.induct)
  case (arr a vs js)
  then obtain ks where ks: "j = JArr ks" "list_all2 (unfolds h) vs ks"
    by (auto simp: unfolds_simps)
  have "list_all2 (=) js ks"
    using arr.IH ks(2) by (force simp: list_all2_conv_all_nth)
  with ks show ?case by (simp add: list.rel_eq)
next
  case (obj a p ps qs)
  then obtain rs where rs: "j = JObj rs" "list_all2 (rel_prod (=) (unfolds h)) ps rs"
    by (auto simp: unfolds_simps)
  have "list_all2 (=) qs rs"
    using obj.IH rs(2) by (force simp: list_all2_conv_all_nth rel_prod_sel prod_eq_iff)
  with rs show ?case by (simp add: list.rel_eq)
qed (auto simp: unfolds_simps)

lemma list_all2_in_left:
  "list_all2 R xs ys \<Longrightarrow> x \<in> set xs \<Longrightarrow> \<exists>y\<in>set ys. R x y"
  by (metis list_all2_conv_all_nth in_set_conv_nth)

lemma unfolds_elem:
  assumes "unfolds h v (JArr js)" and "arrayOf h v = Some vs" and "w \<in> set vs"
  obtains j where "unfolds h w j" "j \<in> set js"
  using assms by (auto elim!: unfolds_JArrE simp: arrayOf_def dest: list_all2_in_left)

lemma size_elem: "j \<in> set js \<Longrightarrow> size j < size (JArr js)"
  by (auto dest: size_json_elem)

lemma size_field: "(k, j) \<in> set ps \<Longrightarrow> size j < size (JObj ps)"
  by (auto dest: size_json_field)

lemma depthLE_mono: "depthLE m j \<Longrightarrow> m \<le> n \<Longrightarrow> depthLE n j"
proof (induction m j arbitrary: n rule: depthLE.induct)
  case (1 m js)
  show ?case
  proof (cases "js = []")
    case False
    with "1.prems" have "list_all (depthLE (m - 1)) js" and lt: "0 < m" "m - 1 \<le> n - 1" by auto
    then have "list_all (depthLE (n - 1)) js"
      by (elim list.pred_mono_strong) (rule "1.IH", auto)
    with lt "1.prems" show ?thesis by auto
  qed simp
next
  case (2 m ps)
  show ?case
  proof (cases "ps = []")
    case False
    with "2.prems" have all: "list_all (\<lambda>(k, j). depthLE (m - 1) j) ps"
      and lt: "0 < m" "m - 1 \<le> n - 1"
      by auto
    have "depthLE (n - 1) j" if "(k, j) \<in> set ps" for k j
      using "2.IH"[OF that refl _ lt(2)] all that by (auto simp: list_all_iff)
    then have "list_all (\<lambda>(k, j). depthLE (n - 1) j) ps" by (auto simp: list_all_iff)
    with lt "2.prems" show ?thesis by simp
  qed simp
qed auto

section \<open>The ordered properties of an object\<close>

text \<open>
  An array-index key is the decimal form of a number below \<open>2^32 - 1\<close>. \<open>keyBefore k a\<close> says that a
  new key \<open>k\<close> enumerates before the existing key \<open>a\<close>.
\<close>

definition isIndexKey :: "jsstr \<Rightarrow> bool" where
  "isIndexKey k \<longleftrightarrow>
     (k = [48] \<or> (k \<noteq> [] \<and> hd k \<noteq> 48 \<and> list_all isDigit k)) \<and> parseDec k < 2 ^ 32 - 1"

definition keyBefore :: "jsstr \<Rightarrow> jsstr \<Rightarrow> bool" where
  "keyBefore k a \<longleftrightarrow> isIndexKey k \<and> (\<not> isIndexKey a \<or> parseDec k < parseDec a)"

fun insertKey :: "jsstr \<Rightarrow> 'v \<Rightarrow> (jsstr \<times> 'v) list \<Rightarrow> (jsstr \<times> 'v) list" where
  "insertKey k v [] = [(k, v)]"
| "insertKey k v ((a, b) # ps) =
     (if keyBefore k a then (k, v) # (a, b) # ps else (a, b) # insertKey k v ps)"

fun replaceKey :: "jsstr \<Rightarrow> 'v \<Rightarrow> (jsstr \<times> 'v) list \<Rightarrow> (jsstr \<times> 'v) list" where
  "replaceKey k v [] = []"
| "replaceKey k v ((a, b) # ps) = (if a = k then (a, v) # ps else (a, b) # replaceKey k v ps)"

definition objPut :: "jsstr \<Rightarrow> 'v \<Rightarrow> (jsstr \<times> 'v) list \<Rightarrow> (jsstr \<times> 'v) list" where
  "objPut k v ps = (if hasOwnKey ps k then replaceKey k v ps else insertKey k v ps)"

definition objDel :: "jsstr \<Rightarrow> (jsstr \<times> 'v) list \<Rightarrow> (jsstr \<times> 'v) list" where
  "objDel k ps = filter (\<lambda>(a, b). a \<noteq> k) ps"

definition objGet :: "jsstr \<Rightarrow> (jsstr \<times> 'v) list \<Rightarrow> 'v option" where
  "objGet k ps = map_of ps k"

text \<open>The invariant of every JavaScript object: no key twice, keys in enumeration order.\<close>

definition keysOrdered :: "(jsstr \<times> 'v) list \<Rightarrow> bool" where
  "keysOrdered ps \<longleftrightarrow> distinct (map fst ps) \<and> sorted_wrt (\<lambda>x y. \<not> keyBefore y x) (map fst ps)"

lemma keyBefore_trans: "keyBefore x y \<Longrightarrow> keyBefore y z \<Longrightarrow> keyBefore x z"
  by (auto simp: keyBefore_def)

lemma keyBefore_asym: "keyBefore x y \<Longrightarrow> \<not> keyBefore y x"
  by (auto simp: keyBefore_def)

lemma keyBefore_cotrans: "keyBefore x y \<Longrightarrow> keyBefore x z \<or> keyBefore z y"
  by (auto simp: keyBefore_def)

lemma set_insertKey [simp]: "set (insertKey k v ps) = insert (k, v) (set ps)"
  by (induction k v ps rule: insertKey.induct) auto

lemma map_fst_replaceKey [simp]: "map fst (replaceKey k v ps) = map fst ps"
  by (induction ps) auto

lemma map_of_insertKey: "k \<notin> fst ` set ps \<Longrightarrow> map_of (insertKey k v ps) = (map_of ps)(k \<mapsto> v)"
  by (induction k v ps rule: insertKey.induct) (auto simp: fun_eq_iff)

lemma map_of_replaceKey: "k \<in> fst ` set ps \<Longrightarrow> map_of (replaceKey k v ps) = (map_of ps)(k \<mapsto> v)"
proof (induction k v ps rule: replaceKey.induct)
  case (2 k v a b ps)
  then have "a \<noteq> k \<Longrightarrow> map_of (replaceKey k v ps) = (map_of ps)(k \<mapsto> v)" by auto
  then show ?case by (auto simp: fun_eq_iff)
qed simp

lemma replaceKey_same: "map_of ps k = Some v \<Longrightarrow> replaceKey k v ps = ps"
  by (induction k v ps rule: replaceKey.induct) (auto split: if_splits)

lemma map_of_objPut: "map_of (objPut k v ps) = (map_of ps)(k \<mapsto> v)"
  by (simp add: objPut_def hasOwnKey_def map_of_insertKey map_of_replaceKey)

lemma map_of_objDel: "map_of (objDel k ps) = (map_of ps)(k := None)"
  by (induction ps) (auto simp: objDel_def fun_eq_iff)

lemma keysOrdered_insertKey:
  "keysOrdered ps \<Longrightarrow> k \<notin> fst ` set ps \<Longrightarrow> keysOrdered (insertKey k v ps)"
proof (induction ps)
  case (Cons p ps)
  obtain a b where p: "p = (a, b)" by force
  have rest: "keysOrdered ps" "\<forall>y\<in>fst ` set ps. \<not> keyBefore y a" "a \<notin> fst ` set ps"
    using Cons.prems(1) by (auto simp: keysOrdered_def p)
  show ?case
  proof (cases "keyBefore k a")
    case True
    have "\<not> keyBefore y k" if "y \<in> fst ` set ps" for y
      using True rest(2) that keyBefore_trans by blast
    then show ?thesis
      using True Cons.prems keyBefore_asym[OF True] by (auto simp: keysOrdered_def p)
  next
    case False
    then have "keysOrdered (insertKey k v ps)" using Cons rest(1) by auto
    with False rest Cons.prems(2) show ?thesis
      by (auto simp: keysOrdered_def p)
  qed
qed (simp add: keysOrdered_def)

lemma keysOrdered_objPut [wf_intros]: "keysOrdered ps \<Longrightarrow> keysOrdered (objPut k v ps)"
  by (auto simp: objPut_def hasOwnKey_def keysOrdered_insertKey)
    (simp add: keysOrdered_def)

lemma keysOrdered_objDel [wf_intros]: "keysOrdered ps \<Longrightarrow> keysOrdered (objDel k ps)"
  unfolding keysOrdered_def objDel_def
  by (induction ps) auto

lemma keysOrdered_Nil [simp, wf_intros]: "keysOrdered []"
  by (simp add: keysOrdered_def)

lemma keysOrdered_map_snd: "keysOrdered (map (\<lambda>(k, v). (k, f v)) ps) \<longleftrightarrow> keysOrdered ps"
  by (simp add: keysOrdered_def comp_def case_prod_beta)

section \<open>The interface of a property map\<close>

text \<open>
  What JSON Patch and JSON Merge Patch rely on when they define, delete and look up members: the
  laws of a finite map, with an invariant the updates keep. \<open>updateLoop\<close> facts describe a loop that
  visits distinct keys and, for each, deletes the key or stores a value computed from the old one.
\<close>

locale object_map =
  fixes get :: "'k \<Rightarrow> 'm \<Rightarrow> 'v option"
    and put :: "'k \<Rightarrow> 'v \<Rightarrow> 'm \<Rightarrow> 'm"
    and del :: "'k \<Rightarrow> 'm \<Rightarrow> 'm"
    and wf :: "'m \<Rightarrow> bool"
  assumes get_put: "get k (put a v m) = (if k = a then Some v else get k m)"
    and get_del: "get k (del a m) = (if k = a then None else get k m)"
    and wf_put: "wf m \<Longrightarrow> wf (put a v m)"
    and wf_del: "wf m \<Longrightarrow> wf (del a m)"
begin

lemma get_put_same: "get k (put k v m) = Some v"
  by (simp add: get_put)

lemma get_put_other: "k \<noteq> a \<Longrightarrow> get k (put a v m) = get k m"
  by (simp add: get_put)

lemma get_del_same: "get k (del k m) = None"
  by (simp add: get_del)

lemma get_del_put: "get k (del a (put a v m)) = get k (del a m)"
  by (simp add: get_put get_del)

lemma get_put_put: "get k (put a v (put a w m)) = get k (put a v m)"
  by (simp add: get_put)

lemma updateLoop_get:
  assumes "distinct (map fst us)"
  shows "get k (foldl (\<lambda>m (a, f). case f (get a m) of None \<Rightarrow> del a m | Some v \<Rightarrow> put a v m) m us) =
    (case map_of us k of None \<Rightarrow> get k m | Some f \<Rightarrow> f (get k m))"
  using assms
proof (induction us arbitrary: m)
  case (Cons u us)
  obtain a f where u: "u = (a, f)" by force
  from Cons.prems have a: "a \<notin> fst ` set us" and d: "distinct (map fst us)" by (auto simp: u)
  have n: "map_of us a = None" using a by (simp add: map_of_eq_None_iff)
  show ?case
    by (cases "f (get a m)") (auto simp: u Cons.IH[OF d] get_put get_del n split: option.split)
qed simp

lemma updateLoop_wf:
  "wf m \<Longrightarrow> wf (foldl (\<lambda>m (a, f). case f (get a m) of None \<Rightarrow> del a m | Some v \<Rightarrow> put a v m) m us)"
  by (induction us arbitrary: m) (auto simp: wf_put wf_del split: option.split)

end

interpretation om: object_map objGet objPut objDel keysOrdered
  by unfold_locales
    (auto simp: objGet_def map_of_objPut map_of_objDel keysOrdered_objPut keysOrdered_objDel)

section \<open>Well-formed trees\<close>

fun wf_json :: "json \<Rightarrow> bool" where
  "wf_json (JArr js) = list_all wf_json js"
| "wf_json (JObj ps) = (keysOrdered ps \<and> list_all (\<lambda>(k, j). wf_json j) ps)"
| "wf_json j = True"

definition wfHeap :: "heap \<Rightarrow> bool" where
  "wfHeap h \<longleftrightarrow> (\<forall>a p ps. h a = Some (HObj p ps) \<longrightarrow> keysOrdered ps)"

lemma unfolds_keys: "list_all2 (rel_prod (=) R) ps qs \<Longrightarrow> map fst qs = map fst ps"
  by (induction ps qs rule: list_all2_induct) auto

lemma keysOrdered_cong: "map fst ps = map fst qs \<Longrightarrow> keysOrdered ps \<longleftrightarrow> keysOrdered qs"
  by (simp add: keysOrdered_def)

lemma unfolds_wf: "unfolds h v j \<Longrightarrow> wfHeap h \<Longrightarrow> wf_json j"
proof (induction rule: unfolds.induct)
  case (arr a vs js)
  then show ?case by (auto simp: list_all2_conv_all_nth list_all_length)
next
  case (obj a p ps qs)
  then have "map fst qs = map fst ps"
    by (intro unfolds_keys) (auto elim!: list_all2_mono)
  moreover have "keysOrdered ps" using obj by (auto simp: wfHeap_def)
  ultimately have "keysOrdered qs" using keysOrdered_cong by blast
  moreover have "list_all (\<lambda>(k, j). wf_json j) qs"
    using obj by (auto simp: list_all2_conv_all_nth list_all_length rel_prod_sel case_prod_beta)
  ultimately show ?case by simp
qed auto

lemma wf_json_objPut [wf_intros]:
  assumes "wf_json (JObj ps)" and "wf_json v"
  shows "wf_json (JObj (objPut k v ps))"
proof -
  have "set (objPut k v ps) \<subseteq> insert (k, v) (set ps)"
  proof -
    have "set (replaceKey k v ps) \<subseteq> insert (k, v) (set ps)"
      by (induction k v ps rule: replaceKey.induct) auto
    then show ?thesis by (auto simp: objPut_def)
  qed
  then show ?thesis
    using assms by (auto simp: list_all_iff keysOrdered_objPut)
qed

lemma wf_json_objDel [wf_intros]: "wf_json (JObj ps) \<Longrightarrow> wf_json (JObj (objDel k ps))"
  using keysOrdered_objDel[of ps k] by (auto simp: list_all_iff objDel_def)

lemma wf_json_map_of: "wf_json (JObj ps) \<Longrightarrow> map_of ps k = Some j \<Longrightarrow> wf_json j"
  by (auto simp: list_all_iff dest: map_of_SomeD)

lemma wf_json_nth: "wf_json (JArr js) \<Longrightarrow> i < length js \<Longrightarrow> wf_json (js ! i)"
  by (auto simp: list_all_length)

text \<open>Putting the members of an ordered object one after the other into an empty one copies it.\<close>

lemma insertKey_last: "\<forall>(a, b)\<in>set ps. \<not> keyBefore k a \<Longrightarrow> insertKey k v ps = ps @ [(k, v)]"
  by (induction k v ps rule: insertKey.induct) auto

lemma foldl_objPut_append:
  "keysOrdered (acc @ qs) \<Longrightarrow> foldl (\<lambda>c (k, j). objPut k j c) acc qs = acc @ qs"
proof (induction qs arbitrary: acc)
  case (Cons q qs)
  obtain k j where q: "q = (k, j)" by force
  from Cons.prems have "k \<notin> fst ` set acc" and "\<forall>(a, b)\<in>set acc. \<not> keyBefore k a"
    by (auto simp: keysOrdered_def q sorted_wrt_append)
  then have "objPut k j acc = acc @ [(k, j)]"
    by (simp add: objPut_def hasOwnKey_def insertKey_last)
  with Cons.IH[of "acc @ [(k, j)]"] Cons.prems show ?case by (simp add: q)
qed simp

lemma foldl_objPut_copy: "keysOrdered qs \<Longrightarrow> foldl (\<lambda>c (k, j). objPut k j c) [] qs = qs"
  using foldl_objPut_append[of "[]" qs] by simp

end
