(* ===== verification/JsonPointer.thy ===== *)
theory JsonPointer
  imports JsValue
begin

text \<open>
  JSON Pointer (RFC 6901), \<open>src/json-pointer.ts\<close>: escaping of reference tokens, parsing and
  formatting, and evaluation against a document in the heap. The escaping is used through the
  interface \<open>token_codec\<close>, in which the two round trips of the whole pointer are proved once.
\<close>

section \<open>Reference tokens\<close>

text \<open>\<open>decodeToken\<close> first rewrites \<open>~1\<close> to \<open>/\<close>, then \<open>~0\<close> to \<open>~\<close>; \<open>encodeToken\<close> first \<open>~\<close>, then \<open>/\<close>.\<close>

definition decodeToken :: "jsstr \<Rightarrow> jsstr" where
  "decodeToken token =
     replacePair (cu CHR ''~'') (cu CHR ''0'') (lit ''~'')
       (replacePair (cu CHR ''~'') (cu CHR ''1'') (lit ''/'') token)"

definition encodeToken :: "jsstr \<Rightarrow> jsstr" where
  "encodeToken token =
     replaceUnit (cu CHR ''/'') (lit ''~1'') (replaceUnit (cu CHR ''~'') (lit ''~0'') token)"

fun hasValidEscapes :: "jsstr \<Rightarrow> bool" where
  "hasValidEscapes [] = True"
| "hasValidEscapes [c] = (c \<noteq> cu CHR ''~'')"
| "hasValidEscapes (c # d # cs) =
     (if c = cu CHR ''~'' then
        (if d \<noteq> cu CHR ''0'' \<and> d \<noteq> cu CHR ''1'' then False else hasValidEscapes cs)
      else hasValidEscapes (d # cs))"

text \<open>\<open>isValidArrayIndex\<close>: \<open>-\<close>, \<open>0\<close>, or digits without a leading zero.\<close>

definition isValidArrayIndex :: "jsstr \<Rightarrow> bool" where
  "isValidArrayIndex token =
     (if token = lit ''-'' then True
      else if token = [] then False
      else if token = lit ''0'' then True
      else 49 \<le> hd token \<and> hd token \<le> 57 \<and> list_all isDigit (tl token))"

section \<open>Parsing, formatting, evaluating\<close>

definition parseJsonPointer :: "jsstr \<Rightarrow> jsstr list option" where
  "parseJsonPointer pointer =
     (if pointer = [] then Some []
      else if hd pointer \<noteq> cu CHR ''/'' then None
      else
        let rawTokens = splitOn (cu CHR ''/'') (tl pointer)
        in if list_all hasValidEscapes rawTokens then Some (map decodeToken rawTokens) else None)"

definition formatJsonPointer :: "jsstr list \<Rightarrow> jsstr" where
  "formatJsonPointer tokens =
     (if tokens = [] then []
      else cu CHR ''/'' # joinWith (lit ''/'') (map encodeToken tokens))"

text \<open>
  One step of the loop of \<open>evaluateJsonPointer\<close>. The array index is the number the digits spell:
  \<open>parseInt\<close> rounds only above \<open>2^53\<close>, where the comparison with an array's length, which is
  below \<open>2^32\<close>, has the same outcome.
\<close>

definition pointerStep :: "heap \<Rightarrow> jsval \<Rightarrow> jsstr \<Rightarrow> jsval" where
  "pointerStep h current token =
     (if current = Null \<or> current = Undefined then Undefined
      else (case arrayOf h current of
        Some vs \<Rightarrow>
          (if token = lit ''-'' then Undefined
           else if \<not> isValidArrayIndex token then Undefined
           else let index = parseDec token
                in if index \<ge> length vs then Undefined else vs ! index)
      | None \<Rightarrow>
          (case recordOf h current of
             Some ps \<Rightarrow> if \<not> hasOwnKey ps token then Undefined else getProp ps token
           | None \<Rightarrow> Undefined)))"

definition evaluateJsonPointer :: "heap \<Rightarrow> jsstr \<Rightarrow> jsval \<Rightarrow> jsval" where
  "evaluateJsonPointer h pointer document =
     (if pointer = [] then document
      else (case parseJsonPointer pointer of
        None \<Rightarrow> Undefined
      | Some tokens \<Rightarrow> foldl (pointerStep h) document tokens))"

definition isValidJsonPointer :: "jsstr \<Rightarrow> bool" where
  "isValidJsonPointer pointer = (parseJsonPointer pointer \<noteq> None)"

lemmas pointer_defs [eval_defs] =
  decodeToken_def encodeToken_def isValidArrayIndex_def parseJsonPointer_def formatJsonPointer_def
  pointerStep_def evaluateJsonPointer_def isValidJsonPointer_def

section \<open>The codec of reference tokens\<close>

lemma encodeToken_simps [simp]:
  "encodeToken [] = []"
  "encodeToken (c # cs) =
     (if c = 126 then [126, 48] else if c = 47 then [126, 49] else [c]) @ encodeToken cs"
  by (simp_all add: encodeToken_def)

lemma encodeToken_no_slash: "47 \<notin> set (encodeToken t)"
  by (induction t) auto

lemma hasValidEscapes_encodeToken: "hasValidEscapes (encodeToken t)"
proof (induction t)
  case (Cons c t)
  then show ?case by (cases "encodeToken t") auto
qed simp

text \<open>After its first pass \<open>decodeToken\<close> has only to undo \<open>~0\<close>.\<close>

lemma replacePair_other: "c \<noteq> a \<Longrightarrow> replacePair a b w (c # cs) = c # replacePair a b w cs"
  by (cases cs) auto

lemma replacePair_no_head: "a \<notin> set s \<Longrightarrow> replacePair a b w s = s"
  by (induction a b w s rule: replacePair.induct) auto

lemma decode_pass1:
  "replacePair 126 49 [47] (encodeToken t) = replaceUnit 126 [126, 48] t"
proof (induction t)
  case (Cons c t)
  then show ?case by (auto simp: replacePair_other)
qed simp

lemma decode_pass2: "replacePair 126 48 [126] (replaceUnit 126 [126, 48] t) = t"
  by (induction t) (auto simp: replacePair_other)

lemma decodeToken_encodeToken: "decodeToken (encodeToken t) = t"
  by (simp add: decodeToken_def decode_pass1 decode_pass2)

text \<open>On a raw token with valid escapes and no slash, encoding gives the raw token back.\<close>

fun decodeSpec :: "jsstr \<Rightarrow> jsstr" where
  "decodeSpec [] = []"
| "decodeSpec [c] = [c]"
| "decodeSpec (c # d # cs) =
     (if c = 126 \<and> d = 48 then 126 # decodeSpec cs
      else if c = 126 \<and> d = 49 then 47 # decodeSpec cs
      else c # decodeSpec (d # cs))"

lemma pass1_hd: "replacePair 126 49 [47] (d # cs) = x # y \<Longrightarrow> x = 48 \<Longrightarrow> d = 48"
  by (cases cs) (auto split: if_splits)

lemma decodeToken_spec: "hasValidEscapes t \<Longrightarrow> decodeToken t = decodeSpec t"
  unfolding decodeToken_def
proof (induction t rule: decodeSpec.induct)
  case (3 c d cs)
  then show ?case by (auto simp: replacePair_other split: if_splits)
qed (auto simp: replacePair_other)

lemma encodeToken_decodeSpec: "hasValidEscapes t \<Longrightarrow> 47 \<notin> set t \<Longrightarrow> encodeToken (decodeSpec t) = t"
  by (induction t rule: decodeSpec.induct) (auto split: if_splits)

lemma encodeToken_decodeToken:
  "hasValidEscapes t \<Longrightarrow> 47 \<notin> set t \<Longrightarrow> encodeToken (decodeToken t) = t"
  by (simp add: decodeToken_spec encodeToken_decodeSpec)

text \<open>
  The interface: a reversible escaping of tokens that keeps a separator out. From it follow both
  round trips of a list of tokens written one after the other behind separators.
\<close>

locale token_codec =
  fixes enc :: "'a list \<Rightarrow> 'a list"
    and dec :: "'a list \<Rightarrow> 'a list"
    and valid :: "'a list \<Rightarrow> bool"
    and sep :: 'a
  assumes dec_enc: "dec (enc t) = t"
    and enc_valid: "valid (enc t)"
    and enc_no_sep: "sep \<notin> set (enc t)"
begin

lemma split_encoded:
  assumes "ts \<noteq> []"
  shows "splitOn sep (joinWith [sep] (map enc ts)) = map enc ts"
  using assms by (intro splitOn_joinWith) (auto simp: enc_no_sep)

lemma all_valid: "list_all valid (map enc ts)"
  by (simp add: list_all_iff enc_valid)

lemma decode_encoded: "map dec (map enc ts) = ts"
  by (simp add: comp_def dec_enc)

lemma enc_inj: "enc s = enc t \<longleftrightarrow> s = t"
  by (metis dec_enc)

end

locale canonical_codec = token_codec +
  assumes enc_dec: "valid r \<Longrightarrow> sep \<notin> set r \<Longrightarrow> enc (dec r) = r"
begin

lemma reencode: "list_all valid rs \<Longrightarrow> \<forall>r\<in>set rs. sep \<notin> set r \<Longrightarrow> map enc (map dec rs) = rs"
  by (induction rs) (auto simp: enc_dec)

lemma reencode_split:
  "list_all valid (splitOn sep s) \<Longrightarrow>
    joinWith [sep] (map enc (map dec (splitOn sep s))) = s"
  using reencode[of "splitOn sep s"] splitOn_pieces[of _ sep s] by (metis joinWith_splitOn)

end

interpretation ptr: canonical_codec encodeToken decodeToken hasValidEscapes "47 :: cu"
  by unfold_locales
    (auto simp: decodeToken_encodeToken hasValidEscapes_encodeToken encodeToken_no_slash
      encodeToken_decodeToken)

section \<open>Evaluation against the tree a value denotes\<close>

text \<open>The reference: following decoded tokens through a tree.\<close>

definition parseArrayIndex :: "jsstr \<Rightarrow> nat option" where
  "parseArrayIndex token =
     (if token = [48] \<or> (token \<noteq> [] \<and> 49 \<le> hd token \<and> hd token \<le> 57 \<and> list_all isDigit (tl token))
      then Some (parseDec token) else None)"

fun jsonStep :: "json \<Rightarrow> jsstr \<Rightarrow> json option" where
  "jsonStep (JArr js) token =
     (case parseArrayIndex token of None \<Rightarrow> None | Some i \<Rightarrow> if i < length js then Some (js ! i) else None)"
| "jsonStep (JObj ps) token = map_of ps token"
| "jsonStep j token = None"

fun jsonAt :: "json \<Rightarrow> jsstr list \<Rightarrow> json option" where
  "jsonAt j [] = Some j"
| "jsonAt j (token # tokens) = (case jsonStep j token of None \<Rightarrow> None | Some i \<Rightarrow> jsonAt i tokens)"

lemma jsonAt_append:
  "jsonAt j (ts @ us) = (case jsonAt j ts of None \<Rightarrow> None | Some i \<Rightarrow> jsonAt i us)"
  by (induction j ts rule: jsonAt.induct) (auto split: option.split)

lemma parseArrayIndex_showNat [simp]: "parseArrayIndex (showNat n) = Some n"
proof (cases "n = 0")
  case False
  then have "hd (showNat n) \<noteq> 48" by (simp add: showNat_hd)
  moreover have "isDigit (hd (showNat n))" by (rule showNat_digits[of _ n]) simp
  moreover have "list_all isDigit (tl (showNat n))"
    by (auto simp: list_all_iff intro!: showNat_digits dest: list.set_sel(2)[rotated])
  ultimately show ?thesis by (auto simp: parseArrayIndex_def isDigit_def)
qed (simp add: parseArrayIndex_def parseDec_def digitVal_def)

lemma isValidArrayIndex_iff:
  "isValidArrayIndex t \<longleftrightarrow> t = lit ''-'' \<or> parseArrayIndex t = Some (parseDec t)"
  by (auto simp: isValidArrayIndex_def parseArrayIndex_def)

lemma parseArrayIndex_Some: "parseArrayIndex t = Some i \<Longrightarrow> i = parseDec t \<and> t \<noteq> lit ''-'' \<and> isValidArrayIndex t"
  by (auto simp: parseArrayIndex_def isValidArrayIndex_def split: if_splits)

lemma parseArrayIndex_None: "parseArrayIndex t = None \<Longrightarrow> t = lit ''-'' \<or> \<not> isValidArrayIndex t"
  by (auto simp: parseArrayIndex_def isValidArrayIndex_def split: if_splits)

lemma pointerStep_Undefined [simp]: "pointerStep h Undefined t = Undefined"
  by (simp add: pointerStep_def)

lemma map_of_rel:
  "list_all2 (rel_prod (=) R) ps qs \<Longrightarrow> rel_option R (map_of ps t) (map_of qs t)"
  by (induction ps qs rule: list_all2_induct) auto

lemma pointerStep_unfolds:
  assumes "unfolds h v j"
  shows "case jsonStep j t of None \<Rightarrow> pointerStep h v t = Undefined
    | Some i \<Rightarrow> unfolds h (pointerStep h v t) i"
  using assms
proof (cases rule: unfolds.cases)
  case (arr a vs js)
  then have len: "length vs = length js" by (simp add: list_all2_lengthD)
  show ?thesis
  proof (cases "parseArrayIndex t")
    case None
    then show ?thesis
      using parseArrayIndex_None[OF None] arr by (auto simp: pointerStep_def arrayOf_def)
  next
    case (Some i)
    then show ?thesis
      using parseArrayIndex_Some[OF Some] arr len
      by (auto simp: pointerStep_def arrayOf_def list_all2_conv_all_nth)
  qed
next
  case (obj a p ps qs)
  then have "rel_option (unfolds h) (map_of ps t) (map_of qs t)"
    by (simp add: map_of_rel)
  with obj show ?thesis
    by (auto simp: pointerStep_def arrayOf_def recordOf_def hasOwnKey_map_of getProp_def
        split: option.splits elim: option.rel_cases)
qed (auto simp: pointerStep_def arrayOf_def recordOf_def)

lemma foldl_pointerStep_Undefined: "foldl (pointerStep h) Undefined ts = Undefined"
  by (induction ts) auto

lemma evaluateJsonPointer_tokens:
  "parseJsonPointer p = Some ts \<Longrightarrow> evaluateJsonPointer h p d = foldl (pointerStep h) d ts"
  by (auto simp: evaluateJsonPointer_def parseJsonPointer_def)

section \<open>Properties\<close>

lemma parse_format: "parseJsonPointer (formatJsonPointer ts) = Some ts"
  using ptr.split_encoded[of ts] ptr.all_valid[of ts] ptr.decode_encoded[of ts]
  by (simp add: parseJsonPointer_def formatJsonPointer_def Let_def)

lemma format_parse: "parseJsonPointer p = Some ts \<Longrightarrow> formatJsonPointer ts = p"
  using ptr.reencode_split[of "tl p"]
  by (cases p) (auto simp: parseJsonPointer_def formatJsonPointer_def Let_def split: if_splits)

text \<open>C40 (pointer_parse_format): Formatting a list of reference tokens, whatever characters they
  hold, and parsing the pointer gives the tokens back.\<close>

theorem pointer_parse_format: "parseJsonPointer (formatJsonPointer ts) = Some ts"
  by (rule parse_format)

text \<open>A pointer that parses is the formatted form of its tokens, so the
  string form of a pointer is unique.\<close>

theorem pointer_format_parse: "parseJsonPointer p = Some ts \<Longrightarrow> formatJsonPointer ts = p"
  by (rule format_parse)

theorem pointer_format_parse_witness: "formatJsonPointer [lit ''a/b'', lit ''m~n''] = lit ''/a~1b/m~0n''"
  by (rule pointer_format_parse) (simp add: pointer_defs Let_def)

text \<open>On a value that denotes a JSON tree, a pointer evaluates to the subtree
  its tokens lead to, and to undefined when they lead nowhere (a missing member, an index that is
  out of range, has a leading zero or is \<open>-\<close>, a step into a primitive).\<close>

theorem pointer_evaluate:
  assumes "unfolds h d j" and "parseJsonPointer p = Some ts"
  shows "case jsonAt j ts of None \<Rightarrow> evaluateJsonPointer h p d = Undefined
    | Some i \<Rightarrow> unfolds h (evaluateJsonPointer h p d) i"
proof -
  have "case jsonAt j ts of None \<Rightarrow> foldl (pointerStep h) d ts = Undefined
    | Some i \<Rightarrow> unfolds h (foldl (pointerStep h) d ts) i"
    using assms(1)
  proof (induction ts arbitrary: d j)
    case (Cons t ts)
    show ?case
    proof (cases "jsonStep j t")
      case None
      then show ?thesis
        using pointerStep_unfolds[OF Cons.prems, of t] by (simp add: foldl_pointerStep_Undefined)
    next
      case (Some i)
      then have "unfolds h (pointerStep h d t) i"
        using pointerStep_unfolds[OF Cons.prems, of t] by simp
      from Cons.IH[OF this] Some show ?thesis by (auto split: option.splits)
    qed
  qed simp
  then show ?thesis unfolding evaluateJsonPointer_tokens[OF assms(2)] .
qed

definition sampleHeap :: heap where
  "sampleHeap = [0 \<mapsto> HObj ObjectProto [(lit ''a'', Ref 1)], 1 \<mapsto> HArr [Null, Bool True]]"

lemma sample_unfolds:
  "unfolds sampleHeap (Ref 0) (JObj [(lit ''a'', JArr [JNull, JBool True])])"
  by (simp add: unfolds_simps sampleHeap_def)

theorem pointer_evaluate_witness:
  "unfolds sampleHeap (evaluateJsonPointer sampleHeap (lit ''/a/1'') (Ref 0)) (JBool True)"
  using pointer_evaluate[OF sample_unfolds, of "lit ''/a/1''" "[lit ''a'', lit ''1'']"]
  by (simp add: pointer_defs Let_def parseArrayIndex_def parseDec_def digitVal_def)

end
