(* ===== verification/JsonPatchValue.thy ===== *)
theory JsonPatchValue
  imports JsonPointer
begin

text \<open>
  The values of JSON Patch (RFC 6902), \<open>src/json-patch.ts\<close>: validation, cloning and comparison.
  \<open>isJsonValue\<close> and \<open>cloneFromHeap\<close> walk a value of the heap with the depth limit and the set of
  active ancestors; what they accept denotes a tree, and the clone is that tree. \<open>cloneJsonValue\<close>
  and \<open>deepEqual\<close> work on trees, with the same depth limit.
\<close>

section \<open>Errors and operations\<close>

datatype member = FromMember | PathMember

datatype parentUse = ForAdd | ForRemove | ForReplace

text \<open>One constructor per message of a \<open>throw\<close>; the number is the operation's index.\<close>

datatype patch_error =
    TargetNotJson
  | DocumentNotArray
  | OpNotObject nat
  | OpInvalidOp nat
  | OpInvalidPath nat
  | OpInvalidValue nat
  | OpInvalidFrom nat
  | OpFromPrefixOfPath nat
  | ValueDepth
  | ValueCycle
  | ValueNotJson          \<comment> \<open>a value outside the TypeScript type, which the code hands back as it is\<close>
  | CompareDepth
  | InvalidPointer nat member
  | CannotAddIndex nat jsstr
  | CannotRemoveRoot nat
  | CannotRemoveIndex nat jsstr
  | CannotRemoveMember nat jsstr
  | CannotReplaceIndex nat jsstr
  | CannotReplaceMember nat jsstr
  | MissingIndex nat member jsstr
  | MissingMember nat member jsstr
  | NoParent nat parentUse
  | ParentNotContainer nat
  | TestFailed nat

datatype operation =
    OpAdd jsstr json              \<comment> \<open>path, value\<close>
  | OpRemove jsstr                \<comment> \<open>path\<close>
  | OpReplace jsstr json          \<comment> \<open>path, value\<close>
  | OpMove jsstr jsstr            \<comment> \<open>from, path\<close>
  | OpCopy jsstr jsstr            \<comment> \<open>from, path\<close>
  | OpTest jsstr json             \<comment> \<open>path, value\<close>

definition maxPatchDepth :: nat where
  "maxPatchDepth = 512"

section \<open>Values: validation, cloning, comparison\<close>

function isJsonValue :: "heap \<Rightarrow> jsval \<Rightarrow> nat \<Rightarrow> nat set \<Rightarrow> bool" where
  "isJsonValue h v depth active =
     (if depth > maxPatchDepth then False
      else (case v of
        Null \<Rightarrow> True
      | Str s \<Rightarrow> True
      | Bool b \<Rightarrow> True
      | Num x \<Rightarrow> isFiniteNum x
      | Undefined \<Rightarrow> False
      | Exotic e \<Rightarrow> False
      | Ref a \<Rightarrow>
          if a \<in> active then False
          else (case h a of
            Some (HArr vs) \<Rightarrow> list_all (\<lambda>e. isJsonValue h e (depth + 1) (insert a active)) vs
          | Some (HObj p ps) \<Rightarrow>
              p \<noteq> OtherProto \<and>
              list_all (\<lambda>(k, e). isJsonValue h e (depth + 1) (insert a active)) ps
          | None \<Rightarrow> False)))"
  by pat_completeness auto
termination
  by (relation "measure (\<lambda>(h, v, depth, active). 513 - depth)") (auto simp: maxPatchDepth_def)

declare isJsonValue.simps [simp del]

text \<open>\<open>cloneJsonValue\<close> on a value of the heap.\<close>

function cloneFromHeap :: "heap \<Rightarrow> jsval \<Rightarrow> nat \<Rightarrow> nat set \<Rightarrow> patch_error + json" where
  "cloneFromHeap h v depth active =
     (if depth > maxPatchDepth then Inl ValueDepth
      else (case v of
        Null \<Rightarrow> Inr JNull
      | Str s \<Rightarrow> Inr (JStr s)
      | Bool b \<Rightarrow> Inr (JBool b)
      | Num x \<Rightarrow> (case x of Fin q \<Rightarrow> Inr (JNum q) | _ \<Rightarrow> Inl ValueNotJson)
      | Undefined \<Rightarrow> Inl ValueNotJson
      | Exotic e \<Rightarrow> Inl ValueNotJson
      | Ref a \<Rightarrow>
          if a \<in> active then Inl ValueCycle
          else (case h a of
            Some (HArr vs) \<Rightarrow>
              andThen (mapR (\<lambda>e. cloneFromHeap h e (depth + 1) (insert a active)) vs)
                (\<lambda>js. Inr (JArr js))
          | Some (HObj p ps) \<Rightarrow>
              andThen
                (mapR (\<lambda>(k, e). andThen (cloneFromHeap h e (depth + 1) (insert a active)) (\<lambda>j. Inr (k, j))) ps)
                (\<lambda>qs. Inr (JObj (foldl (\<lambda>clone (k, j). objPut k j clone) [] qs)))
          | None \<Rightarrow> Inr (JObj []))))"
  by pat_completeness auto
termination
  by (relation "measure (\<lambda>(h, v, depth, active). 513 - depth)") (auto simp: maxPatchDepth_def)

declare cloneFromHeap.simps [simp del]

text \<open>\<open>cloneJsonValue\<close> on a value that is already a tree: a part of the working copy, or a cloned operand.\<close>

fun cloneJsonValue :: "json \<Rightarrow> nat \<Rightarrow> patch_error + json" where
  "cloneJsonValue (JArr js) depth =
     (if depth > maxPatchDepth then Inl ValueDepth
      else andThen (mapR (\<lambda>j. cloneJsonValue j (depth + 1)) js) (\<lambda>js'. Inr (JArr js')))"
| "cloneJsonValue (JObj ps) depth =
     (if depth > maxPatchDepth then Inl ValueDepth
      else andThen (mapR (\<lambda>(k, j). andThen (cloneJsonValue j (depth + 1)) (\<lambda>j'. Inr (k, j'))) ps)
             (\<lambda>qs. Inr (JObj (foldl (\<lambda>clone (k, j). objPut k j clone) [] qs))))"
| "cloneJsonValue j depth = (if depth > maxPatchDepth then Inl ValueDepth else Inr j)"

text \<open>
  \<open>deepEqual\<close> on two trees. Two different trees share no object, so \<open>===\<close> holds between primitives
  only and no pair of objects is met twice on one path.
\<close>

fun deepEqual :: "json \<Rightarrow> json \<Rightarrow> nat \<Rightarrow> patch_error + bool"
and deepEqualEntries :: "json list \<Rightarrow> json list \<Rightarrow> nat \<Rightarrow> patch_error + bool"
and deepEqualMembers :: "(jsstr \<times> json) list \<Rightarrow> (jsstr \<times> json) list \<Rightarrow> nat \<Rightarrow> patch_error + bool" where
  "deepEqual a b depth =
     (if depth > maxPatchDepth then Inl CompareDepth
      else (case a of
        JArr xs \<Rightarrow>
          (case b of
             JArr ys \<Rightarrow> if length xs \<noteq> length ys then Inr False else deepEqualEntries xs ys (depth + 1)
           | _ \<Rightarrow> Inr False)
      | JObj ps \<Rightarrow>
          (case b of
             JObj qs \<Rightarrow> if length ps \<noteq> length qs then Inr False else deepEqualMembers ps qs (depth + 1)
           | _ \<Rightarrow> Inr False)
      | _ \<Rightarrow> Inr (a = b)))"
| "deepEqualEntries (x # xs) (y # ys) depth =
     andThen (deepEqual x y depth) (\<lambda>eq. if eq then deepEqualEntries xs ys depth else Inr False)"
| "deepEqualEntries [] ys depth = Inr True"
| "deepEqualEntries (x # xs) [] depth = Inr True"
| "deepEqualMembers ((k, x) # ps) qs depth =
     (case map_of qs k of
        None \<Rightarrow> Inr False
      | Some y \<Rightarrow> andThen (deepEqual x y depth) (\<lambda>eq. if eq then deepEqualMembers ps qs depth else Inr False))"
| "deepEqualMembers [] qs depth = Inr True"

section \<open>What validation and cloning establish\<close>

text \<open>
  An active ancestor denotes a strictly larger tree than the value being visited, so a value that
  denotes a tree is never found among its ancestors.
\<close>

definition ancestorsAbove :: "heap \<Rightarrow> nat set \<Rightarrow> json \<Rightarrow> bool" where
  "ancestorsAbove h active j \<longleftrightarrow> (\<forall>a\<in>active. \<forall>i. unfolds h (Ref a) i \<longrightarrow> size j < size i)"

lemma ancestorsAbove_fresh: "unfolds h (Ref a) j \<Longrightarrow> ancestorsAbove h active j \<Longrightarrow> a \<notin> active"
  by (auto simp: ancestorsAbove_def)

lemma ancestorsAbove_insert:
  "unfolds h (Ref a) j \<Longrightarrow> ancestorsAbove h active j \<Longrightarrow> size i < size j \<Longrightarrow>
    ancestorsAbove h (insert a active) i"
  unfolding ancestorsAbove_def using unfolds_det less_trans by (metis insert_iff)

lemma isJsonValue_sound:
  "isJsonValue h v depth active \<Longrightarrow> \<exists>j. unfolds h v j \<and> depthLE (maxPatchDepth - depth) j"
proof (induction h v depth active rule: isJsonValue.induct)
  case (1 h v depth active)
  have d: "depth \<le> maxPatchDepth" using "1.prems" by (subst (asm) isJsonValue.simps) (auto split: if_splits)
  show ?case
  proof (cases v)
    case (Ref a)
    with d "1.prems" have fresh: "a \<notin> active"
      by (subst (asm) isJsonValue.simps) (auto split: if_splits)
    show ?thesis
    proof (cases "h a")
      case None
      with d fresh Ref "1.prems" show ?thesis
        by (subst (asm) isJsonValue.simps) (auto split: if_splits)
    next
      case (Some obj)
      show ?thesis
      proof (cases obj)
        case (HArr vs)
        with d fresh Ref Some "1.prems"
        have all: "\<forall>e\<in>set vs. isJsonValue h e (depth + 1) (insert a active)"
          by (subst (asm) isJsonValue.simps) (auto split: if_splits simp: list_all_iff)
        have "\<forall>e\<in>set vs. \<exists>j. unfolds h e j \<and> depthLE (maxPatchDepth - (depth + 1)) j"
          using "1.IH"(1)[of a obj vs] all d fresh Ref Some HArr by auto
        then obtain f where f: "\<forall>e\<in>set vs. unfolds h e (f e) \<and> depthLE (maxPatchDepth - (depth + 1)) (f e)"
          by metis
        have "vs = [] \<or> depth < maxPatchDepth"
          using all by (cases vs) (auto simp: isJsonValue.simps split: if_splits)
        with f have "depthLE (maxPatchDepth - depth) (JArr (map f vs))"
          by (auto simp: list_all_iff)
        moreover have "unfolds h v (JArr (map f vs))"
          using f Some HArr Ref by (auto intro!: unfolds.arr simp: list_all2_conv_all_nth)
        ultimately show ?thesis by blast
      next
        case (HObj p ps)
        with d fresh Ref Some "1.prems"
        have all: "\<forall>q\<in>set ps. isJsonValue h (snd q) (depth + 1) (insert a active)"
          and p: "p \<noteq> OtherProto"
          by (atomize(full), subst (asm) isJsonValue.simps)
            (auto split: if_splits simp: list_all_iff case_prod_beta)
        have "\<exists>j. unfolds h (snd q) j \<and> depthLE (maxPatchDepth - (depth + 1)) j" if "q \<in> set ps" for q
          using "1.IH"(2)[of a obj p ps q "fst q" "snd q"] all that d fresh Ref Some HObj p by simp
        then obtain f where f:
          "\<And>q. q \<in> set ps \<Longrightarrow> unfolds h (snd q) (f q) \<and> depthLE (maxPatchDepth - (depth + 1)) (f q)"
          by metis
        have "ps = [] \<or> depth < maxPatchDepth"
          using all by (cases ps) (auto simp: isJsonValue.simps split: if_splits)
        with f have "depthLE (maxPatchDepth - depth) (JObj (map (\<lambda>q. (fst q, f q)) ps))"
          by (auto simp: list_all_iff)
        moreover have "unfolds h v (JObj (map (\<lambda>q. (fst q, f q)) ps))"
          using f Some HObj Ref p
          by (intro unfolds.obj[of h a p ps, folded Ref])
            (auto simp: list.rel_map rel_prod_sel intro!: list.rel_refl_strong simp del: split_paired_All)
        ultimately show ?thesis by blast
      qed
    qed
  next
    case (Num x)
    with d "1.prems" have "isFiniteNum x"
      by (subst (asm) isJsonValue.simps) simp
    with Num show ?thesis by (cases x) (auto simp: unfolds_simps)
  next
    case Undefined
    with d "1.prems" show ?thesis by (subst (asm) isJsonValue.simps) simp
  next
    case (Exotic e)
    with d "1.prems" show ?thesis by (subst (asm) isJsonValue.simps) simp
  qed (auto simp: unfolds_simps)
qed

lemma isJsonValue_complete:
  "unfolds h v j \<Longrightarrow> depth \<le> maxPatchDepth \<Longrightarrow> depthLE (maxPatchDepth - depth) j \<Longrightarrow>
    ancestorsAbove h active j \<Longrightarrow> isJsonValue h v depth active"
proof (induction arbitrary: depth active rule: unfolds.induct)
  case (arr a vs js)
  have un: "unfolds h (Ref a) (JArr js)"
    using arr.hyps(1) by (rule unfolds.arr) (rule list_all2_mono[OF arr.IH], simp)
  have "isJsonValue h e (depth + 1) (insert a active)" if e: "e \<in> set vs" for e
  proof -
    obtain j where j: "j \<in> set js" and IH: "\<And>d act. d \<le> maxPatchDepth \<Longrightarrow>
        depthLE (maxPatchDepth - d) j \<Longrightarrow> ancestorsAbove h act j \<Longrightarrow> isJsonValue h e d act"
      using list_all2_in_left[OF arr.IH e] by auto
    have "0 < maxPatchDepth - depth" "depthLE (maxPatchDepth - depth - 1) j"
      using arr.prems(2) j by (auto simp: list_all_iff)
    then show ?thesis
      using ancestorsAbove_insert[OF un arr.prems(3) size_elem[OF j]] by (intro IH) auto
  qed
  then show ?case
    using arr ancestorsAbove_fresh[OF un]
    by (subst isJsonValue.simps) (auto simp: list_all_iff)
next
  case (obj a p ps qs)
  have un: "unfolds h (Ref a) (JObj qs)"
    using obj.hyps(1,2)
    by (rule unfolds.obj) (rule list_all2_mono[OF obj.IH], auto simp: rel_prod_sel)
  have "isJsonValue h (snd q) (depth + 1) (insert a active)" if q: "q \<in> set ps" for q
  proof -
    obtain r where r: "r \<in> set qs" and IH: "\<And>d act. d \<le> maxPatchDepth \<Longrightarrow>
        depthLE (maxPatchDepth - d) (snd r) \<Longrightarrow> ancestorsAbove h act (snd r) \<Longrightarrow>
        isJsonValue h (snd q) d act"
      using list_all2_in_left[OF obj.IH q] by (auto simp: rel_prod_sel)
    have "0 < maxPatchDepth - depth" "depthLE (maxPatchDepth - depth - 1) (snd r)"
      using obj.prems(2) r by (auto simp: list_all_iff)
    moreover have "size (snd r) < size (JObj qs)"
      using r by (intro size_field[of "fst r"]) simp
    ultimately show ?thesis
      using ancestorsAbove_insert[OF un obj.prems(3)] by (intro IH) auto
  qed
  then show ?case
    using obj ancestorsAbove_fresh[OF un]
    by (subst isJsonValue.simps) (auto simp: list_all_iff)
qed (auto simp: isJsonValue.simps[of h "Num x" for x] isJsonValue.simps[of h Null]
    isJsonValue.simps[of h "Str x" for x] isJsonValue.simps[of h "Bool x" for x])

lemma isJsonValue_iff:
  "isJsonValue h v 0 {} \<longleftrightarrow> (\<exists>j. unfolds h v j \<and> depthLE maxPatchDepth j)"
  using isJsonValue_sound[of h v 0 "{}"] isJsonValue_complete[of h v _ 0 "{}"]
  by (auto simp: ancestorsAbove_def)

lemma cloneFromHeap_unfolds:
  "unfolds h v j \<Longrightarrow> wfHeap h \<Longrightarrow> depth \<le> maxPatchDepth \<Longrightarrow> depthLE (maxPatchDepth - depth) j \<Longrightarrow>
    ancestorsAbove h active j \<Longrightarrow> cloneFromHeap h v depth active = Inr j"
proof (induction arbitrary: depth active rule: unfolds.induct)
  case (arr a vs js)
  have un: "unfolds h (Ref a) (JArr js)"
    using arr.hyps(1) by (rule unfolds.arr) (rule list_all2_mono[OF arr.IH], simp)
  have "cloneFromHeap h (vs ! i) (depth + 1) (insert a active) = Inr (js ! i)" if i: "i < length js" for i
  proof -
    have mem: "js ! i \<in> set js" using i by simp
    then have "0 < maxPatchDepth - depth" "depthLE (maxPatchDepth - depth - 1) (js ! i)"
      using arr.prems(3) by (auto simp: list_all_iff)
    then show ?thesis
      using ancestorsAbove_insert[OF un arr.prems(4) size_elem[OF mem]] arr.IH arr.prems(1) i
      by (auto simp: list_all2_conv_all_nth)
  qed
  then have "mapR (\<lambda>e. cloneFromHeap h e (depth + 1) (insert a active)) vs = Inr js"
    using arr.IH by (auto simp: mapR_eq_Inr list_all2_conv_all_nth)
  then show ?case
    using arr ancestorsAbove_fresh[OF un] by (subst cloneFromHeap.simps) auto
next
  case (obj a p ps qs)
  have un: "unfolds h (Ref a) (JObj qs)"
    using obj.hyps(1,2)
    by (rule unfolds.obj) (rule list_all2_mono[OF obj.IH], auto simp: rel_prod_sel)
  have ord: "keysOrdered qs" using unfolds_wf[OF un obj.prems(1)] by simp
  have "fst (ps ! i) = fst (qs ! i) \<and>
      cloneFromHeap h (snd (ps ! i)) (depth + 1) (insert a active) = Inr (snd (qs ! i))"
    if i: "i < length qs" for i
  proof -
    have mem: "(fst (qs ! i), snd (qs ! i)) \<in> set qs" using i by simp
    then have "0 < maxPatchDepth - depth" "depthLE (maxPatchDepth - depth - 1) (snd (qs ! i))"
      using obj.prems(3) by (auto simp: list_all_iff)
    then show ?thesis
      using ancestorsAbove_insert[OF un obj.prems(4) size_field[OF mem]] obj.IH obj.prems(1) i
      by (auto simp: list_all2_conv_all_nth rel_prod_sel)
  qed
  then have "mapR (\<lambda>(k, e). andThen (cloneFromHeap h e (depth + 1) (insert a active))
      (\<lambda>j. Inr (k, j))) ps = Inr qs"
    using obj.IH by (auto simp: mapR_eq_Inr list_all2_conv_all_nth err_simps case_prod_beta)
  then show ?case
    using obj ancestorsAbove_fresh[OF un] foldl_objPut_copy[OF ord]
    by (subst cloneFromHeap.simps) auto
qed (auto simp: cloneFromHeap.simps[of h "Num x" for x] cloneFromHeap.simps[of h Null]
    cloneFromHeap.simps[of h "Str x" for x] cloneFromHeap.simps[of h "Bool x" for x])

lemma cloneFromHeap_json:
  assumes "isJsonValue h v 0 {}" and "wfHeap h"
  obtains j where "cloneFromHeap h v 0 {} = Inr j" "unfolds h v j" "depthLE maxPatchDepth j" "wf_json j"
proof -
  obtain j where j: "unfolds h v j" "depthLE maxPatchDepth j"
    using assms(1) isJsonValue_iff by blast
  have "cloneFromHeap h v 0 {} = Inr j"
    by (rule cloneFromHeap_unfolds[OF j(1) assms(2)]) (use j in \<open>auto simp: ancestorsAbove_def\<close>)
  with that j unfolds_wf[OF j(1) assms(2)] show ?thesis by blast
qed

section \<open>Cloning and comparing trees\<close>

lemma cloneJsonValue_cases:
  "wf_json j \<Longrightarrow> cloneJsonValue j depth =
    (if depth \<le> maxPatchDepth \<and> depthLE (maxPatchDepth - depth) j then Inr j else Inl ValueDepth)"
proof (induction j depth rule: cloneJsonValue.induct)
  case (1 js depth)
  have IH: "cloneJsonValue j (Suc depth) =
      (if depth < maxPatchDepth \<and> depthLE (maxPatchDepth - Suc depth) j then Inr j else Inl ValueDepth)"
    if "j \<in> set js" "depth \<le> maxPatchDepth" for j
    using that 1 by (auto simp: list_all_iff Suc_le_eq)
  have "mapR (\<lambda>j. cloneJsonValue j (Suc depth)) js' =
      (if js' = [] \<or> depth < maxPatchDepth \<and> list_all (depthLE (maxPatchDepth - Suc depth)) js'
       then Inr js' else Inl ValueDepth)"
    if "set js' \<subseteq> set js" "depth \<le> maxPatchDepth" for js'
    using that by (induction js') (auto simp: IH)
  then show ?case by (cases "depth \<le> maxPatchDepth") auto
next
  case (2 ps depth)
  have IH: "cloneJsonValue (snd q) (Suc depth) =
      (if depth < maxPatchDepth \<and> depthLE (maxPatchDepth - Suc depth) (snd q)
       then Inr (snd q) else Inl ValueDepth)"
    if "q \<in> set ps" "depth \<le> maxPatchDepth" for q
  proof -
    have "wf_json (snd q)" using that "2.prems" by (auto simp: list_all_iff)
    with "2.IH"[of q "fst q" "snd q"] that show ?thesis by (simp add: Suc_le_eq)
  qed
  have "mapR (\<lambda>(k, j). andThen (cloneJsonValue j (Suc depth)) (\<lambda>j'. Inr (k, j'))) ps' =
      (if ps' = [] \<or> depth < maxPatchDepth \<and> list_all (\<lambda>(k, j). depthLE (maxPatchDepth - Suc depth) j) ps'
       then Inr ps' else Inl ValueDepth)"
    if "set ps' \<subseteq> set ps" "depth \<le> maxPatchDepth" for ps'
    using that by (induction ps') (simp_all add: case_prod_beta IH)
  then show ?case
    using "2.prems" by (cases "depth \<le> maxPatchDepth") (auto simp: foldl_objPut_copy)
qed auto

lemma cloneJsonValue_Inr: "wf_json j \<Longrightarrow> cloneJsonValue j 0 = Inr j' \<longleftrightarrow> j' = j \<and> depthLE maxPatchDepth j"
  by (auto simp: cloneJsonValue_cases)

text \<open>The reference for \<open>deepEqual\<close>: equality of JSON values, the order of members aside.\<close>

fun jsonEq :: "json \<Rightarrow> json \<Rightarrow> bool" where
  "jsonEq (JArr xs) b = (case b of JArr ys \<Rightarrow> list_all2 jsonEq xs ys | _ \<Rightarrow> False)"
| "jsonEq (JObj ps) b =
     (case b of
        JObj qs \<Rightarrow> fst ` set ps = fst ` set qs \<and>
          list_all (\<lambda>(k, x). case map_of qs k of None \<Rightarrow> False | Some y \<Rightarrow> jsonEq x y) ps
      | _ \<Rightarrow> False)"
| "jsonEq a b = (a = b)"

lemma jsonEq_refl: "wf_json j \<Longrightarrow> jsonEq j j"
proof (induction j rule: wf_json.induct)
  case (1 js)
  then show ?case by (auto simp: list_all_iff intro!: list.rel_refl_strong)
next
  case (2 ps)
  have "map_of ps k = Some x" if "(k, x) \<in> set ps" for k x
    using that "2.prems" by (simp add: keysOrdered_def)
  with 2 show ?case by (auto simp: list_all_iff)
qed auto

lemma same_keys:
  assumes "keysOrdered ps" and "keysOrdered qs" and "length ps = length qs"
    and "fst ` set ps \<subseteq> fst ` set qs"
  shows "fst ` set ps = fst ` set qs"
proof (rule card_subset_eq)
  show "card (fst ` set ps) = card (fst ` set qs)"
    using assms(1-3) by (metis distinct_card keysOrdered_def length_map list.set_map)
qed (use assms in auto)

lemma same_keys_length:
  assumes "keysOrdered ps" and "keysOrdered qs" and "fst ` set ps = fst ` set qs"
  shows "length ps = length qs"
  using assms by (metis distinct_card keysOrdered_def length_map list.set_map)

lemma deepEqual_spec:
  "wf_json a \<Longrightarrow> wf_json b \<Longrightarrow> depth \<le> maxPatchDepth \<Longrightarrow> depthLE (maxPatchDepth - depth) b \<Longrightarrow>
    deepEqual a b depth = Inr (jsonEq a b)"
  "list_all wf_json xs \<Longrightarrow> list_all wf_json ys \<Longrightarrow> length xs = length ys \<Longrightarrow>
    xs = [] \<or> depth \<le> maxPatchDepth \<and> list_all (depthLE (maxPatchDepth - depth)) ys \<Longrightarrow>
    deepEqualEntries xs ys depth = Inr (list_all2 jsonEq xs ys)"
  "list_all (\<lambda>(k, j). wf_json j) ps \<Longrightarrow> list_all (\<lambda>(k, j). wf_json j) qs \<Longrightarrow>
    ps = [] \<or> depth \<le> maxPatchDepth \<and> list_all (\<lambda>(k, j). depthLE (maxPatchDepth - depth) j) qs \<Longrightarrow>
    deepEqualMembers ps qs depth =
      Inr (list_all (\<lambda>(k, x). case map_of qs k of None \<Rightarrow> False | Some y \<Rightarrow> jsonEq x y) ps)"
proof (induction a b depth and xs ys depth and ps qs depth
    rule: deepEqual_deepEqualEntries_deepEqualMembers.induct)
  case (1 a b depth)
  show ?case
  proof (cases a)
    case (JArr xs)
    then show ?thesis
      using "1.IH"(1)[of xs] "1.prems" by (auto split: json.split dest: list_all2_lengthD)
  next
    case (JObj ps)
    show ?thesis
    proof (cases b)
      case (JObj qs)
      show ?thesis
      proof (cases "length ps = length qs")
        case True
        have "deepEqual a b depth = deepEqualMembers ps qs (depth + 1)"
          using "1.prems"(3) \<open>a = JObj ps\<close> JObj True by simp
        also have "\<dots> = Inr (list_all (\<lambda>(k, x). case map_of qs k of None \<Rightarrow> False | Some y \<Rightarrow> jsonEq x y) ps)"
          using "1.IH"(2)[of ps qs] "1.prems" \<open>a = JObj ps\<close> JObj True by auto
        also have "\<dots> = Inr (jsonEq a b)"
        proof -
          have "fst ` set ps \<subseteq> fst ` set qs"
            if "list_all (\<lambda>(k, x). case map_of qs k of None \<Rightarrow> False | Some y \<Rightarrow> jsonEq x y) ps"
            using that by (force simp: list_all_iff split: option.splits dest: map_of_SomeD)
          then show ?thesis
            using same_keys[of ps qs] True "1.prems" \<open>a = JObj ps\<close> JObj by auto
        qed
        finally show ?thesis .
      next
        case False
        then have "\<not> fst ` set ps = fst ` set qs"
          using same_keys_length[of ps qs] "1.prems" \<open>a = JObj ps\<close> JObj by auto
        with False show ?thesis using "1.prems" \<open>a = JObj ps\<close> JObj by simp
      qed
    qed (use \<open>a = JObj ps\<close> "1.prems" in auto)
  qed (use "1.prems" in auto)
next
  case (5 k x ps qs depth)
  show ?case
  proof (cases "map_of qs k")
    case (Some y)
    then have "wf_json y" and "depthLE (maxPatchDepth - depth) y"
      using "5.prems"(2,3) by (auto simp: list_all_iff dest: map_of_SomeD)
    with Some 5 show ?thesis by auto
  qed simp
qed auto

end
