(* ===== verification/JsonPatch.thy ===== *)
theory JsonPatch
  imports JsonPatchValue
begin

text \<open>
  JSON Patch (RFC 6902), \<open>src/json-patch.ts\<close>: parsing, validation and application of a patch
  document, an \<open>unknown\<close> value in the heap. The working copy of \<open>applyJsonPatch\<close> is a fresh tree
  nothing else refers to (every value put into it is cloned, or was removed from it), so the
  mutation of a parent found by \<open>resolveParent\<close> is the functional update \<open>storeParent\<close>. Reads that
  yield \<open>undefined\<close> from a slot that exists do not occur in a tree of JSON values. The laws of
  \<open>storeParent\<close> are those of the interface \<open>partial_lens\<close>.
\<close>

section \<open>Parsing and validating a patch document\<close>

definition allowedOps :: "jsstr list" where
  "allowedOps = map lit [''add'', ''remove'', ''replace'', ''move'', ''copy'', ''test'']"

definition isPointerString :: "jsval \<Rightarrow> bool" where
  "isPointerString v = (case v of Str s \<Rightarrow> parseJsonPointer s \<noteq> None | _ \<Rightarrow> False)"

definition strOf :: "jsval \<Rightarrow> jsstr" where
  "strOf v = (case v of Str s \<Rightarrow> s | _ \<Rightarrow> [])"

text \<open>
  \<open>parseOperation\<close>: the checks, and the operation object they let through, its value cloned. The
  later functions read an operation through this typed view.
\<close>

definition parseOperation :: "heap \<Rightarrow> jsval \<Rightarrow> operation option" where
  "parseOperation h value =
     (case recordOf h value of
        None \<Rightarrow> None
      | Some ps \<Rightarrow>
          let op = getProp ps (lit ''op''); path = getProp ps (lit ''path'') in
          if op \<notin> Str ` set allowedOps then None
          else if \<not> isPointerString path then None
          else if op \<in> {Str (lit ''add''), Str (lit ''replace''), Str (lit ''test'')} then
            (if \<not> hasOwnKey ps (lit ''value'') \<or> \<not> isJsonValue h (getProp ps (lit ''value'')) 0 {} then None
             else (case cloneFromHeap h (getProp ps (lit ''value'')) 0 {} of
               Inl e \<Rightarrow> None
             | Inr j \<Rightarrow>
                 Some (if op = Str (lit ''add'') then OpAdd (strOf path) j
                       else if op = Str (lit ''replace'') then OpReplace (strOf path) j
                       else OpTest (strOf path) j)))
          else if op = Str (lit ''remove'') then Some (OpRemove (strOf path))
          else
            let from = getProp ps (lit ''from'') in
            (if \<not> isPointerString from then None
             else Some (if op = Str (lit ''move'') then OpMove (strOf from) (strOf path)
                        else OpCopy (strOf from) (strOf path))))"

fun parseAll :: "heap \<Rightarrow> jsval list \<Rightarrow> operation list option" where
  "parseAll h [] = Some []"
| "parseAll h (v # vs) =
     (case parseOperation h v of
        None \<Rightarrow> None
      | Some op \<Rightarrow> (case parseAll h vs of None \<Rightarrow> None | Some ops \<Rightarrow> Some (op # ops)))"

definition parseJsonPatch :: "heap \<Rightarrow> jsval \<Rightarrow> operation list option" where
  "parseJsonPatch h value = (case arrayOf h value of None \<Rightarrow> None | Some vs \<Rightarrow> parseAll h vs)"

definition isProperPrefixPointer :: "jsstr \<Rightarrow> jsstr \<Rightarrow> bool" where
  "isProperPrefixPointer from path =
     (case (parseJsonPointer from, parseJsonPointer path) of
        (Some fromTokens, Some pathTokens) \<Rightarrow>
          if length fromTokens \<ge> length pathTokens then False
          else take (length fromTokens) pathTokens = fromTokens
      | _ \<Rightarrow> False)"

definition validateOperation :: "heap \<Rightarrow> jsval \<Rightarrow> nat \<Rightarrow> patch_error + unit" where
  "validateOperation h operation index =
     (case recordOf h operation of
        None \<Rightarrow> Inl (OpNotObject index)
      | Some ps \<Rightarrow>
          let op = getProp ps (lit ''op''); path = getProp ps (lit ''path'') in
          if op \<notin> Str ` set allowedOps then Inl (OpInvalidOp index)
          else if \<not> isPointerString path then Inl (OpInvalidPath index)
          else if op \<in> {Str (lit ''add''), Str (lit ''replace''), Str (lit ''test'')} then
            (if \<not> hasOwnKey ps (lit ''value'') \<or> \<not> isJsonValue h (getProp ps (lit ''value'')) 0 {}
             then Inl (OpInvalidValue index) else Inr ())
          else if op = Str (lit ''remove'') then Inr ()
          else
            let from = getProp ps (lit ''from'') in
            (if \<not> isPointerString from then Inl (OpInvalidFrom index)
             else if op = Str (lit ''move'') \<and> isProperPrefixPointer (strOf from) (strOf path)
             then Inl (OpFromPrefixOfPath index)
             else Inr ()))"

fun validateAll :: "heap \<Rightarrow> jsval list \<Rightarrow> nat \<Rightarrow> patch_error + unit" where
  "validateAll h [] index = Inr ()"
| "validateAll h (v # vs) index =
     (if v = Undefined then Inl (OpNotObject index)
      else andThen (validateOperation h v index) (\<lambda>_. validateAll h vs (index + 1)))"

definition validateJsonPatch :: "heap \<Rightarrow> jsval \<Rightarrow> patch_error + unit" where
  "validateJsonPatch h document =
     (case arrayOf h document of None \<Rightarrow> Inl DocumentNotArray | Some vs \<Rightarrow> validateAll h vs 0)"

section \<open>Walking the working copy\<close>

definition parsePointerTokens :: "jsstr \<Rightarrow> member \<Rightarrow> nat \<Rightarrow> patch_error + jsstr list" where
  "parsePointerTokens pointer member index =
     (case parseJsonPointer pointer of None \<Rightarrow> Inl (InvalidPointer index member) | Some tokens \<Rightarrow> Inr tokens)"

definition getLastPathToken :: "jsstr list \<Rightarrow> nat \<Rightarrow> member \<Rightarrow> patch_error + jsstr" where
  "getLastPathToken tokens index member =
     (if tokens = [] then Inl (InvalidPointer index member) else Inr (last tokens))"

fun walkPath :: "json \<Rightarrow> jsstr list \<Rightarrow> nat \<Rightarrow> member \<Rightarrow> patch_error + json" where
  "walkPath current [] index member = Inr current"
| "walkPath current (token # tokens) index member =
     (case current of
        JArr js \<Rightarrow>
          (case parseArrayIndex token of
             None \<Rightarrow> Inl (MissingIndex index member token)
           | Some position \<Rightarrow>
               if position \<ge> length js then Inl (MissingIndex index member token)
               else walkPath (js ! position) tokens index member)
      | JObj ps \<Rightarrow>
          (case map_of ps token of
             None \<Rightarrow> Inl (MissingMember index member token)
           | Some next \<Rightarrow> walkPath next tokens index member)
      | _ \<Rightarrow> Inl (MissingMember index member token))"

definition getAtPath :: "json \<Rightarrow> jsstr \<Rightarrow> nat \<Rightarrow> member \<Rightarrow> patch_error + json" where
  "getAtPath target pointer index member =
     andThen (parsePointerTokens pointer member index) (\<lambda>tokens. walkPath target tokens index member)"

text \<open>\<open>resolveParent\<close> follows all tokens but the last and wants a container at the end.\<close>

fun resolveParent :: "json \<Rightarrow> jsstr list \<Rightarrow> nat \<Rightarrow> parentUse \<Rightarrow> patch_error + json" where
  "resolveParent current (token # token2 # tokens) index operation =
     (case current of
        JArr js \<Rightarrow>
          (case parseArrayIndex token of
             None \<Rightarrow> Inl (NoParent index operation)
           | Some position \<Rightarrow>
               if position \<ge> length js then Inl (NoParent index operation)
               else resolveParent (js ! position) (token2 # tokens) index operation)
      | JObj ps \<Rightarrow>
          (case map_of ps token of
             None \<Rightarrow> Inl (NoParent index operation)
           | Some next \<Rightarrow> resolveParent next (token2 # tokens) index operation)
      | _ \<Rightarrow> Inl (NoParent index operation))"
| "resolveParent current tokens index operation =
     (case current of JArr js \<Rightarrow> Inr current | JObj ps \<Rightarrow> Inr current | _ \<Rightarrow> Inl (ParentNotContainer index))"

text \<open>What the target looks like after the value at \<open>tokens\<close> was mutated into \<open>new\<close>.\<close>

fun storeAt :: "json \<Rightarrow> jsstr list \<Rightarrow> json \<Rightarrow> json" where
  "storeAt current [] new = new"
| "storeAt current (token # tokens) new =
     (case current of
        JArr js \<Rightarrow>
          (case parseArrayIndex token of
             None \<Rightarrow> current
           | Some position \<Rightarrow>
               if position \<ge> length js then current
               else JArr (js[position := storeAt (js ! position) tokens new]))
      | JObj ps \<Rightarrow>
          (case map_of ps token of
             None \<Rightarrow> current
           | Some next \<Rightarrow> JObj (replaceKey token (storeAt next tokens new) ps))
      | _ \<Rightarrow> current)"

definition storeParent :: "json \<Rightarrow> jsstr list \<Rightarrow> json \<Rightarrow> json" where
  "storeParent target tokens parent' = storeAt target (butlast tokens) parent'"

section \<open>The six operations\<close>

text \<open>\<open>applyAdd\<close> and \<open>addAtPath\<close> differ in that the first clones its operand.\<close>

definition addAtPath :: "json \<Rightarrow> jsstr \<Rightarrow> json \<Rightarrow> nat \<Rightarrow> patch_error + json" where
  "addAtPath target path value index =
     andThen (parsePointerTokens path PathMember index) (\<lambda>pathTokens.
       if pathTokens = [] then Inr value
       else andThen (resolveParent target pathTokens index ForAdd) (\<lambda>parent.
         andThen (getLastPathToken pathTokens index PathMember) (\<lambda>token.
           case parent of
             JArr js \<Rightarrow>
               if token = lit ''-'' then Inr (storeParent target pathTokens (JArr (js @ [value])))
               else (case parseArrayIndex token of
                 None \<Rightarrow> Inl (CannotAddIndex index token)
               | Some position \<Rightarrow>
                   if position > length js then Inl (CannotAddIndex index token)
                   else Inr (storeParent target pathTokens (JArr (insertAt position value js))))
           | JObj ps \<Rightarrow> Inr (storeParent target pathTokens (JObj (objPut token value ps)))
           | _ \<Rightarrow> Inl (ParentNotContainer index))))"

definition applyAdd :: "json \<Rightarrow> jsstr \<Rightarrow> json \<Rightarrow> nat \<Rightarrow> patch_error + json" where
  "applyAdd target path operand index =
     andThen (parsePointerTokens path PathMember index) (\<lambda>pathTokens.
       andThen (cloneJsonValue operand 0) (\<lambda>value.
         if pathTokens = [] then Inr value
         else andThen (resolveParent target pathTokens index ForAdd) (\<lambda>parent.
           andThen (getLastPathToken pathTokens index PathMember) (\<lambda>token.
             case parent of
               JArr js \<Rightarrow>
                 if token = lit ''-'' then Inr (storeParent target pathTokens (JArr (js @ [value])))
                 else (case parseArrayIndex token of
                   None \<Rightarrow> Inl (CannotAddIndex index token)
                 | Some position \<Rightarrow>
                     if position > length js then Inl (CannotAddIndex index token)
                     else Inr (storeParent target pathTokens (JArr (insertAt position value js))))
             | JObj ps \<Rightarrow> Inr (storeParent target pathTokens (JObj (objPut token value ps)))
             | _ \<Rightarrow> Inl (ParentNotContainer index)))))"

definition applyRemove :: "json \<Rightarrow> jsstr \<Rightarrow> nat \<Rightarrow> patch_error + json" where
  "applyRemove target path index =
     andThen (parsePointerTokens path PathMember index) (\<lambda>pathTokens.
       if pathTokens = [] then Inl (CannotRemoveRoot index)
       else andThen (resolveParent target pathTokens index ForRemove) (\<lambda>parent.
         andThen (getLastPathToken pathTokens index PathMember) (\<lambda>token.
           case parent of
             JArr js \<Rightarrow>
               (case parseArrayIndex token of
                  None \<Rightarrow> Inl (CannotRemoveIndex index token)
                | Some position \<Rightarrow>
                    if position \<ge> length js then Inl (CannotRemoveIndex index token)
                    else Inr (storeParent target pathTokens (JArr (removeAt position js))))
           | JObj ps \<Rightarrow>
               if \<not> hasOwnKey ps token then Inl (CannotRemoveMember index token)
               else Inr (storeParent target pathTokens (JObj (objDel token ps)))
           | _ \<Rightarrow> Inl (ParentNotContainer index))))"

definition applyReplace :: "json \<Rightarrow> jsstr \<Rightarrow> json \<Rightarrow> nat \<Rightarrow> patch_error + json" where
  "applyReplace target path operand index =
     andThen (parsePointerTokens path PathMember index) (\<lambda>pathTokens.
       andThen (cloneJsonValue operand 0) (\<lambda>replacement.
         if pathTokens = [] then Inr replacement
         else andThen (resolveParent target pathTokens index ForReplace) (\<lambda>parent.
           andThen (getLastPathToken pathTokens index PathMember) (\<lambda>token.
             case parent of
               JArr js \<Rightarrow>
                 (case parseArrayIndex token of
                    None \<Rightarrow> Inl (CannotReplaceIndex index token)
                  | Some position \<Rightarrow>
                      if position \<ge> length js then Inl (CannotReplaceIndex index token)
                      else Inr (storeParent target pathTokens (JArr (js[position := replacement]))))
             | JObj ps \<Rightarrow>
                 if \<not> hasOwnKey ps token then Inl (CannotReplaceMember index token)
                 else Inr (storeParent target pathTokens (JObj (objPut token replacement ps)))
             | _ \<Rightarrow> Inl (ParentNotContainer index)))))"

text \<open>\<open>removeAtPath\<close> returns the removed value and the target without it.\<close>

definition removeAtPath :: "json \<Rightarrow> jsstr \<Rightarrow> nat \<Rightarrow> member \<Rightarrow> patch_error + (json \<times> json)" where
  "removeAtPath target pointer index member =
     andThen (parsePointerTokens pointer member index) (\<lambda>tokens.
       if tokens = [] then Inl (CannotRemoveRoot index)
       else andThen (resolveParent target tokens index ForRemove) (\<lambda>parent.
         andThen (getLastPathToken tokens index member) (\<lambda>token.
           case parent of
             JArr js \<Rightarrow>
               (case parseArrayIndex token of
                  None \<Rightarrow> Inl (MissingIndex index member token)
                | Some position \<Rightarrow>
                    if position \<ge> length js then Inl (MissingIndex index member token)
                    else Inr (js ! position, storeParent target tokens (JArr (removeAt position js))))
           | JObj ps \<Rightarrow>
               (case map_of ps token of
                  None \<Rightarrow> Inl (MissingMember index member token)
                | Some removed \<Rightarrow> Inr (removed, storeParent target tokens (JObj (objDel token ps))))
           | _ \<Rightarrow> Inl (ParentNotContainer index))))"

definition applyMove :: "json \<Rightarrow> jsstr \<Rightarrow> jsstr \<Rightarrow> nat \<Rightarrow> patch_error + json" where
  "applyMove target from path index =
     (if from = path then andThen (getAtPath target from index FromMember) (\<lambda>_. Inr target)
      else andThen (removeAtPath target from index FromMember) (\<lambda>(value, nextTarget).
        addAtPath nextTarget path value index))"

definition applyCopy :: "json \<Rightarrow> jsstr \<Rightarrow> jsstr \<Rightarrow> nat \<Rightarrow> patch_error + json" where
  "applyCopy target from path index =
     andThen (getAtPath target from index FromMember) (\<lambda>sourceValue.
       andThen (cloneJsonValue sourceValue 0) (\<lambda>value. addAtPath target path value index))"

definition applyTest :: "json \<Rightarrow> jsstr \<Rightarrow> json \<Rightarrow> nat \<Rightarrow> patch_error + json" where
  "applyTest target path value index =
     andThen (getAtPath target path index PathMember) (\<lambda>actual.
       andThen (deepEqual actual value 0) (\<lambda>eq.
         if \<not> eq then Inl (TestFailed index) else Inr target))"

definition applyOperation :: "json \<Rightarrow> operation \<Rightarrow> nat \<Rightarrow> patch_error + json" where
  "applyOperation target operation index =
     (case operation of
        OpAdd path value \<Rightarrow> applyAdd target path value index
      | OpRemove path \<Rightarrow> applyRemove target path index
      | OpReplace path value \<Rightarrow> applyReplace target path value index
      | OpMove from path \<Rightarrow> applyMove target from path index
      | OpCopy from path \<Rightarrow> applyCopy target from path index
      | OpTest path value \<Rightarrow> applyTest target path value index)"

text \<open>The loop of \<open>applyJsonPatch\<close>: operations in order, stopping at the first error.\<close>

fun applyAll :: "json \<Rightarrow> operation list \<Rightarrow> nat \<Rightarrow> patch_error + json" where
  "applyAll working [] index = Inr working"
| "applyAll working (op # ops) index =
     andThen (applyOperation working op index) (\<lambda>working'. applyAll working' ops (index + 1))"

definition applyJsonPatch :: "heap \<Rightarrow> jsval \<Rightarrow> jsval \<Rightarrow> patch_error + json" where
  "applyJsonPatch h target document =
     (if \<not> isJsonValue h target 0 {} then Inl TargetNotJson
      else andThen (validateJsonPatch h document) (\<lambda>_.
        andThen (cloneFromHeap h target 0 {}) (\<lambda>working.
          case parseJsonPatch h document of
            None \<Rightarrow> Inl DocumentNotArray
          | Some operations \<Rightarrow> applyAll working operations 0)))"

section \<open>Updating a place of the working copy\<close>

text \<open>
  The interface of an update in place: a part that may be absent, read by \<open>get\<close> and written by
  \<open>put\<close>. An edit of the part can be undone, and of two edits the second sees the first.
\<close>

locale partial_lens =
  fixes get :: "'s \<Rightarrow> 'v option"
    and put :: "'s \<Rightarrow> 'v \<Rightarrow> 's"
  assumes put_get: "get s = Some v \<Longrightarrow> get (put s w) = Some w"
    and get_put: "get s = Some v \<Longrightarrow> put s v = s"
    and put_put: "get s = Some v \<Longrightarrow> put (put s w) x = put s x"
begin

lemma undo: "get s = Some v \<Longrightarrow> put (put s w) v = s"
  by (simp add: put_put get_put)

lemma edit_twice: "get s = Some v \<Longrightarrow> get (put s (f v)) = Some (f v) \<and> put (put s (f v)) (g (f v)) = put s (g (f v))"
  by (simp add: put_get put_put)

end

lemma replaceKey_twice [simp]: "replaceKey k w (replaceKey k v ps) = replaceKey k w ps"
  by (induction ps) auto

lemma map_of_replaceKey_Some: "map_of ps k = Some u \<Longrightarrow> map_of (replaceKey k v ps) = (map_of ps)(k \<mapsto> v)"
  by (intro map_of_replaceKey) (metis map_of_eq_None_iff option.distinct(1))

lemma jsonAt_storeAt: "jsonAt s ts = Some v \<Longrightarrow> jsonAt (storeAt s ts w) ts = Some w"
  by (induction s ts rule: jsonAt.induct)
    (auto split: option.splits json.splits if_splits simp: map_of_replaceKey_Some elim!: jsonStep.elims)

lemma storeAt_same: "jsonAt s ts = Some v \<Longrightarrow> storeAt s ts v = s"
  by (induction s ts rule: jsonAt.induct)
    (auto split: option.splits json.splits if_splits simp: replaceKey_same elim!: jsonStep.elims)

lemma storeAt_twice: "jsonAt s ts = Some v \<Longrightarrow> storeAt (storeAt s ts w) ts x = storeAt s ts x"
  by (induction s ts rule: jsonAt.induct)
    (auto split: option.splits json.splits if_splits simp: map_of_replaceKey_Some elim!: jsonStep.elims)

interpretation place: partial_lens "\<lambda>s. jsonAt s ts" "\<lambda>s. storeAt s ts" for ts
  by unfold_locales (auto simp: jsonAt_storeAt storeAt_same storeAt_twice)

lemma resolveParent_eq:
  "resolveParent s ts i use =
    (case jsonAt s (butlast ts) of
       None \<Rightarrow> Inl (NoParent i use)
     | Some p \<Rightarrow> (case p of JArr js \<Rightarrow> Inr p | JObj ps \<Rightarrow> Inr p | _ \<Rightarrow> Inl (ParentNotContainer i)))"
proof (induction s ts i use rule: resolveParent.induct)
  case (1 s t t2 ts i use)
  show ?case
  proof (cases s)
    case (JArr js)
    then show ?thesis using 1(1)[OF JArr] by (simp add: jsonAt.simps(2) split: option.split)
  next
    case (JObj ps)
    then show ?thesis using 1(2)[OF JObj] by (simp add: jsonAt.simps(2) split: option.split)
  qed simp_all
qed (simp_all split: json.splits)

lemma walkPath_Inr: "walkPath s ts i m = Inr v \<longleftrightarrow> jsonAt s ts = Some v"
  by (induction s ts i m rule: walkPath.induct) (auto split: json.splits option.splits)

lemma getAtPath_Inr:
  "getAtPath s p i m = Inr v \<longleftrightarrow> (\<exists>ts. parseJsonPointer p = Some ts \<and> jsonAt s ts = Some v)"
  by (auto simp: getAtPath_def parsePointerTokens_def err_simps walkPath_Inr split: option.splits)

text \<open>The frame: writing at a place leaves every pointer that forks off at an object unchanged.\<close>

lemma jsonAt_storeAt_fork:
  assumes "jsonAt s us = Some (JObj ps)" and "x \<noteq> y"
  shows "jsonAt (storeAt s (us @ y # ys) w) (us @ x # xs) = jsonAt s (us @ x # xs)"
  using assms(1)
proof (induction s us rule: jsonAt.induct)
  case (1 s)
  then show ?case
    using assms(2) by (auto split: option.splits simp: map_of_replaceKey_Some)
next
  case (2 s t ts)
  then show ?case
    by (auto split: option.splits json.splits if_splits simp: map_of_replaceKey_Some elim!: jsonStep.elims)
qed

lemma wf_replaceKey:
  assumes "wf_json (JObj ps)" and "wf_json v"
  shows "wf_json (JObj (replaceKey k v ps))"
proof -
  have "set (replaceKey k v ps) \<subseteq> insert (k, v) (set ps)"
    by (induction k v ps rule: replaceKey.induct) auto
  moreover have "keysOrdered (replaceKey k v ps)"
    using assms(1) by (simp add: keysOrdered_def)
  ultimately show ?thesis using assms by (auto simp: list_all_iff)
qed

lemma wf_storeAt [wf_intros]: "wf_json s \<Longrightarrow> wf_json w \<Longrightarrow> wf_json (storeAt s ts w)"
proof (induction s ts w rule: storeAt.induct)
  case (2 s t ts w)
  show ?case
  proof (cases s)
    case (JArr js)
    with 2 show ?thesis
      by (auto split: option.splits simp: list_all_length nth_list_update)
  next
    case (JObj ps)
    show ?thesis
    proof (cases "map_of ps t")
      case (Some n)
      with 2 JObj have "wf_json (storeAt n ts w)" by (blast intro: wf_json_map_of)
      with 2 JObj Some wf_replaceKey show ?thesis by simp
    qed (use 2 JObj in simp)
  qed auto
qed simp

lemma wf_jsonAt: "wf_json s \<Longrightarrow> jsonAt s ts = Some v \<Longrightarrow> wf_json v"
proof (induction s ts rule: jsonAt.induct)
  case (2 s t ts)
  then obtain n where n: "jsonStep s t = Some n" "jsonAt n ts = Some v"
    by (auto split: option.splits)
  have "wf_json n"
    using 2(2) n(1) by (cases s) (auto split: option.splits if_splits simp: list_all_length
        intro: wf_json_map_of)
  with 2 n show ?case by blast
qed simp

end
