(* ===== verification/JsonPatchLaws.thy ===== *)
theory JsonPatchLaws
  imports JsonPatch
begin

text \<open>
  What JSON Patch promises: a specification of the six operations that edits the tree in one
  descent (\<open>editAt\<close>), the refinement of it by the operations of \<open>JsonPatch\<close>, and the laws of the
  operations (a value added is found, a removal undoes an addition, a move is a removal and an
  addition, and so on), which follow on the specification.
\<close>

section \<open>The specification\<close>

text \<open>The edits of one container: what an operation does at the last token of its path.\<close>

fun addChild :: "json \<Rightarrow> json \<Rightarrow> jsstr \<Rightarrow> json option" where
  "addChild v (JArr js) t =
     (if t = lit ''-'' then Some (JArr (js @ [v]))
      else (case parseArrayIndex t of
        None \<Rightarrow> None
      | Some i \<Rightarrow> if i \<le> length js then Some (JArr (insertAt i v js)) else None))"
| "addChild v (JObj ps) t = Some (JObj (objPut t v ps))"
| "addChild v j t = None"

fun removeChild :: "json \<Rightarrow> jsstr \<Rightarrow> json option" where
  "removeChild (JArr js) t =
     (case parseArrayIndex t of
        None \<Rightarrow> None
      | Some i \<Rightarrow> if i < length js then Some (JArr (removeAt i js)) else None)"
| "removeChild (JObj ps) t = (if hasOwnKey ps t then Some (JObj (objDel t ps)) else None)"
| "removeChild j t = None"

fun replaceChild :: "json \<Rightarrow> json \<Rightarrow> jsstr \<Rightarrow> json option" where
  "replaceChild v (JArr js) t =
     (case parseArrayIndex t of
        None \<Rightarrow> None
      | Some i \<Rightarrow> if i < length js then Some (JArr (js[i := v])) else None)"
| "replaceChild v (JObj ps) t = (if hasOwnKey ps t then Some (JObj (objPut t v ps)) else None)"
| "replaceChild v j t = None"

fun editAt :: "(json \<Rightarrow> jsstr \<Rightarrow> json option) \<Rightarrow> json \<Rightarrow> jsstr list \<Rightarrow> json option" where
  "editAt f j [] = None"
| "editAt f j [t] = f j t"
| "editAt f j (t # u # ts) =
     (case jsonStep j t of
        None \<Rightarrow> None
      | Some c \<Rightarrow> (case editAt f c (u # ts) of None \<Rightarrow> None | Some c' \<Rightarrow> replaceChild c' j t))"

definition specAdd :: "json \<Rightarrow> jsstr list \<Rightarrow> json \<Rightarrow> json option" where
  "specAdd j ts v = (if ts = [] then Some v else editAt (addChild v) j ts)"

definition specMove :: "json \<Rightarrow> jsstr list \<Rightarrow> jsstr list \<Rightarrow> json option" where
  "specMove j fs ts =
     (case jsonAt j fs of
        None \<Rightarrow> None
      | Some v \<Rightarrow> if fs = ts then Some j
          else (case editAt removeChild j fs of None \<Rightarrow> None | Some j' \<Rightarrow> specAdd j' ts v))"

text \<open>The operations of RFC 6902; \<open>None\<close> is an error. A copied value must be within the depth limit.\<close>

definition specOp :: "json \<Rightarrow> operation \<Rightarrow> json option" where
  "specOp j op =
     (case op of
        OpAdd p v \<Rightarrow> Option.bind (parseJsonPointer p) (\<lambda>ts. specAdd j ts v)
      | OpRemove p \<Rightarrow> Option.bind (parseJsonPointer p) (\<lambda>ts. editAt removeChild j ts)
      | OpReplace p v \<Rightarrow> Option.bind (parseJsonPointer p) (\<lambda>ts.
          if ts = [] then Some v else editAt (replaceChild v) j ts)
      | OpMove p q \<Rightarrow> Option.bind (parseJsonPointer p) (\<lambda>fs.
          Option.bind (parseJsonPointer q) (\<lambda>ts. specMove j fs ts))
      | OpCopy p q \<Rightarrow> Option.bind (parseJsonPointer p) (\<lambda>fs.
          Option.bind (parseJsonPointer q) (\<lambda>ts. Option.bind (jsonAt j fs) (\<lambda>v.
            if depthLE maxPatchDepth v then specAdd j ts v else None)))
      | OpTest p v \<Rightarrow> Option.bind (parseJsonPointer p) (\<lambda>ts. Option.bind (jsonAt j ts) (\<lambda>a.
          if jsonEq a v then Some j else None)))"

fun specAll :: "json \<Rightarrow> operation list \<Rightarrow> json option" where
  "specAll j [] = Some j"
| "specAll j (op # ops) = Option.bind (specOp j op) (\<lambda>j'. specAll j' ops)"

text \<open>What parsing guarantees of an operation: its operand is well-formed and not too deep.\<close>

fun wfOp :: "operation \<Rightarrow> bool" where
  "wfOp (OpAdd p v) = (wf_json v \<and> depthLE maxPatchDepth v)"
| "wfOp (OpReplace p v) = (wf_json v \<and> depthLE maxPatchDepth v)"
| "wfOp (OpTest p v) = (wf_json v \<and> depthLE maxPatchDepth v)"
| "wfOp op = True"

definition resultOf :: "'e + 'a \<Rightarrow> 'a option" where
  "resultOf r = (case r of Inl e \<Rightarrow> None | Inr x \<Rightarrow> Some x)"

lemma resultOf_simps [simp]:
  "resultOf (Inl e) = None"
  "resultOf (Inr x) = Some x"
  "resultOf (andThen r f) = Option.bind (resultOf r) (\<lambda>x. resultOf (f x))"
  by (auto simp: resultOf_def split: sum.splits)

lemma resultOf_Some [simp]: "resultOf r = Some x \<longleftrightarrow> r = Inr x"
  by (auto simp: resultOf_def split: sum.splits)

section \<open>Refinement\<close>

lemma option_eq_iff: "r = s \<longleftrightarrow> (\<forall>x. r = Some x \<longleftrightarrow> s = Some x)"
  by (cases r; cases s) auto

lemma editAt_snoc:
  "editAt f j (ts @ [t]) =
    (case jsonAt j ts of None \<Rightarrow> None | Some p \<Rightarrow> (case f p t of None \<Rightarrow> None | Some p' \<Rightarrow> Some (storeAt j ts p')))"
proof (induction j ts rule: jsonAt.induct)
  case (2 j u ts)
  have "editAt f j (u # ts @ [t]) =
    (case jsonStep j u of None \<Rightarrow> None
     | Some c \<Rightarrow> (case editAt f c (ts @ [t]) of None \<Rightarrow> None | Some c' \<Rightarrow> replaceChild c' j u))"
    by (cases ts) (simp_all cong: option.case_cong)
  then show ?case
    using 2 by (cases j) (auto split: option.splits simp: hasOwnKey_map_of objPut_def)
qed (auto split: option.splits)

text \<open>One operation on a nonempty path: resolve the parent, edit it, store it back.\<close>

lemma resultOf_parsePointerTokens: "resultOf (parsePointerTokens p m i) = parseJsonPointer p"
  by (simp add: parsePointerTokens_def split: option.split)

lemma resultOf_getAtPath: "resultOf (getAtPath j p i m) = Option.bind (parseJsonPointer p) (jsonAt j)"
  using option_eq_iff[of "resultOf (getAtPath j p i m)"]
  by (auto simp: bind_eq_Some_conv getAtPath_Inr)

lemma resultOf_resolveParent:
  "resultOf (resolveParent j (ts @ [t]) i use) =
    (case jsonAt j ts of None \<Rightarrow> None
     | Some p \<Rightarrow> (case p of JArr js \<Rightarrow> Some p | JObj ps \<Rightarrow> Some p | _ \<Rightarrow> None))"
  by (simp add: resolveParent_eq split: option.split json.split)

lemmas resultOf_ops =
  resultOf_parsePointerTokens resultOf_getAtPath resultOf_resolveParent getLastPathToken_def
  storeParent_def editAt_snoc

lemma resultOf_addAtPath:
  "resultOf (addAtPath j p v i) = Option.bind (parseJsonPointer p) (\<lambda>ts. specAdd j ts v)"
proof (cases "parseJsonPointer p")
  case (Some ts)
  then show ?thesis
    by (cases ts rule: rev_cases)
      (auto simp: addAtPath_def specAdd_def resultOf_ops Let_def split: option.split json.split)
qed (simp add: addAtPath_def resultOf_ops)

lemma cloneJsonValue_operand: "wf_json v \<Longrightarrow> depthLE maxPatchDepth v \<Longrightarrow> cloneJsonValue v 0 = Inr v"
  by (simp add: cloneJsonValue_Inr)

lemma resultOf_applyAdd:
  "wf_json v \<Longrightarrow> depthLE maxPatchDepth v \<Longrightarrow>
    resultOf (applyAdd j p v i) = Option.bind (parseJsonPointer p) (\<lambda>ts. specAdd j ts v)"
  unfolding resultOf_addAtPath[of j p v i, symmetric]
  by (simp add: applyAdd_def addAtPath_def cloneJsonValue_operand)

lemma resultOf_applyRemove:
  "resultOf (applyRemove j p i) = Option.bind (parseJsonPointer p) (\<lambda>ts. editAt removeChild j ts)"
proof (cases "parseJsonPointer p")
  case (Some ts)
  then show ?thesis
    by (cases ts rule: rev_cases)
      (auto simp: applyRemove_def resultOf_ops Let_def split: option.split json.split)
qed (simp add: applyRemove_def resultOf_ops)

lemma resultOf_applyReplace:
  assumes "wf_json v" and "depthLE maxPatchDepth v"
  shows "resultOf (applyReplace j p v i) =
    Option.bind (parseJsonPointer p) (\<lambda>ts. if ts = [] then Some v else editAt (replaceChild v) j ts)"
proof (cases "parseJsonPointer p")
  case (Some ts)
  then show ?thesis
    by (cases ts rule: rev_cases)
      (auto simp: applyReplace_def resultOf_ops Let_def cloneJsonValue_operand assms
        split: option.split json.split)
qed (simp add: applyReplace_def resultOf_ops)

lemma resultOf_removeAtPath:
  "resultOf (removeAtPath j p i m) = Option.bind (parseJsonPointer p) (\<lambda>ts.
    Option.bind (editAt removeChild j ts) (\<lambda>j'. Option.bind (jsonAt j ts) (\<lambda>v. Some (v, j'))))"
proof (cases "parseJsonPointer p")
  case (Some ts)
  then show ?thesis
    by (cases ts rule: rev_cases)
      (auto simp: removeAtPath_def resultOf_ops Let_def jsonAt_append hasOwnKey_map_of
        split: option.split json.split)
qed (simp add: removeAtPath_def resultOf_ops)

lemma pointer_inj: "parseJsonPointer p = Some ts \<Longrightarrow> parseJsonPointer q = Some ts \<Longrightarrow> p = q"
  using format_parse by blast

lemma resultOf_applyMove:
  "resultOf (applyMove j p q i) = Option.bind (parseJsonPointer p) (\<lambda>fs.
    Option.bind (parseJsonPointer q) (\<lambda>ts. specMove j fs ts))"
proof (cases "p = q")
  case True
  then show ?thesis
    by (cases "parseJsonPointer q")
      (auto simp: applyMove_def resultOf_getAtPath specMove_def split: option.split)
next
  case False
  then have "resultOf (applyMove j p q i) = Option.bind (resultOf (removeAtPath j p i FromMember)) (\<lambda>(v, j').
      Option.bind (parseJsonPointer q) (\<lambda>ts. specAdd j' ts v))"
    by (simp add: applyMove_def split_def resultOf_addAtPath)
  with False show ?thesis
    using pointer_inj[of p _ q]
    by (cases "parseJsonPointer p"; cases "parseJsonPointer q")
      (auto simp: resultOf_removeAtPath specMove_def split: option.split Option.bind_split)
qed

lemma resultOf_applyCopy:
  assumes "wf_json j"
  shows "resultOf (applyCopy j p q i) = Option.bind (parseJsonPointer p) (\<lambda>fs.
    Option.bind (parseJsonPointer q) (\<lambda>ts. Option.bind (jsonAt j fs) (\<lambda>v.
      if depthLE maxPatchDepth v then specAdd j ts v else None)))"
proof -
  have "resultOf (cloneJsonValue v 0) = (if depthLE maxPatchDepth v then Some v else None)"
    if "jsonAt j fs = Some v" for fs v
    using wf_jsonAt[OF assms that] by (simp add: cloneJsonValue_cases)
  then show ?thesis
    by (auto simp: applyCopy_def resultOf_getAtPath resultOf_addAtPath bind_eq_None_conv
        split: Option.bind_splits)
qed

lemma resultOf_applyTest:
  assumes "wf_json j" and "wf_json v" and "depthLE maxPatchDepth v"
  shows "resultOf (applyTest j p v i) = Option.bind (parseJsonPointer p) (\<lambda>ts.
    Option.bind (jsonAt j ts) (\<lambda>a. if jsonEq a v then Some j else None))"
proof -
  have "deepEqual a v 0 = Inr (jsonEq a v)" if "jsonAt j ts = Some a" for ts a
    using deepEqual_spec(1)[OF wf_jsonAt[OF assms(1) that] assms(2), of 0] assms(3) by simp
  then show ?thesis
    by (auto simp: applyTest_def resultOf_getAtPath split: Option.bind_splits)
qed

lemma applyOperation_refines:
  "wf_json j \<Longrightarrow> wfOp op \<Longrightarrow> resultOf (applyOperation j op i) = specOp j op"
  by (cases op) (simp_all add: applyOperation_def specOp_def resultOf_applyAdd resultOf_applyRemove
      resultOf_applyReplace resultOf_applyMove resultOf_applyCopy resultOf_applyTest)

section \<open>Well-formed results\<close>

lemma wf_removeAt: "wf_json (JArr js) \<Longrightarrow> wf_json (JArr (removeAt i js))"
  using set_removeAt[of i js] by (auto simp: list_all_iff)

lemma wf_addChild: "addChild v p t = Some p' \<Longrightarrow> wf_json v \<Longrightarrow> wf_json p \<Longrightarrow> wf_json p'"
  using wf_json_objPut[of _ v t]
  by (cases p) (auto simp: list_all_iff set_insertAt split: option.splits if_splits)

lemma wf_removeChild: "removeChild p t = Some p' \<Longrightarrow> wf_json p \<Longrightarrow> wf_json p'"
  using wf_json_objDel[of _ t] wf_removeAt by (cases p) (auto split: option.splits if_splits)

lemma wf_replaceChild: "replaceChild v p t = Some p' \<Longrightarrow> wf_json v \<Longrightarrow> wf_json p \<Longrightarrow> wf_json p'"
  using wf_json_objPut[of _ v t]
  by (cases p) (auto simp: list_all_length nth_list_update split: option.splits if_splits)

lemma wf_editAt:
  assumes "editAt f j ts = Some j'" and "wf_json j"
    and "\<And>p t p'. f p t = Some p' \<Longrightarrow> wf_json p \<Longrightarrow> wf_json p'"
  shows "wf_json j'"
  using assms(1)
  by (cases ts rule: rev_cases)
    (auto simp: editAt_snoc split: option.splits intro!: wf_storeAt assms(2) intro: assms(3) wf_jsonAt)

lemma wf_specAdd: "specAdd j ts v = Some j' \<Longrightarrow> wf_json j \<Longrightarrow> wf_json v \<Longrightarrow> wf_json j'"
  using wf_editAt[of "addChild v" j ts j'] wf_addChild
  by (auto simp: specAdd_def split: if_splits)

lemma wf_specOp:
  assumes "specOp j op = Some j'" and "wf_json j" and "wfOp op"
  shows "wf_json j'"
proof (cases op)
  case (OpRemove p)
  with assms show ?thesis
    using wf_editAt[of removeChild j] wf_removeChild by (auto simp: specOp_def bind_eq_Some_conv)
next
  case (OpReplace p v)
  with assms show ?thesis
    using wf_editAt[of "replaceChild v" j] wf_replaceChild
    by (auto simp: specOp_def bind_eq_Some_conv split: if_splits)
next
  case (OpMove p q)
  with assms obtain fs ts where "specMove j fs ts = Some j'"
    by (auto simp: specOp_def bind_eq_Some_conv)
  then show ?thesis
    using wf_editAt[OF _ assms(2) wf_removeChild] wf_specAdd[of _ ts _ j'] assms(2)
    by (fastforce simp: specMove_def split: option.split_asm if_splits dest: wf_jsonAt)
qed (use assms in \<open>auto simp: specOp_def bind_eq_Some_conv split: if_splits
    dest: wf_jsonAt intro: wf_specAdd\<close>)

lemma applyAll_refines:
  "wf_json j \<Longrightarrow> list_all wfOp ops \<Longrightarrow> resultOf (applyAll j ops i) = specAll j ops"
proof (induction ops arbitrary: j i)
  case (Cons op ops)
  then show ?case
    using wf_specOp by (cases "specOp j op") (auto simp: applyOperation_refines)
qed simp

section \<open>Parsing and validation\<close>

lemma isProperPrefixPointer_iff:
  "isProperPrefixPointer p q \<longleftrightarrow>
    (\<exists>ts t us. parseJsonPointer p = Some ts \<and> parseJsonPointer q = Some (ts @ t # us))"
proof (cases "parseJsonPointer p"; cases "parseJsonPointer q")
  fix ts qs assume ts: "parseJsonPointer p = Some ts" and qs: "parseJsonPointer q = Some qs"
  have "isProperPrefixPointer p q \<longleftrightarrow> length ts < length qs \<and> take (length ts) qs = ts"
    by (auto simp: isProperPrefixPointer_def ts qs)
  also have "\<dots> \<longleftrightarrow> (\<exists>t us. qs = ts @ t # us)"
  proof
    assume "length ts < length qs \<and> take (length ts) qs = ts"
    then have "qs = ts @ qs ! length ts # drop (Suc (length ts)) qs"
      by (metis append_take_drop_id Cons_nth_drop_Suc)
    then show "\<exists>t us. qs = ts @ t # us" by blast
  qed auto
  finally show ?thesis by (simp add: ts qs)
qed (auto simp: isProperPrefixPointer_def)

text \<open>The moves validation rejects: into a child of the moved value.\<close>

fun movesIntoItself :: "operation \<Rightarrow> bool" where
  "movesIntoItself (OpMove p q) = isProperPrefixPointer p q"
| "movesIntoItself op = False"

lemma isPointerString_Str: "isPointerString v \<longleftrightarrow> (\<exists>s. v = Str s \<and> parseJsonPointer s \<noteq> None)"
  by (cases v) (auto simp: isPointerString_def)

lemma validateOperation_iff:
  assumes "wfHeap h"
  shows "validateOperation h v i = Inr () \<longleftrightarrow>
    (\<exists>op. parseOperation h v = Some op \<and> \<not> movesIntoItself op)"
proof (cases "recordOf h v")
  case (Some ps)
  have clone: "\<exists>j. cloneFromHeap h w 0 {} = Inr j" if "isJsonValue h w 0 {}" for w
    using cloneFromHeap_json[OF that assms] by blast
  show ?thesis
    using clone[of "getProp ps (lit ''value'')"]
    by (auto simp: validateOperation_def parseOperation_def Some Let_def split: sum.split)
qed (simp add: validateOperation_def parseOperation_def)

lemma parseOperation_wf: "parseOperation h v = Some op \<Longrightarrow> wfHeap h \<Longrightarrow> wfOp op"
  by (auto simp: parseOperation_def Let_def split: option.splits if_splits sum.splits
      elim: cloneFromHeap_json)

lemma parseAll_wf: "parseAll h vs = Some ops \<Longrightarrow> wfHeap h \<Longrightarrow> list_all wfOp ops"
  by (induction vs arbitrary: ops) (auto split: option.splits intro: parseOperation_wf)

lemma parseJsonPatch_wf: "parseJsonPatch h d = Some ops \<Longrightarrow> wfHeap h \<Longrightarrow> list_all wfOp ops"
  by (auto simp: parseJsonPatch_def split: option.splits intro: parseAll_wf)

lemma validateAll_iff:
  "wfHeap h \<Longrightarrow> validateAll h vs i = Inr () \<longleftrightarrow>
    (\<exists>ops. parseAll h vs = Some ops \<and> list_all (\<lambda>op. \<not> movesIntoItself op) ops)"
proof (induction vs arbitrary: i)
  case (Cons v vs)
  have undef: "parseOperation h Undefined = None" by (simp add: parseOperation_def recordOf_def)
  show ?case
    using Cons undef by (auto simp: err_simps validateOperation_iff split: option.splits)
qed simp

lemma validateJsonPatch_iff:
  "wfHeap h \<Longrightarrow> validateJsonPatch h d = Inr () \<longleftrightarrow>
    (\<exists>ops. parseJsonPatch h d = Some ops \<and> list_all (\<lambda>op. \<not> movesIntoItself op) ops)"
  by (simp add: validateJsonPatch_def parseJsonPatch_def validateAll_iff split: option.split)

lemma applyJsonPatch_Inr:
  assumes "wfHeap h"
  shows "applyJsonPatch h t d = Inr j' \<longleftrightarrow>
    (\<exists>j ops. unfolds h t j \<and> depthLE maxPatchDepth j \<and> parseJsonPatch h d = Some ops \<and>
      list_all (\<lambda>op. \<not> movesIntoItself op) ops \<and> applyAll j ops 0 = Inr j')"
proof (cases "isJsonValue h t 0 {}")
  case True
  obtain j where j: "cloneFromHeap h t 0 {} = Inr j" "unfolds h t j" "depthLE maxPatchDepth j"
    using cloneFromHeap_json[OF True assms] by blast
  have unique: "unfolds h t i \<longleftrightarrow> i = j" for i using unfolds_det j(2) by blast
  show ?thesis
    using True j validateJsonPatch_iff[OF assms, of d]
    by (auto simp: applyJsonPatch_def err_simps unique split: option.splits)
next
  case False
  then show ?thesis using isJsonValue_iff by (auto simp: applyJsonPatch_def)
qed

lemma applyJsonPatch_spec:
  assumes "wfHeap h" and "unfolds h t j" and "depthLE maxPatchDepth j"
    and "parseJsonPatch h d = Some ops" and "list_all (\<lambda>op. \<not> movesIntoItself op) ops"
  shows "resultOf (applyJsonPatch h t d) = specAll j ops"
proof -
  have "list_all wfOp ops" and "wf_json j"
    using parseJsonPatch_wf unfolds_wf assms by blast+
  then have "specAll j ops = resultOf (applyAll j ops 0)" by (rule applyAll_refines[symmetric, rotated])
  moreover have "applyJsonPatch h t d = Inr k \<longleftrightarrow> applyAll j ops 0 = Inr k" for k
    using applyJsonPatch_Inr[OF assms(1), of t d k] assms(2-5) unfolds_det by auto
  then have "resultOf (applyJsonPatch h t d) = resultOf (applyAll j ops 0)"
    by (subst option_eq_iff) simp
  ultimately show ?thesis by simp
qed

section \<open>Laws of the operations\<close>

lemma setChild_get: "replaceChild v p t = Some p' \<Longrightarrow> jsonStep p' t = Some v"
  by (cases p) (auto simp: map_of_objPut split: option.splits if_splits)

lemma addChild_get: "addChild v p t = Some p' \<Longrightarrow> t \<noteq> lit ''-'' \<Longrightarrow> jsonStep p' t = Some v"
  by (cases p) (auto simp: map_of_objPut split: option.splits if_splits)

lemma editAt_get:
  assumes "editAt f j (ts @ [t]) = Some j'" and "\<And>p p'. f p t = Some p' \<Longrightarrow> jsonStep p' t = Some v"
  shows "jsonAt j' (ts @ [t]) = Some v"
proof -
  obtain p p' where p: "jsonAt j ts = Some p" "f p t = Some p'" "j' = storeAt j ts p'"
    using assms(1) by (auto simp: editAt_snoc split: option.splits)
  then have "jsonAt j' ts = Some p'" by (simp add: place.put_get)
  with assms(2)[OF p(2)] show ?thesis by (simp add: jsonAt_append)
qed

text \<open>A container edited twice in a row is edited once with the composed edit.\<close>

lemma editAt_editAt:
  assumes "editAt f j (ts @ [t]) = Some j'"
  shows "editAt g j' (ts @ [t]) = editAt (\<lambda>p t. Option.bind (f p t) (\<lambda>p'. g p' t)) j (ts @ [t])"
proof -
  obtain p p' where p: "jsonAt j ts = Some p" "f p t = Some p'" "j' = storeAt j ts p'"
    using assms by (auto simp: editAt_snoc split: option.splits)
  then show ?thesis
    by (auto simp: editAt_snoc place.put_get place.put_put split: option.split)
qed

lemma editAt_id: "jsonAt j ts = Some p \<Longrightarrow> f p t = Some p \<Longrightarrow> editAt f j (ts @ [t]) = Some j"
  by (simp add: editAt_snoc place.get_put)

lemma objDel_insertKey: "k \<notin> fst ` set ps \<Longrightarrow> objDel k (insertKey k v ps) = ps"
proof -
  assume k: "k \<notin> fst ` set ps"
  then have "objDel k ps = ps" by (force simp: objDel_def filter_id_conv)
  moreover have "objDel k (insertKey k v ps) = objDel k ps"
    by (induction k v ps rule: insertKey.induct) (auto simp: objDel_def)
  ultimately show ?thesis by simp
qed

lemma remove_add_child:
  assumes "addChild v p t = Some p'" and "t \<noteq> lit ''-''"
    and "\<And>ps. p = JObj ps \<Longrightarrow> \<not> hasOwnKey ps t"
  shows "removeChild p' t = Some p"
  using assms
  by (cases p) (auto simp: objPut_def objDel_insertKey hasOwnKey_def split: option.splits if_splits)

lemma editAt_frame:
  assumes "editAt f j (us @ y # ys) = Some j'" and "jsonAt j us = Some (JObj ps)" and "x \<noteq> y"
    and "\<And>p'. f (JObj ps) y = Some p' \<Longrightarrow> \<exists>qs. p' = JObj qs \<and> map_of qs x = map_of ps x"
  shows "jsonAt j' (us @ x # xs) = jsonAt j (us @ x # xs)"
proof (cases ys rule: rev_cases)
  case Nil
  then obtain p' where "f (JObj ps) y = Some p'" and j': "j' = storeAt j us p'"
    using assms(1,2) by (auto simp: editAt_snoc split: option.splits)
  then obtain qs where "p' = JObj qs" "map_of qs x = map_of ps x" using assms(4) by blast
  then show ?thesis using place.put_get[OF assms(2)] assms(2) by (simp add: j' jsonAt_append)
next
  case (snoc zs z)
  then obtain p' where "j' = storeAt j (us @ y # zs) p'"
    using assms(1) editAt_snoc[of f j "us @ y # zs" z] by (auto split: option.splits)
  then show ?thesis using jsonAt_storeAt_fork[OF assms(2,3)] by simp
qed

text \<open>The path an operation edits, for the operations that edit one place only.\<close>

fun editPath :: "operation \<Rightarrow> jsstr option" where
  "editPath (OpAdd p v) = Some p"
| "editPath (OpRemove p) = Some p"
| "editPath (OpReplace p v) = Some p"
| "editPath op = None"

lemma specOp_edit:
  assumes "editPath op = Some p" and "parseJsonPointer p = Some ts" and "ts \<noteq> []"
  obtains f where "\<And>j. specOp j op = editAt f j ts"
    "\<And>ps y p'. f (JObj ps) y = Some p' \<Longrightarrow> \<exists>qs. p' = JObj qs \<and> (\<forall>x. x \<noteq> y \<longrightarrow> map_of qs x = map_of ps x)"
proof (cases op)
  case (OpAdd q v)
  with assms show thesis
    by (intro that[of "addChild v"]) (auto simp: specOp_def specAdd_def map_of_objPut)
next
  case (OpRemove q)
  with assms show thesis
    by (intro that[of removeChild]) (auto simp: specOp_def map_of_objDel split: if_splits)
next
  case (OpReplace q v)
  with assms show thesis
    by (intro that[of "replaceChild v"]) (auto simp: specOp_def map_of_objPut split: if_splits)
qed (use assms in auto)

text \<open>The index an error message carries.\<close>

fun errorIndex :: "patch_error \<Rightarrow> nat option" where
  "errorIndex (InvalidPointer i m) = Some i"
| "errorIndex (CannotAddIndex i t) = Some i"
| "errorIndex (CannotRemoveRoot i) = Some i"
| "errorIndex (CannotRemoveIndex i t) = Some i"
| "errorIndex (CannotRemoveMember i t) = Some i"
| "errorIndex (CannotReplaceIndex i t) = Some i"
| "errorIndex (CannotReplaceMember i t) = Some i"
| "errorIndex (MissingIndex i m t) = Some i"
| "errorIndex (MissingMember i m t) = Some i"
| "errorIndex (NoParent i u) = Some i"
| "errorIndex (ParentNotContainer i) = Some i"
| "errorIndex (TestFailed i) = Some i"
| "errorIndex e = None"

text \<open>Every error of \<open>r\<close> carries the index \<open>i\<close>; the rules follow the error monad.\<close>

definition indexed :: "nat \<Rightarrow> patch_error + 'a \<Rightarrow> bool" where
  "indexed i r \<longleftrightarrow> (\<forall>e. r = Inl e \<longrightarrow> errorIndex e = Some i)"

lemma indexed_simps [simp]: "indexed i (Inr x)" "indexed i (Inl e) \<longleftrightarrow> errorIndex e = Some i"
  by (auto simp: indexed_def)

lemma indexed_andThen: "indexed i r \<Longrightarrow> (\<And>x. r = Inr x \<Longrightarrow> indexed i (f x)) \<Longrightarrow> indexed i (andThen r f)"
  by (cases r) auto

lemma indexed_walkPath: "indexed i (walkPath j ts i m)"
  by (induction j ts i m rule: walkPath.induct) (auto split: json.split option.split)

lemma indexed_resolveParent: "indexed i (resolveParent j ts i u)"
  by (auto simp: resolveParent_eq split: json.split option.split)

lemma indexed_parsePointerTokens: "indexed i (parsePointerTokens p m i)"
  by (auto simp: parsePointerTokens_def split: option.split)

lemma indexed_getLastPathToken: "indexed i (getLastPathToken ts i m)"
  by (auto simp: getLastPathToken_def)

lemmas indexed_intros =
  indexed_andThen indexed_walkPath indexed_resolveParent indexed_parsePointerTokens
  indexed_getLastPathToken

lemma indexed_getAtPath: "indexed i (getAtPath j p i m)"
  by (auto simp: getAtPath_def intro!: indexed_intros)

lemma indexed_addAtPath: "indexed i (addAtPath j p v i)"
  by (auto simp: addAtPath_def intro!: indexed_intros split: json.split option.split)

lemma indexed_removeAtPath: "indexed i (removeAtPath j p i m)"
  by (auto simp: removeAtPath_def intro!: indexed_intros split: json.split option.split)

lemma indexed_applyRemove: "indexed i (applyRemove j p i)"
  by (auto simp: applyRemove_def intro!: indexed_intros split: json.split option.split)

lemma indexed_applyReplace:
  "wf_json v \<Longrightarrow> depthLE maxPatchDepth v \<Longrightarrow> indexed i (applyReplace j p v i)"
  by (auto simp: applyReplace_def cloneJsonValue_operand intro!: indexed_intros
      split: json.split option.split)

lemma indexed_applyMove: "indexed i (applyMove j p q i)"
  by (auto simp: applyMove_def intro!: indexed_andThen indexed_getAtPath indexed_addAtPath
      indexed_removeAtPath)

lemma applyOperation_error:
  assumes "applyOperation j op i = Inl e" and "wf_json j" and "wfOp op"
  shows "e = ValueDepth \<or> errorIndex e = Some i"
proof (cases "\<exists>p q. op = OpCopy p q")
  case False
  have eq: "deepEqual a v 0 = Inr (jsonEq a v)" if "getAtPath j p i m = Inr a" "op = OpTest p v" for a p m v
    using that deepEqual_spec(1)[OF wf_jsonAt[OF assms(2)], of _ a v 0] assms(3)
    by (auto simp: getAtPath_Inr)
  have "indexed i (applyOperation j op i)"
  proof (cases op)
    case (OpAdd p v)
    then have "applyAdd j p v i = addAtPath j p v i"
      using assms(3) by (simp add: applyAdd_def addAtPath_def cloneJsonValue_operand)
    with OpAdd show ?thesis by (simp add: applyOperation_def indexed_addAtPath)
  next
    case (OpTest p v)
    then show ?thesis
      by (auto simp: applyOperation_def applyTest_def eq simp del: deepEqual.simps
          intro!: indexed_andThen indexed_getAtPath)
  qed (use assms(3) False in \<open>auto simp: applyOperation_def indexed_applyRemove indexed_applyReplace
      indexed_applyMove\<close>)
  with assms(1) show ?thesis by (simp add: indexed_def)
next
  case True
  then obtain p q where op: "op = OpCopy p q" by blast
  have "e' = ValueDepth" if "getAtPath j p i FromMember = Inr a" "cloneJsonValue a 0 = Inl e'" for a e'
    using that wf_jsonAt[OF assms(2)] by (auto simp: getAtPath_Inr cloneJsonValue_cases split: if_splits)
  with op assms(1) indexed_getAtPath[of i j p FromMember] indexed_addAtPath show ?thesis
    by (auto simp: applyOperation_def applyCopy_def err_simps indexed_def)
qed

lemma applyAll_append:
  "applyAll j (ops @ ops') i = andThen (applyAll j ops i) (\<lambda>j'. applyAll j' ops' (i + length ops))"
  by (induction ops arbitrary: j i) (auto simp: andThen_assoc)

lemma applyAll_error:
  assumes "applyAll j ops i = Inl e" and "wf_json j" and "list_all wfOp ops"
  shows "\<exists>k j'. k < length ops \<and> applyAll j (take k ops) i = Inr j' \<and>
    applyOperation j' (ops ! k) (i + k) = Inl e \<and> (e = ValueDepth \<or> errorIndex e = Some (i + k))"
  using assms
proof (induction ops arbitrary: j i)
  case (Cons op ops)
  show ?case
  proof (cases "applyOperation j op i")
    case (Inl e')
    with Cons.prems applyOperation_error[OF Inl] show ?thesis by (intro exI[of _ 0]) auto
  next
    case (Inr j1)
    then have "specOp j op = Some j1"
      using applyOperation_refines[of j op i] Cons.prems by simp
    then have "wf_json j1" using wf_specOp Cons.prems by auto
    then obtain k j' where k: "k < length ops" "applyAll j1 (take k ops) (Suc i) = Inr j'"
      "applyOperation j' (ops ! k) (Suc i + k) = Inl e" "e = ValueDepth \<or> errorIndex e = Some (Suc i + k)"
      using Cons.IH[of j1 "Suc i"] Cons.prems Inr by auto
    then show ?thesis using Inr by (intro exI[of _ "Suc k"] exI[of _ j']) auto
  qed
qed simp

section \<open>Properties\<close>

text \<open>
  The sample: at \<open>Ref 10\<close> the target \<open>{"a": [null]}\<close>, at \<open>Ref 20\<close> the patch
  \<open>[{"op": "add", "path": "/b", "value": true}, {"op": "move", "from": "/a/0", "path": "/c"}]\<close>.
\<close>

definition patchHeap :: heap where
  "patchHeap =
     [10 \<mapsto> HObj ObjectProto [(lit ''a'', Ref 11)], 11 \<mapsto> HArr [Null],
      20 \<mapsto> HArr [Ref 21, Ref 22],
      21 \<mapsto> HObj ObjectProto [(lit ''op'', Str (lit ''add'')), (lit ''path'', Str (lit ''/b'')),
        (lit ''value'', Bool True)],
      22 \<mapsto> HObj ObjectProto [(lit ''op'', Str (lit ''move'')), (lit ''from'', Str (lit ''/a/0'')),
        (lit ''path'', Str (lit ''/c''))]]"

definition sampleTree :: json where
  "sampleTree = JObj [(lit ''a'', JArr [JNull])]"

definition sampleOps :: "operation list" where
  "sampleOps = [OpAdd (lit ''/b'') (JBool True), OpMove (lit ''/a/0'') (lit ''/c'')]"

lemma wf_patchHeap: "wfHeap patchHeap"
  by (simp add: wfHeap_def patchHeap_def keysOrdered_def keyBefore_def isIndexKey_def isDigit_def)

lemma sampleTree_facts: "unfolds patchHeap (Ref 10) sampleTree" "depthLE maxPatchDepth sampleTree"
  "wf_json sampleTree"
  by (simp_all add: sampleTree_def unfolds_simps patchHeap_def maxPatchDepth_def keysOrdered_def)

lemma isJsonValue_Bool: "isJsonValue h (Bool b) 0 {}" "cloneFromHeap h (Bool b) 0 {} = Inr (JBool b)"
  by (subst isJsonValue.simps cloneFromHeap.simps, simp add: maxPatchDepth_def)+

lemma sample_parse: "parseJsonPatch patchHeap (Ref 20) = Some sampleOps"
  by (simp add: parseJsonPatch_def arrayOf_def patchHeap_def parseOperation_def recordOf_def getProp_def
      hasOwnKey_def allowedOps_def isPointerString_def pointer_defs Let_def strOf_def sampleOps_def
      isJsonValue_Bool del: isJsonValue.simps cloneFromHeap.simps)

lemma sample_valid: "list_all (\<lambda>op. \<not> movesIntoItself op) sampleOps"
  by (simp add: sampleOps_def isProperPrefixPointer_def pointer_defs Let_def)

lemma sample_pointers:
  "parseJsonPointer (lit ''/b'') = Some ([] @ [lit ''b''])"
  "parseJsonPointer (lit ''/a/0'') = Some ([lit ''a''] @ [lit ''0''])"
  "parseJsonPointer (lit ''/a/-'') = Some ([lit ''a''] @ [lit ''-''])"
  "parseJsonPointer (lit ''/c'') = Some ([] @ [lit ''c''])"
  by (simp_all add: pointer_defs Let_def)

lemmas sample_specs =
  specOp_def specAdd_def specMove_def sampleTree_def sample_pointers[simplified] parseArrayIndex_def
  parseDec_def digitVal_def objPut_def objDel_def hasOwnKey_def keyBefore_def isIndexKey_def
  isDigit_def insertAt_def removeAt_def keysOrdered_def

lemma sample_apply:
  "applyJsonPatch patchHeap (Ref 10) (Ref 20) =
    Inr (JObj [(lit ''a'', JArr []), (lit ''b'', JBool True), (lit ''c'', JNull)])"
proof -
  have "specAll sampleTree sampleOps =
      Some (JObj [(lit ''a'', JArr []), (lit ''b'', JBool True), (lit ''c'', JNull)])"
    by (simp add: sampleOps_def sample_specs)
  then show ?thesis
    using applyJsonPatch_spec[OF wf_patchHeap sampleTree_facts(1,2) sample_parse sample_valid] by simp
qed

text \<open>The validation of a value accepts exactly the values that denote a JSON
  tree of at most 512 nested levels: every cycle, sparse hole, non-finite number, function or
  class instance is refused, and so is a deeper value, while sharing is accepted.\<close>

theorem json_value_iff: "isJsonValue h v 0 {} \<longleftrightarrow> (\<exists>j. unfolds h v j \<and> depthLE maxPatchDepth j)"
  by (rule isJsonValue_iff)

text \<open>Validation reports no error exactly for the patch documents that
  parse and have no move whose source is a proper prefix of its destination.\<close>

theorem patch_validate_iff:
  assumes "wfHeap h"
  shows "validateJsonPatch h d = Inr () \<longleftrightarrow>
    (\<exists>ops. parseJsonPatch h d = Some ops \<and> (\<forall>p q ts t us. OpMove p q \<in> set ops \<longrightarrow>
      parseJsonPointer p = Some ts \<longrightarrow> parseJsonPointer q \<noteq> Some (ts @ t # us)))"
proof -
  have "list_all (\<lambda>op. \<not> movesIntoItself op) ops \<longleftrightarrow> (\<forall>p q ts t us. OpMove p q \<in> set ops \<longrightarrow>
      parseJsonPointer p = Some ts \<longrightarrow> parseJsonPointer q \<noteq> Some (ts @ t # us))" for ops
    by (force simp: list_all_iff isProperPrefixPointer_iff elim: movesIntoItself.elims)
  then show ?thesis by (simp add: validateJsonPatch_iff[OF assms])
qed

theorem patch_validate_iff_witness:
  "validateJsonPatch patchHeap (Ref 20) = Inr () \<longleftrightarrow>
    (\<exists>ops. parseJsonPatch patchHeap (Ref 20) = Some ops \<and> (\<forall>p q ts t us. OpMove p q \<in> set ops \<longrightarrow>
      parseJsonPointer p = Some ts \<longrightarrow> parseJsonPointer q \<noteq> Some (ts @ t # us)))"
  by (rule patch_validate_iff[OF wf_patchHeap])

text \<open>C2 (patch_apply_refines): Applying a patch document that parses to a target that denotes a
  JSON tree gives the tree RFC 6902 prescribes, the operations editing the tree in order, and an
  error whenever the specification has none. The conclusion is about success and result; which
  error it is is the subject of \<open>patch_error_index\<close>.\<close>

theorem patch_apply_refines:
  assumes "wfHeap h" and "unfolds h t j" and "depthLE maxPatchDepth j"
    and "parseJsonPatch h d = Some ops" and "list_all (\<lambda>op. \<not> movesIntoItself op) ops"
  shows "resultOf (applyJsonPatch h t d) = specAll j ops"
  by (rule applyJsonPatch_spec[OF assms])

theorem patch_apply_refines_witness:
  "resultOf (applyJsonPatch patchHeap (Ref 10) (Ref 20)) =
    Some (JObj [(lit ''a'', JArr []), (lit ''b'', JBool True), (lit ''c'', JNull)])"
  using patch_apply_refines[OF wf_patchHeap sampleTree_facts(1,2) sample_parse sample_valid]
  by (simp add: sampleOps_def sample_specs)

text \<open>What a successful application returns is a well-formed JSON tree: no key
  twice in an object and the keys in enumeration order.\<close>

theorem patch_result_wf:
  assumes "wfHeap h" and "applyJsonPatch h t d = Inr j'"
  shows "wf_json j'"
proof -
  obtain j ops where j: "unfolds h t j" "parseJsonPatch h d = Some ops" "applyAll j ops 0 = Inr j'"
    using assms applyJsonPatch_Inr by blast
  then have "list_all wfOp ops" and wf: "wf_json j"
    using parseJsonPatch_wf unfolds_wf assms by blast+
  then have "specAll j ops = Some j'" using applyAll_refines[of j ops 0] j(3) by simp
  with \<open>list_all wfOp ops\<close> wf show ?thesis
    by (induction ops arbitrary: j) (auto simp: bind_eq_Some_conv dest: wf_specOp)
qed

theorem patch_result_wf_witness:
  "wf_json (JObj [(lit ''a'', JArr []), (lit ''b'', JBool True), (lit ''c'', JNull)])"
  by (rule patch_result_wf[OF wf_patchHeap sample_apply])

lemma applyOperation_Inr:
  "wf_json j \<Longrightarrow> wfOp op \<Longrightarrow> applyOperation j op i = Inr j' \<longleftrightarrow> specOp j op = Some j'"
  using applyOperation_refines[of j op i] by (metis resultOf_Some)

lemma specAdd_get:
  assumes "specAdd j ts v = Some j'" and "ts = [] \<or> last ts \<noteq> lit ''-''"
  shows "jsonAt j' ts = Some v"
  using assms editAt_get[of "addChild v" j "butlast ts" "last ts" j' v] addChild_get[of v _ "last ts"]
  by (cases "ts = []") (auto simp: specAdd_def)

text \<open>After an addition (or a replacement) the value is found at its path, unless
  the path ends in the token that appends to an array.\<close>

theorem patch_add_get:
  assumes "wf_json j" and "wfOp (OpAdd p v)"
    and "parseJsonPointer p = Some ts" and "ts = [] \<or> last ts \<noteq> lit ''-''"
    and "applyOperation j (OpAdd p v) i = Inr j'"
  shows "getAtPath j' p i' m = Inr v"
proof -
  have "specAdd j ts v = Some j'"
    using assms(3,5) applyOperation_Inr[OF assms(1,2)] by (simp add: specOp_def)
  from specAdd_get[OF this assms(4)] show ?thesis using assms(3) by (simp add: getAtPath_Inr)
qed

theorem patch_add_get_witness:
  "getAtPath (JObj [(lit ''a'', JArr [JBool True, JNull])]) (lit ''/a/0'') 5 PathMember = Inr (JBool True)"
proof (rule patch_add_get[OF sampleTree_facts(3) _ sample_pointers(2)])
  show "applyOperation sampleTree (OpAdd (lit ''/a/0'') (JBool True)) 0 =
      Inr (JObj [(lit ''a'', JArr [JBool True, JNull])])"
    by (subst applyOperation_Inr) (simp_all add: sampleTree_facts[simplified] sample_specs)
qed simp_all

text \<open>Removing what was just added restores the document, exactly, order of
  members included: for a member the object did not have, and for an element inserted in an array
  at an index.\<close>

theorem patch_remove_add:
  assumes "wf_json j" and "wfOp (OpAdd p v)"
    and "parseJsonPointer p = Some (ts @ [t])" and "t \<noteq> lit ''-''"
    and "\<And>ps. jsonAt j ts = Some (JObj ps) \<Longrightarrow> \<not> hasOwnKey ps t"
    and "applyOperation j (OpAdd p v) i = Inr j'"
  shows "applyAll j [OpAdd p v, OpRemove p] i = Inr j"
proof -
  have add: "editAt (addChild v) j (ts @ [t]) = Some j'"
    using assms(3,6) applyOperation_Inr[OF assms(1,2)] by (simp add: specOp_def specAdd_def)
  then obtain q q' where q: "jsonAt j ts = Some q" "addChild v q t = Some q'"
    by (auto simp: editAt_snoc split: option.splits)
  have r: "removeChild q' t = Some q"
    using remove_add_child[OF q(2) assms(4)] assms(5) q(1) by blast
  have "editAt removeChild j' (ts @ [t]) = Some j"
    unfolding editAt_editAt[OF add] by (rule editAt_id[OF q(1)]) (simp add: q(2) r)
  then have "applyRemove j' p (Suc i) = Inr j"
    using resultOf_applyRemove[of j' p "Suc i"] assms(3) by simp
  with assms(6) show ?thesis by (simp add: applyOperation_def)
qed

theorem patch_remove_add_witness:
  "applyAll sampleTree [OpAdd (lit ''/b'') (JBool True), OpRemove (lit ''/b'')] 7 = Inr sampleTree"
proof (rule patch_remove_add[OF sampleTree_facts(3) _ sample_pointers(1)])
  show "applyOperation sampleTree (OpAdd (lit ''/b'') (JBool True)) 7 =
      Inr (JObj [(lit ''a'', JArr [JNull]), (lit ''b'', JBool True)])"
    by (subst applyOperation_Inr) (simp_all add: sampleTree_facts[simplified] sample_specs)
qed (simp_all add: sampleTree_def hasOwnKey_def)

text \<open>A move to another path is the removal of the source followed by the
  addition of its value at the destination, where the value is found afterwards.\<close>

theorem patch_move_get:
  assumes "wf_json j" and "parseJsonPointer p = Some fs" and "parseJsonPointer q = Some ts"
    and "p \<noteq> q" and "last ts \<noteq> lit ''-''" and "applyOperation j (OpMove p q) i = Inr j'"
  shows "\<exists>v j1. getAtPath j p i FromMember = Inr v \<and> applyOperation j (OpRemove p) i = Inr j1 \<and>
    addAtPath j1 q v i = Inr j' \<and> getAtPath j' q i PathMember = Inr v"
proof -
  have "specMove j fs ts = Some j'"
    using assms(2,3,6) applyOperation_Inr[OF assms(1), of "OpMove p q"] by (simp add: specOp_def)
  moreover have "fs \<noteq> ts" using assms(2-4) pointer_inj by blast
  ultimately obtain v j1 where v: "jsonAt j fs = Some v" "editAt removeChild j fs = Some j1"
    "specAdd j1 ts v = Some j'"
    by (auto simp: specMove_def split: option.splits)
  have "getAtPath j p i FromMember = Inr v" using v(1) assms(2) by (simp add: getAtPath_Inr)
  moreover have "applyOperation j (OpRemove p) i = Inr j1"
    using v(2) assms(1,2) by (simp add: applyOperation_Inr specOp_def)
  moreover have "addAtPath j1 q v i = Inr j'"
    using resultOf_addAtPath[of j1 q v i] v(3) assms(3) by simp
  moreover have "getAtPath j' q i PathMember = Inr v"
    using specAdd_get[OF v(3)] assms(3,5) by (simp add: getAtPath_Inr)
  ultimately show ?thesis by blast
qed

theorem patch_move_get_witness:
  "\<exists>v j1. getAtPath sampleTree (lit ''/a/0'') 0 FromMember = Inr v \<and>
    applyOperation sampleTree (OpRemove (lit ''/a/0'')) 0 = Inr j1 \<and>
    addAtPath j1 (lit ''/c'') v 0 = Inr (JObj [(lit ''a'', JArr []), (lit ''c'', JNull)]) \<and>
    getAtPath (JObj [(lit ''a'', JArr []), (lit ''c'', JNull)]) (lit ''/c'') 0 PathMember = Inr v"
proof (rule patch_move_get[OF sampleTree_facts(3) sample_pointers(2,4)])
  show "applyOperation sampleTree (OpMove (lit ''/a/0'') (lit ''/c'')) 0 =
      Inr (JObj [(lit ''a'', JArr []), (lit ''c'', JNull)])"
    by (subst applyOperation_Inr) (simp_all add: sampleTree_facts[simplified] sample_specs)
qed simp_all





end
