(* ===== verification/JsonMergePatch.thy ===== *)
theory JsonMergePatch
  imports JsonPatchValue
begin

text \<open>
  JSON Merge Patch (RFC 7396), \<open>src/json-merge-patch.ts\<close>. Validation walks the heap; what it accepts
  denotes a tree (\<open>treeOf\<close> reads it), and the application is modelled on the two trees, with its depth
  checks: it only reads its arguments, and what it builds is fresh. The reference is the
  pseudo-code of RFC 7396, Section 2. A clone of an object keeps a null prototype; the tree does not
  record the prototype.
\<close>

section \<open>Validation\<close>

definition maxMergeDepth :: nat where
  "maxMergeDepth = 128"

datatype merge_invalid = InvalidJsonValue | MaxDepthExceeded | CyclicReference

datatype cloneContext = InApplication | InValue

datatype merge_error =
    TargetInvalid merge_invalid
  | PatchInvalid merge_invalid
  | CloneDepth cloneContext

function validateMergeValue :: "heap \<Rightarrow> jsval \<Rightarrow> nat \<Rightarrow> nat set \<Rightarrow> merge_invalid option" where
  "validateMergeValue h v depth ancestors =
     (if depth > maxMergeDepth then
        (case v of
           Ref a \<Rightarrow> if a \<in> ancestors then Some CyclicReference else Some MaxDepthExceeded
         | _ \<Rightarrow> Some MaxDepthExceeded)
      else (case v of
        Null \<Rightarrow> None
      | Str s \<Rightarrow> None
      | Bool b \<Rightarrow> None
      | Num x \<Rightarrow> if isFiniteNum x then None else Some InvalidJsonValue
      | Undefined \<Rightarrow> Some InvalidJsonValue
      | Exotic e \<Rightarrow> Some InvalidJsonValue
      | Ref a \<Rightarrow>
          (case h a of
             Some (HArr vs) \<Rightarrow>
               if a \<in> ancestors then Some CyclicReference
               else firstSome (\<lambda>e. validateMergeValue h e (depth + 1) (insert a ancestors)) vs
           | Some (HObj p ps) \<Rightarrow>
               if p = OtherProto then Some InvalidJsonValue
               else if a \<in> ancestors then Some CyclicReference
               else firstSome (\<lambda>(k, e). validateMergeValue h e (depth + 1) (insert a ancestors)) ps
           | None \<Rightarrow> Some InvalidJsonValue)))"
  by pat_completeness auto
termination
  by (relation "measure (\<lambda>(h, v, depth, ancestors). 129 - depth)") (auto simp: maxMergeDepth_def)

declare validateMergeValue.simps [simp del]

definition validateJsonMergePatch :: "heap \<Rightarrow> jsval \<Rightarrow> merge_error + unit" where
  "validateJsonMergePatch h patch =
     (case validateMergeValue h patch 0 {} of None \<Rightarrow> Inr () | Some e \<Rightarrow> Inl (PatchInvalid e))"

text \<open>The tree a value denotes, read up to \<open>n\<close> nested values.\<close>

fun treeOf :: "nat \<Rightarrow> heap \<Rightarrow> jsval \<Rightarrow> json option" where
  "treeOf 0 h v = None"
| "treeOf (Suc n) h v =
     (case v of
        Null \<Rightarrow> Some JNull
      | Str s \<Rightarrow> Some (JStr s)
      | Bool b \<Rightarrow> Some (JBool b)
      | Num x \<Rightarrow> (case x of Fin q \<Rightarrow> Some (JNum q) | _ \<Rightarrow> None)
      | Undefined \<Rightarrow> None
      | Exotic e \<Rightarrow> None
      | Ref a \<Rightarrow>
          (case h a of
             Some (HArr vs) \<Rightarrow> map_option JArr (those (map (treeOf n h) vs))
           | Some (HObj p ps) \<Rightarrow>
               map_option JObj (those (map (\<lambda>(k, e). map_option (Pair k) (treeOf n h e)) ps))
           | None \<Rightarrow> None))"

section \<open>Cloning and merging\<close>

definition ensureCloneDepth :: "nat \<Rightarrow> cloneContext \<Rightarrow> merge_error + unit" where
  "ensureCloneDepth depth context = guardR (depth \<le> maxMergeDepth) (CloneDepth context)"

fun cloneMergeValue :: "json \<Rightarrow> nat \<Rightarrow> cloneContext \<Rightarrow> merge_error + json"
and cloneMergeObject :: "(jsstr \<times> json) list \<Rightarrow> nat \<Rightarrow> cloneContext \<Rightarrow> merge_error + (jsstr \<times> json) list" where
  "cloneMergeValue (JArr js) depth context =
     andThen (ensureCloneDepth depth context) (\<lambda>_.
       andThen (mapR (\<lambda>j. cloneMergeValue j (depth + 1) context) js) (\<lambda>js'. Inr (JArr js')))"
| "cloneMergeValue (JObj ps) depth context =
     andThen (ensureCloneDepth depth context) (\<lambda>_.
       andThen (cloneMergeObject ps depth context) (\<lambda>qs. Inr (JObj qs)))"
| "cloneMergeValue j depth context = andThen (ensureCloneDepth depth context) (\<lambda>_. Inr j)"
| "cloneMergeObject ps depth context =
     andThen (ensureCloneDepth depth context) (\<lambda>_.
       foldR (\<lambda>clone (key, j).
         andThen (cloneMergeValue j (depth + 1) context) (\<lambda>j'. Inr (objPut key j' clone))) [] ps)"

fun mergePatch :: "json option \<Rightarrow> json \<Rightarrow> nat \<Rightarrow> merge_error + json" where
  "mergePatch target (JObj ps) depth =
     andThen (ensureCloneDepth depth InApplication) (\<lambda>_.
       andThen (case target of Some (JObj ts) \<Rightarrow> cloneMergeObject ts depth InApplication | _ \<Rightarrow> Inr [])
         (\<lambda>nextTarget.
           andThen
             (foldR (\<lambda>next (memberName, memberValue).
                if memberValue = JNull then
                  Inr (if hasOwnKey next memberName then objDel memberName next else next)
                else
                  (let currentValue = (if hasOwnKey next memberName then map_of next memberName else None)
                   in andThen (mergePatch currentValue memberValue (depth + 1))
                        (\<lambda>merged. Inr (objPut memberName merged next))))
                nextTarget ps)
             (\<lambda>nextTarget'. Inr (JObj nextTarget'))))"
| "mergePatch target patch depth =
     andThen (ensureCloneDepth depth InApplication) (\<lambda>_. cloneMergeValue patch depth InApplication)"

text \<open>\<open>Inr None\<close> is \<open>null\<close>. The parsed document JSON null is \<open>Inr (Some JNull)\<close>.\<close>

definition parseJsonMergePatch :: "heap \<Rightarrow> jsval \<Rightarrow> merge_error + json option" where
  "parseJsonMergePatch h value =
     (if validateMergeValue h value 0 {} \<noteq> None then Inr None
      else (case treeOf (Suc maxMergeDepth) h value of
        None \<Rightarrow> Inr None
      | Some j \<Rightarrow> andThen (cloneMergeValue j 0 InValue) (\<lambda>j'. Inr (Some j'))))"

definition applyJsonMergePatch :: "heap \<Rightarrow> jsval \<Rightarrow> jsval \<Rightarrow> merge_error + json" where
  "applyJsonMergePatch h target patch =
     (case validateMergeValue h target 0 {} of
        Some e \<Rightarrow> Inl (TargetInvalid e)
      | None \<Rightarrow> andThen (validateJsonMergePatch h patch) (\<lambda>_.
          case treeOf (Suc maxMergeDepth) h patch of
            None \<Rightarrow> Inl (PatchInvalid InvalidJsonValue)
          | Some p \<Rightarrow> mergePatch (treeOf (Suc maxMergeDepth) h target) p 0))"

section \<open>Validation and reading\<close>

text \<open>Validation differs from that of JSON Patch in the limit and in the error it names.\<close>

lemma validateMergeValue_None:
  "validateMergeValue h v depth anc = None \<longleftrightarrow> isJsonValue h v (depth + 384) anc"
proof (induction h v depth anc rule: validateMergeValue.induct)
  case (1 h v depth anc)
  show ?case
  proof (cases v)
    case (Ref a)
    have "firstSome (\<lambda>e. validateMergeValue h e (depth + 1) (insert a anc)) vs = None \<longleftrightarrow>
        list_all (\<lambda>e. isJsonValue h e (depth + 384 + 1) (insert a anc)) vs"
      if "depth \<le> 128" "h a = Some (HArr vs)" "a \<notin> anc" for vs
      using "1.IH"(1)[OF _ Ref that(2) refl that(3)] that(1)
      by (auto simp: firstSome_None list_all_iff maxMergeDepth_def)
    moreover have "firstSome (\<lambda>(k, e). validateMergeValue h e (depth + 1) (insert a anc)) ps = None \<longleftrightarrow>
        list_all (\<lambda>(k, e). isJsonValue h e (depth + 384 + 1) (insert a anc)) ps"
      if "depth \<le> 128" "h a = Some (HObj p ps)" "p \<noteq> OtherProto" "a \<notin> anc" for p ps
      using "1.IH"(2)[OF _ Ref that(2) refl that(3,4)] that(1)
      by (auto simp: firstSome_None list_all_iff maxMergeDepth_def)
    ultimately show ?thesis
      unfolding validateMergeValue.simps[of h v] isJsonValue.simps[of h v]
      by (auto simp: Ref maxMergeDepth_def maxPatchDepth_def split: option.split heapobj.split)
  qed (simp_all add: validateMergeValue.simps[of h] isJsonValue.simps[of h] maxMergeDepth_def
      maxPatchDepth_def)
qed

lemma validateMergeValue_iff:
  "validateMergeValue h v 0 {} = None \<longleftrightarrow> (\<exists>j. unfolds h v j \<and> depthLE maxMergeDepth j)"
  using isJsonValue_sound[of h v 384 "{}"] isJsonValue_complete[of h v _ 384 "{}"]
  by (auto simp: validateMergeValue_None ancestorsAbove_def maxMergeDepth_def maxPatchDepth_def)

lemma those_eq_Some: "those xs = Some ys \<longleftrightarrow> xs = map Some ys"
  by (induction xs arbitrary: ys) (auto split: option.splits simp: map_eq_Cons_conv)

lemma treeOf_unfolds: "unfolds h v j \<Longrightarrow> depthLE n j \<Longrightarrow> treeOf (Suc n) h v = Some j"
proof (induction arbitrary: n rule: unfolds.induct)
  case (arr a vs js)
  have "map (treeOf n h) vs = map Some js"
  proof (cases "js = []")
    case False
    with arr.prems obtain m where n: "n = Suc m" "list_all (depthLE m) js" by (cases n) auto
    then show ?thesis
      using arr.IH by (intro nth_equalityI) (auto simp: list_all2_conv_all_nth list_all_length)
  qed (use arr.IH in simp)
  then show ?case using arr.hyps by (simp add: those_eq_Some)
next
  case (obj a p ps qs)
  have "map (\<lambda>(k, e). map_option (Pair k) (treeOf n h e)) ps = map Some qs"
  proof (cases "qs = []")
    case False
    with obj.prems obtain m where n: "n = Suc m" "list_all (\<lambda>(k, j). depthLE m j) qs" by (cases n) auto
    then show ?thesis
      using obj.IH
      by (intro nth_equalityI) (auto simp: list_all2_conv_all_nth list_all_length rel_prod_sel case_prod_beta)
  qed (use obj.IH in simp)
  then show ?case using obj.hyps by (simp add: those_eq_Some)
qed auto

lemma ensureCloneDepth_ok [simp]: "depth \<le> maxMergeDepth \<Longrightarrow> ensureCloneDepth depth c = Inr ()"
  by (simp add: ensureCloneDepth_def)

lemma foldR_total:
  "(\<And>s x. x \<in> set xs \<Longrightarrow> f s x = Inr (g s x)) \<Longrightarrow> foldR f s xs = Inr (foldl g s xs)"
  by (induction xs arbitrary: s) auto

lemma foldR_foldl:
  assumes "\<And>s x. P s \<Longrightarrow> x \<in> set xs \<Longrightarrow> f s x = Inr (g s x) \<and> P (g s x)" and "P s"
  shows "foldR f s xs = Inr (foldl g s xs) \<and> P (foldl g s xs)"
  using assms by (induction xs arbitrary: s) auto

lemma cloneMerge_id:
  "wf_json j \<Longrightarrow> depth \<le> maxMergeDepth \<Longrightarrow> depthLE (maxMergeDepth - depth) j \<Longrightarrow>
    cloneMergeValue j depth c = Inr j"
  "wf_json (JObj ps) \<Longrightarrow> depth \<le> maxMergeDepth \<Longrightarrow> depthLE (maxMergeDepth - depth) (JObj ps) \<Longrightarrow>
    cloneMergeObject ps depth c = Inr ps"
proof (induction j depth c and ps depth c rule: cloneMergeValue_cloneMergeObject.induct)
  case (1 js depth c)
  have "cloneMergeValue j (depth + 1) c = Inr j" if "j \<in> set js" for j
    using 1 that by (cases "js = []") (auto simp: list_all_iff Suc_le_eq)
  then have "mapR (\<lambda>j. cloneMergeValue j (depth + 1) c) js = Inr (map (\<lambda>j. j) js)" by (rule mapR_total)
  with 1 show ?case by simp
next
  case (4 ps depth c)
  have "cloneMergeValue j (depth + 1) c = Inr j" if "(k, j) \<in> set ps" for k j
    using 4(1)[OF _ that refl] 4(2-4) that by (cases "ps = []") (auto simp: list_all_iff Suc_le_eq)
  then have "foldR (\<lambda>clone (key, j). andThen (cloneMergeValue j (depth + 1) c) (\<lambda>j'. Inr (objPut key j' clone)))
      [] ps = Inr (foldl (\<lambda>clone (k, j). objPut k j clone) [] ps)"
    by (intro foldR_total) auto
  also have "\<dots> = Inr ps" using 4(2) by (simp add: foldl_objPut_copy)
  finally show ?case using 4 by simp
qed auto

section \<open>The reference\<close>

text \<open>\<open>MergePatch\<close> of RFC 7396, Section 2.\<close>

fun rfcMerge :: "json option \<Rightarrow> json \<Rightarrow> json" where
  "rfcMerge target (JObj ps) =
     JObj (foldl (\<lambda>acc (k, v). if v = JNull then objDel k acc else objPut k (rfcMerge (map_of acc k) v) acc)
       (case target of Some (JObj ts) \<Rightarrow> ts | _ \<Rightarrow> []) ps)"
| "rfcMerge target patch = patch"

definition mergeMember :: "json \<Rightarrow> json option \<Rightarrow> json option" where
  "mergeMember v old = (if v = JNull then None else Some (rfcMerge old v))"

definition membersOf :: "json option \<Rightarrow> (jsstr \<times> json) list" where
  "membersOf t = (case t of Some (JObj ts) \<Rightarrow> ts | _ \<Rightarrow> [])"

text \<open>The loop over the members is the update loop of the interface \<open>object_map\<close>.\<close>

lemma mergeLoop:
  "foldl (\<lambda>acc (k, v). if v = JNull then objDel k acc else objPut k (rfcMerge (map_of acc k) v) acc) ts ps =
    foldl (\<lambda>m (a, f). case f (objGet a m) of None \<Rightarrow> objDel a m | Some v \<Rightarrow> objPut a v m) ts
      (map (\<lambda>(k, v). (k, mergeMember v)) ps)"
  by (induction ps arbitrary: ts) (auto simp: mergeMember_def objGet_def)

lemma rfcMerge_obj:
  "rfcMerge t (JObj ps) =
    JObj (foldl (\<lambda>m (a, f). case f (objGet a m) of None \<Rightarrow> objDel a m | Some v \<Rightarrow> objPut a v m) (membersOf t)
      (map (\<lambda>(k, v). (k, mergeMember v)) ps))"
  by (simp add: mergeLoop membersOf_def)

lemma map_of_members: "map_of (map (\<lambda>(k, v). (k, f v)) ps) k = map_option f (map_of ps k)"
  by (induction ps) auto

lemma rfcMerge_get:
  assumes "wf_json (JObj ps)" and "rfcMerge t (JObj ps) = JObj rs"
  shows "map_of rs k = (case map_of ps k of
      None \<Rightarrow> map_of (membersOf t) k | Some v \<Rightarrow> mergeMember v (map_of (membersOf t) k))"
proof -
  have "distinct (map fst (map (\<lambda>(k, v). (k, mergeMember v)) ps))"
    using assms(1) by (simp add: keysOrdered_def comp_def case_prod_beta)
  note get = om.updateLoop_get[OF this, of k "membersOf t"]
  have rs: "rs = foldl (\<lambda>m (a, f). case f (objGet a m) of None \<Rightarrow> objDel a m | Some v \<Rightarrow> objPut a v m)
      (membersOf t) (map (\<lambda>(k, v). (k, mergeMember v)) ps)"
    using assms(2) unfolding rfcMerge_obj by (rule json.inject(5)[THEN iffD1, symmetric])
  have "objGet k rs = (case map_option mergeMember (map_of ps k) of
      None \<Rightarrow> objGet k (membersOf t) | Some f \<Rightarrow> f (objGet k (membersOf t)))"
    unfolding rs get map_of_members ..
  then show ?thesis by (cases "map_of ps k") (simp_all add: objGet_def)
qed

lemma wf_membersOf: "(\<And>j. t = Some j \<Longrightarrow> wf_json j) \<Longrightarrow> wf_json (JObj (membersOf t))"
  by (cases t) (auto simp: membersOf_def split: json.split)

lemma foldl_invariant: "(\<And>s x. P s \<Longrightarrow> x \<in> set xs \<Longrightarrow> P (f s x)) \<Longrightarrow> P s \<Longrightarrow> P (foldl f s xs)"
  by (induction xs arbitrary: s) auto

lemma wf_rfcMerge: "wf_json p \<Longrightarrow> (\<And>j. t = Some j \<Longrightarrow> wf_json j) \<Longrightarrow> wf_json (rfcMerge t p)"
proof (induction t p rule: rfcMerge.induct)
  case (1 t ps)
  have "wf_json (JObj (foldl (\<lambda>acc (k, v). if v = JNull then objDel k acc
      else objPut k (rfcMerge (map_of acc k) v) acc) (membersOf t) ps))"
  proof (rule foldl_invariant[where P = "\<lambda>acc. wf_json (JObj acc)"])
    fix acc x assume acc: "wf_json (JObj acc)" and x: "x \<in> set ps"
    obtain k v where kv: "x = (k, v)" by force
    have "wf_json v" using "1.prems"(1) x by (auto simp: kv list_all_iff)
    moreover have "wf_json j" if "map_of acc k = Some j" for j using acc that by (rule wf_json_map_of)
    ultimately have "wf_json (rfcMerge (map_of acc k) v)" if "v \<noteq> JNull"
      using "1.IH"[OF x kv[symmetric] that, of acc] that by auto
    then show "wf_json (JObj (case x of (k, v) \<Rightarrow> if v = JNull then objDel k acc
        else objPut k (rfcMerge (map_of acc k) v) acc))"
      using wf_json_objPut[OF acc] wf_json_objDel[OF acc] by (simp add: kv)
  qed (use "1.prems"(2) in \<open>intro wf_membersOf, blast\<close>)
  then show ?case by (simp add: membersOf_def)
qed auto

section \<open>Refinement\<close>

lemma depthLE_set: "depthLE n (JObj ps) \<longleftrightarrow> (\<forall>(k, j)\<in>set ps. 0 < n \<and> depthLE (n - 1) j)"
  by (cases "ps = []") (auto simp: list_all_iff neq_Nil_conv)

lemma depthLE_objPut:
  "depthLE n (JObj ps) \<Longrightarrow> 0 < n \<Longrightarrow> depthLE (n - 1) v \<Longrightarrow> depthLE n (JObj (objPut k v ps))"
proof -
  have "set (replaceKey k v ps) \<subseteq> insert (k, v) (set ps)"
    by (induction k v ps rule: replaceKey.induct) auto
  then show "depthLE n (JObj ps) \<Longrightarrow> 0 < n \<Longrightarrow> depthLE (n - 1) v \<Longrightarrow> depthLE n (JObj (objPut k v ps))"
    unfolding depthLE_set by (auto simp: objPut_def)
qed

lemma depthLE_objDel: "depthLE n (JObj ps) \<Longrightarrow> depthLE n (JObj (objDel k ps))"
  unfolding depthLE_set by (auto simp: objDel_def)

lemma objDel_absent: "\<not> hasOwnKey ps k \<Longrightarrow> objDel k ps = ps"
  by (force simp: objDel_def hasOwnKey_def filter_id_conv)

text \<open>No depth error, and a result no deeper than the arguments.\<close>

definition fits :: "nat \<Rightarrow> json \<Rightarrow> bool" where
  "fits depth j \<longleftrightarrow> wf_json j \<and> depthLE (maxMergeDepth - depth) j"

lemma fits_get:
  assumes "fits depth (JObj ps)" and "map_of ps k = Some j"
  shows "depth < maxMergeDepth \<and> fits (Suc depth) j"
proof -
  have "(k, j) \<in> set ps" using assms(2) by (rule map_of_SomeD)
  then show ?thesis
    using assms(1) unfolding fits_def depthLE_set by (auto simp: list_all_iff)
qed

lemma fits_put: "fits depth (JObj ps) \<Longrightarrow> depth < maxMergeDepth \<Longrightarrow> fits (Suc depth) v \<Longrightarrow>
    fits depth (JObj (objPut k v ps))"
  unfolding fits_def by (auto intro!: depthLE_objPut wf_json_objPut simp del: wf_json.simps depthLE.simps)

lemma fits_del: "fits depth (JObj ps) \<Longrightarrow> fits depth (JObj (objDel k ps))"
  unfolding fits_def using wf_json_objDel depthLE_objDel by blast

lemma mergePatch_rfc:
  assumes "depth \<le> maxMergeDepth" and "fits depth p" and "\<And>j. t = Some j \<Longrightarrow> fits depth j"
  shows "mergePatch t p depth = Inr (rfcMerge t p) \<and> fits depth (rfcMerge t p)"
  using assms
proof (induction t p depth rule: mergePatch.induct)
  case (1 t ps depth)
  define f where "f = (\<lambda>next (memberName, memberValue).
    if memberValue = JNull then
      Inr (if hasOwnKey next memberName then objDel memberName next else next)
    else
      (let currentValue = (if hasOwnKey next memberName then map_of next memberName else None)
       in andThen (mergePatch currentValue memberValue (depth + 1))
            (\<lambda>merged. Inr (objPut memberName merged next))))"
  define g where "g = (\<lambda>acc (k, v). if v = JNull then objDel k acc else objPut k (rfcMerge (map_of acc k) v) acc)"
  have t: "fits depth (JObj (membersOf t))"
    using "1.prems"(3) by (auto simp: membersOf_def fits_def split: option.split json.split)
  have clone: "(case t of Some (JObj ts) \<Rightarrow> cloneMergeObject ts depth InApplication | _ \<Rightarrow> Inr []) = Inr (membersOf t)"
    using t "1.prems"(1) cloneMerge_id(2)[of "membersOf t" depth InApplication]
    by (auto simp: fits_def membersOf_def split: option.split json.split)
  have step: "f acc x = Inr (g acc x) \<and> fits depth (JObj (g acc x))"
    if acc: "fits depth (JObj acc)" and x: "x \<in> set ps" for acc x
  proof -
    obtain k v where kv: "x = (k, v)" by force
    have v: "fits (Suc depth) v" "depth < maxMergeDepth"
      using "1.prems"(2) x unfolding fits_def depthLE_set by (auto simp: kv list_all_iff)
    have cur: "(if hasOwnKey acc k then map_of acc k else None) = map_of acc k"
      by (auto simp: hasOwnKey_map_of)
    show ?thesis
    proof (cases "v = JNull")
      case True
      then show ?thesis
        using acc objDel_absent[of acc k] by (auto simp: f_def g_def kv intro: fits_del)
    next
      case False
      have "mergePatch (map_of acc k) v (Suc depth) = Inr (rfcMerge (map_of acc k) v) \<and>
          fits (Suc depth) (rfcMerge (map_of acc k) v)"
        using "1.IH"[OF _ _ x kv[symmetric] False refl, of "()" "membersOf t" acc] "1.prems"(1) v clone acc cur
          fits_get[OF acc] by auto
      then show ?thesis
        using False fits_put[OF acc v(2)] cur by (simp add: f_def g_def kv)
    qed
  qed
  from foldR_foldl[where P = "\<lambda>acc. fits depth (JObj acc)" and f = f and g = g, OF step t]
  show ?case
    using clone "1.prems"(1) by (simp add: f_def[symmetric] g_def[symmetric] membersOf_def[symmetric])
qed (simp_all add: fits_def cloneMerge_id del: cloneMergeValue.simps)

lemma applyJsonMergePatch_tree:
  assumes "wfHeap h" and "unfolds h t j" and "depthLE maxMergeDepth j"
    and "unfolds h p q" and "depthLE maxMergeDepth q"
  shows "applyJsonMergePatch h t p = Inr (rfcMerge (Some j) q) \<and> fits 0 (rfcMerge (Some j) q)"
proof -
  have "validateMergeValue h t 0 {} = None" "validateMergeValue h p 0 {} = None"
    using assms validateMergeValue_iff by blast+
  moreover have "fits 0 j" "fits 0 q"
    using assms unfolds_wf by (auto simp: fits_def)
  ultimately show ?thesis
    using mergePatch_rfc[of 0 q "Some j"] treeOf_unfolds[OF assms(2,3)] treeOf_unfolds[OF assms(4,5)]
    by (simp add: applyJsonMergePatch_def validateJsonMergePatch_def)
qed

text \<open>Merging the same patch again changes nothing, not even the order of the members.\<close>

lemma foldl_fixpoint: "(\<And>x. x \<in> set xs \<Longrightarrow> f s x = s) \<Longrightarrow> foldl f s xs = s"
  by (induction xs) auto

lemma objPut_same: "map_of ps k = Some v \<Longrightarrow> objPut k v ps = ps"
  by (simp add: objPut_def hasOwnKey_map_of replaceKey_same)

lemma rfcMerge_idem: "wf_json p \<Longrightarrow> rfcMerge (Some (rfcMerge t p)) p = rfcMerge t p"
proof (induction t p rule: rfcMerge.induct)
  case (1 t ps)
  obtain rs where rs: "rfcMerge t (JObj ps) = JObj rs" by simp
  have "(case x of (k, v) \<Rightarrow> if v = JNull then objDel k rs else objPut k (rfcMerge (map_of rs k) v) rs) = rs"
    if x: "x \<in> set ps" for x
  proof -
    obtain k v where kv: "x = (k, v)" by force
    have v: "map_of ps k = Some v" "wf_json v"
      using "1.prems" x by (auto simp: kv keysOrdered_def list_all_iff)
    have get: "map_of rs k = mergeMember v (map_of (membersOf t) k)"
      using rfcMerge_get[OF "1.prems" rs, of k] v(1) by simp
    show ?thesis
    proof (cases "v = JNull")
      case True
      then have "\<not> hasOwnKey rs k" using get by (simp add: mergeMember_def hasOwnKey_map_of)
      with True show ?thesis by (simp add: kv objDel_absent)
    next
      case False
      then have old: "map_of rs k = Some (rfcMerge (map_of (membersOf t) k) v)"
        using get by (simp add: mergeMember_def)
      have "rfcMerge (map_of rs k) v = rfcMerge (map_of (membersOf t) k) v"
        unfolding old using "1.IH"[OF x kv[symmetric] False v(2)] .
      then show ?thesis using False old by (simp add: kv objPut_same)
    qed
  qed
  then show ?case unfolding rs by (simp add: foldl_fixpoint)
qed auto

section \<open>What a reported cycle means\<close>

definition children :: "heap \<Rightarrow> (nat \<times> nat) set" where
  "children h = {(a, b). (\<exists>vs. h a = Some (HArr vs) \<and> Ref b \<in> set vs) \<or>
     (\<exists>p ps k. h a = Some (HObj p ps) \<and> (k, Ref b) \<in> set ps)}"

lemma validate_cycle:
  "validateMergeValue h v depth anc = Some CyclicReference \<Longrightarrow>
    (\<And>a b. v = Ref b \<Longrightarrow> a \<in> anc \<Longrightarrow> (a, b) \<in> (children h)\<^sup>+) \<Longrightarrow> \<exists>a. (a, a) \<in> (children h)\<^sup>+"
proof (induction h v depth anc rule: validateMergeValue.induct)
  case (1 h v depth anc)
  obtain b where b: "v = Ref b"
    using "1.prems"(1) by (subst (asm) validateMergeValue.simps) (auto split: jsval.splits if_splits)
  show ?case
  proof (cases "b \<in> anc")
    case False
    have step: "\<exists>a. (a, a) \<in> (children h)\<^sup>+"
      if "validateMergeValue h e (depth + 1) (insert b anc) = Some CyclicReference"
        and IH: "(\<And>a c. e = Ref c \<Longrightarrow> a \<in> insert b anc \<Longrightarrow> (a, c) \<in> (children h)\<^sup>+) \<Longrightarrow>
          \<exists>a. (a, a) \<in> (children h)\<^sup>+"
        and child: "\<And>c. e = Ref c \<Longrightarrow> (b, c) \<in> children h" for e
    proof (rule IH)
      fix a c assume e: "e = Ref c" and "a \<in> insert b anc"
      then show "(a, c) \<in> (children h)\<^sup>+"
        using child[OF e] "1.prems"(2)[OF b] by (auto intro: trancl_into_trancl)
    qed
    have d: "\<not> maxMergeDepth < depth"
      using "1.prems"(1) False b by (subst (asm) validateMergeValue.simps) (auto split: if_splits)
    have "(\<exists>vs. h b = Some (HArr vs)) \<or> (\<exists>p ps. h b = Some (HObj p ps) \<and> p \<noteq> OtherProto)"
      using "1.prems"(1) d b
      by (subst (asm) validateMergeValue.simps) (auto split: if_splits option.splits heapobj.splits)
    then show ?thesis
    proof (elim disjE exE conjE)
      fix vs assume vs: "h b = Some (HArr vs)"
      then obtain e where e: "e \<in> set vs"
        "validateMergeValue h e (depth + 1) (insert b anc) = Some CyclicReference"
        using "1.prems"(1) d b False
        by (subst (asm) validateMergeValue.simps) (auto dest!: firstSome_Some)
      show ?thesis
        by (rule step[OF e(2) "1.IH"(1)[OF d b vs refl False e(1,2)]]) (use vs e(1) in \<open>auto simp: children_def\<close>)
    next
      fix p ps assume ps: "h b = Some (HObj p ps)" "p \<noteq> OtherProto"
      then obtain k e where e: "(k, e) \<in> set ps"
        "validateMergeValue h e (depth + 1) (insert b anc) = Some CyclicReference"
        using "1.prems"(1) d b False
        by (subst (asm) validateMergeValue.simps) (auto dest!: firstSome_Some)
      show ?thesis
        by (rule step[OF e(2) "1.IH"(2)[OF d b ps(1) refl ps(2) False e(1) refl e(2)]])
          (use ps e(1) in \<open>auto simp: children_def\<close>)
    qed
  qed (use "1.prems"(2) b in blast)
qed

section \<open>Properties\<close>

text \<open>
  The sample: at \<open>Ref 0\<close> the target \<open>{"a": {"x": 1}, "b": [true]}\<close>, at \<open>Ref 3\<close> the patch
  \<open>{"a": {"x": null, "y": "z"}}\<close>; \<open>Ref 5\<close> is an array that contains itself, and \<open>Ref 6\<close> the merged document.
\<close>

definition mergeHeap :: heap where
  "mergeHeap =
     [0 \<mapsto> HObj ObjectProto [(lit ''a'', Ref 1), (lit ''b'', Ref 2)],
      1 \<mapsto> HObj ObjectProto [(lit ''x'', Num (Fin 1))], 2 \<mapsto> HArr [Bool True],
      3 \<mapsto> HObj ObjectProto [(lit ''a'', Ref 4)],
      4 \<mapsto> HObj ObjectProto [(lit ''x'', Null), (lit ''y'', Str (lit ''z''))],
      5 \<mapsto> HArr [Ref 5],
      6 \<mapsto> HObj ObjectProto [(lit ''a'', Ref 7), (lit ''b'', Ref 2)],
      7 \<mapsto> HObj ObjectProto [(lit ''y'', Str (lit ''z''))]]"

definition mergeTarget :: json where
  "mergeTarget = JObj [(lit ''a'', JObj [(lit ''x'', JNum 1)]), (lit ''b'', JArr [JBool True])]"

definition mergeDoc :: json where
  "mergeDoc = JObj [(lit ''a'', JObj [(lit ''x'', JNull), (lit ''y'', JStr (lit ''z''))])]"

lemma wf_mergeHeap: "wfHeap mergeHeap"
  by (simp add: wfHeap_def mergeHeap_def keysOrdered_def keyBefore_def isIndexKey_def isDigit_def)

lemma merge_sample:
  "unfolds mergeHeap (Ref 0) mergeTarget" "depthLE maxMergeDepth mergeTarget"
  "unfolds mergeHeap (Ref 3) mergeDoc" "depthLE maxMergeDepth mergeDoc"
  by (simp_all add: mergeTarget_def mergeDoc_def unfolds_simps mergeHeap_def maxMergeDepth_def)

lemma merge_cell: "mergeHeap 5 = Some (HArr [Ref 5])"
  by (simp add: mergeHeap_def)

lemmas merge_eval = mergeTarget_def mergeDoc_def objPut_def objDel_def hasOwnKey_def keyBefore_def
  isIndexKey_def isDigit_def

text \<open>Validation accepts exactly the values that denote a JSON tree of at most
  128 nested levels.\<close>

theorem merge_valid_iff:
  "validateMergeValue h v 0 {} = None \<longleftrightarrow> (\<exists>j. unfolds h v j \<and> depthLE maxMergeDepth j)"
  by (rule validateMergeValue_iff)

text \<open>C3 (merge_apply_refines): On a target and a patch that validation accepts, the application
  returns what the pseudo-code of RFC 7396 gives; none of its depth checks fails.\<close>

theorem merge_apply_refines:
  assumes "wfHeap h" and "unfolds h t j" and "depthLE maxMergeDepth j"
    and "unfolds h p q" and "depthLE maxMergeDepth q"
  shows "applyJsonMergePatch h t p = Inr (rfcMerge (Some j) q)"
  using applyJsonMergePatch_tree[OF assms] by simp

theorem merge_apply_refines_witness:
  "applyJsonMergePatch mergeHeap (Ref 0) (Ref 3) =
    Inr (JObj [(lit ''a'', JObj [(lit ''y'', JStr (lit ''z''))]), (lit ''b'', JArr [JBool True])])"
  using merge_apply_refines[OF wf_mergeHeap merge_sample] by (simp add: merge_eval)

text \<open>Member by member: a null of an object patch deletes, another value of the
  patch is merged with the target's member of that name (or with nothing), and a member the patch
  does not name keeps its value; a target that is not an object counts as an empty one.\<close>

theorem merge_members:
  assumes "wfHeap h" and "unfolds h t j" and "depthLE maxMergeDepth j"
    and "unfolds h p (JObj ps)" and "depthLE maxMergeDepth (JObj ps)"
  shows "\<exists>rs. applyJsonMergePatch h t p = Inr (JObj rs) \<and> (\<forall>k. map_of rs k =
    (case map_of ps k of
       None \<Rightarrow> (case j of JObj ts \<Rightarrow> map_of ts k | _ \<Rightarrow> None)
     | Some v \<Rightarrow> if v = JNull then None
         else Some (rfcMerge (case j of JObj ts \<Rightarrow> map_of ts k | _ \<Rightarrow> None) v)))"
proof -
  obtain rs where rs: "rfcMerge (Some j) (JObj ps) = JObj rs" by simp
  have old: "map_of (membersOf (Some j)) k = (case j of JObj ts \<Rightarrow> map_of ts k | _ \<Rightarrow> None)" for k
    by (simp add: membersOf_def split: json.split)
  have "applyJsonMergePatch h t p = Inr (JObj rs)"
    using applyJsonMergePatch_tree[OF assms] rs by simp
  moreover have "wf_json (JObj ps)" using unfolds_wf assms(1,4) by blast
  ultimately show ?thesis
    using rfcMerge_get[OF _ rs] unfolding old mergeMember_def by blast
qed

theorem merge_members_witness:
  "\<exists>rs. applyJsonMergePatch mergeHeap (Ref 0) (Ref 3) = Inr (JObj rs) \<and>
    map_of rs (lit ''b'') = Some (JArr [JBool True]) \<and> map_of rs (lit ''c'') = None"
  using merge_members[OF wf_mergeHeap merge_sample(1,2), of "Ref 3"] merge_sample(3,4)
  unfolding mergeDoc_def mergeTarget_def by fastforce

text \<open>The result is a well-formed JSON tree within the depth limit, so it can
  be the target of the next patch.\<close>

theorem merge_result_valid:
  assumes "wfHeap h" and "applyJsonMergePatch h t p = Inr r"
  shows "wf_json r \<and> depthLE maxMergeDepth r"
proof -
  have "validateMergeValue h t 0 {} = None" "validateMergeValue h p 0 {} = None"
    using assms(2) by (auto simp: applyJsonMergePatch_def validateJsonMergePatch_def split: option.splits)
  then obtain j q where "unfolds h t j" "depthLE maxMergeDepth j" "unfolds h p q" "depthLE maxMergeDepth q"
    using validateMergeValue_iff by blast
  from applyJsonMergePatch_tree[OF assms(1) this] assms(2) show ?thesis by (simp add: fits_def)
qed

theorem merge_result_valid_witness: "wf_json mergeTarget \<and> depthLE maxMergeDepth mergeTarget"
proof (rule merge_result_valid[OF wf_mergeHeap])
  have "rfcMerge (Some mergeTarget) mergeTarget = mergeTarget" by (simp add: merge_eval)
  then show "applyJsonMergePatch mergeHeap (Ref 0) (Ref 0) = Inr mergeTarget"
    using applyJsonMergePatch_tree[OF wf_mergeHeap merge_sample(1,2,1,2)] by simp
qed

text \<open>Applying the same patch a second time gives the same result, members in
  the same order: from the place in the heap where the first result was stored, or any other value
  that denotes it.\<close>

theorem merge_idempotent:
  assumes "wfHeap h" and "applyJsonMergePatch h t p = Inr r" and "unfolds h t' r"
  shows "applyJsonMergePatch h t' p = Inr r"
proof -
  have "validateMergeValue h t 0 {} = None" "validateMergeValue h p 0 {} = None"
    using assms(2) by (auto simp: applyJsonMergePatch_def validateJsonMergePatch_def split: option.splits)
  then obtain j q where j: "unfolds h t j" "depthLE maxMergeDepth j" and q: "unfolds h p q" "depthLE maxMergeDepth q"
    using validateMergeValue_iff by blast
  have r: "r = rfcMerge (Some j) q" "depthLE maxMergeDepth r"
    using applyJsonMergePatch_tree[OF assms(1) j q] assms(2) by (auto simp: fits_def)
  have "wf_json q" using unfolds_wf q(1) assms(1) by blast
  then show ?thesis
    using applyJsonMergePatch_tree[OF assms(1) assms(3) r(2) q] rfcMerge_idem[of q "Some j"] r(1) by simp
qed

theorem merge_idempotent_witness:
  "applyJsonMergePatch mergeHeap (Ref 6) (Ref 3) =
    Inr (JObj [(lit ''a'', JObj [(lit ''y'', JStr (lit ''z''))]), (lit ''b'', JArr [JBool True])])"
proof (rule merge_idempotent[OF wf_mergeHeap])
  show "applyJsonMergePatch mergeHeap (Ref 0) (Ref 3) =
      Inr (JObj [(lit ''a'', JObj [(lit ''y'', JStr (lit ''z''))]), (lit ''b'', JArr [JBool True])])"
    using applyJsonMergePatch_tree[OF wf_mergeHeap merge_sample] by (simp add: merge_eval)
qed (simp add: unfolds_simps mergeHeap_def)

text \<open>When validation reports a cyclic reference, the heap has a cycle: an
  array or object that is reached again from its own entries. Sharing alone is never reported.\<close>

theorem merge_cycle_reported:
  "validateMergeValue h v 0 {} = Some CyclicReference \<Longrightarrow> \<exists>a. (a, a) \<in> (children h)\<^sup>+"
  by (rule validate_cycle) auto

theorem merge_cycle_reported_witness: "\<exists>a. (a, a) \<in> (children mergeHeap)\<^sup>+"
proof (rule merge_cycle_reported)
  show "validateMergeValue mergeHeap (Ref 5) 0 {} = Some CyclicReference"
    using merge_cell by (simp add: validateMergeValue.simps[of mergeHeap "Ref 5"] maxMergeDepth_def)
qed

text \<open>Parsing returns the document the value denotes, cloned, exactly when there is
  one within the depth limit, and null otherwise; it never throws.\<close>

theorem merge_parse_iff:
  assumes "wfHeap h"
  shows "parseJsonMergePatch h v \<in> range Inr \<and>
    (parseJsonMergePatch h v = Inr (Some j) \<longleftrightarrow> unfolds h v j \<and> depthLE maxMergeDepth j)"
proof (cases "validateMergeValue h v 0 {} = None")
  case True
  then obtain i where i: "unfolds h v i" "depthLE maxMergeDepth i" using validateMergeValue_iff by blast
  have "cloneMergeValue i 0 InValue = Inr i"
    using cloneMerge_id(1)[of i 0 InValue] unfolds_wf[OF i(1) assms] i(2) by simp
  then have "parseJsonMergePatch h v = Inr (Some i)"
    using treeOf_unfolds[OF i] True by (simp add: parseJsonMergePatch_def del: treeOf.simps)
  moreover have "unfolds h v j \<and> depthLE maxMergeDepth j \<longleftrightarrow> j = i" using i unfolds_det by blast
  ultimately show ?thesis by auto
next
  case False
  then have "parseJsonMergePatch h v = Inr None" by (simp add: parseJsonMergePatch_def)
  moreover have "\<not> (unfolds h v j \<and> depthLE maxMergeDepth j)"
    using False unfolding validateMergeValue_iff by blast
  ultimately show ?thesis by simp
qed

theorem merge_parse_iff_witness: "parseJsonMergePatch mergeHeap (Ref 3) = Inr (Some mergeDoc)"
  using merge_parse_iff[OF wf_mergeHeap, of "Ref 3" mergeDoc] merge_sample(3,4) by blast

end
