(* ===== verification/JsonPathLexer.thy ===== *)
theory JsonPathLexer
  imports JsNumber
begin

text \<open>
  The lexer of JSONPath (RFC 9535), \<open>src/jsonpath/lexer.ts\<close> and \<open>tokens.ts\<close>. The source walks the
  input with a position; here the position goes with the rest of the input behind it. A literal
  that cannot be read is \<open>Inl p\<close> with the position the source records for the message. The lexer
  looks at one UTF-16 code unit at a time.
\<close>

section \<open>Tokens\<close>

datatype tokenType =
    ROOT | CURRENT | DOT | DOTDOT | LBRACKET | RBRACKET | LPAREN | RPAREN | COLON | COMMA
  | WILDCARD | QUESTION | NOT_TOK | AND_TOK | OR_TOK | EQ_TOK | NE_TOK | LT_TOK | LE_TOK | GT_TOK | GE_TOK
  | STRING jsstr
  | NUMBER jsnum jsstr          \<comment> \<open>value and raw text\<close>
  | TRUE_TOK | FALSE_TOK | NULL_TOK
  | NAME jsstr
  | EOF

record token =
  ttype :: tokenType
  pos :: nat

datatype lex_error =
    InvalidDescendantShorthand nat
  | InvalidDotShorthand nat
  | InvalidString nat
  | InvalidNumber nat
  | UnexpectedCharacter cu nat

definition I_JSON_MAX :: int where
  "I_JSON_MAX = 2 ^ 53 - 1"

definition I_JSON_MIN :: int where
  "I_JSON_MIN = - (2 ^ 53) + 1"

section \<open>Characters\<close>

definition isWhitespaceChar :: "cu \<Rightarrow> bool" where
  "isWhitespaceChar c \<longleftrightarrow> c = 32 \<or> c = 9 \<or> c = 10 \<or> c = 13"

definition isNameFirst :: "cu \<Rightarrow> bool" where
  "isNameFirst c \<longleftrightarrow>
     (0x41 \<le> c \<and> c \<le> 0x5A) \<or> (0x61 \<le> c \<and> c \<le> 0x7A) \<or> c = 0x5F \<or>
     (0x80 \<le> c \<and> c \<le> 0xD7FF) \<or> (0xE000 \<le> c \<and> c \<le> 0x10FFFF)"

definition isNameChar :: "cu \<Rightarrow> bool" where
  "isNameChar c \<longleftrightarrow> isNameFirst c \<or> (0x30 \<le> c \<and> c \<le> 0x39)"

text \<open>The test against four hexadecimal digits.\<close>

definition isHex4 :: "jsstr \<Rightarrow> bool" where
  "isHex4 s \<longleftrightarrow> length s = 4 \<and> list_all isHexDigit s"

section \<open>Names, strings and numbers\<close>

definition readName :: "jsstr \<Rightarrow> jsstr" where
  "readName cs = takeWhile isNameChar cs"

definition simpleEscape :: "cu \<Rightarrow> cu option" where
  "simpleEscape c =
     (if c = cu (CHR ''b'') then Some 8
      else if c = cu (CHR ''f'') then Some 12
      else if c = cu (CHR ''n'') then Some 10
      else if c = cu (CHR ''r'') then Some 13
      else if c = cu (CHR ''t'') then Some 9
      else if c = cu (CHR ''/'') then Some 47
      else if c = 92 then Some 92
      else if c = 34 then Some 34
      else if c = 39 then Some 39
      else None)"

text \<open>After \<open>backslash u\<close>: the decoded units and how many units of input they took.\<close>

definition readUnicodeEscape :: "nat \<Rightarrow> jsstr \<Rightarrow> nat + (jsstr \<times> nat)" where
  "readUnicodeEscape p cs =
     (let hex = take 4 cs
      in if \<not> isHex4 hex then Inl p
         else
           let codePoint = parseHex hex; rest = drop 4 cs
           in if 0xD800 \<le> codePoint \<and> codePoint \<le> 0xDBFF then
                (if take 2 rest \<noteq> [92, cu (CHR ''u'')] then Inl (p + 4)
                 else
                   let lowHex = take 4 (drop 2 rest)
                   in if \<not> isHex4 lowHex then Inl (p + 6)
                      else
                        let low = parseHex lowHex
                        in if low < 0xDC00 \<or> low > 0xDFFF then Inl (p + 6)
                           else Inr (fromCodePoint
                                  (0x10000 + (codePoint - 0xD800) * 2 ^ 10 + (low - 0xDC00)), 10))
              else Inr (fromCodePoint codePoint, 4))"

text \<open>\<open>readString\<close> from behind the opening quote: the string, the position and input behind the closing one.\<close>

function readString :: "cu \<Rightarrow> nat \<Rightarrow> jsstr \<Rightarrow> jsstr \<Rightarrow> nat + (jsstr \<times> nat \<times> jsstr)" where
  "readString quote p [] result = Inl p"
| "readString quote p (ch # cs) result =
     (if ch = quote then Inr (result, p + 1, cs)
      else if ch = 92 then
        (case cs of
           [] \<Rightarrow> Inl (p + 1)
         | escaped # rest \<Rightarrow>
             (case simpleEscape escaped of
                Some c \<Rightarrow> readString quote (p + 2) rest (result @ [c])
              | None \<Rightarrow>
                  if escaped = cu (CHR ''u'') then
                    andThen (readUnicodeEscape (p + 2) rest) (\<lambda>(units, n).
                      readString quote (p + 2 + n) (drop n rest) (result @ units))
                  else Inl (p + 1)))
      else if ch \<le> 0x1F then Inl p
      else readString quote (p + 1) cs (result @ [ch]))"
  by pat_completeness auto
termination
  by (relation "measure (\<lambda>(q, p, cs, r). length cs)") auto

definition startsDigit :: "jsstr \<Rightarrow> bool" where
  "startsDigit cs \<longleftrightarrow> (case cs of [] \<Rightarrow> False | c # cs' \<Rightarrow> isDigit c)"

text \<open>The optional fraction and exponent at position \<open>p\<close>, with the number of units read.\<close>

definition readFraction :: "nat \<Rightarrow> jsstr \<Rightarrow> nat + (jsstr option \<times> nat)" where
  "readFraction p cs =
     (if cs \<noteq> [] \<and> hd cs = 46 then
        (if \<not> startsDigit (tl cs) then Inl (p + 1)
         else let ds = takeWhile isDigit (tl cs) in Inr (Some ds, 1 + length ds))
      else Inr (None, 0))"

definition readExponent :: "nat \<Rightarrow> jsstr \<Rightarrow> nat + (int option \<times> nat)" where
  "readExponent p cs =
     (if cs \<noteq> [] \<and> (hd cs = 101 \<or> hd cs = 69) then
        (let cs1 = tl cs;
             sgn = (if cs1 \<noteq> [] \<and> (hd cs1 = 43 \<or> hd cs1 = 45) then 1 else 0);
             cs2 = drop sgn cs1
         in if \<not> startsDigit cs2 then Inl (p + 1 + sgn)
            else let ds = takeWhile isDigit cs2; e = int (parseDec ds)
                 in Inr (Some (if sgn = 1 \<and> hd cs1 = 45 then - e else e), 1 + sgn + length ds))
      else Inr (None, 0))"

text \<open>The integer part at position \<open>p\<close>, behind the sign.\<close>

definition readIntegerPart :: "nat \<Rightarrow> jsstr \<Rightarrow> nat + jsstr" where
  "readIntegerPart p cs =
     (case cs of
        [] \<Rightarrow> Inl p
      | firstDigit # rest \<Rightarrow>
          if firstDigit = 48 then (if startsDigit rest then Inl (p + 1) else Inr [48])
          else if isDigit firstDigit then Inr (takeWhile isDigit cs)
          else Inl p)"

text \<open>\<open>readNumber\<close>: value, and the number of units of the raw text.\<close>

definition readNumber :: "nat \<Rightarrow> jsstr \<Rightarrow> nat + (jsnum \<times> nat)" where
  "readNumber start cs =
     (let neg = (cs \<noteq> [] \<and> hd cs = 45); sign = (if neg then 1 else 0)
      in andThen (readIntegerPart (start + sign) (drop sign cs)) (\<lambda>ip.
           let n1 = sign + length ip
           in andThen (readFraction (start + n1) (drop n1 cs)) (\<lambda>(frac, n2).
                andThen (readExponent (start + n1 + n2) (drop (n1 + n2) cs)) (\<lambda>(ex, n3).
                  let num = numberOfParts neg ip (case frac of None \<Rightarrow> [] | Some fp \<Rightarrow> fp)
                              (case ex of None \<Rightarrow> 0 | Some e \<Rightarrow> e)
                  in if \<not> isFiniteNum num then Inl start
                     else if frac = None \<and> ex = None \<and>
                            (num < Fin (of_int I_JSON_MIN) \<or> Fin (of_int I_JSON_MAX) < num)
                     then Inl start
                     else Inr (num, n1 + n2 + n3)))))"

section \<open>The tokenizer\<close>

text \<open>The tokens of one character that the \<open>switch\<close> handles without a further test.\<close>

definition singleCharToken :: "cu \<Rightarrow> tokenType option" where
  "singleCharToken ch =
     map_of (zip (lit ''$@[]():,*?!<>'')
       [ROOT, CURRENT, LBRACKET, RBRACKET, LPAREN, RPAREN, COLON, COMMA, WILDCARD, QUESTION, NOT_TOK,
        LT_TOK, GT_TOK]) ch"

definition twoCharTokens :: "(jsstr \<times> tokenType) list" where
  "twoCharTokens =
     [(lit ''&&'', AND_TOK), (lit ''||'', OR_TOK), (lit ''=='', EQ_TOK), (lit ''!='', NE_TOK),
      (lit ''<='', LE_TOK), (lit ''>='', GE_TOK)]"

definition keywordOrName :: "jsstr \<Rightarrow> tokenType" where
  "keywordOrName name =
     (if name = lit ''true'' then TRUE_TOK
      else if name = lit ''false'' then FALSE_TOK
      else if name = lit ''null'' then NULL_TOK
      else NAME name)"

text \<open>One round of the loop of \<open>tokenize\<close> at a character that is not white space: the token and how
  many units it takes.\<close>

definition nextToken :: "nat \<Rightarrow> jsstr \<Rightarrow> lex_error + (tokenType \<times> nat)" where
  "nextToken p cs =
     (let ch = hd cs; next = tl cs
      in if ch = 46 \<and> next \<noteq> [] \<and> hd next = 46 then
           (if tl next \<noteq> [] \<and> isWhitespaceChar (hd (tl next)) then Inl (InvalidDescendantShorthand (p + 2))
            else Inr (DOTDOT, 2))
         else case map_of twoCharTokens (take 2 cs) of
           Some t \<Rightarrow> Inr (t, 2)
         | None \<Rightarrow>
             if ch = 46 then
               (if next \<noteq> [] \<and> isWhitespaceChar (hd next) then Inl (InvalidDotShorthand (p + 1))
                else Inr (DOT, 1))
             else case singleCharToken ch of
               Some t \<Rightarrow> Inr (t, 1)
             | None \<Rightarrow>
                 if ch = 34 \<or> ch = 39 then
                   (case readString ch (p + 1) next [] of
                      Inl q \<Rightarrow> Inl (InvalidString q)
                    | Inr (s, q, rest) \<Rightarrow> Inr (STRING s, q - p))
                 else if ch = 45 \<or> isDigit ch then
                   (case readNumber p cs of
                      Inl q \<Rightarrow> Inl (InvalidNumber q)
                    | Inr (num, n) \<Rightarrow> Inr (NUMBER num (take n cs), n))
                 else if isNameFirst ch then
                   (let name = readName cs in Inr (keywordOrName name, length name))
                 else Inl (UnexpectedCharacter ch p))"

text \<open>A token takes at least one unit, and never more than there are.\<close>

lemma readUnicodeEscape_length: "readUnicodeEscape p cs = Inr (us, n) \<Longrightarrow> n \<le> length cs"
  by (auto simp: readUnicodeEscape_def isHex4_def Let_def split: if_splits)

lemma readString_pos:
  "readString q p cs r = Inr (s, p', rest) \<Longrightarrow> p < p' \<and> p' + length rest = p + length cs"
proof (induction q p cs r rule: readString.induct)
  case (2 quote p ch cs result)
  show ?case
  proof (cases "ch \<noteq> quote \<and> ch = 92")
    case True
    then obtain escaped rest' where cs: "cs = escaped # rest'" using 2(4) by (cases cs) auto
    show ?thesis
    proof (cases "simpleEscape escaped")
      case (Some c)
      then show ?thesis using 2(2)[OF _ _ cs Some] 2(4) True by (auto simp: cs)
    next
      case None
      with 2(4) True obtain us n where u: "escaped = cu (CHR ''u'')"
        "readUnicodeEscape (p + 2) rest' = Inr (us, n)"
        "readString quote (p + 2 + n) (drop n rest') (result @ us) = Inr (s, p', rest)"
        by (auto simp: cs err_simps split: if_splits)
      have "p + 2 + n < p' \<and> p' + length rest = p + 2 + n + length (drop n rest')"
        by (rule 2(1)[OF _ _ cs None u(1,2) refl u(3)]) (use True in auto)
      moreover have "n \<le> length rest'" using readUnicodeEscape_length u(2) by blast
      ultimately show ?thesis by (auto simp: cs)
    qed
  next
    case False
    then show ?thesis using 2(3) 2(4) by (auto split: if_splits)
  qed
qed auto

lemma takeWhile_length: "length (takeWhile P xs) \<le> length xs"
  by (rule length_takeWhile_le)

lemma readFraction_length: "readFraction p cs = Inr (f, n) \<Longrightarrow> n \<le> length cs"
  using takeWhile_length[of isDigit "tl cs"]
  by (cases cs) (auto simp: readFraction_def Let_def split: if_splits)

lemma readExponent_length: "readExponent p cs = Inr (e, n) \<Longrightarrow> n \<le> length cs"
  using takeWhile_length[of isDigit "tl cs"] takeWhile_length[of isDigit "tl (tl cs)"]
  by (cases cs; cases "tl cs") (auto simp: readExponent_def Let_def startsDigit_def split: if_splits)

lemma readIntegerPart_length: "readIntegerPart p cs = Inr ip \<Longrightarrow> 0 < length ip \<and> length ip \<le> length cs"
  using takeWhile_length[of isDigit "tl cs"]
  by (cases cs) (auto simp: readIntegerPart_def split: if_splits)

lemma readNumber_parts:
  assumes "readNumber p cs = Inr (v, n)"
  obtains sign ip frac n2 ex n3 where
    "sign = (if cs \<noteq> [] \<and> hd cs = 45 then 1 else 0)"
    "readIntegerPart (p + sign) (drop sign cs) = Inr ip"
    "readFraction (p + (sign + length ip)) (drop (sign + length ip) cs) = Inr (frac, n2)"
    "readExponent (p + (sign + length ip) + n2) (drop (sign + length ip + n2) cs) = Inr (ex, n3)"
    "n = sign + length ip + n2 + n3"
    "frac = None \<Longrightarrow> ex = None \<Longrightarrow> \<not> v < Fin (of_int I_JSON_MIN) \<and> \<not> Fin (of_int I_JSON_MAX) < v"
proof -
  define sign :: nat where "sign = (if cs \<noteq> [] \<and> hd cs = 45 then 1 else 0)"
  obtain ip where ip: "readIntegerPart (p + sign) (drop sign cs) = Inr ip"
    using assms unfolding readNumber_def sign_def[symmetric] Let_def by (auto simp: err_simps)
  obtain frac n2 where f: "readFraction (p + (sign + length ip)) (drop (sign + length ip) cs) = Inr (frac, n2)"
    using assms ip unfolding readNumber_def sign_def[symmetric] Let_def by (auto simp: err_simps)
  obtain ex n3 where
    e: "readExponent (p + (sign + length ip) + n2) (drop (sign + length ip + n2) cs) = Inr (ex, n3)"
    using assms ip f unfolding readNumber_def sign_def[symmetric] Let_def by (auto simp: err_simps)
  show thesis
    by (rule that[OF sign_def ip f e])
      (use assms ip f e in \<open>unfold readNumber_def sign_def[symmetric] Let_def, auto split: if_splits\<close>)
qed

lemma readNumber_length: "readNumber p cs = Inr (v, n) \<Longrightarrow> 0 < n \<and> n \<le> length cs"
proof (erule readNumber_parts)
  fix sign :: nat and ip frac n2 ex n3
  assume sign: "sign = (if cs \<noteq> [] \<and> hd cs = 45 then 1 else 0)"
    and i: "readIntegerPart (p + sign) (drop sign cs) = Inr ip"
    and f: "readFraction (p + (sign + length ip)) (drop (sign + length ip) cs) = Inr (frac, n2)"
    and e: "readExponent (p + (sign + length ip) + n2) (drop (sign + length ip + n2) cs) = Inr (ex, n3)"
    and n: "n = sign + length ip + n2 + n3"
  have "sign \<le> length cs" by (cases cs) (auto simp: sign)
  then show ?thesis
    using readIntegerPart_length[OF i] readFraction_length[OF f] readExponent_length[OF e] n by auto
qed

lemma isNameFirst_isNameChar: "isNameFirst c \<Longrightarrow> isNameChar c"
  by (simp add: isNameChar_def)

lemma twoCharTokens_length: "map_of twoCharTokens s = Some t \<Longrightarrow> length s = 2 \<and> t \<noteq> EOF"
  by (drule map_of_SomeD) (auto simp: twoCharTokens_def)

lemma singleCharToken_not_EOF: "singleCharToken c = Some t \<Longrightarrow> t \<noteq> EOF"
  unfolding singleCharToken_def by (drule map_of_SomeD) (auto dest!: set_zip_rightD)

definition tokenFits :: "jsstr \<Rightarrow> lex_error + (tokenType \<times> nat) \<Rightarrow> bool" where
  "tokenFits cs r \<longleftrightarrow> (\<forall>t n. r = Inr (t, n) \<longrightarrow> 0 < n \<and> n \<le> length cs \<and> t \<noteq> EOF)"

lemma tokenFits_simps [simp]:
  "tokenFits cs (Inl e)" "tokenFits cs (Inr (t, n)) \<longleftrightarrow> 0 < n \<and> n \<le> length cs \<and> t \<noteq> EOF"
  by (auto simp: tokenFits_def)

lemma tokenFits_if: "(b \<Longrightarrow> tokenFits cs x) \<Longrightarrow> (\<not> b \<Longrightarrow> tokenFits cs y) \<Longrightarrow> tokenFits cs (if b then x else y)"
  by simp

lemma tokenFits_option: "(z = None \<Longrightarrow> tokenFits cs x) \<Longrightarrow> (\<And>t. z = Some t \<Longrightarrow> tokenFits cs (f t)) \<Longrightarrow>
    tokenFits cs (case z of None \<Rightarrow> x | Some t \<Rightarrow> f t)"
  by (simp split: option.split)

lemma tokenFits_nextToken:
  assumes "cs \<noteq> []"
  shows "tokenFits cs (nextToken p cs)"
proof -
  have len: "length (tl cs) < length cs" using assms by simp
  have str: "tokenFits cs (case readString (hd cs) (p + 1) (tl cs) [] of
      Inl q \<Rightarrow> Inl (InvalidString q) | Inr (s, q, rest) \<Rightarrow> Inr (STRING s, q - p))"
    using readString_pos[of "hd cs" "p + 1" "tl cs" "[]"] len by (fastforce split: sum.split)
  have num: "tokenFits cs (case readNumber p cs of
      Inl q \<Rightarrow> Inl (InvalidNumber q) | Inr (num, n) \<Rightarrow> Inr (NUMBER num (take n cs), n))"
    using readNumber_length[of p cs] by (auto split: sum.split)
  have name: "tokenFits cs (Inr (keywordOrName (readName cs), length (readName cs)))" if "isNameFirst (hd cs)"
    using assms that isNameFirst_isNameChar takeWhile_length[of isNameChar cs]
    by (cases cs) (auto simp: readName_def keywordOrName_def)
  have two: "tokenFits cs (Inr (t, 2))" if "map_of twoCharTokens (take 2 cs) = Some t" for t
    using twoCharTokens_length[OF that] by auto
  have one: "tokenFits cs (Inr (t, 1))" if "t \<noteq> EOF" for t
    using assms that by (cases cs) auto
  have dots: "tokenFits cs (Inr (DOTDOT, 2))" if "hd cs = 46 \<and> tl cs \<noteq> [] \<and> hd (tl cs) = 46"
    using that by (cases cs; cases "tl cs") auto
  show ?thesis
    unfolding nextToken_def Let_def
    by (intro tokenFits_if tokenFits_option tokenFits_simps(1) str num name two one dots)
      (auto dest: singleCharToken_not_EOF)
qed

lemma nextToken_length: "nextToken p cs = Inr (t, n) \<Longrightarrow> cs \<noteq> [] \<Longrightarrow> 0 < n \<and> n \<le> length cs \<and> t \<noteq> EOF"
  using tokenFits_nextToken[of cs p] by (simp add: tokenFits_def)

function tokenize :: "nat \<Rightarrow> jsstr \<Rightarrow> lex_error + token list" where
  "tokenize p cs =
     (let ws = takeWhile isWhitespaceChar cs; p0 = p + length ws; rest = dropWhile isWhitespaceChar cs
      in if rest = [] then Inr [\<lparr>ttype = EOF, pos = p0\<rparr>]
         else andThen (nextToken p0 rest) (\<lambda>(t, n).
           andThen (tokenize (p0 + n) (drop n rest)) (\<lambda>ts. Inr (\<lparr>ttype = t, pos = p0\<rparr> # ts))))"
  by pat_completeness auto
termination
proof (relation "measure (\<lambda>(p, cs). length cs)", simp)
  fix p cs ws p0 rest x t n
  assume a: "ws = takeWhile isWhitespaceChar cs" "p0 = p + length ws" "rest = dropWhile isWhitespaceChar cs"
    "rest \<noteq> []" "nextToken p0 rest = Inr x" "(t, n) = x"
  then have "0 < n" using nextToken_length[of p0 rest t n] by auto
  moreover have "length rest \<le> length cs" using a(3) length_dropWhile_le by blast
  ultimately show "((p0 + n, drop n rest), p, cs) \<in> measure (\<lambda>(p, cs). length cs)"
    using a(4) by (cases rest) auto
qed

declare tokenize.simps [simp del]

definition lexer :: "jsstr \<Rightarrow> lex_error + token list" where
  "lexer input = tokenize 0 input"

section \<open>The shape of a token list\<close>

text \<open>What the parser relies on: one \<open>EOF\<close>, at the end, and increasing positions.\<close>

definition wfTokens :: "token list \<Rightarrow> bool" where
  "wfTokens ts \<longleftrightarrow> ts \<noteq> [] \<and> ttype (last ts) = EOF \<and> (\<forall>t\<in>set (butlast ts). ttype t \<noteq> EOF) \<and>
     sorted_wrt (<) (map pos ts)"

lemma wfTokens_Cons:
  "wfTokens ts \<Longrightarrow> ttype t \<noteq> EOF \<Longrightarrow> (\<forall>u\<in>set ts. pos t < pos u) \<Longrightarrow> wfTokens (t # ts)"
  by (auto simp: wfTokens_def)

lemma tokenize_wf:
  "tokenize p cs = Inr ts \<Longrightarrow> wfTokens ts \<and> (\<forall>t\<in>set ts. p \<le> pos t \<and> pos t \<le> p + length cs)"
proof (induction p cs arbitrary: ts rule: tokenize.induct)
  case (1 p cs)
  define ws where "ws = takeWhile isWhitespaceChar cs"
  define rest where "rest = dropWhile isWhitespaceChar cs"
  have len: "length ws + length rest = length cs"
    unfolding ws_def rest_def by (metis length_append takeWhile_dropWhile_id)
  show ?case
  proof (cases "rest = []")
    case True
    with 1(2) have "ts = [\<lparr>ttype = EOF, pos = p + length ws\<rparr>]"
      unfolding tokenize.simps[of p cs] Let_def ws_def[symmetric] rest_def[symmetric] by simp
    with len show ?thesis by (simp add: wfTokens_def)
  next
    case False
    from 1(2) obtain t n us where t: "nextToken (p + length ws) rest = Inr (t, n)"
      "tokenize (p + length ws + n) (drop n rest) = Inr us" "ts = \<lparr>ttype = t, pos = p + length ws\<rparr> # us"
      unfolding tokenize.simps[of p cs] Let_def ws_def[symmetric] rest_def[symmetric]
      using False by (auto simp: err_simps)
    have n: "0 < n \<and> n \<le> length rest \<and> t \<noteq> EOF" using nextToken_length[OF t(1) False] .
    have "wfTokens us \<and> (\<forall>u\<in>set us. p + length ws + n \<le> pos u \<and>
        pos u \<le> p + length ws + n + length (drop n rest))"
      by (rule 1(1)[OF ws_def refl rest_def False t(1) refl t(2)])
    with n len t(3) show ?thesis by (force intro!: wfTokens_Cons)
  qed
qed

lemma lexer_wf: "lexer input = Inr ts \<Longrightarrow> wfTokens ts"
  using tokenize_wf[of 0 input ts] by (simp add: lexer_def)

end
