(* ===== verification/JsonPathSyntax.thy ===== *)
theory JsonPathSyntax
  imports JsonPathLexer
begin

text \<open>
  The abstract syntax of JSONPath queries, \<open>src/types/jsonpath.ts\<close>: one datatype per interface,
  one constructor per variant of a union. The indices of selectors are JavaScript numbers that are
  integers, hence \<open>int\<close>. \<open>wfQuery\<close> is what the parser promises of its result.
\<close>

datatype rootId = DollarRoot | AtRoot

datatype functionName = LengthFn | CountFn | MatchFn | SearchFn | ValueFn

datatype comparisonOp = EqOp | NeOp | LtOp | LeOp | GtOp | GeOp

datatype literal = StringLiteral jsstr | NumberLiteral jsnum | BoolLiteral bool | NullLiteral

datatype query = Query rootId "segment list"
  and segment = ChildSegment "selector list" | DescendantSegment "selector list"
  and selector =
    NameSelector jsstr
  | WildcardSelector
  | IndexSelector int
  | SliceSelector "int option" "int option" "int option"     \<comment> \<open>start, end, step\<close>
  | FilterSelector logicalExpr
  and logicalExpr =
    OrExpr "logicalExpr list"
  | AndExpr "logicalExpr list"
  | NotExpr logicalExpr
  | ComparisonExpr comparisonOp comparable comparable        \<comment> \<open>operator, left, right\<close>
  | TestExpr query
  | FunctionTest functionExpr
  and comparable =
    LiteralComparable literal
  | SingularQuery rootId "segment list"
  | FunctionComparable functionExpr
  and functionExpr = FunctionExpr functionName "functionArg list"
  and functionArg = LiteralArg literal | QueryArg query | FunctionArg functionExpr

section \<open>The built-in functions and their types\<close>

datatype functionExprType = ValueType | LogicalType | NodesType

definition builtinFunctions :: "(jsstr \<times> functionName) list" where
  "builtinFunctions =
     [(lit ''length'', LengthFn), (lit ''count'', CountFn), (lit ''match'', MatchFn),
      (lit ''search'', SearchFn), (lit ''value'', ValueFn)]"

text \<open>\<open>isBuiltinFunctionName\<close>, with the name it has established.\<close>

definition builtinFunctionName :: "jsstr \<Rightarrow> functionName option" where
  "builtinFunctionName name = map_of builtinFunctions name"

fun functionSignature :: "functionName \<Rightarrow> functionExprType list \<times> functionExprType" where
  "functionSignature LengthFn = ([ValueType], ValueType)"
| "functionSignature CountFn = ([NodesType], ValueType)"
| "functionSignature MatchFn = ([ValueType, ValueType], LogicalType)"
| "functionSignature SearchFn = ([ValueType, ValueType], LogicalType)"
| "functionSignature ValueFn = ([NodesType], ValueType)"

definition getFunctionReturnType :: "functionName \<Rightarrow> functionExprType" where
  "getFunctionReturnType name = snd (functionSignature name)"

definition isSingularSelector :: "selector \<Rightarrow> bool" where
  "isSingularSelector s = (case s of NameSelector n \<Rightarrow> True | IndexSelector i \<Rightarrow> True | _ \<Rightarrow> False)"

fun toSingularSegments :: "segment list \<Rightarrow> segment list option" where
  "toSingularSegments [] = Some []"
| "toSingularSegments (segment # segments) =
     (case segment of
        DescendantSegment selectors \<Rightarrow> None
      | ChildSegment selectors \<Rightarrow>
          (case selectors of
             [selector] \<Rightarrow>
               if \<not> isSingularSelector selector then None
               else (case toSingularSegments segments of
                 None \<Rightarrow> None
               | Some rest \<Rightarrow> Some (ChildSegment [selector] # rest))
           | _ \<Rightarrow> None))"

definition isSingularQuery :: "query \<Rightarrow> bool" where
  "isSingularQuery q = (case q of Query r segments \<Rightarrow> toSingularSegments segments \<noteq> None)"

definition getFunctionArgType :: "functionArg \<Rightarrow> functionExprType" where
  "getFunctionArgType arg =
     (case arg of
        LiteralArg l \<Rightarrow> ValueType
      | QueryArg q \<Rightarrow> if isSingularQuery q then ValueType else NodesType
      | FunctionArg f \<Rightarrow> (case f of FunctionExpr name args \<Rightarrow> getFunctionReturnType name))"

definition isArgTypeCompatible :: "functionArg \<Rightarrow> functionExprType \<Rightarrow> bool" where
  "isArgTypeCompatible arg expectedType =
     (if expectedType = NodesType then (case arg of QueryArg q \<Rightarrow> True | _ \<Rightarrow> False)
      else getFunctionArgType arg = expectedType)"

definition isWellTypedFunctionExpr :: "functionExpr \<Rightarrow> bool" where
  "isWellTypedFunctionExpr f =
     (case f of FunctionExpr name args \<Rightarrow>
        length args = length (fst (functionSignature name)) \<and>
        list_all (\<lambda>(arg, expectedType). isArgTypeCompatible arg expectedType)
          (zip args (fst (functionSignature name))))"

lemma toSingularSegments_id: "toSingularSegments ss = Some ts \<Longrightarrow> ts = ss"
  by (induction ss arbitrary: ts) (auto split: segment.splits list.splits if_splits option.splits)

lemma toSingularSegments_iff:
  "toSingularSegments ss \<noteq> None \<longleftrightarrow> list_all (\<lambda>s. \<exists>x. s = ChildSegment [x] \<and> isSingularSelector x) ss"
  by (induction ss) (auto split: segment.splits list.splits option.splits)

section \<open>Well-formed queries\<close>

definition wfIndex :: "int \<Rightarrow> bool" where
  "wfIndex i \<longleftrightarrow> I_JSON_MIN \<le> i \<and> i \<le> I_JSON_MAX"

text \<open>A number literal is a finite double, as in JSON.\<close>

definition wfLiteral :: "literal \<Rightarrow> bool" where
  "wfLiteral l \<longleftrightarrow> (case l of NumberLiteral x \<Rightarrow> isFiniteNum x | _ \<Rightarrow> True)"

text \<open>
  At most \<open>n\<close> more levels of nested expressions: a parenthesis around a filter, a negation and a
  function call each take one. Selector lists and operand lists are not empty, indices are in the
  I-JSON range, queries under a comparison are singular, function calls are well-typed, and a
  function used as a test returns a logical value.
\<close>

fun wfQuery :: "nat \<Rightarrow> query \<Rightarrow> bool"
and wfSegment :: "nat \<Rightarrow> segment \<Rightarrow> bool"
and wfSelector :: "nat \<Rightarrow> selector \<Rightarrow> bool"
and wfLogical :: "nat \<Rightarrow> logicalExpr \<Rightarrow> bool"
and wfComparable :: "nat \<Rightarrow> comparable \<Rightarrow> bool"
and wfFunction :: "nat \<Rightarrow> functionExpr \<Rightarrow> bool"
and wfArg :: "nat \<Rightarrow> functionArg \<Rightarrow> bool" where
  "wfQuery n (Query r segments) = list_all (wfSegment n) segments"
| "wfSegment n (ChildSegment selectors) = (selectors \<noteq> [] \<and> list_all (wfSelector n) selectors)"
| "wfSegment n (DescendantSegment selectors) = (selectors \<noteq> [] \<and> list_all (wfSelector n) selectors)"
| "wfSelector n (NameSelector name) = True"
| "wfSelector n WildcardSelector = True"
| "wfSelector n (IndexSelector i) = wfIndex i"
| "wfSelector n (SliceSelector a b c) = (pred_option wfIndex a \<and> pred_option wfIndex b \<and> pred_option wfIndex c)"
| "wfSelector n (FilterSelector e) = (0 < n \<and> wfLogical (n - 1) e)"
| "wfLogical n (OrExpr es) = (2 \<le> length es \<and> list_all (wfLogical n) es)"
| "wfLogical n (AndExpr es) = (2 \<le> length es \<and> list_all (wfLogical n) es)"
| "wfLogical n (NotExpr e) = (0 < n \<and> wfLogical (n - 1) e)"
| "wfLogical n (ComparisonExpr op l r) = (wfComparable n l \<and> wfComparable n r)"
| "wfLogical n (TestExpr q) = wfQuery n q"
| "wfLogical n (FunctionTest f) =
     (wfFunction n f \<and> (case f of FunctionExpr name args \<Rightarrow> getFunctionReturnType name = LogicalType))"
| "wfComparable n (LiteralComparable l) = wfLiteral l"
| "wfComparable n (SingularQuery r segments) =
     (toSingularSegments segments \<noteq> None \<and> list_all (wfSegment n) segments)"
| "wfComparable n (FunctionComparable f) = wfFunction n f"
| "wfFunction n (FunctionExpr name args) =
     (0 < n \<and> isWellTypedFunctionExpr (FunctionExpr name args) \<and> list_all (wfArg (n - 1)) args)"
| "wfArg n (LiteralArg l) = wfLiteral l"
| "wfArg n (QueryArg q) = wfQuery n q"
| "wfArg n (FunctionArg f) = wfFunction n f"

end
