(* ===== verification/JsonPathParser.thy ===== *)
theory JsonPathParser
  imports JsonPathSyntax
begin

text \<open>
  The parser of JSONPath, \<open>src/jsonpath/parser.ts\<close>. The cursor of the lexer is the list of the
  tokens from the current one on. A parse function returns the value or \<open>None\<close> (the source's
  \<open>null\<close>) together with the cursor, which keeps the tokens consumed before a \<open>null\<close>. The counter
  \<open>expressionDepth\<close> is restored by a \<open>finally\<close>, so it is an argument: \<open>n\<close> is how many more scopes
  may be entered, \<open>maxExpressionDepth - expressionDepth\<close>, and recursion is on \<open>n\<close>. The loops take
  the number of tokens as fuel; \<open>OutOfFuel\<close> never happens (\<open>parseQuery_fuel\<close>).
\<close>

datatype parse_error = LimitExceeded | OutOfFuel

type_synonym 'a parser = "token list \<Rightarrow> parse_error + ('a option \<times> token list)"

section \<open>The cursor\<close>

definition advance :: "token list \<Rightarrow> token list" where
  "advance toks = (if 1 < length toks then tl toks else toks)"

definition check :: "tokenType \<Rightarrow> token list \<Rightarrow> bool" where
  "check t toks \<longleftrightarrow> ttype (hd toks) = t"

definition matchToken :: "tokenType \<Rightarrow> token list \<Rightarrow> token list option" where
  "matchToken t toks = (if check t toks then Some (advance toks) else None)"

text \<open>\<open>matchToken\<close> for the types of tokens that carry a value.\<close>

definition matchName :: "token list \<Rightarrow> (jsstr \<times> token list) option" where
  "matchName toks = (case ttype (hd toks) of NAME s \<Rightarrow> Some (s, advance toks) | _ \<Rightarrow> None)"

definition matchString :: "token list \<Rightarrow> (jsstr \<times> token list) option" where
  "matchString toks = (case ttype (hd toks) of STRING s \<Rightarrow> Some (s, advance toks) | _ \<Rightarrow> None)"

definition matchNumber :: "token list \<Rightarrow> (jsnum \<times> jsstr \<times> token list) option" where
  "matchNumber toks = (case ttype (hd toks) of NUMBER x raw \<Rightarrow> Some (x, raw, advance toks) | _ \<Rightarrow> None)"

definition isAtEnd :: "token list \<Rightarrow> bool" where
  "isAtEnd toks \<longleftrightarrow> check EOF toks"

text \<open>\<open>if (x === null) return null\<close> after a call, and the two ways a function ends.\<close>

definition orNull :: "parse_error + ('a option \<times> token list) \<Rightarrow>
    ('a \<Rightarrow> token list \<Rightarrow> parse_error + ('b option \<times> token list)) \<Rightarrow> parse_error + ('b option \<times> token list)" where
  "orNull r f = andThen r (\<lambda>(x, toks). case x of None \<Rightarrow> Inr (None, toks) | Some y \<Rightarrow> f y toks)"

definition ret :: "'a \<Rightarrow> token list \<Rightarrow> parse_error + ('a option \<times> token list)" where
  "ret x toks = Inr (Some x, toks)"

definition null :: "token list \<Rightarrow> parse_error + ('a option \<times> token list)" where
  "null toks = Inr (None, toks)"

text \<open>\<open>while (lexer.match(sep)) { next = item(); if (next === null) return null; acc.push(next) }\<close>\<close>

fun sepLoop :: "nat \<Rightarrow> tokenType \<Rightarrow> 'a parser \<Rightarrow> 'a list \<Rightarrow> 'a list parser" where
  "sepLoop 0 sep item acc toks = Inl OutOfFuel"
| "sepLoop (Suc fuel) sep item acc toks =
     (case matchToken sep toks of
        None \<Rightarrow> ret acc toks
      | Some toks1 \<Rightarrow> orNull (item toks1) (\<lambda>next toks2. sepLoop fuel sep item (acc @ [next]) toks2))"

section \<open>Index and slice selectors\<close>

text \<open>The test of the raw text against \<open>/^-?(?:0|[1-9][0-9]*)$/\<close>.\<close>

definition isIntegerText :: "jsstr \<Rightarrow> bool" where
  "isIntegerText raw =
     (let ds = (if raw \<noteq> [] \<and> hd raw = 45 then tl raw else raw)
      in ds = [48] \<or> (ds \<noteq> [] \<and> 49 \<le> hd ds \<and> hd ds \<le> 57 \<and> list_all isDigit (tl ds)))"

definition isIntegerNumberToken :: "jsstr \<Rightarrow> jsnum \<Rightarrow> bool" where
  "isIntegerNumberToken raw value \<longleftrightarrow> isIntegerNum value \<and> isIntegerText raw"

text \<open>An optional number of a selector: \<open>Some None\<close> when there is none.\<close>

definition optionalInteger :: "int option parser" where
  "optionalInteger toks =
     (case matchNumber toks of
        None \<Rightarrow> ret None toks
      | Some (x, raw, toks1) \<Rightarrow>
          if \<not> isIntegerNumberToken raw x then null toks1 else ret (Some (intOfNum x)) toks1)"

definition parseIndexOrSlice :: "selector parser" where
  "parseIndexOrSlice toks =
     orNull (optionalInteger toks) (\<lambda>start toks1.
       case matchToken COLON toks1 of
         None \<Rightarrow> (case start of None \<Rightarrow> null toks1 | Some i \<Rightarrow> ret (IndexSelector i) toks1)
       | Some toks2 \<Rightarrow>
           orNull (optionalInteger toks2) (\<lambda>end' toks3.
             case matchToken COLON toks3 of
               None \<Rightarrow> ret (SliceSelector start end' None) toks3
             | Some toks4 \<Rightarrow>
                 orNull (optionalInteger toks4) (\<lambda>step toks5.
                   ret (SliceSelector start end' step) toks5)))"

section \<open>Segments and queries\<close>

text \<open>The functions that a filter is reached through take the parser of filter expressions.\<close>

definition parseSelector :: "logicalExpr parser \<Rightarrow> selector parser" where
  "parseSelector logical toks =
     (case matchToken QUESTION toks of
        Some toks1 \<Rightarrow> orNull (logical toks1) (\<lambda>expr toks2. ret (FilterSelector expr) toks2)
      | None \<Rightarrow>
          (case matchToken WILDCARD toks of
             Some toks1 \<Rightarrow> ret WildcardSelector toks1
           | None \<Rightarrow>
               (case matchString toks of
                  Some (s, toks1) \<Rightarrow> ret (NameSelector s) toks1
                | None \<Rightarrow>
                    if matchNumber toks \<noteq> None \<or> check COLON toks then parseIndexOrSlice toks
                    else null toks)))"

definition parseBracketedSelection :: "logicalExpr parser \<Rightarrow> selector list parser" where
  "parseBracketedSelection logical toks =
     (case matchToken LBRACKET toks of
        None \<Rightarrow> null toks
      | Some toks1 \<Rightarrow>
          orNull (parseSelector logical toks1) (\<lambda>first toks2.
            orNull (sepLoop (length toks2) COMMA (parseSelector logical) [first] toks2) (\<lambda>selectors toks3.
              case matchToken RBRACKET toks3 of
                None \<Rightarrow> null toks3
              | Some toks4 \<Rightarrow> ret selectors toks4)))"

definition parseDescendantSegment :: "logicalExpr parser \<Rightarrow> segment parser" where
  "parseDescendantSegment logical toks =
     (if check LBRACKET toks then
        orNull (parseBracketedSelection logical toks) (\<lambda>selectors toks1. ret (DescendantSegment selectors) toks1)
      else
        (case matchToken WILDCARD toks of
           Some toks1 \<Rightarrow> ret (DescendantSegment [WildcardSelector]) toks1
         | None \<Rightarrow>
             (case matchName toks of
                Some (s, toks1) \<Rightarrow> ret (DescendantSegment [NameSelector s]) toks1
              | None \<Rightarrow> null toks)))"

definition parseChildBracketSegment :: "logicalExpr parser \<Rightarrow> segment parser" where
  "parseChildBracketSegment logical toks =
     orNull (parseBracketedSelection logical toks) (\<lambda>selectors toks1. ret (ChildSegment selectors) toks1)"

definition parseChildDotSegment :: "segment parser" where
  "parseChildDotSegment toks =
     (case matchToken WILDCARD toks of
        Some toks1 \<Rightarrow> ret (ChildSegment [WildcardSelector]) toks1
      | None \<Rightarrow>
          (case matchName toks of
             Some (s, toks1) \<Rightarrow> ret (ChildSegment [NameSelector s]) toks1
           | None \<Rightarrow> null toks))"

definition parseSegment :: "logicalExpr parser \<Rightarrow> segment parser" where
  "parseSegment logical toks =
     (case matchToken DOTDOT toks of
        Some toks1 \<Rightarrow> parseDescendantSegment logical toks1
      | None \<Rightarrow>
          if check LBRACKET toks then parseChildBracketSegment logical toks
          else
            (case matchToken DOT toks of
               Some toks1 \<Rightarrow> parseChildDotSegment toks1
             | None \<Rightarrow> null toks))"

text \<open>The loop ends at the end of the tokens, or silently at a segment that does not parse.\<close>

fun parseSegments :: "nat \<Rightarrow> logicalExpr parser \<Rightarrow> segment list \<Rightarrow> token list \<Rightarrow>
    parse_error + (segment list \<times> token list)" where
  "parseSegments 0 logical segments toks = Inl OutOfFuel"
| "parseSegments (Suc fuel) logical segments toks =
     (if isAtEnd toks then Inr (segments, toks)
      else andThen (parseSegment logical toks) (\<lambda>(segment, toks1).
        case segment of
          None \<Rightarrow> Inr (segments, toks1)
        | Some s \<Rightarrow> parseSegments fuel logical (segments @ [s]) toks1))"

definition parseQuery :: "logicalExpr parser \<Rightarrow> rootId \<Rightarrow> query parser" where
  "parseQuery logical expectedRoot toks =
     (case matchToken (if expectedRoot = DollarRoot then ROOT else CURRENT) toks of
        None \<Rightarrow> null toks
      | Some toks1 \<Rightarrow>
          andThen (parseSegments (length toks1) logical [] toks1) (\<lambda>(segments, toks2).
            ret (Query expectedRoot segments) toks2))"

definition parseFilterQuery :: "logicalExpr parser \<Rightarrow> query parser" where
  "parseFilterQuery logical toks =
     (if check ROOT toks then parseQuery logical DollarRoot toks
      else if check CURRENT toks then parseQuery logical AtRoot toks
      else null toks)"

section \<open>Comparables and functions\<close>

definition parseLiteral :: "literal parser" where
  "parseLiteral toks =
     (case ttype (hd toks) of
        STRING s \<Rightarrow> ret (StringLiteral s) (advance toks)
      | NUMBER x raw \<Rightarrow> ret (NumberLiteral x) (advance toks)
      | TRUE_TOK \<Rightarrow> ret (BoolLiteral True) (advance toks)
      | FALSE_TOK \<Rightarrow> ret (BoolLiteral False) (advance toks)
      | NULL_TOK \<Rightarrow> ret NullLiteral (advance toks)
      | _ \<Rightarrow> null toks)"

definition tryParseComparisonOp :: "token list \<Rightarrow> (comparisonOp \<times> token list) option" where
  "tryParseComparisonOp toks =
     (case ttype (hd toks) of
        EQ_TOK \<Rightarrow> Some (EqOp, advance toks)
      | NE_TOK \<Rightarrow> Some (NeOp, advance toks)
      | LE_TOK \<Rightarrow> Some (LeOp, advance toks)
      | GE_TOK \<Rightarrow> Some (GeOp, advance toks)
      | LT_TOK \<Rightarrow> Some (LtOp, advance toks)
      | GT_TOK \<Rightarrow> Some (GtOp, advance toks)
      | _ \<Rightarrow> None)"

definition functionName :: "functionExpr \<Rightarrow> functionName" where
  "functionName f = (case f of FunctionExpr name args \<Rightarrow> name)"

text \<open>\<open>function\<close> stands for \<open>parseFunctionExpr\<close> at the present depth, \<open>logical\<close> for \<open>parseLogicalExpr\<close>.\<close>

definition parseFunctionArg ::
    "functionExpr parser \<Rightarrow> logicalExpr parser \<Rightarrow> functionArg parser" where
  "parseFunctionArg function logical toks =
     (if matchName toks \<noteq> None then orNull (function toks) (\<lambda>f toks1. ret (FunctionArg f) toks1)
      else if check ROOT toks \<or> check CURRENT toks then
        orNull (parseFilterQuery logical toks) (\<lambda>q toks1. ret (QueryArg q) toks1)
      else orNull (parseLiteral toks) (\<lambda>l toks1. ret (LiteralArg l) toks1))"

definition parseFunctionBody ::
    "functionExpr parser \<Rightarrow> logicalExpr parser \<Rightarrow> functionExpr parser" where
  "parseFunctionBody function logical toks =
     (case matchName toks of
        None \<Rightarrow> null toks
      | Some (s, toks1) \<Rightarrow>
          (case builtinFunctionName s of
             None \<Rightarrow> null toks1
           | Some name \<Rightarrow>
               (case matchToken LPAREN toks1 of
                  None \<Rightarrow> null toks1
                | Some toks2 \<Rightarrow>
                    orNull
                      (if check RPAREN toks2 then ret [] toks2
                       else orNull (parseFunctionArg function logical toks2) (\<lambda>first toks3.
                         sepLoop (length toks3) COMMA (parseFunctionArg function logical) [first] toks3))
                      (\<lambda>args toks4.
                        case matchToken RPAREN toks4 of
                          None \<Rightarrow> null toks4
                        | Some toks5 \<Rightarrow>
                            if isWellTypedFunctionExpr (FunctionExpr name args)
                            then ret (FunctionExpr name args) toks5 else null toks5))))"

definition parseComparable ::
    "functionExpr parser \<Rightarrow> logicalExpr parser \<Rightarrow> comparable parser" where
  "parseComparable function logical toks =
     (if matchName toks \<noteq> None then
        orNull (function toks) (\<lambda>f toks1.
          if getFunctionReturnType (functionName f) \<noteq> ValueType then null toks1
          else ret (FunctionComparable f) toks1)
      else if check ROOT toks \<or> check CURRENT toks then
        orNull (parseFilterQuery logical toks) (\<lambda>q toks1.
          case q of Query r segments \<Rightarrow>
            (case toSingularSegments segments of
               None \<Rightarrow> null toks1
             | Some singular \<Rightarrow> ret (SingularQuery r singular) toks1))
      else orNull (parseLiteral toks) (\<lambda>l toks1. ret (LiteralComparable l) toks1))"

definition parseComparisonOrTest ::
    "functionExpr parser \<Rightarrow> logicalExpr parser \<Rightarrow> logicalExpr parser" where
  "parseComparisonOrTest function logical toks =
     (if check CURRENT toks \<or> check ROOT toks then
        orNull (parseFilterQuery logical toks) (\<lambda>q toks1.
          case tryParseComparisonOp toks1 of
            None \<Rightarrow> ret (TestExpr q) toks1
          | Some (op, toks2) \<Rightarrow>
              orNull (parseComparable function logical toks2) (\<lambda>right toks3.
                case q of Query r segments \<Rightarrow>
                  (case toSingularSegments segments of
                     None \<Rightarrow> null toks3
                   | Some singular \<Rightarrow> ret (ComparisonExpr op (SingularQuery r singular) right) toks3)))
      else if matchName toks \<noteq> None then
        orNull (function toks) (\<lambda>f toks1.
          case tryParseComparisonOp toks1 of
            Some (op, toks2) \<Rightarrow>
              orNull (parseComparable function logical toks2) (\<lambda>right toks3.
                ret (ComparisonExpr op (FunctionComparable f) right) toks3)
          | None \<Rightarrow>
              if getFunctionReturnType (functionName f) \<noteq> LogicalType then null toks1
              else ret (FunctionTest f) toks1)
      else
        orNull (parseLiteral toks) (\<lambda>l toks1.
          case tryParseComparisonOp toks1 of
            None \<Rightarrow> null toks1
          | Some (op, toks2) \<Rightarrow>
              orNull (parseComparable function logical toks2) (\<lambda>right toks3.
                ret (ComparisonExpr op (LiteralComparable l) right) toks3)))"

section \<open>Logical expressions\<close>

definition parseLogicalAndExpr :: "logicalExpr parser \<Rightarrow> logicalExpr parser" where
  "parseLogicalAndExpr basic toks =
     orNull (basic toks) (\<lambda>first toks1.
       orNull (sepLoop (length toks1) AND_TOK basic [first] toks1) (\<lambda>operands toks2.
         if length operands = 1 then ret first toks2 else ret (AndExpr operands) toks2))"

definition parseLogicalOrExpr :: "logicalExpr parser \<Rightarrow> logicalExpr parser" where
  "parseLogicalOrExpr basic toks =
     orNull (parseLogicalAndExpr basic toks) (\<lambda>first toks1.
       orNull (sepLoop (length toks1) OR_TOK (parseLogicalAndExpr basic) [first] toks1) (\<lambda>operands toks2.
         if length operands = 1 then ret first toks2 else ret (OrExpr operands) toks2))"

text \<open>\<open>negated\<close> stands for \<open>parseBasicExpr\<close> in a scope of its own.\<close>

definition parseBasicBody ::
    "logicalExpr parser \<Rightarrow> functionExpr parser \<Rightarrow> logicalExpr parser \<Rightarrow> logicalExpr parser" where
  "parseBasicBody logical function negated toks =
     (case matchToken LPAREN toks of
        Some toks1 \<Rightarrow>
          orNull (logical toks1) (\<lambda>expr toks2.
            case matchToken RPAREN toks2 of
              None \<Rightarrow> null toks2
            | Some toks3 \<Rightarrow> ret expr toks3)
      | None \<Rightarrow>
          (case matchToken NOT_TOK toks of
             Some toks1 \<Rightarrow> orNull (negated toks1) (\<lambda>operand toks2. ret (NotExpr operand) toks2)
           | None \<Rightarrow> parseComparisonOrTest function logical toks))"

text \<open>The knot: the functions that open a scope, by the number of scopes left.\<close>

definition limitExceeded :: "'a parser" where
  "limitExceeded toks = Inl LimitExceeded"

function parseLogicalExpr :: "nat \<Rightarrow> logicalExpr parser"
and parseBasicExpr :: "nat \<Rightarrow> logicalExpr parser"
and parseFunctionExpr :: "nat \<Rightarrow> functionExpr parser" where
  "parseLogicalExpr n = (case n of 0 \<Rightarrow> limitExceeded | Suc m \<Rightarrow> parseLogicalOrExpr (parseBasicExpr m))"
| "parseBasicExpr n =
     parseBasicBody (parseLogicalExpr n) (parseFunctionExpr n)
       (case n of 0 \<Rightarrow> limitExceeded | Suc m \<Rightarrow> parseBasicExpr m)"
| "parseFunctionExpr n =
     (case n of 0 \<Rightarrow> limitExceeded | Suc m \<Rightarrow> parseFunctionBody (parseFunctionExpr m) (parseLogicalExpr m))"
  by pat_completeness auto
termination
  by (relation "measure (\<lambda>x. case x of Inl n \<Rightarrow> 3 * n | Inr (Inl n) \<Rightarrow> 3 * n + 2 | Inr (Inr n) \<Rightarrow> 3 * n + 1)")
    auto

declare parseLogicalExpr.simps [simp del] parseBasicExpr.simps [simp del] parseFunctionExpr.simps [simp del]

definition maxExpressionDepth :: nat where
  "maxExpressionDepth = 64"

definition parseJsonPath :: "jsstr \<Rightarrow> query option" where
  "parseJsonPath text =
     (case lexer text of
        Inl e \<Rightarrow> None
      | Inr toks \<Rightarrow>
          (case parseQuery (parseLogicalExpr maxExpressionDepth) DollarRoot toks of
             Inl e \<Rightarrow> None
           | Inr (ast, toks1) \<Rightarrow> if \<not> isAtEnd toks1 then None else ast))"

end
