(* ===== verification/JsonPathParserLaws.thy ===== *)
theory JsonPathParserLaws
  imports JsonPathParser
begin

text \<open>
  What the parser of JSONPath guarantees: it never runs out of fuel, whatever it returns is a
  well-formed query (\<open>wfQuery\<close>), and success always consumes a token. \<open>good k j P r\<close> says so of one
  result: \<open>null\<close> leaves at most \<open>k\<close> tokens, success at most \<open>j\<close> and a value with \<open>P\<close>; its rules follow
  the combinators, so the proof for each parse function follows its definition.
\<close>

section \<open>The token lists of the lexer\<close>

text \<open>A number token is finite, and with the text of an integer it is in the I-JSON range.\<close>

definition numberOk :: "token \<Rightarrow> bool" where
  "numberOk t \<longleftrightarrow>
     (case ttype t of
        NUMBER x raw \<Rightarrow> isFiniteNum x \<and> (isIntegerNumberToken raw x \<longrightarrow> wfIndex (intOfNum x))
      | _ \<Rightarrow> True)"

definition okTokens :: "token list \<Rightarrow> bool" where
  "okTokens toks \<longleftrightarrow> wfTokens toks \<and> (\<forall>t\<in>set toks. numberOk t)"

lemma isIntegerText_chars: "isIntegerText raw \<Longrightarrow> c \<in> set raw \<Longrightarrow> isDigit c \<or> c = 45"
  by (cases raw) (auto simp: isIntegerText_def Let_def isDigit_def list_all_iff neq_Nil_conv split: if_splits)

lemma in_take_drop: "n < length cs \<Longrightarrow> n < m \<Longrightarrow> cs ! n \<in> set (take m cs)"
  by (metis in_set_conv_nth length_take min_less_iff_conj nth_take)

lemma readNumber_range:
  assumes "readNumber p cs = Inr (x, n)" and "isIntegerNumberToken (take n cs) x"
  shows "wfIndex (intOfNum x)"
proof -
  obtain sign :: nat and ip :: jsstr and frac n2 ex n3 where
    f: "readFraction (p + (sign + length ip)) (drop (sign + length ip) cs) = Inr (frac, n2)" and
    e: "readExponent (p + (sign + length ip) + n2) (drop (sign + length ip + n2) cs) = Inr (ex, n3)" and
    n: "n = sign + length ip + n2 + n3" and
    r: "frac = None \<Longrightarrow> ex = None \<Longrightarrow> \<not> x < Fin (of_int I_JSON_MIN) \<and> \<not> Fin (of_int I_JSON_MAX) < x"
    by (rule readNumber_parts[OF assms(1)]) (rule that, assumption+)
  have "frac = None"
  proof (rule ccontr)
    assume "frac \<noteq> None"
    with f have h: "drop (sign + length ip) cs \<noteq> []" "hd (drop (sign + length ip) cs) = 46" "0 < n2"
      by (auto simp: readFraction_def Let_def split: if_splits)
    then have "cs ! (sign + length ip) = 46" "sign + length ip < length cs" by (auto simp: hd_drop_conv_nth)
    then have "46 \<in> set (take n cs)" using in_take_drop[of "sign + length ip" cs n] n h(3) by simp
    with assms(2) show False by (auto simp: isIntegerNumberToken_def isDigit_def dest!: isIntegerText_chars)
  qed
  moreover have "ex = None"
  proof (rule ccontr)
    let ?m = "sign + length ip + n2"
    assume "ex \<noteq> None"
    with e have h: "drop ?m cs \<noteq> []" "hd (drop ?m cs) = 101 \<or> hd (drop ?m cs) = 69" "0 < n3"
      by (auto simp: readExponent_def Let_def split: if_splits)
    then have "cs ! ?m = 101 \<or> cs ! ?m = 69" "?m < length cs" by (auto simp: hd_drop_conv_nth)
    then have "101 \<in> set (take n cs) \<or> 69 \<in> set (take n cs)"
      using in_take_drop[of ?m cs n] n h(3) by auto
    with assms(2) show False
      using isIntegerText_chars[of "take n cs" 101] isIntegerText_chars[of "take n cs" 69]
      by (auto simp: isIntegerNumberToken_def isDigit_def)
  qed
  moreover obtain i where i: "x = Fin (of_int i)"
    using assms(2) by (auto simp: isIntegerNumberToken_def isIntegerNum_iff)
  ultimately have "I_JSON_MIN \<le> i" "i \<le> I_JSON_MAX" using r by auto
  then show ?thesis by (simp add: i wfIndex_def)
qed

lemma readNumber_finite: "readNumber p cs = Inr (x, n) \<Longrightarrow> isFiniteNum x"
  by (auto simp: readNumber_def Let_def err_simps split: if_splits)

lemma nextToken_number:
  assumes "nextToken p cs = Inr (t, n)"
  shows "numberOk \<lparr>ttype = t, pos = q\<rparr>"
proof (cases "\<exists>x raw. t = NUMBER x raw")
  case True
  then obtain x raw where t: "t = NUMBER x raw" by blast
  have two: "map_of twoCharTokens s \<noteq> Some (NUMBER x raw)" for s
    by (auto simp: twoCharTokens_def dest!: map_of_SomeD)
  have one: "singleCharToken c \<noteq> Some (NUMBER x raw)" for c
    unfolding singleCharToken_def by (auto dest!: map_of_SomeD set_zip_rightD)
  have kw: "keywordOrName m \<noteq> NUMBER x raw" for m by (simp add: keywordOrName_def)
  have "readNumber p cs = Inr (x, n) \<and> raw = take n cs"
    using assms two one kw unfolding t nextToken_def Let_def
    by (auto split: if_splits option.splits sum.splits simp del: lit_simps)
  then show ?thesis using readNumber_range readNumber_finite by (auto simp: numberOk_def t)
qed (auto simp: numberOk_def split: tokenType.split)

lemma tokenize_number: "tokenize p cs = Inr ts \<Longrightarrow> \<forall>t\<in>set ts. numberOk t"
proof (induction p cs arbitrary: ts rule: tokenize.induct)
  case (1 p cs)
  define ws where "ws = takeWhile isWhitespaceChar cs"
  define rest where "rest = dropWhile isWhitespaceChar cs"
  show ?case
  proof (cases "rest = []")
    case True
    with 1(2) show ?thesis
      unfolding tokenize.simps[of p cs] Let_def ws_def[symmetric] rest_def[symmetric]
      by (auto simp: numberOk_def)
  next
    case False
    from 1(2) obtain t n us where t: "nextToken (p + length ws) rest = Inr (t, n)"
      "tokenize (p + length ws + n) (drop n rest) = Inr us" "ts = \<lparr>ttype = t, pos = p + length ws\<rparr> # us"
      unfolding tokenize.simps[of p cs] Let_def ws_def[symmetric] rest_def[symmetric]
      using False by (auto simp: err_simps)
    have "\<forall>u\<in>set us. numberOk u" by (rule 1(1)[OF ws_def refl rest_def False t(1) refl t(2)])
    with nextToken_number[OF t(1)] t(3) show ?thesis by simp
  qed
qed

lemma lexer_ok: "lexer input = Inr ts \<Longrightarrow> okTokens ts"
  using tokenize_number[of 0 input ts] lexer_wf by (auto simp: okTokens_def lexer_def)

section \<open>Results of parse functions\<close>

definition good :: "nat \<Rightarrow> nat \<Rightarrow> ('a \<Rightarrow> bool) \<Rightarrow> parse_error + ('a option \<times> token list) \<Rightarrow> bool" where
  "good k j P r \<longleftrightarrow>
     (case r of
        Inl e \<Rightarrow> e \<noteq> OutOfFuel
      | Inr (x, toks) \<Rightarrow> okTokens toks \<and>
          (case x of None \<Rightarrow> length toks \<le> k | Some y \<Rightarrow> length toks \<le> j \<and> P y))"

definition goodParser :: "('a \<Rightarrow> bool) \<Rightarrow> 'a parser \<Rightarrow> bool" where
  "goodParser P p \<longleftrightarrow> (\<forall>toks. okTokens toks \<longrightarrow> good (length toks) (length toks - 1) P (p toks))"

lemma good_simps [simp]:
  "good k j P (Inl e) \<longleftrightarrow> e \<noteq> OutOfFuel"
  "good k j P (Inr (None, toks)) \<longleftrightarrow> okTokens toks \<and> length toks \<le> k"
  "good k j P (Inr (Some y, toks)) \<longleftrightarrow> okTokens toks \<and> length toks \<le> j \<and> P y"
  by (auto simp: good_def)

lemma orNull_simps [simp]:
  "orNull (Inl e) f = Inl e"
  "orNull (Inr (None, toks)) f = Inr (None, toks)"
  "orNull (Inr (Some y, toks)) f = f y toks"
  by (simp_all add: orNull_def)

lemma presult_cases:
  obtains (Error) e where "r = Inl e" | (Null) toks where "r = Inr (None, toks)"
    | (Value) y toks where "r = Inr (Some y, toks)"
  by (cases r) (auto intro: that option.exhaust)

lemma good_Inl: "e \<noteq> OutOfFuel \<Longrightarrow> good k j P (Inl e)"
  by (simp add: good_def)

lemma good_ret: "okTokens toks \<Longrightarrow> length toks \<le> j \<Longrightarrow> P x \<Longrightarrow> good k j P (ret x toks)"
  by (simp add: good_def ret_def)

lemma good_null: "okTokens toks \<Longrightarrow> length toks \<le> k \<Longrightarrow> good k j P (null toks)"
  by (simp add: good_def null_def)

lemma good_orNull:
  assumes "good k1 j1 P r" and "k1 \<le> k"
    and "\<And>x toks. P x \<Longrightarrow> okTokens toks \<Longrightarrow> length toks \<le> j1 \<Longrightarrow> good k j Q (f x toks)"
  shows "good k j Q (orNull r f)"
  using assms by (cases r rule: presult_cases) auto

lemma good_mono: "good k1 j1 P r \<Longrightarrow> k1 \<le> k \<Longrightarrow> j1 \<le> j \<Longrightarrow> (\<And>x. P x \<Longrightarrow> Q x) \<Longrightarrow> good k j Q r"
  by (cases r rule: presult_cases) auto

lemma goodParserD: "goodParser P p \<Longrightarrow> okTokens toks \<Longrightarrow> good (length toks) (length toks - 1) P (p toks)"
  by (simp add: goodParser_def)

lemma goodParserI: "(\<And>toks. okTokens toks \<Longrightarrow> good (length toks) (length toks - 1) P (p toks)) \<Longrightarrow> goodParser P p"
  by (simp add: goodParser_def)

lemma goodParser_mono: "goodParser P p \<Longrightarrow> (\<And>x. P x \<Longrightarrow> Q x) \<Longrightarrow> goodParser Q p"
  unfolding goodParser_def using good_mono by blast

section \<open>The cursor\<close>

lemma okTokens_nonempty: "okTokens toks \<Longrightarrow> toks \<noteq> []"
  by (simp add: okTokens_def wfTokens_def)

lemma advance_wf:
  assumes "okTokens toks" and "ttype (hd toks) \<noteq> EOF"
  shows "okTokens (advance toks) \<and> Suc (length (advance toks)) = length toks"
proof -
  obtain t u us where "toks = t # u # us"
    using assms by (cases toks; cases "tl toks") (auto simp: okTokens_def wfTokens_def)
  with assms show ?thesis by (auto simp: advance_def okTokens_def wfTokens_def)
qed

lemma matchToken_wf: "matchToken t toks = Some toks' \<Longrightarrow> okTokens toks \<Longrightarrow> t \<noteq> EOF \<Longrightarrow>
    okTokens toks' \<and> Suc (length toks') = length toks"
  using advance_wf by (auto simp: matchToken_def check_def split: if_splits)

lemma matchName_wf: "matchName toks = Some (s, toks') \<Longrightarrow> okTokens toks \<Longrightarrow>
    okTokens toks' \<and> Suc (length toks') = length toks"
  using advance_wf by (auto simp: matchName_def split: tokenType.splits)

lemma matchString_wf: "matchString toks = Some (s, toks') \<Longrightarrow> okTokens toks \<Longrightarrow>
    okTokens toks' \<and> Suc (length toks') = length toks"
  using advance_wf by (auto simp: matchString_def split: tokenType.splits)

lemma matchNumber_wf: "matchNumber toks = Some (x, raw, toks') \<Longrightarrow> okTokens toks \<Longrightarrow>
    okTokens toks' \<and> Suc (length toks') = length toks"
  using advance_wf by (auto simp: matchNumber_def split: tokenType.splits)

lemmas match_wf = matchToken_wf matchName_wf matchString_wf matchNumber_wf

lemma good_case_match:
  assumes "okTokens toks" and "t \<noteq> EOF"
    and "matchToken t toks = None \<Longrightarrow> good k j P x"
    and "\<And>toks'. matchToken t toks = Some toks' \<Longrightarrow> okTokens toks' \<Longrightarrow> Suc (length toks') = length toks \<Longrightarrow>
      good k j P (f toks')"
  shows "good k j P (case matchToken t toks of None \<Rightarrow> x | Some toks' \<Rightarrow> f toks')"
  using assms matchToken_wf by (cases "matchToken t toks") auto

lemma good_case_name:
  assumes "okTokens toks" and "matchName toks = None \<Longrightarrow> good k j P x"
    and "\<And>s toks'. okTokens toks' \<Longrightarrow> Suc (length toks') = length toks \<Longrightarrow> good k j P (f s toks')"
  shows "good k j P (case matchName toks of None \<Rightarrow> x | Some (s, toks') \<Rightarrow> f s toks')"
  using assms matchName_wf by (cases "matchName toks") auto

lemma good_case_string:
  assumes "okTokens toks" and "matchString toks = None \<Longrightarrow> good k j P x"
    and "\<And>s toks'. okTokens toks' \<Longrightarrow> Suc (length toks') = length toks \<Longrightarrow> good k j P (f s toks')"
  shows "good k j P (case matchString toks of None \<Rightarrow> x | Some (s, toks') \<Rightarrow> f s toks')"
  using assms matchString_wf by (cases "matchString toks") auto

lemma tryParseComparisonOp_wf: "tryParseComparisonOp toks = Some (op, toks') \<Longrightarrow> okTokens toks \<Longrightarrow>
    okTokens toks' \<and> Suc (length toks') = length toks"
  using advance_wf by (auto simp: tryParseComparisonOp_def split: tokenType.splits)

lemma good_case_op:
  assumes "okTokens toks" and "good k j P x"
    and "\<And>op toks'. okTokens toks' \<Longrightarrow> Suc (length toks') = length toks \<Longrightarrow> good k j P (f op toks')"
  shows "good k j P (case tryParseComparisonOp toks of None \<Rightarrow> x | Some (op, toks') \<Rightarrow> f op toks')"
  using assms tryParseComparisonOp_wf by (cases "tryParseComparisonOp toks") auto

lemma good_if: "(b \<Longrightarrow> good k j P x) \<Longrightarrow> (\<not> b \<Longrightarrow> good k j P y) \<Longrightarrow> good k j P (if b then x else y)"
  by simp

lemmas good_cases = good_if good_case_match good_case_name good_case_string good_case_op

section \<open>The loop over separated items\<close>

lemma good_sepLoop:
  assumes "goodParser P item" and "sep \<noteq> EOF"
  shows "okTokens toks \<Longrightarrow> length toks \<le> fuel \<Longrightarrow> list_all P acc \<Longrightarrow> m \<le> length acc \<Longrightarrow>
    good (length toks) (length toks) (\<lambda>xs. list_all P xs \<and> m \<le> length xs) (sepLoop fuel sep item acc toks)"
proof (induction fuel arbitrary: acc toks)
  case 0
  then show ?case using okTokens_nonempty by auto
next
  case (Suc fuel)
  show ?case
  proof (cases "matchToken sep toks")
    case None
    then show ?thesis using Suc.prems by (auto intro!: good_ret)
  next
    case (Some toks1)
    have t1: "okTokens toks1" "Suc (length toks1) = length toks"
      using matchToken_wf[OF Some Suc.prems(1) assms(2)] by auto
    have "good (length toks) (length toks) (\<lambda>xs. list_all P xs \<and> m \<le> length xs)
        (orNull (item toks1) (\<lambda>next toks2. sepLoop fuel sep item (acc @ [next]) toks2))"
    proof (rule good_orNull[OF goodParserD[OF assms(1) t1(1)]])
      fix x toks2 assume x: "P x" "okTokens toks2" "length toks2 \<le> length toks1 - 1"
      show "good (length toks) (length toks) (\<lambda>xs. list_all P xs \<and> m \<le> length xs)
          (sepLoop fuel sep item (acc @ [x]) toks2)"
        by (rule good_mono[OF Suc.IH[OF x(2), of "acc @ [x]"]]) (use x Suc.prems t1(2) in auto)
    qed (use t1(2) in simp)
    with Some show ?thesis by simp
  qed
qed

section \<open>The parse functions\<close>

lemma isIntegerNumberToken_int: "isIntegerNumberToken raw x \<Longrightarrow> x = Fin (of_int (intOfNum x))"
  by (auto simp: isIntegerNumberToken_def isIntegerNum_iff)

lemma matchNumber_ok:
  assumes "matchNumber toks = Some (x, raw, toks')" and "okTokens toks" and "isIntegerNumberToken raw x"
  shows "wfIndex (intOfNum x)"
proof -
  have "hd toks \<in> set toks" using assms(2) okTokens_nonempty by simp
  then have "numberOk (hd toks)" using assms(2) by (simp add: okTokens_def)
  moreover have "ttype (hd toks) = NUMBER x raw"
    using assms(1) by (auto simp: matchNumber_def split: tokenType.splits)
  ultimately show ?thesis using assms(3) by (simp add: numberOk_def)
qed

lemma good_optionalInteger:
  assumes "okTokens toks"
  shows "good (length toks) (length toks) (pred_option wfIndex) (optionalInteger toks)"
proof (cases "matchNumber toks")
  case None
  with assms show ?thesis by (simp add: optionalInteger_def ret_def)
next
  case (Some r)
  obtain x raw toks' where r: "matchNumber toks = Some (x, raw, toks')" using Some by (cases r) auto
  with assms matchNumber_wf[OF r assms] matchNumber_ok[OF r assms] show ?thesis
    by (auto simp: optionalInteger_def ret_def null_def)
qed

lemma optionalInteger_consumes:
  assumes "okTokens toks" and "matchNumber toks \<noteq> None"
  shows "good (length toks) (length toks - 1) (\<lambda>i. \<exists>k. i = Some k \<and> wfIndex k) (optionalInteger toks)"
proof -
  obtain x raw toks' where r: "matchNumber toks = Some (x, raw, toks')" using assms(2) by (cases "matchNumber toks") auto
  with assms matchNumber_wf[OF r assms(1)] matchNumber_ok[OF r assms(1)] show ?thesis
    by (auto simp: optionalInteger_def ret_def null_def)
qed

lemma good_sliceTail:
  assumes "okTokens toks" and "length toks \<le> k" and "pred_option wfIndex start"
  shows "good k k (wfSelector n)
    (orNull (optionalInteger toks) (\<lambda>end' toks3.
       case matchToken COLON toks3 of
         None \<Rightarrow> ret (SliceSelector start end' None) toks3
       | Some toks4 \<Rightarrow>
           orNull (optionalInteger toks4) (\<lambda>step toks5. ret (SliceSelector start end' step) toks5)))"
proof (rule good_orNull[OF good_optionalInteger[OF assms(1)] assms(2)])
  fix e toks3 assume e: "pred_option wfIndex e" "okTokens toks3" "length toks3 \<le> length toks"
  show "good k k (wfSelector n) (case matchToken COLON toks3 of
         None \<Rightarrow> ret (SliceSelector start e None) toks3
       | Some toks4 \<Rightarrow>
           orNull (optionalInteger toks4) (\<lambda>step toks5. ret (SliceSelector start e step) toks5))"
    using e assms(2,3)
    by (intro good_case_match) (auto intro!: good_ret good_orNull[OF good_optionalInteger])
qed

lemma good_parseIndexOrSlice:
  assumes "okTokens toks" and "matchNumber toks \<noteq> None \<or> check COLON toks"
  shows "good (length toks) (length toks - 1) (wfSelector n) (parseIndexOrSlice toks)"
proof (cases "matchNumber toks = None")
  case False
  show ?thesis
    unfolding parseIndexOrSlice_def
  proof (rule good_orNull[OF optionalInteger_consumes[OF assms(1) False] order_refl])
    fix i toks1 assume "\<exists>k. i = Some k \<and> wfIndex k" "okTokens toks1" "length toks1 \<le> length toks - 1"
    then show "good (length toks) (length toks - 1) (wfSelector n)
       (case matchToken COLON toks1 of
         None \<Rightarrow> (case i of None \<Rightarrow> null toks1 | Some i \<Rightarrow> ret (IndexSelector i) toks1)
       | Some toks2 \<Rightarrow>
           orNull (optionalInteger toks2) (\<lambda>end' toks3.
             case matchToken COLON toks3 of
               None \<Rightarrow> ret (SliceSelector i end' None) toks3
             | Some toks4 \<Rightarrow>
                 orNull (optionalInteger toks4) (\<lambda>step toks5. ret (SliceSelector i end' step) toks5)))"
      by (intro good_case_match) (auto intro!: good_ret good_mono[OF good_sliceTail])
  qed
next
  case True
  then have c: "check COLON toks" using assms(2) by simp
  then obtain toks2 where m: "matchToken COLON toks = Some toks2" by (simp add: matchToken_def)
  then have "okTokens toks2" "Suc (length toks2) = length toks" using matchToken_wf[OF m assms(1)] by auto
  moreover have "optionalInteger toks = Inr (Some None, toks)" using True by (simp add: optionalInteger_def ret_def)
  ultimately show ?thesis
    using m by (auto simp: parseIndexOrSlice_def intro!: good_mono[OF good_sliceTail])
qed

lemma good_parseSelector:
  assumes "goodParser (\<lambda>e. 0 < n \<and> wfLogical (n - 1) e) logical"
  shows "goodParser (wfSelector n) (parseSelector logical)"
proof (rule goodParserI)
  fix toks assume toks: "okTokens toks"
  show "good (length toks) (length toks - 1) (wfSelector n) (parseSelector logical toks)"
    unfolding parseSelector_def
    by (intro good_cases toks good_orNull[OF goodParserD[OF assms]])
      (auto intro!: good_ret good_null good_parseIndexOrSlice toks simp del: One_nat_def)
qed

lemma good_parseBracketedSelection:
  assumes "goodParser (\<lambda>e. 0 < n \<and> wfLogical (n - 1) e) logical"
  shows "goodParser (\<lambda>xs. xs \<noteq> [] \<and> list_all (wfSelector n) xs) (parseBracketedSelection logical)"
proof (rule goodParserI)
  note sel = good_parseSelector[OF assms]
  fix toks assume toks: "okTokens toks"
  have tail: "good (length toks) (length toks - 1) (\<lambda>xs. xs \<noteq> [] \<and> list_all (wfSelector n) xs)
      (orNull (sepLoop (length toks2) COMMA (parseSelector logical) [first] toks2) (\<lambda>selectors toks3.
        case matchToken RBRACKET toks3 of None \<Rightarrow> null toks3 | Some toks4 \<Rightarrow> ret selectors toks4))"
    if "okTokens toks2" "Suc (length toks2) \<le> length toks" "wfSelector n first" for toks2 first
    by (rule good_orNull[OF good_sepLoop[OF sel, where m = 1]])
      (use that in \<open>auto intro!: good_cases good_ret good_null\<close>)
  show "good (length toks) (length toks - 1) (\<lambda>xs. xs \<noteq> [] \<and> list_all (wfSelector n) xs)
      (parseBracketedSelection logical toks)"
    unfolding parseBracketedSelection_def
    by (intro good_cases toks good_orNull[OF goodParserD[OF sel]])
      (auto intro!: good_null tail toks simp del: One_nat_def)
qed

lemma good_parseSegment:
  assumes "goodParser (\<lambda>e. 0 < n \<and> wfLogical (n - 1) e) logical"
  shows "goodParser (wfSegment n) (parseSegment logical)"
proof (rule goodParserI)
  note bracket = good_parseBracketedSelection[OF assms]
  fix toks assume toks: "okTokens toks"
  have desc: "good (length toks1) (length toks1 - 1) (wfSegment n) (parseDescendantSegment logical toks1)"
    if "okTokens toks1" for toks1
    unfolding parseDescendantSegment_def
    by (intro good_cases that good_orNull[OF goodParserD[OF bracket]])
      (auto intro!: good_ret good_null that)
  have brack: "good (length toks) (length toks - 1) (wfSegment n) (parseChildBracketSegment logical toks)"
    unfolding parseChildBracketSegment_def
    by (rule good_orNull[OF goodParserD[OF bracket toks]]) (auto intro!: good_ret)
  have dot: "good (length toks1) (length toks1 - 1) (wfSegment n) (parseChildDotSegment toks1)"
    if "okTokens toks1" for toks1
    unfolding parseChildDotSegment_def
    by (intro good_cases that) (auto intro!: good_ret good_null that)
  show "good (length toks) (length toks - 1) (wfSegment n) (parseSegment logical toks)"
    unfolding parseSegment_def
    by (intro good_cases toks brack good_null) (auto intro!: good_mono[OF desc] good_mono[OF dot] toks)
qed

lemma good_parseSegments:
  assumes "goodParser (\<lambda>e. 0 < n \<and> wfLogical (n - 1) e) logical"
  shows "okTokens toks \<Longrightarrow> length toks \<le> fuel \<Longrightarrow> list_all (wfSegment n) acc \<Longrightarrow>
    (case parseSegments fuel logical acc toks of
       Inl e \<Rightarrow> e \<noteq> OutOfFuel
     | Inr (segments, toks') \<Rightarrow> okTokens toks' \<and> length toks' \<le> length toks \<and> list_all (wfSegment n) segments)"
proof (induction fuel arbitrary: acc toks)
  case 0
  then show ?case using okTokens_nonempty by auto
next
  case (Suc fuel)
  show ?case
  proof (cases "isAtEnd toks")
    case False
    have g: "good (length toks) (length toks - 1) (wfSegment n) (parseSegment logical toks)"
      by (rule goodParserD[OF good_parseSegment[OF assms] Suc.prems(1)])
    show ?thesis
    proof (cases "parseSegment logical toks" rule: presult_cases)
      case (Value s toks1)
      with g have "okTokens toks1" "length toks1 \<le> length toks - 1" "wfSegment n s" by auto
      with Suc.prems False Value Suc.IH[of toks1 "acc @ [s]"] okTokens_nonempty[of toks] show ?thesis
        by (force split: sum.splits prod.splits)
    qed (use g False Suc.prems in auto)
  qed (use Suc.prems in simp)
qed

lemma good_parseQuery:
  assumes "goodParser (\<lambda>e. 0 < n \<and> wfLogical (n - 1) e) logical"
  shows "goodParser (\<lambda>q. wfQuery n q) (parseQuery logical r)"
proof (rule goodParserI)
  fix toks assume toks: "okTokens toks"
  have segs: "good (length toks) (length toks - 1) (wfQuery n)
      (andThen (parseSegments (length toks1) logical [] toks1) (\<lambda>(segments, toks2). ret (Query r segments) toks2))"
    if "okTokens toks1" "Suc (length toks1) = length toks" for toks1
    using good_parseSegments[OF assms that(1) order_refl, of "[]"] that
    by (auto simp: ret_def split: sum.splits)
  show "good (length toks) (length toks - 1) (wfQuery n) (parseQuery logical r toks)"
    unfolding parseQuery_def
    by (intro good_case_match toks) (auto intro: segs good_null toks simp del: One_nat_def)
qed

lemma good_parseFilterQuery:
  assumes "goodParser (\<lambda>e. 0 < n \<and> wfLogical (n - 1) e) logical"
  shows "goodParser (\<lambda>q. wfQuery n q) (parseFilterQuery logical)"
  unfolding parseFilterQuery_def
  by (intro goodParserI good_if goodParserD[OF good_parseQuery[OF assms]] good_null) auto

lemma good_parseLiteral: "goodParser wfLiteral parseLiteral"
proof (rule goodParserI)
  fix toks assume toks: "okTokens toks"
  have adv: "okTokens (advance toks) \<and> length (advance toks) \<le> length toks - Suc 0" if "ttype (hd toks) \<noteq> EOF"
    using advance_wf[OF toks that] by auto
  have "toks \<noteq> []" using toks by (auto simp: okTokens_def wfTokens_def)
  then have "numberOk (hd toks)" using toks by (simp add: okTokens_def)
  then show "good (length toks) (length toks - 1) wfLiteral (parseLiteral toks)"
    using toks adv
    by (auto simp: parseLiteral_def ret_def null_def wfLiteral_def numberOk_def split: tokenType.split)
qed

lemma wf_mono:
  "wfQuery m q \<Longrightarrow> m \<le> n \<Longrightarrow> wfQuery n q"
  "wfSegment m s \<Longrightarrow> m \<le> n \<Longrightarrow> wfSegment n s"
  "wfSelector m sel \<Longrightarrow> m \<le> n \<Longrightarrow> wfSelector n sel"
  "wfLogical m e \<Longrightarrow> m \<le> n \<Longrightarrow> wfLogical n e"
  "wfComparable m c \<Longrightarrow> m \<le> n \<Longrightarrow> wfComparable n c"
  "wfFunction m f \<Longrightarrow> m \<le> n \<Longrightarrow> wfFunction n f"
  "wfArg m a \<Longrightarrow> m \<le> n \<Longrightarrow> wfArg n a"
proof (induction m q and m s and m sel and m e and m c and m f and m a arbitrary: n and n and n and n and n and n and n
    rule: wfQuery_wfSegment_wfSelector_wfLogical_wfComparable_wfFunction_wfArg.induct)
qed (auto simp: list_all_iff elim!: option.pred_mono_strong)

section \<open>Functions, comparisons and logical expressions\<close>

lemma good_parseFunctionArg:
  assumes "goodParser (wfFunction n) function" and "goodParser (\<lambda>e. 0 < n \<and> wfLogical (n - 1) e) logical"
  shows "goodParser (wfArg n) (parseFunctionArg function logical)"
proof (rule goodParserI)
  fix toks assume toks: "okTokens toks"
  show "good (length toks) (length toks - 1) (wfArg n) (parseFunctionArg function logical toks)"
    unfolding parseFunctionArg_def
    by (intro good_if good_orNull[OF goodParserD[OF assms(1) toks]]
        good_orNull[OF goodParserD[OF good_parseFilterQuery[OF assms(2)] toks]]
        good_orNull[OF goodParserD[OF good_parseLiteral toks]])
      (auto intro!: good_ret)
qed

lemma good_parseFunctionBody:
  assumes "goodParser (wfFunction n) function" and "goodParser (\<lambda>e. 0 < n \<and> wfLogical (n - 1) e) logical"
  shows "goodParser (wfFunction (Suc n)) (parseFunctionBody function logical)"
proof (rule goodParserI)
  note arg = good_parseFunctionArg[OF assms]
  fix toks assume toks: "okTokens toks"
  have args: "good (length toks) (length toks - 1) (list_all (wfArg n))
      (if check RPAREN toks2 then ret [] toks2
       else orNull (parseFunctionArg function logical toks2) (\<lambda>first toks3.
         sepLoop (length toks3) COMMA (parseFunctionArg function logical) [first] toks3))"
    if "okTokens toks2" "Suc (length toks2) \<le> length toks" for toks2
    using that
    by (intro good_if good_ret good_orNull[OF goodParserD[OF arg that(1)]])
      (auto intro!: good_mono[OF good_sepLoop[OF arg, where m = 0]])
  have call: "good (length toks) (length toks - 1) (wfFunction (Suc n))
      (orNull
        (if check RPAREN toks2 then ret [] toks2
         else orNull (parseFunctionArg function logical toks2) (\<lambda>first toks3.
           sepLoop (length toks3) COMMA (parseFunctionArg function logical) [first] toks3))
        (\<lambda>args toks4.
          case matchToken RPAREN toks4 of
            None \<Rightarrow> null toks4
          | Some toks5 \<Rightarrow>
              if isWellTypedFunctionExpr (FunctionExpr name args)
              then ret (FunctionExpr name args) toks5 else null toks5))"
    if "okTokens toks2" "Suc (length toks2) \<le> length toks" for toks2 name
    by (rule good_orNull[OF args[OF that] order_refl]) (auto intro!: good_cases good_null good_ret)
  have name: "good (length toks) (length toks - 1) (wfFunction (Suc n))
      (case builtinFunctionName s of
         None \<Rightarrow> null toks1
       | Some name \<Rightarrow>
           (case matchToken LPAREN toks1 of
              None \<Rightarrow> null toks1
            | Some toks2 \<Rightarrow>
                orNull
                  (if check RPAREN toks2 then ret [] toks2
                   else orNull (parseFunctionArg function logical toks2) (\<lambda>first toks3.
                     sepLoop (length toks3) COMMA (parseFunctionArg function logical) [first] toks3))
                  (\<lambda>args toks4.
                    case matchToken RPAREN toks4 of
                      None \<Rightarrow> null toks4
                    | Some toks5 \<Rightarrow>
                        if isWellTypedFunctionExpr (FunctionExpr name args)
                        then ret (FunctionExpr name args) toks5 else null toks5)))"
    if t: "okTokens toks1" "Suc (length toks1) = length toks" for toks1 s
  proof (cases "builtinFunctionName s")
    case (Some name)
    show ?thesis
      unfolding Some option.case by (intro good_case_match t good_null call) (use t in auto)
  qed (use t in \<open>auto intro!: good_null\<close>)
  show "good (length toks) (length toks - 1) (wfFunction (Suc n)) (parseFunctionBody function logical toks)"
    unfolding parseFunctionBody_def by (intro good_case_name toks good_null name) auto
qed

lemma good_parseComparable:
  assumes "goodParser (wfFunction n) function" and "goodParser (\<lambda>e. 0 < n \<and> wfLogical (n - 1) e) logical"
  shows "goodParser (wfComparable n) (parseComparable function logical)"
proof (rule goodParserI)
  fix toks assume toks: "okTokens toks"
  have q: "good (length toks) (length toks - 1) (wfComparable n)
      (case q of Query r segments \<Rightarrow>
        (case toSingularSegments segments of
           None \<Rightarrow> null toks1 | Some singular \<Rightarrow> ret (SingularQuery r singular) toks1))"
    if "wfQuery n q" "okTokens toks1" "length toks1 \<le> length toks - 1" for q toks1
    using that toSingularSegments_id
    by (cases q) (auto simp: ret_def null_def split: option.split)
  show "good (length toks) (length toks - 1) (wfComparable n) (parseComparable function logical toks)"
    unfolding parseComparable_def
    by (intro good_if good_orNull[OF goodParserD[OF assms(1) toks]]
        good_orNull[OF goodParserD[OF good_parseFilterQuery[OF assms(2)] toks]]
        good_orNull[OF goodParserD[OF good_parseLiteral toks]])
      (auto intro!: good_ret good_null q simp del: One_nat_def)
qed

lemma good_parseComparisonOrTest:
  assumes "goodParser (wfFunction n) function" and "goodParser (\<lambda>e. 0 < n \<and> wfLogical (n - 1) e) logical"
  shows "goodParser (wfLogical n) (parseComparisonOrTest function logical)"
proof (rule goodParserI)
  note cmp = good_parseComparable[OF assms]
  fix toks assume toks: "okTokens toks"
  let ?good = "good (length toks) (length toks - 1) (wfLogical n)"
  have right: "?good (orNull (parseComparable function logical toks2) (\<lambda>right toks3. ret (ComparisonExpr op l right) toks3))"
    if "wfComparable n l" "okTokens toks2" "Suc (length toks2) \<le> length toks" for op l toks2
    by (rule good_orNull[OF goodParserD[OF cmp that(2)]]) (use that in \<open>auto intro!: good_ret\<close>)
  have query: "?good (case tryParseComparisonOp toks1 of
          None \<Rightarrow> ret (TestExpr q) toks1
        | Some (op, toks2) \<Rightarrow>
            orNull (parseComparable function logical toks2) (\<lambda>right toks3.
              case q of Query r segments \<Rightarrow>
                (case toSingularSegments segments of
                   None \<Rightarrow> null toks3
                 | Some singular \<Rightarrow> ret (ComparisonExpr op (SingularQuery r singular) right) toks3)))"
    if "wfQuery n q" "okTokens toks1" "length toks1 \<le> length toks - 1" for q toks1
  proof (intro good_case_op that)
    fix op toks2 assume t2: "okTokens toks2" "Suc (length toks2) = length toks1"
    show "?good (orNull (parseComparable function logical toks2) (\<lambda>right toks3.
              case q of Query r segments \<Rightarrow>
                (case toSingularSegments segments of
                   None \<Rightarrow> null toks3
                 | Some singular \<Rightarrow> ret (ComparisonExpr op (SingularQuery r singular) right) toks3)))"
      by (rule good_orNull[OF goodParserD[OF cmp t2(1)]])
        (use that t2 toSingularSegments_id in \<open>cases q; auto simp: ret_def null_def split: option.split\<close>)+
  qed (use that in \<open>auto intro!: good_ret\<close>)
  show "?good (parseComparisonOrTest function logical toks)"
    unfolding parseComparisonOrTest_def
    by (intro good_if good_orNull[OF goodParserD[OF good_parseFilterQuery[OF assms(2)] toks]]
        good_orNull[OF goodParserD[OF assms(1) toks]]
        good_orNull[OF goodParserD[OF good_parseLiteral toks]] query order_refl)
      (auto intro!: good_case_op good_null good_ret right good_if simp del: One_nat_def
        simp: functionName_def split: functionExpr.split)
qed

lemma good_logicalChain:
  assumes "goodParser (wfLogical n) item" and "sep \<noteq> EOF"
    and "\<And>es. 2 \<le> length es \<Longrightarrow> list_all (wfLogical n) es \<Longrightarrow> wfLogical n (mk es)"
  shows "goodParser (wfLogical n) (\<lambda>toks. orNull (item toks) (\<lambda>first toks1.
    orNull (sepLoop (length toks1) sep item [first] toks1) (\<lambda>operands toks2.
      if length operands = 1 then ret first toks2 else ret (mk operands) toks2)))"
proof (rule goodParserI)
  fix toks assume toks: "okTokens toks"
  show "good (length toks) (length toks - 1) (wfLogical n) (orNull (item toks) (\<lambda>first toks1.
      orNull (sepLoop (length toks1) sep item [first] toks1) (\<lambda>operands toks2.
        if length operands = 1 then ret first toks2 else ret (mk operands) toks2)))"
  proof (rule good_orNull[OF goodParserD[OF assms(1) toks] order_refl])
    fix first toks1 assume f: "wfLogical n first" "okTokens toks1" "length toks1 \<le> length toks - 1"
    show "good (length toks) (length toks - 1) (wfLogical n)
        (orNull (sepLoop (length toks1) sep item [first] toks1) (\<lambda>operands toks2.
          if length operands = 1 then ret first toks2 else ret (mk operands) toks2))"
    proof (rule good_orNull[OF good_sepLoop[OF assms(1,2) f(2) order_refl, where m = 1]])
      fix es toks2 assume "list_all (wfLogical n) es \<and> 1 \<le> length es" "okTokens toks2" "length toks2 \<le> length toks1"
      with f assms(3)[of es] show "good (length toks) (length toks - 1) (wfLogical n)
          (if length es = 1 then ret first toks2 else ret (mk es) toks2)"
        by (auto intro!: good_ret)
    qed (use f in auto)
  qed
qed

lemma good_parseLogicalOrExpr:
  assumes "goodParser (wfLogical n) basic"
  shows "goodParser (wfLogical n) (parseLogicalOrExpr basic)"
proof -
  have a: "goodParser (wfLogical n) (parseLogicalAndExpr basic)"
    using good_logicalChain[OF assms, of AND_TOK AndExpr] by (simp add: parseLogicalAndExpr_def[abs_def])
  show ?thesis
    using good_logicalChain[OF a, of OR_TOK OrExpr] by (simp add: parseLogicalOrExpr_def[abs_def])
qed

lemma good_parseBasicBody:
  assumes "goodParser (wfFunction n) function" and l: "goodParser (\<lambda>e. 0 < n \<and> wfLogical (n - 1) e) logical"
    and neg: "goodParser (\<lambda>e. 0 < n \<and> wfLogical (n - 1) e) negated"
  shows "goodParser (wfLogical n) (parseBasicBody logical function negated)"
proof (rule goodParserI)
  fix toks assume toks: "okTokens toks"
  have paren: "good (length toks) (length toks - 1) (wfLogical n)
      (orNull (logical toks1) (\<lambda>expr toks2.
        case matchToken RPAREN toks2 of None \<Rightarrow> null toks2 | Some toks3 \<Rightarrow> ret expr toks3))"
    if "okTokens toks1" "Suc (length toks1) = length toks" for toks1
    by (rule good_orNull[OF goodParserD[OF l that(1)]])
      (use that in \<open>auto intro!: good_case_match good_null good_ret intro: wf_mono(4)\<close>)
  have not: "good (length toks) (length toks - 1) (wfLogical n)
      (orNull (negated toks1) (\<lambda>operand toks2. ret (NotExpr operand) toks2))"
    if "okTokens toks1" "Suc (length toks1) = length toks" for toks1
    by (rule good_orNull[OF goodParserD[OF neg that(1)]]) (use that in \<open>auto intro!: good_ret\<close>)
  show "good (length toks) (length toks - 1) (wfLogical n) (parseBasicBody logical function negated toks)"
    unfolding parseBasicBody_def
    by (intro good_case_match toks paren not goodParserD[OF good_parseComparisonOrTest[OF assms(1) l]]) auto
qed

lemma good_limitExceeded: "goodParser P limitExceeded"
  by (rule goodParserI) (simp add: limitExceeded_def)

lemma good_parsers:
  "goodParser (\<lambda>e. 0 < n \<and> wfLogical (n - 1) e) (parseLogicalExpr n) \<and>
    goodParser (wfLogical n) (parseBasicExpr n) \<and> goodParser (wfFunction n) (parseFunctionExpr n)"
proof (induction n)
  case 0
  have l: "goodParser (\<lambda>e. 0 < (0::nat) \<and> wfLogical (0 - 1) e) (parseLogicalExpr 0)"
    and f: "goodParser (wfFunction 0) (parseFunctionExpr 0)"
    by (simp_all add: parseLogicalExpr.simps[of 0] parseFunctionExpr.simps[of 0] good_limitExceeded)
  moreover have "goodParser (wfLogical 0) (parseBasicExpr 0)"
    unfolding parseBasicExpr.simps[of 0] nat.case
    by (rule good_parseBasicBody[OF f l good_limitExceeded])
  ultimately show ?case by blast
next
  case (Suc n)
  then have l: "goodParser (\<lambda>e. 0 < n \<and> wfLogical (n - 1) e) (parseLogicalExpr n)"
    and b: "goodParser (wfLogical n) (parseBasicExpr n)" and f: "goodParser (wfFunction n) (parseFunctionExpr n)"
    by blast+
  have l': "goodParser (\<lambda>e. 0 < Suc n \<and> wfLogical (Suc n - 1) e) (parseLogicalExpr (Suc n))"
    using good_parseLogicalOrExpr[OF b] by (simp add: parseLogicalExpr.simps[of "Suc n"])
  moreover have f': "goodParser (wfFunction (Suc n)) (parseFunctionExpr (Suc n))"
    using good_parseFunctionBody[OF f l] by (simp add: parseFunctionExpr.simps[of "Suc n"])
  moreover have "goodParser (wfLogical (Suc n)) (parseBasicExpr (Suc n))"
    unfolding parseBasicExpr.simps[of "Suc n"] nat.case
    by (rule good_parseBasicBody[OF f' l']) (use b in simp)
  ultimately show ?case by blast
qed

lemma parseQuery_good:
  "okTokens toks \<Longrightarrow> good (length toks) (length toks - 1) (wfQuery n) (parseQuery (parseLogicalExpr n) r toks)"
  using goodParserD[OF good_parseQuery] good_parsers by blast

end
