(* ===== verification/JsonPathRegex.thy ===== *)
theory JsonPathRegex
  imports JsString
begin

text \<open>
  The safety policy for the patterns of \<open>match\<close> and \<open>search\<close>, \<open>src/jsonpath/evaluator.ts\<close>
  (\<open>hasUnsafeRegexConstructs\<close> and its helpers). Strings are scanned one code unit at a time; where the
  source keeps an index into the pattern, the scan keeps the rest behind it. The two regular
  expressions the code tests a pattern against are written out as scans.
\<close>

section \<open>Quantifiers\<close>

text \<open>The length of a repeating quantifier at the start of \<open>s\<close>, \<open>0\<close> when there is none.\<close>

definition parseRepeatingQuantifierLength :: "jsstr \<Rightarrow> nat" where
  "parseRepeatingQuantifierLength s =
     (case s of
        [] \<Rightarrow> 0
      | ch # rest \<Rightarrow>
          if ch = cu (CHR ''+'') \<or> ch = cu (CHR ''*'') then 1
          else if ch \<noteq> cu (CHR ''{'') then 0
          else
            let minDigits = takeWhile isDigit rest; rest1 = dropWhile isDigit rest
            in if minDigits = [] then 0
               else (case rest1 of
                 [] \<Rightarrow> 0
               | next # rest2 \<Rightarrow>
                   if next = cu (CHR ''}'') then
                     (if parseDec minDigits > 1 then length minDigits + 2 else 0)
                   else if next \<noteq> cu (CHR '','') then 0
                   else
                     let maxDigits = takeWhile isDigit rest2; rest3 = dropWhile isDigit rest2
                     in if rest3 = [] \<or> hd rest3 \<noteq> cu (CHR ''}'') then 0
                        else if maxDigits = [] then length minDigits + 3
                        else if parseDec maxDigits > 1 then length minDigits + length maxDigits + 3
                        else 0))"

definition normalizeQuantifiedGroupBody :: "jsstr \<Rightarrow> jsstr" where
  "normalizeQuantifiedGroupBody body =
     (if startsWith body (lit ''?:'') then drop 2 body
      else if startsWith body (lit ''?<'') \<and> cu (CHR ''>'') \<in> set body
      then tl (dropWhile (\<lambda>c. c \<noteq> cu (CHR ''>'')) body)
      else body)"

section \<open>Groups and alternatives\<close>

text \<open>
  The loop of \<open>findQuantifiedGroups\<close> at index \<open>i\<close>: the rest of the pattern, the two flags and the
  stack of the starts of open groups.
\<close>

fun quantifiedGroupsFrom :: "jsstr \<Rightarrow> nat \<Rightarrow> jsstr \<Rightarrow> bool \<Rightarrow> bool \<Rightarrow> nat list \<Rightarrow> jsstr list" where
  "quantifiedGroupsFrom pattern i [] escaped inCharClass starts = []"
| "quantifiedGroupsFrom pattern i (ch # rest) escaped inCharClass starts =
     (if escaped then quantifiedGroupsFrom pattern (i + 1) rest False inCharClass starts
      else if ch = 92 then quantifiedGroupsFrom pattern (i + 1) rest True inCharClass starts
      else if inCharClass then
        quantifiedGroupsFrom pattern (i + 1) rest False (ch \<noteq> cu (CHR '']'')) starts
      else if ch = cu (CHR ''['') then quantifiedGroupsFrom pattern (i + 1) rest False True starts
      else if ch = cu (CHR ''('') then quantifiedGroupsFrom pattern (i + 1) rest False False (i # starts)
      else if ch = cu (CHR '')'') \<and> starts \<noteq> [] then
        (if parseRepeatingQuantifierLength rest > 0
         then normalizeQuantifiedGroupBody (take (i - (hd starts + 1)) (drop (hd starts + 1) pattern))
                # quantifiedGroupsFrom pattern (i + 1) rest False False (tl starts)
         else quantifiedGroupsFrom pattern (i + 1) rest False False (tl starts))
      else quantifiedGroupsFrom pattern (i + 1) rest False False starts)"

definition findQuantifiedGroups :: "jsstr \<Rightarrow> jsstr list" where
  "findQuantifiedGroups pattern = quantifiedGroupsFrom pattern 0 pattern False False []"

text \<open>
  The loop of \<open>splitTopLevelAlternatives\<close>; \<open>piece\<close> is \<open>groupBody.slice(start, i)\<close>.
\<close>

fun alternativesFrom :: "jsstr \<Rightarrow> jsstr \<Rightarrow> nat \<Rightarrow> bool \<Rightarrow> bool \<Rightarrow> jsstr list" where
  "alternativesFrom [] piece depth escaped inCharClass = [piece]"
| "alternativesFrom (ch # rest) piece depth escaped inCharClass =
     (if escaped then alternativesFrom rest (piece @ [ch]) depth False inCharClass
      else if ch = 92 then alternativesFrom rest (piece @ [ch]) depth True inCharClass
      else if inCharClass then alternativesFrom rest (piece @ [ch]) depth False (ch \<noteq> cu (CHR '']''))
      else if ch = cu (CHR ''['') then alternativesFrom rest (piece @ [ch]) depth False True
      else if ch = cu (CHR ''('') then alternativesFrom rest (piece @ [ch]) (depth + 1) False False
      else if ch = cu (CHR '')'') \<and> depth > 0 then alternativesFrom rest (piece @ [ch]) (depth - 1) False False
      else if ch = cu (CHR ''|'') \<and> depth = 0 then piece # alternativesFrom rest [] depth False False
      else alternativesFrom rest (piece @ [ch]) depth False False)"

definition splitTopLevelAlternatives :: "jsstr \<Rightarrow> jsstr list" where
  "splitTopLevelAlternatives groupBody = alternativesFrom groupBody [] 0 False False"

definition regexMetacharacters :: "jsstr" where
  "regexMetacharacters = lit ''^$.*+?()[]{}|''"

fun extractSimpleLiteralAlternative :: "jsstr \<Rightarrow> jsstr option" where
  "extractSimpleLiteralAlternative [] = Some []"
| "extractSimpleLiteralAlternative (ch # alt) =
     (if ch = 92 then
        (case alt of
           [] \<Rightarrow> None
         | escaped # rest \<Rightarrow> map_option ((#) escaped) (extractSimpleLiteralAlternative rest))
      else if ch \<in> set regexMetacharacters then None
      else map_option ((#) ch) (extractSimpleLiteralAlternative alt))"

fun literalsOverlap :: "jsstr list \<Rightarrow> bool" where
  "literalsOverlap [] = False"
| "literalsOverlap (left # rights) =
     (list_ex (\<lambda>right. startsWith left right \<or> startsWith right left) rights \<or> literalsOverlap rights)"

definition alternativesHavePrefixOverlap :: "jsstr list \<Rightarrow> bool" where
  "alternativesHavePrefixOverlap alternatives =
     (case those (map extractSimpleLiteralAlternative alternatives) of
        None \<Rightarrow> False
      | Some literals \<Rightarrow> literalsOverlap literals)"

section \<open>The two tests by regular expression\<close>

text \<open>A backslash followed by a digit from 1 to 9, anywhere.\<close>

fun hasBackreference :: "jsstr \<Rightarrow> bool" where
  "hasBackreference (a # b # s) = ((a = 92 \<and> 49 \<le> b \<and> b \<le> 57) \<or> hasBackreference (b # s))"
| "hasBackreference s = False"

definition isLineTerminator :: "cu \<Rightarrow> bool" where
  "isLineTerminator c \<longleftrightarrow> c = 10 \<or> c = 13 \<or> c = 0x2028 \<or> c = 0x2029"

text \<open>
  \<open>/\((?:[^()\\]|\\.)*[+*](?:[^()\\]|\\.)*\)[+*{]/\<close>: behind an opening parenthesis, units other than
  parentheses and escaped pairs, a plus or star among them unescaped, up to a closing parenthesis
  with a quantifier. An escape is always a pair, so the scan is deterministic.
\<close>

fun quantifiedTail :: "bool \<Rightarrow> jsstr \<Rightarrow> bool" where
  "quantifiedTail seen [] = False"
| "quantifiedTail seen (c # cs) =
     (if c = 92 then
        (case cs of [] \<Rightarrow> False | d # rest \<Rightarrow> \<not> isLineTerminator d \<and> quantifiedTail seen rest)
      else if c = cu (CHR '')'') then
        seen \<and> cs \<noteq> [] \<and> (hd cs = cu (CHR ''+'') \<or> hd cs = cu (CHR ''*'') \<or> hd cs = cu (CHR ''{''))
      else if c = cu (CHR ''('') then False
      else quantifiedTail (seen \<or> c = cu (CHR ''+'') \<or> c = cu (CHR ''*'')) cs)"

fun hasNestedQuantifier :: "jsstr \<Rightarrow> bool" where
  "hasNestedQuantifier [] = False"
| "hasNestedQuantifier (c # cs) = ((c = cu (CHR ''('') \<and> quantifiedTail False cs) \<or> hasNestedQuantifier cs)"

definition hasUnsafeRegexConstructs :: "jsstr \<Rightarrow> bool" where
  "hasUnsafeRegexConstructs pattern =
     (hasBackreference pattern \<or> hasNestedQuantifier pattern \<or>
      list_ex (\<lambda>groupBody.
        let alternatives = splitTopLevelAlternatives groupBody
        in length alternatives > 1 \<and> alternativesHavePrefixOverlap alternatives)
        (findQuantifiedGroups pattern))"

end
