(* ===== verification/JsonPathEval.thy ===== *)
theory JsonPathEval
  imports JsonPathParser JsonPathRegex JsValue
begin

text \<open>
  The evaluator of JSONPath, \<open>src/jsonpath/evaluator.ts\<close>. The document is a value of a heap the
  evaluation only reads. The mutable part of an \<open>EvalContext\<close>, the number of visited nodes and the
  regex cache, is the state of the actions; a limit that is exceeded is \<open>Inl\<close>. The context of a
  filtered child copies the visit counter and shares the cache (\<open>inChild\<close>). The regular expression
  engine of the language is a parameter: from a pattern to the test it compiles to, \<open>None\<close> when
  \<open>new RegExp\<close> throws. \<open>NOTHING\<close> is \<open>None\<close>. The two loops over an explicit stack take
  \<open>maxNodesVisited\<close> as fuel, since every round that does not shrink the stack counts a visit.
\<close>

section \<open>Data\<close>

datatype pathStep = Key jsstr | Idx nat

record evalNode =
  nodeValue :: jsval
  segments :: "pathStep list"

record evalLimits =
  maxNodesVisited :: nat
  maxDepth :: nat
  maxRegexPatternLength :: nat
  maxRegexInputLength :: nat
  rejectUnsafeRegex :: bool

datatype limit_error =
    MaxDepthExceeded
  | MaxNodesExceeded
  | RegexPatternTooLong
  | RegexInputTooLong
  | RegexUnsafe
  | LoopOutOfFuel

type_synonym regex = "jsstr \<Rightarrow> bool"

record evalContext =
  docHeap :: heap
  engine :: "jsstr \<Rightarrow> regex option"
  limits :: evalLimits
  rootValue :: jsval
  currentValue :: jsval
  currentPath :: "pathStep list"

record evalState =
  nodesVisited :: nat
  regexCache :: "jsstr \<rightharpoonup> regex option"

type_synonym 'a action = "evalState \<Rightarrow> limit_error + ('a \<times> evalState)"

definition retA :: "'a \<Rightarrow> 'a action" where
  "retA x s = Inr (x, s)"

definition failA :: "limit_error \<Rightarrow> 'a action" where
  "failA e s = Inl e"

definition bindA :: "'a action \<Rightarrow> ('a \<Rightarrow> 'b action) \<Rightarrow> 'b action" where
  "bindA m f s = andThen (m s) (\<lambda>(x, s'). f x s')"

text \<open>\<open>for (const x of xs) result.push(...f(x))\<close>, a fold, and the loops that stop at a truth value.\<close>

fun collectA :: "('a \<Rightarrow> 'b list action) \<Rightarrow> 'a list \<Rightarrow> 'b list action" where
  "collectA f [] = retA []"
| "collectA f (x # xs) = bindA (f x) (\<lambda>r. bindA (collectA f xs) (\<lambda>rs. retA (r @ rs)))"

fun foldA :: "('a \<Rightarrow> 's \<Rightarrow> 's action) \<Rightarrow> 'a list \<Rightarrow> 's \<Rightarrow> 's action" where
  "foldA f [] s = retA s"
| "foldA f (x # xs) s = bindA (f x s) (\<lambda>s'. foldA f xs s')"

fun anyA :: "('a \<Rightarrow> bool action) \<Rightarrow> 'a list \<Rightarrow> bool action" where
  "anyA f [] = retA False"
| "anyA f (x # xs) = bindA (f x) (\<lambda>b. if b then retA True else anyA f xs)"

fun allA :: "('a \<Rightarrow> bool action) \<Rightarrow> 'a list \<Rightarrow> bool action" where
  "allA f [] = retA True"
| "allA f (x # xs) = bindA (f x) (\<lambda>b. if \<not> b then retA False else allA f xs)"

lemma collectA_cong [fundef_cong]:
  "xs = ys \<Longrightarrow> (\<And>x. x \<in> set ys \<Longrightarrow> f x = g x) \<Longrightarrow> collectA f xs = collectA g ys"
  by (induction xs arbitrary: ys) auto

lemma foldA_cong [fundef_cong]:
  "xs = ys \<Longrightarrow> (\<And>x u. x \<in> set ys \<Longrightarrow> f x u = g x u) \<Longrightarrow> foldA f xs = foldA g ys"
proof -
  assume eq: "\<And>x u. x \<in> set ys \<Longrightarrow> f x u = g x u"
  have "foldA f zs u = foldA g zs u" if "set zs \<subseteq> set ys" for zs u
    using that by (induction zs arbitrary: u) (simp_all add: eq fun_eq_iff bindA_def)
  then show "xs = ys \<Longrightarrow> foldA f xs = foldA g ys" by blast
qed

lemma anyA_cong [fundef_cong]:
  "xs = ys \<Longrightarrow> (\<And>x. x \<in> set ys \<Longrightarrow> f x = g x) \<Longrightarrow> anyA f xs = anyA g ys"
  by (induction xs arbitrary: ys) (auto cong: if_cong)

lemma allA_cong [fundef_cong]:
  "xs = ys \<Longrightarrow> (\<And>x. x \<in> set ys \<Longrightarrow> f x = g x) \<Longrightarrow> allA f xs = allA g ys"
  by (induction xs arbitrary: ys) (auto cong: if_cong)

section \<open>Limits\<close>

text \<open>The options, each a value of type \<open>unknown\<close> as far as the code trusts it.\<close>

record jsonPathOptions =
  throwOnError :: bool
  optMaxNodesVisited :: jsval
  optMaxDepth :: jsval
  optMaxRegexPatternLength :: jsval
  optMaxRegexInputLength :: jsval
  optRejectUnsafeRegex :: "bool option"

definition defaultLimits :: evalLimits where
  "defaultLimits = \<lparr>maxNodesVisited = 100000, maxDepth = 64, maxRegexPatternLength = 256,
     maxRegexInputLength = 1024, rejectUnsafeRegex = True\<rparr>"

definition floorOr :: "(rat \<Rightarrow> bool) \<Rightarrow> jsval \<Rightarrow> nat \<Rightarrow> nat" where
  "floorOr ok v fallback = (case v of Num (Fin q) \<Rightarrow> if ok q then nat \<lfloor>q\<rfloor> else fallback | _ \<Rightarrow> fallback)"

definition resolveEvalLimits :: "jsonPathOptions \<Rightarrow> evalLimits" where
  "resolveEvalLimits options =
     \<lparr>maxNodesVisited = floorOr (\<lambda>q. q > 0) (optMaxNodesVisited options) (maxNodesVisited defaultLimits),
      maxDepth = floorOr (\<lambda>q. q \<ge> 0) (optMaxDepth options) (maxDepth defaultLimits),
      maxRegexPatternLength =
        floorOr (\<lambda>q. q > 0) (optMaxRegexPatternLength options) (maxRegexPatternLength defaultLimits),
      maxRegexInputLength =
        floorOr (\<lambda>q. q > 0) (optMaxRegexInputLength options) (maxRegexInputLength defaultLimits),
      rejectUnsafeRegex =
        (case optRejectUnsafeRegex options of None \<Rightarrow> rejectUnsafeRegex defaultLimits | Some b \<Rightarrow> b)\<rparr>"

definition trackNodeVisit :: "evalContext \<Rightarrow> nat \<Rightarrow> unit action" where
  "trackNodeVisit ctx depth s =
     (if depth > maxDepth (limits ctx) then Inl MaxDepthExceeded
      else
        let s' = s\<lparr>nodesVisited := nodesVisited s + 1\<rparr>
        in if nodesVisited s' > maxNodesVisited (limits ctx) then Inl MaxNodesExceeded else Inr ((), s'))"

text \<open>\<open>addResultNode\<close> on a fresh result array: the node it holds then.\<close>

definition addResultNode :: "evalContext \<Rightarrow> evalNode \<Rightarrow> evalNode list action" where
  "addResultNode ctx node = bindA (trackNodeVisit ctx (length (segments node))) (\<lambda>_. retA [node])"

text \<open>The elements of an array, or the members of an object, each with the step that leads to it.\<close>

definition isObjectValue :: "jsval \<Rightarrow> bool" where
  "isObjectValue v = (case v of Ref a \<Rightarrow> True | _ \<Rightarrow> False)"

definition entriesOf :: "heap \<Rightarrow> jsval \<Rightarrow> (pathStep \<times> jsval) list" where
  "entriesOf h v =
     (case arrayOf h v of
        Some vs \<Rightarrow> zip (map Idx [0..<length vs]) vs
      | None \<Rightarrow> (case recordOf h v of Some ps \<Rightarrow> map (\<lambda>(k, w). (Key k, w)) ps | None \<Rightarrow> []))"

definition childNode :: "evalNode \<Rightarrow> pathStep \<times> jsval \<Rightarrow> evalNode" where
  "childNode node e = \<lparr>nodeValue = snd e, segments = segments node @ [fst e]\<rparr>"

section \<open>Selectors\<close>

definition evaluateNameSelector :: "jsstr \<Rightarrow> evalContext \<Rightarrow> evalNode \<Rightarrow> evalNode list action" where
  "evaluateNameSelector name ctx node =
     (case recordOf (docHeap ctx) (nodeValue node) of
        None \<Rightarrow> retA []
      | Some ps \<Rightarrow>
          if \<not> hasOwnKey ps name then retA []
          else addResultNode ctx (childNode node (Key name, getProp ps name)))"

definition evaluateWildcardSelector :: "evalContext \<Rightarrow> evalNode \<Rightarrow> evalNode list action" where
  "evaluateWildcardSelector ctx node =
     collectA (\<lambda>e. addResultNode ctx (childNode node e)) (entriesOf (docHeap ctx) (nodeValue node))"

definition evaluateIndexSelector :: "int \<Rightarrow> evalContext \<Rightarrow> evalNode \<Rightarrow> evalNode list action" where
  "evaluateIndexSelector i ctx node =
     (case arrayOf (docHeap ctx) (nodeValue node) of
        None \<Rightarrow> retA []
      | Some vs \<Rightarrow>
          let index = (if i < 0 then int (length vs) + i else i)
          in if index < 0 \<or> index \<ge> int (length vs) then retA []
             else addResultNode ctx (childNode node (Idx (nat index), vs ! nat index)))"

definition normalize :: "int \<Rightarrow> int \<Rightarrow> int" where
  "normalize i len = (if i \<ge> 0 then i else len + i)"

text \<open>The two \<open>for\<close> loops of a slice: the indices from \<open>i\<close> on by \<open>step\<close>, while the bound is not reached.\<close>

function indicesUp :: "int \<Rightarrow> int \<Rightarrow> int \<Rightarrow> int list" where
  "indicesUp i upper step = (if i < upper \<and> 0 < step then i # indicesUp (i + step) upper step else [])"
  by pat_completeness auto
termination by (relation "measure (\<lambda>(i, upper, step). nat (upper - i))") auto

function indicesDown :: "int \<Rightarrow> int \<Rightarrow> int \<Rightarrow> int list" where
  "indicesDown i lower step = (if lower < i \<and> step < 0 then i # indicesDown (i + step) lower step else [])"
  by pat_completeness auto
termination by (relation "measure (\<lambda>(i, lower, step). nat (i - lower))") auto

declare indicesUp.simps [simp del] indicesDown.simps [simp del]

definition sliceIndices :: "int option \<Rightarrow> int option \<Rightarrow> int option \<Rightarrow> int \<Rightarrow> int list" where
  "sliceIndices start0 end0 step0 len =
     (let step = (case step0 of None \<Rightarrow> 1 | Some k \<Rightarrow> k)
      in if step = 0 then []
         else
           let defaultStart = (if step \<ge> 0 then 0 else len - 1);
               defaultEnd = (if step \<ge> 0 then len else - len - 1);
               nStart = normalize (case start0 of None \<Rightarrow> defaultStart | Some k \<Rightarrow> k) len;
               nEnd = normalize (case end0 of None \<Rightarrow> defaultEnd | Some k \<Rightarrow> k) len
           in if step > 0 then
                indicesUp (min (max nStart 0) len) (min (max nEnd 0) len) step
              else
                indicesDown (min (max nStart (- 1)) (len - 1)) (min (max nEnd (- 1)) (len - 1)) step)"

definition evaluateSliceSelector ::
    "int option \<Rightarrow> int option \<Rightarrow> int option \<Rightarrow> evalContext \<Rightarrow> evalNode \<Rightarrow> evalNode list action" where
  "evaluateSliceSelector start0 end0 step0 ctx node =
     (case arrayOf (docHeap ctx) (nodeValue node) of
        None \<Rightarrow> retA []
      | Some vs \<Rightarrow>
          collectA (\<lambda>i. addResultNode ctx (childNode node (Idx (nat i), vs ! nat i)))
            (sliceIndices start0 end0 step0 (int (length vs))))"

text \<open>Running an action in the context of a filtered child: a counter of its own, the cache shared.\<close>

definition inChild :: "'a action \<Rightarrow> 'a action" where
  "inChild m s = andThen (m s) (\<lambda>(x, s'). Inr (x, s\<lparr>regexCache := regexCache s'\<rparr>))"

definition evaluateFilterSelector ::
    "(evalContext \<Rightarrow> bool action) \<Rightarrow> evalContext \<Rightarrow> evalNode \<Rightarrow> evalNode list action" where
  "evaluateFilterSelector expression ctx node =
     collectA (\<lambda>e.
       let child = childNode node e
       in bindA (trackNodeVisit ctx (length (segments child))) (\<lambda>_.
            bindA (inChild (expression
                (ctx\<lparr>currentValue := nodeValue child, currentPath := segments child\<rparr>))) (\<lambda>b.
              if b then addResultNode ctx child else retA [])))
       (entriesOf (docHeap ctx) (nodeValue node))"

section \<open>Descendants\<close>

datatype frame = Visit evalNode nat | Exit nat

definition isAncestor :: "nat set \<Rightarrow> jsval \<Rightarrow> bool" where
  "isAncestor ancestors v = (case v of Ref a \<Rightarrow> a \<in> ancestors | _ \<Rightarrow> False)"

definition addAncestor :: "jsval \<Rightarrow> nat set \<Rightarrow> nat set" where
  "addAncestor v ancestors = (case v of Ref a \<Rightarrow> insert a ancestors | _ \<Rightarrow> ancestors)"

text \<open>What an object pushes: the frame that leaves it, and its children, the first one on top.\<close>

definition childFrames :: "heap \<Rightarrow> evalNode \<Rightarrow> nat \<Rightarrow> frame list" where
  "childFrames h node depth =
     (case nodeValue node of
        Ref a \<Rightarrow> map (\<lambda>e. Visit (childNode node e) (depth + 1)) (entriesOf h (Ref a)) @ [Exit a]
      | _ \<Rightarrow> [])"

function descendLoop :: "nat \<Rightarrow> evalContext \<Rightarrow> (evalNode \<Rightarrow> evalNode list action) \<Rightarrow> frame list \<Rightarrow> nat set \<Rightarrow>
    evalNode list \<Rightarrow> evalNode list action" where
  "descendLoop fuel ctx visit [] ancestors result = retA result"
| "descendLoop fuel ctx visit (Exit a # stack) ancestors result =
     descendLoop fuel ctx visit stack (ancestors - {a}) result"
| "descendLoop fuel ctx visit (Visit node depth # stack) ancestors result =
     (if isAncestor ancestors (nodeValue node) then descendLoop fuel ctx visit stack ancestors result
      else
        (case fuel of
           0 \<Rightarrow> failA LoopOutOfFuel
         | Suc fuel' \<Rightarrow>
             bindA (trackNodeVisit ctx depth) (\<lambda>_.
               bindA (visit node) (\<lambda>selected.
                 descendLoop fuel' ctx visit (childFrames (docHeap ctx) node depth @ stack)
                   (addAncestor (nodeValue node) ancestors) (result @ selected)))))"
  by pat_completeness auto
termination
  by (relation "inv_image (less_than <*lex*> less_than) (\<lambda>(fuel, ctx, v, stack, an, r). (fuel, length stack))") auto

definition forEachDescendant ::
    "evalContext \<Rightarrow> (evalNode \<Rightarrow> evalNode list action) \<Rightarrow> evalNode \<Rightarrow> evalNode list action" where
  "forEachDescendant ctx visit node =
     descendLoop (Suc (maxNodesVisited (limits ctx))) ctx visit [Visit node (length (segments node))] {} []"

section \<open>Comparison\<close>

text \<open>What \<open>typeof\<close> tells apart; \<open>null\<close> is an object.\<close>

datatype typeName = TUndefined | TObject | TBoolean | TNumber | TString | TOther

definition typeOf :: "jsval \<Rightarrow> typeName" where
  "typeOf v =
     (case v of
        Undefined \<Rightarrow> TUndefined
      | Null \<Rightarrow> TObject
      | Ref a \<Rightarrow> TObject
      | Bool b \<Rightarrow> TBoolean
      | Num x \<Rightarrow> TNumber
      | Str s \<Rightarrow> TString
      | Exotic e \<Rightarrow> TOther)"

definition propsOf :: "heap \<Rightarrow> jsval \<Rightarrow> (jsstr \<times> jsval) list" where
  "propsOf h v = (case recordOf h v of Some ps \<Rightarrow> ps | None \<Rightarrow> [])"

text \<open>
  One round of the loop of \<open>deepEqual\<close>: the pair differs (the code returns \<open>false\<close>), or the loop goes
  on with the pairs the round pushes, top first, and the pairs of objects met so far.
\<close>

datatype compareStep = Differ | GoOn "(jsval \<times> jsval \<times> nat) list" "(nat \<times> nat) set"

definition compareFrame :: "heap \<Rightarrow> jsval \<Rightarrow> jsval \<Rightarrow> nat \<Rightarrow> (nat \<times> nat) set \<Rightarrow> compareStep" where
  "compareFrame h left right depth seen =
     (if strictEq left right then GoOn [] seen
      else if typeOf left \<noteq> typeOf right then Differ
      else if left = Null \<or> right = Null then Differ
      else
        (case (left, right) of
           (Ref a, Ref b) \<Rightarrow>
             if (a, b) \<in> seen then GoOn [] seen
             else
               (case (arrayOf h left, arrayOf h right) of
                  (Some xs, Some ys) \<Rightarrow>
                    if length xs \<noteq> length ys then Differ
                    else GoOn (rev (map (\<lambda>(x, y). (x, y, depth + 1)) (zip xs ys))) (insert (a, b) seen)
                | (None, None) \<Rightarrow>
                    let ps = propsOf h left; qs = propsOf h right
                    in if length ps \<noteq> length qs then Differ
                       else if list_ex (\<lambda>(k, x). \<not> hasOwnKey qs k) ps then Differ
                       else GoOn (rev (map (\<lambda>(k, x). (x, getProp qs k, depth + 1)) ps)) (insert (a, b) seen)
                | _ \<Rightarrow> Differ)
         | _ \<Rightarrow> Differ))"

text \<open>The loop: the stack of pairs to compare, top first, and the pairs of objects already met.\<close>

fun deepEqualLoop :: "nat \<Rightarrow> evalContext \<Rightarrow> (jsval \<times> jsval \<times> nat) list \<Rightarrow> (nat \<times> nat) set \<Rightarrow> bool action" where
  "deepEqualLoop fuel ctx [] seen = retA True"
| "deepEqualLoop 0 ctx (f # stack) seen = failA LoopOutOfFuel"
| "deepEqualLoop (Suc fuel) ctx ((left, right, depth) # stack) seen =
     bindA (trackNodeVisit ctx depth) (\<lambda>_.
       case compareFrame (docHeap ctx) left right depth seen of
         Differ \<Rightarrow> retA False
       | GoOn pushed seen' \<Rightarrow> deepEqualLoop fuel ctx (pushed @ stack) seen')"

definition deepEqualA :: "evalContext \<Rightarrow> jsval \<Rightarrow> jsval \<Rightarrow> bool action" where
  "deepEqualA ctx a b = deepEqualLoop (Suc (maxNodesVisited (limits ctx))) ctx [(a, b, 0)] {}"

definition compareLessThan :: "jsval \<Rightarrow> jsval \<Rightarrow> bool" where
  "compareLessThan left right =
     (case (left, right) of
        (Num x, Num y) \<Rightarrow> x < y
      | (Str s, Str t) \<Rightarrow> s < t
      | _ \<Rightarrow> False)"

definition compareLessThanOrEqual :: "jsval \<Rightarrow> jsval \<Rightarrow> bool" where
  "compareLessThanOrEqual left right =
     (case (left, right) of
        (Num x, Num y) \<Rightarrow> x \<le> y
      | (Str s, Str t) \<Rightarrow> s \<le> t
      | _ \<Rightarrow> False)"

definition compareA :: "evalContext \<Rightarrow> jsval option \<Rightarrow> comparisonOp \<Rightarrow> jsval option \<Rightarrow> bool action" where
  "compareA ctx left op right =
     (case (left, right) of
        (Some l, Some r) \<Rightarrow>
          (case op of
             EqOp \<Rightarrow> deepEqualA ctx l r
           | NeOp \<Rightarrow> bindA (deepEqualA ctx l r) (\<lambda>b. retA (\<not> b))
           | LtOp \<Rightarrow> retA (compareLessThan l r)
           | LeOp \<Rightarrow> retA (compareLessThanOrEqual l r)
           | GtOp \<Rightarrow> retA (compareLessThan r l)
           | GeOp \<Rightarrow> retA (compareLessThanOrEqual r l))
      | _ \<Rightarrow> retA False)"

section \<open>Functions\<close>

definition enforceRegexPolicy :: "evalContext \<Rightarrow> jsstr \<Rightarrow> jsstr \<Rightarrow> unit action" where
  "enforceRegexPolicy ctx pattern input =
     (if length pattern > maxRegexPatternLength (limits ctx) then failA RegexPatternTooLong
      else if length input > maxRegexInputLength (limits ctx) then failA RegexInputTooLong
      else if rejectUnsafeRegex (limits ctx) \<and> hasUnsafeRegexConstructs pattern then failA RegexUnsafe
      else retA ())"

definition getCachedRegex :: "evalContext \<Rightarrow> jsstr \<Rightarrow> jsstr \<Rightarrow> regex option action" where
  "getCachedRegex ctx cacheKey pattern s =
     (case regexCache s cacheKey of
        Some compiled \<Rightarrow> Inr (compiled, s)
      | None \<Rightarrow> Inr (engine ctx pattern, s\<lparr>regexCache := (regexCache s)(cacheKey \<mapsto> engine ctx pattern)\<rparr>))"

definition matchKey :: "jsstr \<Rightarrow> jsstr" where
  "matchKey pattern = lit ''match:'' @ pattern"

definition anchored :: "jsstr \<Rightarrow> jsstr" where
  "anchored pattern = lit ''^(?:'' @ pattern @ lit '')$''"

definition searchKey :: "jsstr \<Rightarrow> jsstr" where
  "searchKey pattern = lit ''search:'' @ pattern"

definition regexTest :: "evalContext \<Rightarrow> jsstr \<Rightarrow> jsstr \<Rightarrow> jsval option \<Rightarrow> jsval option \<Rightarrow> bool action" where
  "regexTest ctx cacheKey compiledPattern value pattern =
     (case (value, pattern) of
        (Some (Str v), Some (Str p)) \<Rightarrow>
          bindA (enforceRegexPolicy ctx p v) (\<lambda>_.
            bindA (getCachedRegex ctx cacheKey compiledPattern) (\<lambda>re.
              retA (case re of None \<Rightarrow> False | Some test \<Rightarrow> test v)))
      | _ \<Rightarrow> retA False)"

definition patternOf :: "jsval option \<Rightarrow> jsstr" where
  "patternOf p = (case p of Some (Str s) \<Rightarrow> s | _ \<Rightarrow> [])"

text \<open>\<open>fnMatch\<close> and \<open>fnSearch\<close> behind the evaluation of their two arguments.\<close>

definition fnMatch :: "evalContext \<Rightarrow> jsval option \<Rightarrow> jsval option \<Rightarrow> bool action" where
  "fnMatch ctx value pattern =
     regexTest ctx (matchKey (patternOf pattern)) (anchored (patternOf pattern)) value pattern"

definition fnSearch :: "evalContext \<Rightarrow> jsval option \<Rightarrow> jsval option \<Rightarrow> bool action" where
  "fnSearch ctx value pattern =
     regexTest ctx (searchKey (patternOf pattern)) (patternOf pattern) value pattern"

definition numOfNat :: "nat \<Rightarrow> jsval" where
  "numOfNat n = Num (Fin (of_nat n))"

definition fnLength :: "evalContext \<Rightarrow> jsval option \<Rightarrow> jsval option" where
  "fnLength ctx value =
     (case value of
        Some (Str s) \<Rightarrow> Some (numOfNat (length s))
      | Some (Ref a) \<Rightarrow>
          (case arrayOf (docHeap ctx) (Ref a) of
             Some vs \<Rightarrow> Some (numOfNat (length vs))
           | None \<Rightarrow> Some (numOfNat (length (propsOf (docHeap ctx) (Ref a)))))
      | _ \<Rightarrow> None)"

text \<open>\<open>NOTHING\<close> unless there is exactly one node.\<close>

definition onlyValue :: "evalNode list \<Rightarrow> jsval option" where
  "onlyValue nodes = (case nodes of [n] \<Rightarrow> Some (nodeValue n) | _ \<Rightarrow> None)"

definition literalValue :: "literal \<Rightarrow> jsval" where
  "literalValue l =
     (case l of
        StringLiteral s \<Rightarrow> Str s
      | NumberLiteral x \<Rightarrow> Num x
      | BoolLiteral b \<Rightarrow> Bool b
      | NullLiteral \<Rightarrow> Null)"

definition startNode :: "rootId \<Rightarrow> evalContext \<Rightarrow> evalNode" where
  "startNode r ctx =
     (if r = DollarRoot then \<lparr>nodeValue = rootValue ctx, segments = []\<rparr>
      else \<lparr>nodeValue = currentValue ctx, segments = currentPath ctx\<rparr>)"

section \<open>The evaluator\<close>

text \<open>
  The mutual recursion over the syntax. \<open>evaluateFilterQuery\<close> and \<open>evaluateSingularQuery\<close> share
  \<open>evaluateFrom\<close>: the start node counts as a visit, then the segments in order.
\<close>

definition evaluateFrom ::
    "rootId \<Rightarrow> evalContext \<Rightarrow> (evalNode list \<Rightarrow> evalNode list action) \<Rightarrow> evalNode list action" where
  "evaluateFrom r ctx rest =
     bindA (trackNodeVisit ctx (length (segments (startNode r ctx)))) (\<lambda>_. rest [startNode r ctx])"

fun evaluateSegment :: "segment \<Rightarrow> evalContext \<Rightarrow> evalNode list \<Rightarrow> evalNode list action"
and evaluateSelector :: "selector \<Rightarrow> evalContext \<Rightarrow> evalNode \<Rightarrow> evalNode list action"
and evaluateLogicalExpr :: "logicalExpr \<Rightarrow> evalContext \<Rightarrow> bool action"
and evaluateComparable :: "comparable \<Rightarrow> evalContext \<Rightarrow> jsval option action"
and evaluateFunction :: "functionExpr \<Rightarrow> evalContext \<Rightarrow> jsval option action"
and evaluateFunctionArg :: "functionArg \<Rightarrow> evalContext \<Rightarrow> jsval option action"
and evaluateFilterQuery :: "query \<Rightarrow> evalContext \<Rightarrow> evalNode list action" where
  "evaluateSegment (ChildSegment selectors) = (\<lambda>ctx nodes.
     collectA (\<lambda>node. collectA (\<lambda>selector. evaluateSelector selector ctx node) selectors) nodes)"
| "evaluateSegment (DescendantSegment selectors) = (\<lambda>ctx nodes.
     collectA (\<lambda>node.
       forEachDescendant ctx (\<lambda>descNode.
         collectA (\<lambda>selector. evaluateSelector selector ctx descNode) selectors) node) nodes)"
| "evaluateSelector (NameSelector name) = evaluateNameSelector name"
| "evaluateSelector WildcardSelector = evaluateWildcardSelector"
| "evaluateSelector (IndexSelector i) = evaluateIndexSelector i"
| "evaluateSelector (SliceSelector a b c) = evaluateSliceSelector a b c"
| "evaluateSelector (FilterSelector e) = evaluateFilterSelector (evaluateLogicalExpr e)"
| "evaluateLogicalExpr (OrExpr es) = (\<lambda>ctx. anyA (\<lambda>e. evaluateLogicalExpr e ctx) es)"
| "evaluateLogicalExpr (AndExpr es) = (\<lambda>ctx. allA (\<lambda>e. evaluateLogicalExpr e ctx) es)"
| "evaluateLogicalExpr (NotExpr e) = (\<lambda>ctx. bindA (evaluateLogicalExpr e ctx) (\<lambda>b. retA (\<not> b)))"
| "evaluateLogicalExpr (ComparisonExpr op l r) = (\<lambda>ctx.
     bindA (evaluateComparable l ctx) (\<lambda>left.
       bindA (evaluateComparable r ctx) (\<lambda>right. compareA ctx left op right)))"
| "evaluateLogicalExpr (TestExpr q) = (\<lambda>ctx. bindA (evaluateFilterQuery q ctx) (\<lambda>nodes. retA (nodes \<noteq> [])))"
| "evaluateLogicalExpr (FunctionTest f) = (\<lambda>ctx.
     bindA (evaluateFunction f ctx) (\<lambda>result. retA (result = Some (Bool True))))"
| "evaluateComparable (LiteralComparable l) = (\<lambda>ctx. retA (Some (literalValue l)))"
| "evaluateComparable (SingularQuery r ss) = (\<lambda>ctx.
     bindA (evaluateFrom r ctx (foldA (\<lambda>segment. evaluateSegment segment ctx) ss)) (\<lambda>nodes. retA (onlyValue nodes)))"
| "evaluateComparable (FunctionComparable f) = evaluateFunction f"
| "evaluateFunction (FunctionExpr name args) = (\<lambda>ctx.
     case name of
       LengthFn \<Rightarrow>
         (case args of
            [arg] \<Rightarrow> bindA (evaluateFunctionArg arg ctx) (\<lambda>value. retA (fnLength ctx value))
          | _ \<Rightarrow> retA None)
     | CountFn \<Rightarrow>
         (case args of
            [QueryArg q] \<Rightarrow> bindA (evaluateFilterQuery q ctx) (\<lambda>nodes. retA (Some (numOfNat (length nodes))))
          | _ \<Rightarrow> retA (Some (numOfNat 0)))
     | MatchFn \<Rightarrow>
         (case args of
            [valueArg, patternArg] \<Rightarrow>
              bindA (evaluateFunctionArg valueArg ctx) (\<lambda>value.
                bindA (evaluateFunctionArg patternArg ctx) (\<lambda>pattern.
                  bindA (fnMatch ctx value pattern) (\<lambda>b. retA (Some (Bool b)))))
          | _ \<Rightarrow> retA (Some (Bool False)))
     | SearchFn \<Rightarrow>
         (case args of
            [valueArg, patternArg] \<Rightarrow>
              bindA (evaluateFunctionArg valueArg ctx) (\<lambda>value.
                bindA (evaluateFunctionArg patternArg ctx) (\<lambda>pattern.
                  bindA (fnSearch ctx value pattern) (\<lambda>b. retA (Some (Bool b)))))
          | _ \<Rightarrow> retA (Some (Bool False)))
     | ValueFn \<Rightarrow>
         (case args of
            [QueryArg q] \<Rightarrow> bindA (evaluateFilterQuery q ctx) (\<lambda>nodes. retA (onlyValue nodes))
          | _ \<Rightarrow> retA None))"
| "evaluateFunctionArg (LiteralArg l) = (\<lambda>ctx. retA (Some (literalValue l)))"
| "evaluateFunctionArg (QueryArg q) = (\<lambda>ctx.
     bindA (evaluateFilterQuery q ctx) (\<lambda>nodes. retA (onlyValue nodes)))"
| "evaluateFunctionArg (FunctionArg f) = evaluateFunction f"
| "evaluateFilterQuery (Query r ss) = (\<lambda>ctx.
     evaluateFrom r ctx (foldA (\<lambda>segment. evaluateSegment segment ctx) ss))"

section \<open>Queries\<close>

definition rootContext :: "heap \<Rightarrow> (jsstr \<Rightarrow> regex option) \<Rightarrow> evalLimits \<Rightarrow> jsval \<Rightarrow> evalContext" where
  "rootContext h eng lims document =
     \<lparr>docHeap = h, engine = eng, limits = lims, rootValue = document, currentValue = document, currentPath = []\<rparr>"

definition initialState :: evalState where
  "initialState = \<lparr>nodesVisited = 0, regexCache = Map.empty\<rparr>"

definition evaluateQuery :: "query \<Rightarrow> evalContext \<Rightarrow> limit_error + evalNode list" where
  "evaluateQuery ast ctx =
     (case ast of Query r ss \<Rightarrow>
        andThen
          (bindA (trackNodeVisit ctx 0) (\<lambda>_.
             foldA (\<lambda>segment. evaluateSegment segment ctx) ss
               [\<lparr>nodeValue = rootValue ctx, segments = []\<rparr>]) initialState)
          (\<lambda>(nodes, s). Inr nodes))"

section \<open>Normalized paths\<close>

definition hexDigit :: "nat \<Rightarrow> cu" where
  "hexDigit n = (if n < 10 then 48 + n else 55 + n)"

definition escapeUnit :: "cu \<Rightarrow> jsstr" where
  "escapeUnit code =
     (if code = 92 then [92, 92]
      else if code = 39 then [92, 39]
      else if code \<le> 0x1F then
        (if code = 8 then lit [CHR 0x5C, CHR ''b'']
         else if code = 9 then lit [CHR 0x5C, CHR ''t'']
         else if code = 10 then lit [CHR 0x5C, CHR ''n'']
         else if code = 12 then lit [CHR 0x5C, CHR ''f'']
         else if code = 13 then lit [CHR 0x5C, CHR ''r'']
         else [92, cu (CHR ''u''), 48, 48, hexDigit (code div 16), hexDigit (code mod 16)])
      else [code])"

definition escapeNormalizedPathString :: "jsstr \<Rightarrow> jsstr" where
  "escapeNormalizedPathString value = concat (map escapeUnit value)"

definition formatStep :: "pathStep \<Rightarrow> jsstr" where
  "formatStep seg =
     (case seg of
        Idx n \<Rightarrow> lit ''['' @ showNat n @ lit '']''
      | Key name \<Rightarrow> lit ''['' @ [39] @ escapeNormalizedPathString name @ [39] @ lit '']'')"

definition formatNormalizedPath :: "pathStep list \<Rightarrow> jsstr" where
  "formatNormalizedPath steps = lit ''$'' @ concat (map formatStep steps)"

definition materializeNodePath :: "evalNode \<Rightarrow> jsval \<times> jsstr" where
  "materializeNodePath node = (nodeValue node, formatNormalizedPath (segments node))"

section \<open>The exported functions\<close>

text \<open>\<open>Inr None\<close> is the returned \<open>null\<close>; \<open>Inl\<close> a thrown error.\<close>

datatype query_error = InvalidQuery | ExecutionLimit limit_error

definition queryWith ::
    "(evalNode \<Rightarrow> 'a) \<Rightarrow> heap \<Rightarrow> (jsstr \<Rightarrow> regex option) \<Rightarrow> jsstr \<Rightarrow> jsval \<Rightarrow> jsonPathOptions \<Rightarrow>
      query_error + 'a list option" where
  "queryWith f h eng text document options =
     (case parseJsonPath text of
        None \<Rightarrow> if throwOnError options then Inl InvalidQuery else Inr None
      | Some ast \<Rightarrow>
          (case evaluateQuery ast (rootContext h eng (resolveEvalLimits options) document) of
             Inl e \<Rightarrow> if throwOnError options then Inl (ExecutionLimit e) else Inr None
           | Inr nodes \<Rightarrow> Inr (Some (map f nodes))))"

definition queryJsonPath where
  "queryJsonPath = queryWith nodeValue"

definition queryJsonPathNodes where
  "queryJsonPathNodes = queryWith materializeNodePath"

definition isValidJsonPath :: "jsstr \<Rightarrow> bool" where
  "isValidJsonPath text \<longleftrightarrow> parseJsonPath text \<noteq> None"

definition noOptions :: jsonPathOptions where
  "noOptions = \<lparr>throwOnError = False, optMaxNodesVisited = Undefined, optMaxDepth = Undefined,
     optMaxRegexPatternLength = Undefined, optMaxRegexInputLength = Undefined,
     optRejectUnsafeRegex = None\<rparr>"

definition compileJsonPath ::
    "heap \<Rightarrow> (jsstr \<Rightarrow> regex option) \<Rightarrow> jsstr \<Rightarrow> (jsval \<Rightarrow> limit_error + jsval list) option" where
  "compileJsonPath h eng text =
     (case parseJsonPath text of
        None \<Rightarrow> None
      | Some ast \<Rightarrow> Some (\<lambda>document.
          andThen (evaluateQuery ast (rootContext h eng (resolveEvalLimits noOptions) document))
            (\<lambda>nodes. Inr (map nodeValue nodes))))"

end
