(* ===== verification/JsonPathEvalLaws.thy ===== *)
theory JsonPathEvalLaws
  imports JsonPathEval
begin

text \<open>
  The laws of the evaluator that do not depend on the syntax of the query: how actions compose,
  where the nodes of a result are in the document, how visits are counted, the order of the
  descendants, and the indices of a slice. \<open>keeps R m\<close> says every successful run of \<open>m\<close> is a
  transition of \<open>R\<close>; the interface \<open>evaluation\<close> proves it for the whole evaluator from its three
  primitive effects, and is interpreted for the visit budget and for the regex cache.
\<close>

section \<open>Runs of actions\<close>

lemma retA_run [simp]: "retA x s = Inr (y, s') \<longleftrightarrow> y = x \<and> s' = s"
  by (auto simp: retA_def)

lemma retA_not_Inl [simp]: "retA x s \<noteq> Inl e"
  by (simp add: retA_def)

lemma failA_run [simp]: "failA e s \<noteq> Inr r" "failA e s = Inl e' \<longleftrightarrow> e' = e"
  by (auto simp: failA_def)

lemma bindA_run: "bindA m f s = Inr (y, s') \<longleftrightarrow> (\<exists>x s1. m s = Inr (x, s1) \<and> f x s1 = Inr (y, s'))"
  by (auto simp: bindA_def err_simps)

lemma bindA_fail: "bindA m f s = Inl e \<longleftrightarrow> m s = Inl e \<or> (\<exists>x s1. m s = Inr (x, s1) \<and> f x s1 = Inl e)"
  by (auto simp: bindA_def err_simps)

lemma bindA_retA [simp]: "bindA (retA x) f = f x"
  by (simp add: bindA_def retA_def fun_eq_iff)

lemma bindA_assoc: "bindA (bindA m f) g = bindA m (\<lambda>x. bindA (f x) g)"
  by (auto simp: bindA_def fun_eq_iff andThen_assoc split_def)

lemma trackNodeVisit_run: "trackNodeVisit ctx d s = Inr (u, s') \<longleftrightarrow>
    d \<le> maxDepth (limits ctx) \<and> nodesVisited s < maxNodesVisited (limits ctx) \<and>
    s' = s\<lparr>nodesVisited := nodesVisited s + 1\<rparr>"
  by (auto simp: trackNodeVisit_def Let_def)

section \<open>Where nodes are\<close>

definition stepValue :: "heap \<Rightarrow> jsval \<Rightarrow> pathStep \<Rightarrow> jsval option" where
  "stepValue h v step = map_of (entriesOf h v) step"

fun valueAt :: "heap \<Rightarrow> jsval \<Rightarrow> pathStep list \<Rightarrow> jsval option" where
  "valueAt h v [] = Some v"
| "valueAt h v (step # steps) = (case stepValue h v step of None \<Rightarrow> None | Some w \<Rightarrow> valueAt h w steps)"

lemma valueAt_append:
  "valueAt h v (xs @ ys) = (case valueAt h v xs of None \<Rightarrow> None | Some w \<Rightarrow> valueAt h w ys)"
  by (induction h v xs rule: valueAt.induct) (auto split: option.split)

lemma distinct_entries:
  assumes "wfHeap h"
  shows "distinct (map fst (entriesOf h v))"
proof (cases "arrayOf h v")
  case None
  show ?thesis
  proof (cases "recordOf h v")
    case (Some ps)
    have "distinct (map fst ps)"
      using Some assms by (auto simp: recordOf_def wfHeap_def keysOrdered_def split: jsval.splits option.splits heapobj.splits)
    then have "distinct (map Key (map fst ps))" by (simp add: distinct_map inj_on_def)
    then show ?thesis using None Some by (simp add: entriesOf_def comp_def case_prod_beta)
  qed (simp add: None entriesOf_def)
qed (simp add: entriesOf_def distinct_map inj_on_def)

lemma stepValue_entry: "wfHeap h \<Longrightarrow> (step, w) \<in> set (entriesOf h v) \<Longrightarrow> stepValue h v step = Some w"
  using distinct_entries by (simp add: stepValue_def)

lemma entries_array: "arrayOf h v = Some vs \<Longrightarrow> i < length vs \<Longrightarrow> (Idx i, vs ! i) \<in> set (entriesOf h v)"
  by (auto simp: entriesOf_def in_set_zip intro!: exI[of _ i])

lemma entries_record: "recordOf h v = Some ps \<Longrightarrow> map_of ps k = Some w \<Longrightarrow> (Key k, w) \<in> set (entriesOf h v)"
proof -
  assume r: "recordOf h v = Some ps" and k: "map_of ps k = Some w"
  have "arrayOf h v = None" using r by (auto simp: recordOf_def arrayOf_def split: jsval.splits option.splits heapobj.splits)
  with r map_of_SomeD[OF k] show ?thesis by (force simp: entriesOf_def)
qed

text \<open>A node of the document: its segments lead from the root to its value, within the depth limit.\<close>

definition nodeOk :: "evalContext \<Rightarrow> evalNode \<Rightarrow> bool" where
  "nodeOk ctx n \<longleftrightarrow> valueAt (docHeap ctx) (rootValue ctx) (segments n) = Some (nodeValue n)"

definition isChild :: "evalContext \<Rightarrow> evalNode \<Rightarrow> evalNode \<Rightarrow> bool" where
  "isChild ctx n c \<longleftrightarrow> (\<exists>e\<in>set (entriesOf (docHeap ctx) (nodeValue n)). c = childNode n e)"

lemma nodeOk_child: "wfHeap (docHeap ctx) \<Longrightarrow> nodeOk ctx n \<Longrightarrow> isChild ctx n c \<Longrightarrow> nodeOk ctx c"
  by (auto simp: nodeOk_def isChild_def childNode_def valueAt_append stepValue_entry)

section \<open>What a run yields\<close>

text \<open>The nodes of a successful run, each paid for by a visit within the limits.\<close>

definition selects :: "evalContext \<Rightarrow> (evalNode \<Rightarrow> bool) \<Rightarrow> evalNode list action \<Rightarrow> bool" where
  "selects ctx P m \<longleftrightarrow> (\<forall>s ns s'. m s = Inr (ns, s') \<longrightarrow>
     (\<forall>n\<in>set ns. P n \<and> length (segments n) \<le> maxDepth (limits ctx)) \<and>
     nodesVisited s + length ns \<le> nodesVisited s' \<and>
     (nodesVisited s \<le> maxNodesVisited (limits ctx) \<longrightarrow> nodesVisited s' \<le> maxNodesVisited (limits ctx)))"

lemma selectsD:
  "selects ctx P m \<Longrightarrow> m s = Inr (ns, s') \<Longrightarrow>
    (\<forall>n\<in>set ns. P n \<and> length (segments n) \<le> maxDepth (limits ctx)) \<and>
    nodesVisited s + length ns \<le> nodesVisited s' \<and>
    (nodesVisited s \<le> maxNodesVisited (limits ctx) \<longrightarrow> nodesVisited s' \<le> maxNodesVisited (limits ctx))"
  unfolding selects_def by blast

lemma selects_ret [simp]: "selects ctx P (retA [])"
  by (simp add: selects_def)

lemma selects_addResultNode: "P n \<Longrightarrow> selects ctx P (addResultNode ctx n)"
  by (auto simp: selects_def addResultNode_def bindA_run trackNodeVisit_run)

lemma selects_bind:
  assumes "\<And>s x s1. m s = Inr (x, s1) \<Longrightarrow> nodesVisited s \<le> nodesVisited s1 \<and>
      (nodesVisited s \<le> maxNodesVisited (limits ctx) \<longrightarrow> nodesVisited s1 \<le> maxNodesVisited (limits ctx))"
    and "\<And>x. selects ctx P (f x)"
  shows "selects ctx P (bindA m f)"
proof -
  have "(\<forall>n\<in>set ns. P n \<and> length (segments n) \<le> maxDepth (limits ctx)) \<and>
     nodesVisited s + length ns \<le> nodesVisited s' \<and>
     (nodesVisited s \<le> maxNodesVisited (limits ctx) \<longrightarrow> nodesVisited s' \<le> maxNodesVisited (limits ctx))"
    if run: "bindA m f s = Inr (ns, s')" for s ns s'
  proof -
    obtain x s1 where x: "m s = Inr (x, s1)" "f x s1 = Inr (ns, s')" using run by (auto simp: bindA_run)
    show ?thesis using assms(1)[OF x(1)] selectsD[OF assms(2) x(2)] by auto
  qed
  then show ?thesis by (simp add: selects_def)
qed

lemma selects_collect: "(\<And>x. x \<in> set xs \<Longrightarrow> selects ctx P (f x)) \<Longrightarrow> selects ctx P (collectA f xs)"
proof (induction xs)
  case (Cons x xs)
  have x: "selects ctx P (f x)" and xs: "selects ctx P (collectA f xs)" using Cons by auto
  have "(\<forall>n\<in>set ns. P n \<and> length (segments n) \<le> maxDepth (limits ctx)) \<and>
     nodesVisited s + length ns \<le> nodesVisited s' \<and>
     (nodesVisited s \<le> maxNodesVisited (limits ctx) \<longrightarrow> nodesVisited s' \<le> maxNodesVisited (limits ctx))"
    if run: "collectA f (x # xs) s = Inr (ns, s')" for s ns s'
  proof -
    obtain r s1 rs where r: "f x s = Inr (r, s1)" "collectA f xs s1 = Inr (rs, s')" "ns = r @ rs"
      using run by (auto simp: bindA_run)
    show ?thesis using selectsD[OF x r(1)] selectsD[OF xs r(2)] r(3) by auto
  qed
  then show ?case by (simp add: selects_def)
qed simp

lemma sliceIndices_range: "0 \<le> len \<Longrightarrow> i \<in> set (sliceIndices a b c len) \<Longrightarrow> 0 \<le> i \<and> i < len"
proof -
  have up: "i \<in> set (indicesUp l u st) \<Longrightarrow> l \<le> i \<and> i < u" for l u st :: int
    by (induction l u st rule: indicesUp.induct) (subst (asm) indicesUp.simps, auto split: if_splits)
  have down: "i \<in> set (indicesDown u l st) \<Longrightarrow> l < i \<and> i \<le> u" for l u st :: int
    by (induction u l st rule: indicesDown.induct) (subst (asm) indicesDown.simps, auto split: if_splits)
  show "0 \<le> len \<Longrightarrow> i \<in> set (sliceIndices a b c len) \<Longrightarrow> 0 \<le> i \<and> i < len"
    by (fastforce simp: sliceIndices_def Let_def split: if_splits dest!: up down)
qed

lemma isChild_entry: "e \<in> set (entriesOf (docHeap ctx) (nodeValue n)) \<Longrightarrow> isChild ctx n (childNode n e)"
  unfolding isChild_def by blast

lemma isChild_array: "arrayOf (docHeap ctx) (nodeValue n) = Some vs \<Longrightarrow> i < length vs \<Longrightarrow>
    isChild ctx n (childNode n (Idx i, vs ! i))"
  unfolding isChild_def using entries_array by blast

lemma selects_selector:
  assumes "wfHeap (docHeap ctx)"
  shows "selects ctx (isChild ctx n) (evaluateSelector sel ctx n)"
proof (cases sel)
  case (NameSelector k)
  have "isChild ctx n (childNode n (Key k, w))"
    if "recordOf (docHeap ctx) (nodeValue n) = Some ps" "map_of ps k = Some w" for ps w
    using entries_record[OF that] unfolding isChild_def by blast
  then show ?thesis
    by (auto simp: NameSelector evaluateNameSelector_def hasOwnKey_map_of getProp_def
        split: option.split intro!: selects_addResultNode)
next
  case WildcardSelector
  show ?thesis
    by (auto simp: WildcardSelector evaluateWildcardSelector_def
        intro!: selects_collect selects_addResultNode isChild_entry)
next
  case (IndexSelector i)
  show ?thesis
    using isChild_array
    by (auto simp: IndexSelector evaluateIndexSelector_def Let_def
        split: option.split intro!: selects_addResultNode)
next
  case (SliceSelector a b c)
  show ?thesis
    using isChild_array
    by (auto simp: SliceSelector evaluateSliceSelector_def Let_def
        split: option.split intro!: selects_collect selects_addResultNode dest!: sliceIndices_range[rotated])
next
  case (FilterSelector e)
  show ?thesis
    by (auto simp: FilterSelector evaluateFilterSelector_def Let_def bindA_run trackNodeVisit_run
        inChild_def err_simps intro!: selects_collect selects_addResultNode selects_bind isChild_entry)
qed

section \<open>Descendants\<close>

lemma nodeOk_entry:
  "wfHeap (docHeap ctx) \<Longrightarrow> nodeOk ctx n \<Longrightarrow> e \<in> set (entriesOf (docHeap ctx) (nodeValue n)) \<Longrightarrow>
    nodeOk ctx (childNode n e)"
  using nodeOk_child unfolding isChild_def by blast

lemma selects_mono: "selects ctx P m \<Longrightarrow> (\<And>n. P n \<Longrightarrow> Q n) \<Longrightarrow> selects ctx Q m"
  unfolding selects_def by blast

text \<open>Every node on the stack is in the document, so what is selected from it is.\<close>

lemma descendLoop_selects:
  "descendLoop fuel ctx visit stack anc acc s = Inr (ns, s') \<Longrightarrow> wfHeap (docHeap ctx) \<Longrightarrow>
    \<forall>n. nodeOk ctx n \<longrightarrow> selects ctx (nodeOk ctx) (visit n) \<Longrightarrow>
    \<forall>n d. Visit n d \<in> set stack \<longrightarrow> nodeOk ctx n \<Longrightarrow>
    \<exists>ms. ns = acc @ ms \<and> (\<forall>n\<in>set ms. nodeOk ctx n \<and> length (segments n) \<le> maxDepth (limits ctx)) \<and>
     nodesVisited s + length ms \<le> nodesVisited s' \<and>
     (nodesVisited s \<le> maxNodesVisited (limits ctx) \<longrightarrow> nodesVisited s' \<le> maxNodesVisited (limits ctx))"
proof (induction fuel ctx visit stack anc acc arbitrary: s rule: descendLoop.induct)
  case (2 fuel ctx visit a stack anc acc)
  then show ?case by auto
next
  case (3 fuel ctx visit node depth stack anc acc)
  show ?case
  proof (cases "isAncestor anc (nodeValue node)")
    case True
    then have "descendLoop fuel ctx visit stack anc acc s = Inr (ns, s')" using "3.prems"(1) by simp
    from "3.IH"(1)[OF True this "3.prems"(2,3)] "3.prems"(4) show ?thesis by auto
  next
    case False
    then obtain fuel' where fuel: "fuel = Suc fuel'" using "3.prems"(1) by (cases fuel) auto
    have node: "nodeOk ctx node" using "3.prems"(4) by auto
    obtain s1 sel s2 where run: "trackNodeVisit ctx depth s = Inr ((), s1)" "visit node s1 = Inr (sel, s2)"
      "descendLoop fuel' ctx visit (childFrames (docHeap ctx) node depth @ stack)
        (addAncestor (nodeValue node) anc) (acc @ sel) s2 = Inr (ns, s')"
      using "3.prems"(1) False by (auto simp: fuel bindA_run)
    have stack: "\<forall>n d. Visit n d \<in> set (childFrames (docHeap ctx) node depth @ stack) \<longrightarrow> nodeOk ctx n"
      using "3.prems"(4) nodeOk_entry[OF "3.prems"(2) node]
      by (auto simp: childFrames_def split: jsval.splits)
    obtain ms where ms: "ns = (acc @ sel) @ ms"
        "\<forall>n\<in>set ms. nodeOk ctx n \<and> length (segments n) \<le> maxDepth (limits ctx)"
        "nodesVisited s2 + length ms \<le> nodesVisited s'"
        "nodesVisited s2 \<le> maxNodesVisited (limits ctx) \<longrightarrow> nodesVisited s' \<le> maxNodesVisited (limits ctx)"
      using "3.IH"(2)[OF False fuel run(3) "3.prems"(2,3) stack] by blast
    show ?thesis
      using ms selectsD[OF "3.prems"(3)[rule_format, OF node] run(2)] run(1)
      by (intro exI[of _ "sel @ ms"]) (auto simp: trackNodeVisit_run)
  qed
qed auto

lemma selects_forEachDescendant:
  assumes "wfHeap (docHeap ctx)" and "\<And>n. nodeOk ctx n \<Longrightarrow> selects ctx (nodeOk ctx) (visit n)" and "nodeOk ctx n"
  shows "selects ctx (nodeOk ctx) (forEachDescendant ctx visit n)"
proof -
  have "(\<forall>n\<in>set ns. nodeOk ctx n \<and> length (segments n) \<le> maxDepth (limits ctx)) \<and>
     nodesVisited s + length ns \<le> nodesVisited s' \<and>
     (nodesVisited s \<le> maxNodesVisited (limits ctx) \<longrightarrow> nodesVisited s' \<le> maxNodesVisited (limits ctx))"
    if run: "forEachDescendant ctx visit n s = Inr (ns, s')" for s ns s'
    using descendLoop_selects[OF run[unfolded forEachDescendant_def] assms(1)] assms(2,3) by auto
  then show ?thesis by (simp add: selects_def)
qed

lemma selects_segment:
  assumes "wfHeap (docHeap ctx)" and "\<forall>n\<in>set ns. nodeOk ctx n"
  shows "selects ctx (nodeOk ctx) (evaluateSegment seg ctx ns)"
proof -
  have sel: "selects ctx (nodeOk ctx) (evaluateSelector sel ctx n)" if "nodeOk ctx n" for sel n
    using selects_selector[OF assms(1)] nodeOk_child[OF assms(1) that] by (rule selects_mono)
  show ?thesis
  proof (cases seg)
    case (ChildSegment sels)
    then show ?thesis using assms(2) sel by (auto intro!: selects_collect)
  next
    case (DescendantSegment sels)
    then show ?thesis
      using assms sel by (auto intro!: selects_collect selects_forEachDescendant)
  qed
qed

text \<open>The whole query: every node is in the document, and visits pay for nodes.\<close>

lemma foldA_segments:
  assumes "wfHeap (docHeap ctx)"
  shows "foldA (\<lambda>seg. evaluateSegment seg ctx) segs ns s = Inr (ms, s') \<Longrightarrow>
    (\<forall>n\<in>set ns. nodeOk ctx n \<and> length (segments n) \<le> maxDepth (limits ctx)) \<Longrightarrow>
    length ns \<le> nodesVisited s \<Longrightarrow> nodesVisited s \<le> maxNodesVisited (limits ctx) \<Longrightarrow>
    (\<forall>n\<in>set ms. nodeOk ctx n \<and> length (segments n) \<le> maxDepth (limits ctx)) \<and>
    length ms \<le> nodesVisited s' \<and> nodesVisited s' \<le> maxNodesVisited (limits ctx)"
proof (induction segs arbitrary: ns s)
  case (Cons seg segs)
  then obtain ns1 s1 where r: "evaluateSegment seg ctx ns s = Inr (ns1, s1)"
    "foldA (\<lambda>seg. evaluateSegment seg ctx) segs ns1 s1 = Inr (ms, s')"
    by (auto simp: bindA_run)
  have "selects ctx (nodeOk ctx) (evaluateSegment seg ctx ns)" using selects_segment[OF assms] Cons.prems(2) by blast
  from selectsD[OF this r(1)] Cons.prems(4) Cons.IH[OF r(2)] show ?case by fastforce
qed auto

lemma evaluateQuery_nodes:
  assumes "wfHeap (docHeap ctx)" and "evaluateQuery ast ctx = Inr ns"
  shows "(\<forall>n\<in>set ns. nodeOk ctx n \<and> length (segments n) \<le> maxDepth (limits ctx)) \<and>
    length ns \<le> maxNodesVisited (limits ctx)"
proof -
  obtain r ss where ast: "ast = Query r ss" by (cases ast)
  obtain s1 s' where r: "trackNodeVisit ctx 0 initialState = Inr ((), s1)"
    "foldA (\<lambda>seg. evaluateSegment seg ctx) ss [\<lparr>nodeValue = rootValue ctx, segments = []\<rparr>] s1 = Inr (ns, s')"
    using assms(2) by (auto simp: evaluateQuery_def ast err_simps bindA_run)
  have "nodesVisited s1 = 1" "1 \<le> maxNodesVisited (limits ctx)"
    using r(1) by (auto simp: trackNodeVisit_run initialState_def)
  with foldA_segments[OF assms(1) r(2)] show ?thesis by (auto simp: nodeOk_def)
qed

section \<open>The interface of an invariant of the evaluation\<close>

text \<open>
  \<open>sat R E m\<close>: a run of \<open>m\<close> either fails with an error \<open>E\<close> allows or makes a transition of \<open>R\<close>. The
  interface \<open>evaluation\<close> asks for that of the primitive effects; its client lemma gives it for every
  construct of the syntax.
\<close>

definition sat :: "(evalState \<Rightarrow> evalState \<Rightarrow> bool) \<Rightarrow> (limit_error \<Rightarrow> bool) \<Rightarrow> 'a action \<Rightarrow> bool" where
  "sat R E m \<longleftrightarrow> (\<forall>s. case m s of Inl e \<Rightarrow> E e | Inr (x, s') \<Rightarrow> R s s')"

lemma satD: "sat R E m \<Longrightarrow> m s = Inr (x, s') \<Longrightarrow> R s s'"
  unfolding sat_def by (drule spec[of _ s]) simp

lemma satD_fail: "sat R E m \<Longrightarrow> m s = Inl e \<Longrightarrow> E e"
  unfolding sat_def by (drule spec[of _ s]) simp

lemma satI:
  "(\<And>s x s'. m s = Inr (x, s') \<Longrightarrow> R s s') \<Longrightarrow> (\<And>s e. m s = Inl e \<Longrightarrow> E e) \<Longrightarrow> sat R E m"
  unfolding sat_def by (auto split: sum.split)

locale action_laws =
  fixes R :: "evalState \<Rightarrow> evalState \<Rightarrow> bool"
    and E :: "limit_error \<Rightarrow> bool"
  assumes refl: "R s s"
    and trans: "R s t \<Longrightarrow> R t u \<Longrightarrow> R s u"
begin

lemma sat_ret: "sat R E (retA x)"
  by (rule satI) (auto intro: refl)

lemma sat_bind:
  assumes "sat R E m" and "\<And>x. sat R E (f x)"
  shows "sat R E (bindA m f)"
proof (rule satI)
  show "\<And>s x s'. bindA m f s = Inr (x, s') \<Longrightarrow> R s s'"
    using satD[OF assms(1)] satD[OF assms(2)] trans unfolding bindA_run by blast
  show "\<And>s e. bindA m f s = Inl e \<Longrightarrow> E e"
    using satD_fail[OF assms(1)] satD_fail[OF assms(2)] by (auto simp: bindA_fail)
qed

lemma sat_collect: "(\<And>x. x \<in> set xs \<Longrightarrow> sat R E (f x)) \<Longrightarrow> sat R E (collectA f xs)"
  by (induction xs) (auto intro!: sat_ret sat_bind)

lemma sat_fold: "(\<And>x ns. x \<in> set xs \<Longrightarrow> sat R E (f x ns)) \<Longrightarrow> sat R E (foldA f xs ns)"
  by (induction xs arbitrary: ns) (auto intro!: sat_ret sat_bind)

lemma sat_any: "(\<And>x. x \<in> set xs \<Longrightarrow> sat R E (f x)) \<Longrightarrow> sat R E (anyA f xs)"
  by (induction xs) (auto intro!: sat_ret sat_bind)

lemma sat_all: "(\<And>x. x \<in> set xs \<Longrightarrow> sat R E (f x)) \<Longrightarrow> sat R E (allA f xs)"
  by (induction xs) (auto intro!: sat_ret sat_bind)

lemma sat_if: "sat R E x \<Longrightarrow> sat R E y \<Longrightarrow> sat R E (if b then x else y)"
  by simp

end

locale evaluation = action_laws +
  fixes lims :: evalLimits
    and eng :: "jsstr \<Rightarrow> regex option"
  assumes track: "limits ctx = lims \<Longrightarrow> sat R E (trackNodeVisit ctx d)"
    and child: "sat R E (m :: bool action) \<Longrightarrow> sat R E (inChild m)"
    and match: "limits ctx = lims \<Longrightarrow> engine ctx = eng \<Longrightarrow> sat R E (fnMatch ctx v p)"
    and search: "limits ctx = lims \<Longrightarrow> engine ctx = eng \<Longrightarrow> sat R E (fnSearch ctx v p)"
    and descend: "limits ctx = lims \<Longrightarrow> (\<And>n. sat R E (visit n)) \<Longrightarrow> sat R E (forEachDescendant ctx visit n)"
    and equal: "limits ctx = lims \<Longrightarrow> sat R E (deepEqualA ctx a b)"
begin

lemma sat_addResultNode: "limits ctx = lims \<Longrightarrow> sat R E (addResultNode ctx n)"
  by (simp add: addResultNode_def sat_bind sat_ret track)

lemma sat_compare: "limits ctx = lims \<Longrightarrow> sat R E (compareA ctx l op r)"
  by (auto simp: compareA_def split: option.split comparisonOp.split intro!: sat_ret sat_bind equal)

lemma sat_evaluateFrom:
  "limits ctx = lims \<Longrightarrow> (\<And>ns. sat R E (rest ns)) \<Longrightarrow> sat R E (evaluateFrom r ctx rest)"
  by (simp add: evaluateFrom_def sat_bind track)

lemma sat_filterSelector:
  assumes "limits ctx = lims" and "engine ctx = eng"
    and "\<And>c. limits c = lims \<Longrightarrow> engine c = eng \<Longrightarrow> sat R E (expression c)"
  shows "sat R E (evaluateFilterSelector expression ctx n)"
  unfolding evaluateFilterSelector_def Let_def
  by (intro sat_collect sat_bind track child sat_if sat_addResultNode sat_ret assms(3)) (simp_all add: assms)

lemma sat_evaluator:
  "limits ctx = lims \<Longrightarrow> engine ctx = eng \<Longrightarrow> sat R E (evaluateSegment seg ctx ns)"
  "limits ctx = lims \<Longrightarrow> engine ctx = eng \<Longrightarrow> sat R E (evaluateSelector sel ctx n)"
  "limits ctx = lims \<Longrightarrow> engine ctx = eng \<Longrightarrow> sat R E (evaluateLogicalExpr e ctx)"
  "limits ctx = lims \<Longrightarrow> engine ctx = eng \<Longrightarrow> sat R E (evaluateComparable c ctx)"
  "limits ctx = lims \<Longrightarrow> engine ctx = eng \<Longrightarrow> sat R E (evaluateFunction f ctx)"
  "limits ctx = lims \<Longrightarrow> engine ctx = eng \<Longrightarrow> sat R E (evaluateFunctionArg a ctx)"
  "limits ctx = lims \<Longrightarrow> engine ctx = eng \<Longrightarrow> sat R E (evaluateFilterQuery q ctx)"
proof (induction seg and sel and e and c and f and a and q arbitrary: ctx ns and ctx n and ctx and ctx and ctx and ctx and ctx
    rule: evaluateSegment_evaluateSelector_evaluateLogicalExpr_evaluateComparable_evaluateFunction_evaluateFunctionArg_evaluateFilterQuery.induct)
  case (3 name)
  then show ?case
    by (auto simp: evaluateNameSelector_def split: option.split intro!: sat_ret sat_addResultNode)
next
  case 4
  then show ?case
    by (auto simp: evaluateWildcardSelector_def intro!: sat_collect sat_addResultNode)
next
  case (5 i)
  then show ?case
    by (auto simp: evaluateIndexSelector_def Let_def split: option.split intro!: sat_ret sat_addResultNode)
next
  case (6 x y z)
  then show ?case
    by (auto simp: evaluateSliceSelector_def split: option.split intro!: sat_ret sat_collect sat_addResultNode)
next
  case (7 e)
  then show ?case by (auto intro!: sat_filterSelector)
next
  case (17 name args)
  then show ?case
    by (cases name; cases args rule: remdups_adj.cases)
      (auto split: functionArg.split list.split intro!: sat_ret sat_bind match search)
qed (auto intro!: sat_ret sat_bind sat_collect sat_fold sat_any sat_all sat_compare sat_evaluateFrom descend)

end

section \<open>First interpretation: the budget of visits\<close>

definition budgetStep :: "evalLimits \<Rightarrow> evalState \<Rightarrow> evalState \<Rightarrow> bool" where
  "budgetStep lims s s' \<longleftrightarrow> nodesVisited s \<le> nodesVisited s' \<and>
     (nodesVisited s \<le> maxNodesVisited lims \<longrightarrow> nodesVisited s' \<le> maxNodesVisited lims)"

definition notFuel :: "limit_error \<Rightarrow> bool" where
  "notFuel e \<longleftrightarrow> e \<noteq> LoopOutOfFuel"

definition enoughFuel :: "evalLimits \<Rightarrow> nat \<Rightarrow> evalState \<Rightarrow> bool" where
  "enoughFuel lims fuel s \<longleftrightarrow>
     0 < fuel \<and> (nodesVisited s \<le> maxNodesVisited lims \<longrightarrow> maxNodesVisited lims < fuel + nodesVisited s)"

lemma track_budget: "limits ctx = lims \<Longrightarrow> sat (budgetStep lims) notFuel (trackNodeVisit ctx d)"
  by (auto simp: sat_def budgetStep_def notFuel_def trackNodeVisit_def Let_def)

lemma enoughFuel_step:
  assumes "trackNodeVisit ctx d s = Inr (u, s1)" and "enoughFuel (limits ctx) (Suc fuel) s"
    and "budgetStep (limits ctx) s1 s2"
  shows "enoughFuel (limits ctx) fuel s2"
  using assms by (auto simp: trackNodeVisit_run enoughFuel_def budgetStep_def)

definition budgetRun :: "evalLimits \<Rightarrow> evalState \<Rightarrow> limit_error + ('a \<times> evalState) \<Rightarrow> bool" where
  "budgetRun lims s r \<longleftrightarrow> (case r of Inl e \<Rightarrow> notFuel e | Inr (x, s') \<Rightarrow> budgetStep lims s s')"

lemma budgetRun_simps [simp]:
  "budgetRun lims s (Inl e) \<longleftrightarrow> notFuel e" "budgetRun lims s (Inr (x, s')) \<longleftrightarrow> budgetStep lims s s'"
  by (simp_all add: budgetRun_def)

lemma budgetRun_step: "budgetStep lims s s1 \<Longrightarrow> budgetRun lims s1 r \<Longrightarrow> budgetRun lims s r"
  by (auto simp: budgetRun_def budgetStep_def split: sum.splits)

lemma sat_budget: "sat (budgetStep lims) notFuel m \<longleftrightarrow> (\<forall>s. budgetRun lims s (m s))"
  by (simp add: sat_def budgetRun_def)

lemma budgetRun_bind:
  assumes "budgetRun lims s (m s)" and "\<And>x s1. m s = Inr (x, s1) \<Longrightarrow> budgetRun lims s1 (f x s1)"
  shows "budgetRun lims s (bindA m f s)"
proof (cases "m s")
  case (Inr r)
  obtain x s1 where r: "m s = Inr (x, s1)" using Inr by (cases r) auto
  then show ?thesis using budgetRun_step[OF _ assms(2)[OF r]] assms(1) by (simp add: bindA_def)
qed (use assms(1) in \<open>simp add: bindA_def\<close>)

lemma track_run: "budgetRun (limits ctx) s (trackNodeVisit ctx d s)"
  using track_budget[OF HOL.refl] by (simp add: sat_budget)

lemma descendLoop_budget:
  "enoughFuel (limits ctx) fuel s \<Longrightarrow> \<forall>n s. budgetRun (limits ctx) s (visit n s) \<Longrightarrow>
    budgetRun (limits ctx) s (descendLoop fuel ctx visit stack anc acc s)"
proof (induction fuel ctx visit stack anc acc arbitrary: s rule: descendLoop.induct)
  case (3 fuel ctx visit node depth stack anc acc)
  show ?case
  proof (cases "isAncestor anc (nodeValue node)")
    case True
    with "3.IH"(1)[OF True "3.prems"] show ?thesis by simp
  next
    case False
    obtain fuel' where fuel: "fuel = Suc fuel'" using "3.prems"(1) by (cases fuel) (auto simp: enoughFuel_def)
    have "budgetRun (limits ctx) s (bindA (trackNodeVisit ctx depth) (\<lambda>_. bindA (visit node) (\<lambda>selected.
        descendLoop fuel' ctx visit (childFrames (docHeap ctx) node depth @ stack)
          (addAncestor (nodeValue node) anc) (acc @ selected))) s)"
    proof (rule budgetRun_bind[OF track_run], rule budgetRun_bind)
      fix u s1 sel s2 assume s1: "trackNodeVisit ctx depth s = Inr (u, s1)" and s2: "visit node s1 = Inr (sel, s2)"
      have "budgetStep (limits ctx) s1 s2" using "3.prems"(2) s2 by (metis budgetRun_simps(2))
      then have "enoughFuel (limits ctx) fuel' s2"
        using enoughFuel_step[OF s1] "3.prems"(1) by (simp add: fuel)
      from "3.IH"(2)[OF False fuel this "3.prems"(2)]
      show "budgetRun (limits ctx) s2 (descendLoop fuel' ctx visit (childFrames (docHeap ctx) node depth @ stack)
          (addAncestor (nodeValue node) anc) (acc @ sel) s2)" .
    qed (use "3.prems"(2) in blast)
    then show ?thesis using False by (simp add: fuel)
  qed
qed (auto simp: budgetStep_def retA_def)

lemma deepEqualLoop_budget:
  "enoughFuel (limits ctx) fuel s \<Longrightarrow> budgetRun (limits ctx) s (deepEqualLoop fuel ctx stack seen s)"
proof (induction fuel ctx stack seen arbitrary: s rule: deepEqualLoop.induct)
  case (3 fuel ctx left right depth stack seen)
  show ?case
    unfolding deepEqualLoop.simps
  proof (rule budgetRun_bind[OF track_run])
    fix u s1 assume s1: "trackNodeVisit ctx depth s = Inr (u, s1)"
    have next_fuel: "enoughFuel (limits ctx) fuel s1"
      by (rule enoughFuel_step[OF s1 "3.prems"]) (simp add: budgetStep_def)
    show "budgetRun (limits ctx) s1 ((case compareFrame (docHeap ctx) left right depth seen of
        Differ \<Rightarrow> retA False | GoOn pushed seen' \<Rightarrow> deepEqualLoop fuel ctx (pushed @ stack) seen') s1)"
      using "3.IH"[OF _ next_fuel]
      by (cases "compareFrame (docHeap ctx) left right depth seen") (auto simp: retA_def budgetStep_def)
  qed
qed (auto simp: budgetStep_def enoughFuel_def retA_def)

lemma enoughFuel_start: "enoughFuel lims (Suc (maxNodesVisited lims)) s"
  by (auto simp: enoughFuel_def)

lemma budget_regexTest: "sat (budgetStep lims) notFuel (regexTest ctx k c v p)"
proof -
  have "budgetRun lims s (enforceRegexPolicy ctx q w s)" for q w s
    by (auto simp: enforceRegexPolicy_def failA_def retA_def notFuel_def budgetStep_def)
  moreover have "budgetRun lims s (getCachedRegex ctx k c s)" for s
    by (auto simp: getCachedRegex_def budgetStep_def split: option.split)
  moreover have "budgetRun lims s (retA x s)" for x :: bool and s
    by (simp add: retA_def budgetStep_def)
  ultimately show ?thesis
    unfolding sat_budget regexTest_def
    by (auto split: option.split jsval.split intro!: budgetRun_bind)
qed

interpretation budget: evaluation "budgetStep lims" notFuel lims eng for lims eng
proof
  show "budgetStep lims s s" for s by (simp add: budgetStep_def)
  show "budgetStep lims s t \<Longrightarrow> budgetStep lims t u \<Longrightarrow> budgetStep lims s u" for s t u
    by (auto simp: budgetStep_def)
  show "limits ctx = lims \<Longrightarrow> sat (budgetStep lims) notFuel (trackNodeVisit ctx d)" for ctx d
    by (rule track_budget)
  show "sat (budgetStep lims) notFuel (inChild m)" if "sat (budgetStep lims) notFuel m" for m :: "bool action"
    using that unfolding sat_budget by (force simp: inChild_def budgetRun_def budgetStep_def andThen_def split: sum.splits)
  show "sat (budgetStep lims) notFuel (fnMatch ctx v p)" for ctx v p
    unfolding fnMatch_def by (rule budget_regexTest)
  show "sat (budgetStep lims) notFuel (fnSearch ctx v p)" for ctx v p
    unfolding fnSearch_def by (rule budget_regexTest)
  show "sat (budgetStep lims) notFuel (forEachDescendant ctx visit n)"
    if "limits ctx = lims" "\<And>n. sat (budgetStep lims) notFuel (visit n)" for ctx visit n
    using that descendLoop_budget[OF enoughFuel_start] unfolding sat_budget forEachDescendant_def by metis
  show "sat (budgetStep lims) notFuel (deepEqualA ctx a b)" if "limits ctx = lims" for ctx a b
    using that deepEqualLoop_budget[OF enoughFuel_start] unfolding sat_budget deepEqualA_def by metis
qed

section \<open>Second interpretation: the regex cache\<close>

text \<open>Every cached entry is what the engine gives for the pattern its key stands for.\<close>

definition cacheOk :: "(jsstr \<Rightarrow> regex option) \<Rightarrow> evalState \<Rightarrow> bool" where
  "cacheOk eng s \<longleftrightarrow> (\<forall>p.
     (\<forall>re. regexCache s (matchKey p) = Some re \<longrightarrow> re = eng (anchored p)) \<and>
     (\<forall>re. regexCache s (searchKey p) = Some re \<longrightarrow> re = eng p))"

definition cacheStep :: "(jsstr \<Rightarrow> regex option) \<Rightarrow> evalState \<Rightarrow> evalState \<Rightarrow> bool" where
  "cacheStep eng s s' \<longleftrightarrow> (cacheOk eng s \<longrightarrow> cacheOk eng s')"

definition anyError :: "limit_error \<Rightarrow> bool" where
  "anyError e \<longleftrightarrow> True"

lemma anyError_holds [intro!]: "anyError e"
  by (simp add: anyError_def)

lemma keys_differ: "matchKey p \<noteq> searchKey q" "matchKey p = matchKey q \<longleftrightarrow> p = q" "searchKey p = searchKey q \<longleftrightarrow> p = q"
  by (simp_all add: matchKey_def searchKey_def)

lemma getCachedRegex_match:
  assumes "cacheOk (engine ctx) s"
  shows "\<exists>s'. getCachedRegex ctx (matchKey p) (anchored p) s = Inr (engine ctx (anchored p), s') \<and>
    cacheOk (engine ctx) s' \<and> nodesVisited s' = nodesVisited s"
  using assms by (auto simp: getCachedRegex_def cacheOk_def keys_differ keys_differ(1)[symmetric] split: option.split)

lemma getCachedRegex_search:
  assumes "cacheOk (engine ctx) s"
  shows "\<exists>s'. getCachedRegex ctx (searchKey p) p s = Inr (engine ctx p, s') \<and>
    cacheOk (engine ctx) s' \<and> nodesVisited s' = nodesVisited s"
  using assms by (auto simp: getCachedRegex_def cacheOk_def keys_differ keys_differ(1)[symmetric] split: option.split)

lemma cacheStep_visits: "regexCache s' = regexCache s \<Longrightarrow> cacheStep eng s s'"
  by (simp add: cacheStep_def cacheOk_def)

lemma track_cache: "sat (cacheStep eng) anyError (trackNodeVisit ctx d)"
  by (rule satI) (auto simp: trackNodeVisit_run intro: cacheStep_visits)

interpretation cacheRun: action_laws "cacheStep eng" anyError for eng
  by unfold_locales (auto simp: cacheStep_def)

lemma policy_cache: "sat (cacheStep eng) anyError (enforceRegexPolicy ctx p v)"
  by (rule satI) (auto simp: enforceRegexPolicy_def intro: cacheStep_visits split: if_splits)

lemma regexTest_cache:
  "sat (cacheStep eng) anyError (getCachedRegex ctx k c) \<Longrightarrow>
    sat (cacheStep eng) anyError (regexTest ctx k c v p)"
  unfolding regexTest_def
  by (auto split: option.split jsval.split intro!: cacheRun.sat_bind cacheRun.sat_ret policy_cache)

lemma cached_match: "sat (cacheStep (engine ctx)) anyError (getCachedRegex ctx (matchKey p) (anchored p))"
  using getCachedRegex_match[of ctx _ p] by (intro satI) (fastforce simp: cacheStep_def)+

lemma cached_search: "sat (cacheStep (engine ctx)) anyError (getCachedRegex ctx (searchKey p) p)"
  using getCachedRegex_search[of ctx _ p] by (intro satI) (fastforce simp: cacheStep_def)+

lemma descendLoop_cache:
  "\<forall>n. sat (cacheStep eng) anyError (visit n) \<Longrightarrow>
    sat (cacheStep eng) anyError (descendLoop fuel ctx visit stack anc acc)"
proof (induction fuel ctx visit stack anc acc rule: descendLoop.induct)
  case (3 fuel ctx visit node depth stack anc acc)
  have fail: "sat (cacheStep eng) anyError (failA e :: evalNode list action)" for e
    by (auto simp: sat_def failA_def)
  show ?case
  proof (cases "isAncestor anc (nodeValue node)")
    case True
    with "3.IH"(1)[OF True "3.prems"] show ?thesis by (simp add: sat_def)
  next
    case False
    show ?thesis
    proof (cases fuel)
      case 0
      with False fail show ?thesis by (simp add: sat_def)
    next
      case (Suc fuel')
      have "sat (cacheStep eng) anyError (bindA (trackNodeVisit ctx depth) (\<lambda>_. bindA (visit node) (\<lambda>selected.
          descendLoop fuel' ctx visit (childFrames (docHeap ctx) node depth @ stack)
            (addAncestor (nodeValue node) anc) (acc @ selected))))"
        by (intro cacheRun.sat_bind track_cache "3.IH"(2)[OF False Suc "3.prems"]) (use "3.prems" in blast)
      with False Suc show ?thesis by (simp add: sat_def)
    qed
  qed
qed (simp_all add: cacheRun.sat_ret)

lemma deepEqualLoop_cache: "sat (cacheStep eng) anyError (deepEqualLoop fuel ctx stack seen)"
proof (induction fuel ctx stack seen rule: deepEqualLoop.induct)
  case (3 fuel ctx left right depth stack seen)
  show ?case
    unfolding deepEqualLoop.simps
  proof (intro cacheRun.sat_bind track_cache)
    show "sat (cacheStep eng) anyError (case compareFrame (docHeap ctx) left right depth seen of
        Differ \<Rightarrow> retA False | GoOn pushed seen' \<Rightarrow> deepEqualLoop fuel ctx (pushed @ stack) seen')"
      using "3.IH" by (cases "compareFrame (docHeap ctx) left right depth seen") (auto intro: cacheRun.sat_ret)
  qed
qed (simp_all add: cacheRun.sat_ret, auto simp: sat_def failA_def)

lemma inChild_run:
  assumes "inChild m s = Inr (x, s')"
  shows "\<exists>t. m s = Inr (x, t) \<and> s' = s\<lparr>regexCache := regexCache t\<rparr>"
proof (cases "m s")
  case (Inr r)
  then obtain y t where "m s = Inr (y, t)" by (cases r) auto
  with assms show ?thesis by (simp add: inChild_def andThen_def)
qed (use assms in \<open>simp add: inChild_def andThen_def\<close>)

lemma inChild_cache:
  assumes "sat (cacheStep eng) anyError m"
  shows "sat (cacheStep eng) anyError (inChild m)"
proof (rule satI)
  fix s x s' assume run: "inChild m s = Inr (x, s')"
  obtain t where t: "m s = Inr (x, t)" "s' = s\<lparr>regexCache := regexCache t\<rparr>"
    using inChild_run[OF run] by (elim exE conjE)
  have "cacheOk eng s' = cacheOk eng t" unfolding t(2) cacheOk_def by simp
  with satD[OF assms t(1)] show "cacheStep eng s s'" unfolding cacheStep_def by simp
qed (rule anyError_holds)

lemma fnMatch_cache: "engine ctx = eng \<Longrightarrow> sat (cacheStep eng) anyError (fnMatch ctx v p)"
  unfolding fnMatch_def using cached_match[of ctx] by (auto intro: regexTest_cache)

lemma fnSearch_cache: "engine ctx = eng \<Longrightarrow> sat (cacheStep eng) anyError (fnSearch ctx v p)"
  unfolding fnSearch_def using cached_search[of ctx] by (auto intro: regexTest_cache)

interpretation cache: evaluation "cacheStep eng" anyError lims eng for lims eng
proof unfold_locales
  show "sat (cacheStep eng) anyError (trackNodeVisit ctx d)" for ctx d
    by (rule track_cache)
  show "sat (cacheStep eng) anyError (inChild m)" if "sat (cacheStep eng) anyError m" for m :: "bool action"
    using that by (rule inChild_cache)
  show "sat (cacheStep eng) anyError (fnMatch ctx v p)" if "engine ctx = eng" for ctx v p
    using that by (rule fnMatch_cache)
  show "sat (cacheStep eng) anyError (fnSearch ctx v p)" if "engine ctx = eng" for ctx v p
    using that by (rule fnSearch_cache)
  show "sat (cacheStep eng) anyError (forEachDescendant ctx visit n)"
    if "\<And>n. sat (cacheStep eng) anyError (visit n)" for ctx visit n
    unfolding forEachDescendant_def using that by (intro descendLoop_cache allI)
  show "sat (cacheStep eng) anyError (deepEqualA ctx a b)" for ctx a b
    unfolding deepEqualA_def by (rule deepEqualLoop_cache)
qed

section \<open>Slices\<close>

text \<open>The indices of a loop by \<open>step\<close>: those in the range that are a multiple of \<open>step\<close> away from its start.\<close>

lemma dvd_shift: "step dvd x - (y + step) \<longleftrightarrow> step dvd x - y" for step x y :: int
proof -
  have "x - y = x - (y + step) + step" by simp
  then show ?thesis by (metis dvd_add_triv_right_iff)
qed

lemma dvd_small: "0 \<le> x \<Longrightarrow> x < \<bar>step\<bar> \<Longrightarrow> step dvd x \<Longrightarrow> x = 0" for step x :: int
  by (rule ccontr) (use zdvd_imp_le[of "\<bar>step\<bar>" x] in simp)

lemma indicesUp_set:
  "0 < step \<Longrightarrow> i \<in> set (indicesUp lower upper step) \<longleftrightarrow> lower \<le> i \<and> i < upper \<and> step dvd i - lower"
proof (induction lower upper step rule: indicesUp.induct)
  case (1 lower upper step)
  show ?case
  proof (cases "lower < upper")
    case True
    have "i \<in> set (indicesUp lower upper step) \<longleftrightarrow>
        i = lower \<or> (lower + step \<le> i \<and> i < upper \<and> step dvd i - lower)"
      using "1.IH" True "1.prems" by (simp add: indicesUp.simps[of lower] dvd_shift)
    moreover have "lower + step \<le> i" if "lower \<le> i" "i \<noteq> lower" "step dvd i - lower"
      using dvd_small[of "i - lower" step] that by linarith
    ultimately show ?thesis using True "1.prems" by auto
  qed (simp add: indicesUp.simps[of lower])
qed

lemma indicesDown_set:
  "step < 0 \<Longrightarrow> i \<in> set (indicesDown upper lower step) \<longleftrightarrow> lower < i \<and> i \<le> upper \<and> step dvd i - upper"
proof (induction upper lower step rule: indicesDown.induct)
  case (1 upper lower step)
  show ?case
  proof (cases "lower < upper")
    case True
    have iff: "i \<in> set (indicesDown upper lower step) \<longleftrightarrow>
        i = upper \<or> (lower < i \<and> i \<le> upper + step \<and> step dvd i - upper)"
      using "1.IH" True "1.prems" by (simp add: indicesDown.simps[of upper] dvd_shift)
    have "i \<le> upper + step" if "i \<le> upper" "i \<noteq> upper" "step dvd i - upper"
      using dvd_small[of "upper - i" step] that dvd_minus_iff[of step "i - upper"] by fastforce
    with iff show ?thesis using True "1.prems" by auto
  qed (simp add: indicesDown.simps[of upper])
qed

lemma indicesUp_sorted: "0 < step \<Longrightarrow> sorted_wrt (<) (indicesUp lower upper step)"
proof (induction lower upper step rule: indicesUp.induct)
  case (1 lower upper step)
  show ?case
  proof (cases "lower < upper")
    case True
    have "lower < i" if "i \<in> set (indicesUp (lower + step) upper step)" for i
      using that "1.prems" by (simp only: indicesUp_set) linarith
    then show ?thesis
      using "1.IH" True "1.prems" by (simp add: indicesUp.simps[of lower])
  qed (simp add: indicesUp.simps[of lower])
qed

lemma indicesDown_sorted: "step < 0 \<Longrightarrow> sorted_wrt (>) (indicesDown upper lower step)"
proof (induction upper lower step rule: indicesDown.induct)
  case (1 upper lower step)
  show ?case
  proof (cases "lower < upper")
    case True
    have "i < upper" if "i \<in> set (indicesDown (upper + step) lower step)" for i
      using that "1.prems" by (simp only: indicesDown_set) linarith
    then show ?thesis
      using "1.IH" True "1.prems" by (simp add: indicesDown.simps[of upper])
  qed (simp add: indicesDown.simps[of upper])
qed

end
