(* ===== verification/JsonPathNormal.thy ===== *)
theory JsonPathNormal
  imports JsonPathParserLaws JsonPathEvalLaws
begin

text \<open>
  Normalized paths (\<open>formatNormalizedPath\<close>) as queries: the lexer and the parser read back exactly
  the steps that were written, whatever the characters of the member names.
\<close>

section \<open>Reading an escaped name\<close>

lemma hexDigit_hex: "n < 16 \<Longrightarrow> isHexDigit (hexDigit n) \<and> hexVal (hexDigit n) = n"
  by (auto simp: isHexDigit_def hexDigit_def isDigit_def hexVal_def)

text \<open>A control character without a short escape is written \<open>backslash u00XX\<close>.\<close>

lemma readUnicodeEscape_control:
  assumes "c \<le> 0x1F"
  shows "readUnicodeEscape p (48 # 48 # hexDigit (c div 16) # hexDigit (c mod 16) # cs) = Inr ([c], 4)"
proof -
  let ?hex = "[48, 48, hexDigit (c div 16), hexDigit (c mod 16)]"
  have h: "isHexDigit (hexDigit (c div 16)) \<and> hexVal (hexDigit (c div 16)) = c div 16"
    "isHexDigit (hexDigit (c mod 16)) \<and> hexVal (hexDigit (c mod 16)) = c mod 16"
    using assms by (auto intro!: hexDigit_hex)
  have z: "isHexDigit 48" "hexVal 48 = 0" by (simp_all add: isHexDigit_def isDigit_def hexVal_def)
  have "isHex4 ?hex" using h z by (simp add: isHex4_def)
  moreover have "parseHex ?hex = c" using h z by (simp add: parseHex_def)
  ultimately show ?thesis
    using assms by (simp add: readUnicodeEscape_def Let_def fromCodePoint_def)
qed

lemma readString_unit:
  "readString 39 p (escapeUnit c @ cs) r = readString 39 (p + length (escapeUnit c)) cs (r @ [c])"
proof (cases "c = 92 \<or> c = 39 \<or> c \<in> {8, 9, 10, 12, 13}")
  case True
  then show ?thesis by (auto simp: escapeUnit_def simpleEscape_def)
next
  case False
  show ?thesis
  proof (cases "c \<le> 0x1F")
    case True
    have suc: "Suc (Suc (Suc (Suc (Suc (Suc p))))) = 6 + p" by simp
    from True False readUnicodeEscape_control[OF True, of "p + 2" cs] show ?thesis
      by (simp add: escapeUnit_def simpleEscape_def suc)
  qed (use False in \<open>simp add: escapeUnit_def\<close>)
qed

lemma readString_escaped:
  "readString 39 p (escapeNormalizedPathString name @ 39 # cs) r =
     Inr (r @ name, p + length (escapeNormalizedPathString name) + 1, cs)"
  by (induction name arbitrary: p r) (simp_all add: escapeNormalizedPathString_def readString_unit add.assoc)

section \<open>Reading an index\<close>

lemma takeWhile_showNat: "cs = [] \<or> \<not> isDigit (hd cs) \<Longrightarrow> takeWhile isDigit (showNat n @ cs) = showNat n"
  using showNat_digits[of _ n] by (cases cs) (simp_all add: takeWhile_append2)

lemma showNat_first: "\<exists>d ds. showNat n = d # ds \<and> isDigit d \<and> (d = 48 \<longrightarrow> n = 0 \<and> ds = [])"
proof (cases "n = 0")
  case False
  obtain d ds where s: "showNat n = d # ds" using showNat_nonempty by (meson neq_Nil_conv)
  moreover have "isDigit d" by (rule showNat_digits[of d n]) (simp add: s)
  ultimately show ?thesis using showNat_hd[of n] False by simp
qed (simp add: isDigit_def)

lemma readIntegerPart_showNat:
  "readIntegerPart p (showNat n @ 93 # cs) = Inr (showNat n)"
proof -
  obtain d ds where s: "showNat n = d # ds" "isDigit d" "d = 48 \<longrightarrow> n = 0 \<and> ds = []"
    using showNat_first by blast
  have "takeWhile isDigit (d # ds @ 93 # cs) = d # ds"
    using takeWhile_showNat[of "93 # cs" n] by (simp add: s isDigit_def)
  with s show ?thesis by (auto simp: readIntegerPart_def startsDigit_def isDigit_def)
qed

lemma readNumber_showNat:
  assumes "int n \<le> I_JSON_MAX"
  shows "readNumber p (showNat n @ 93 # cs) = Inr (Fin (of_nat n), length (showNat n))"
proof -
  obtain d ds where s: "showNat n = d # ds" "isDigit d" using showNat_first by blast
  have "d \<noteq> 45" using s(2) by (simp add: isDigit_def)
  then have neg: "(showNat n @ 93 # cs \<noteq> [] \<and> hd (showNat n @ 93 # cs) = 45) = False" using s by simp
  have "n < 2 ^ 53" using assms by (simp add: I_JSON_MAX_def)
  then have v: "numberOfParts False (showNat n) [] 0 = Fin (of_nat n)"
    using numberOfParts_int[of "showNat n" False] by simp
  have "Fin (of_int I_JSON_MAX) < Fin (of_nat n) \<longleftrightarrow> False" "Fin (of_nat n) < Fin (of_int I_JSON_MIN) \<longleftrightarrow> False"
    using assms by (simp_all add: I_JSON_MIN_def not_less)
  then show ?thesis
    unfolding readNumber_def Let_def neg
    by (simp add: readIntegerPart_showNat readFraction_def readExponent_def v)
qed

section \<open>Reading a step\<close>

definition stepTokens :: "nat \<Rightarrow> pathStep \<Rightarrow> token list" where
  "stepTokens p step =
     [\<lparr>ttype = LBRACKET, pos = p\<rparr>,
      \<lparr>ttype = (case step of Key name \<Rightarrow> STRING name | Idx n \<Rightarrow> NUMBER (Fin (of_nat n)) (showNat n)), pos = p + 1\<rparr>,
      \<lparr>ttype = RBRACKET, pos = p + length (formatStep step) - 1\<rparr>]"

fun pathTokens :: "nat \<Rightarrow> pathStep list \<Rightarrow> token list" where
  "pathTokens p [] = [\<lparr>ttype = EOF, pos = p\<rparr>]"
| "pathTokens p (step # steps) = stepTokens p step @ pathTokens (p + length (formatStep step)) steps"

text \<open>An index a query can write: the I-JSON range of integers.\<close>

definition okStep :: "pathStep \<Rightarrow> bool" where
  "okStep step \<longleftrightarrow> (case step of Key name \<Rightarrow> True | Idx n \<Rightarrow> int n \<le> I_JSON_MAX)"

lemma tokenize_token:
  assumes "c # cs = cs0" and "\<not> isWhitespaceChar c" and "nextToken p cs0 = Inr (t, n)"
  shows "tokenize p cs0 = andThen (tokenize (p + n) (drop n cs0)) (\<lambda>ts. Inr (\<lparr>ttype = t, pos = p\<rparr> # ts))"
  using assms by (subst tokenize.simps) (auto simp: Let_def)

lemma no_twoCharToken:
  assumes "c \<notin> {38, 124, 61, 33, 60, 62}"
  shows "map_of twoCharTokens (take 2 (c # cs)) = None"
  using assms by (simp add: twoCharTokens_def)

lemma nextToken_single:
  assumes "c \<in> {91, 93, 36}"
  shows "nextToken p (c # cs) =
    Inr (if c = 91 then LBRACKET else if c = 93 then RBRACKET else ROOT, 1)"
proof -
  have "map_of twoCharTokens (take 2 (c # cs)) = None"
    using assms by (intro no_twoCharToken) auto
  moreover have "singleCharToken c = Some (if c = 91 then LBRACKET else if c = 93 then RBRACKET else ROOT)"
    using assms by (auto simp: singleCharToken_def)
  ultimately show ?thesis
    using assms unfolding nextToken_def Let_def list.sel by auto
qed

lemma nextToken_string:
  "nextToken p (39 # escapeNormalizedPathString name @ 39 # cs) =
    Inr (STRING name, length (escapeNormalizedPathString name) + 2)"
proof -
  have "map_of twoCharTokens (take 2 (39 # escapeNormalizedPathString name @ 39 # cs)) = None"
    by (intro no_twoCharToken) simp
  moreover have "singleCharToken 39 = None"
    by (simp add: singleCharToken_def)
  ultimately show ?thesis
    unfolding nextToken_def Let_def list.sel by (simp add: readString_escaped)
qed

lemma nextToken_index:
  assumes "int n \<le> I_JSON_MAX"
  shows "nextToken p (showNat n @ 93 # cs) = Inr (NUMBER (Fin (of_nat n)) (showNat n), length (showNat n))"
proof -
  obtain d ds where s: "showNat n = d # ds" "isDigit d" using showNat_first by blast
  have d: "48 \<le> d" "d \<le> 57" using s(2) by (simp_all add: isDigit_def)
  have "map_of twoCharTokens (take 2 (d # ds @ 93 # cs)) = None"
    using d by (intro no_twoCharToken) auto
  moreover have "singleCharToken d = None"
    using d by (auto simp: singleCharToken_def)
  ultimately show ?thesis
    using readNumber_showNat[OF assms, of p cs] d s(2) unfolding nextToken_def Let_def
    by (auto simp: s)
qed

lemma tokenize_step:
  assumes "okStep step"
  shows "tokenize p (formatStep step @ cs) =
    andThen (tokenize (p + length (formatStep step)) cs) (\<lambda>ts. Inr (stepTokens p step @ ts))"
proof (cases step)
  case (Key name)
  let ?e = "escapeNormalizedPathString name"
  have len: "length (formatStep step) = length ?e + 4" "p + (length ?e + 4) - 1 = p + (length ?e + 3)"
    by (simp_all add: Key formatStep_def)
  have "tokenize p (formatStep step @ cs) = tokenize p (91 # 39 # ?e @ 39 # 93 # cs)"
    by (simp add: Key formatStep_def)
  also have "\<dots> = andThen (tokenize (p + 1) (39 # ?e @ 39 # 93 # cs)) (\<lambda>ts. Inr (\<lparr>ttype = LBRACKET, pos = p\<rparr> # ts))"
    by (subst tokenize_token[OF refl _ nextToken_single]) (simp_all add: isWhitespaceChar_def)
  also have "tokenize (p + 1) (39 # ?e @ 39 # 93 # cs) =
      andThen (tokenize (p + 1 + (length ?e + 2)) (93 # cs)) (\<lambda>ts. Inr (\<lparr>ttype = STRING name, pos = p + 1\<rparr> # ts))"
    by (subst tokenize_token[OF refl _ nextToken_string]) (simp_all add: isWhitespaceChar_def)
  also have "p + 1 + (length ?e + 2) = p + (length ?e + 3)" by simp
  also have "tokenize (p + (length ?e + 3)) (93 # cs) = andThen (tokenize (p + (length ?e + 3) + 1) cs)
      (\<lambda>ts. Inr (\<lparr>ttype = RBRACKET, pos = p + (length ?e + 3)\<rparr> # ts))"
    by (subst tokenize_token[OF refl _ nextToken_single]) (simp_all add: isWhitespaceChar_def)
  also have "p + (length ?e + 3) + 1 = p + (length ?e + 4)" by simp
  finally show ?thesis
    unfolding stepTokens_def len by (cases "tokenize (p + (length ?e + 4)) cs") (simp_all add: Key)
next
  case (Idx n)
  obtain d ds where s: "showNat n = d # ds" "isDigit d" using showNat_first by blast
  have n: "int n \<le> I_JSON_MAX" using assms by (simp add: okStep_def Idx)
  have "tokenize p (formatStep step @ cs) = tokenize p (91 # showNat n @ 93 # cs)"
    by (simp add: Idx formatStep_def)
  also have "\<dots> = andThen (tokenize (p + 1) (showNat n @ 93 # cs)) (\<lambda>ts. Inr (\<lparr>ttype = LBRACKET, pos = p\<rparr> # ts))"
    by (subst tokenize_token[OF refl _ nextToken_single]) (simp_all add: isWhitespaceChar_def)
  also have "tokenize (p + 1) (showNat n @ 93 # cs) =
      andThen (tokenize (p + 1 + length (showNat n)) (93 # cs))
        (\<lambda>ts. Inr (\<lparr>ttype = NUMBER (Fin (of_nat n)) (showNat n), pos = p + 1\<rparr> # ts))"
    by (subst tokenize_token[OF _ _ nextToken_index[OF n]])
      (use s in \<open>auto simp: isWhitespaceChar_def isDigit_def\<close>)
  also have "p + 1 + length (showNat n) = p + (length (showNat n) + 1)" by simp
  also have "tokenize (p + (length (showNat n) + 1)) (93 # cs) = andThen (tokenize (p + (length (showNat n) + 1) + 1) cs)
      (\<lambda>ts. Inr (\<lparr>ttype = RBRACKET, pos = p + (length (showNat n) + 1)\<rparr> # ts))"
    by (subst tokenize_token[OF refl _ nextToken_single]) (simp_all add: isWhitespaceChar_def)
  also have "p + (length (showNat n) + 1) + 1 = p + (length (showNat n) + 2)" by simp
  finally show ?thesis
    by (cases "tokenize (p + (length (showNat n) + 2)) cs") (simp_all add: Idx formatStep_def stepTokens_def)
qed

lemma tokenize_path:
  "list_all okStep steps \<Longrightarrow> tokenize p (concat (map formatStep steps)) = Inr (pathTokens p steps)"
  by (induction steps arbitrary: p) (simp_all add: tokenize_step tokenize.simps[of _ "[]"])

lemma lexer_path:
  "list_all okStep steps \<Longrightarrow>
    lexer (formatNormalizedPath steps) = Inr (\<lparr>ttype = ROOT, pos = 0\<rparr> # pathTokens 1 steps)"
  using tokenize_token[OF refl _ nextToken_single, of 36 0 "concat (map formatStep steps)"]
  by (simp add: lexer_def formatNormalizedPath_def isWhitespaceChar_def tokenize_path)

section \<open>Parsing a step\<close>

definition stepSegment :: "pathStep \<Rightarrow> segment" where
  "stepSegment step = ChildSegment [case step of Key name \<Rightarrow> NameSelector name | Idx n \<Rightarrow> IndexSelector (int n)]"

lemma isIntegerText_showNat: "isIntegerText (showNat n)"
proof -
  obtain d ds where s: "showNat n = d # ds" "isDigit d" "d = 48 \<longrightarrow> n = 0 \<and> ds = []"
    using showNat_first by blast
  moreover have "list_all isDigit ds"
    using showNat_digits[of _ n] by (simp add: s list_all_iff)
  ultimately show ?thesis by (auto simp: isIntegerText_def Let_def isDigit_def)
qed

lemma integerToken: "isIntegerNumberToken (showNat n) (Fin (of_nat n)) \<and> intOfNum (Fin (of_nat n)) = int n"
  using isIntegerNum_of_int[of "int n"] intOfNum_of_int[of "int n"]
  by (simp add: isIntegerNumberToken_def isIntegerText_showNat del: isIntegerNum_of_int intOfNum_of_int)

lemma parseSegment_step:
  assumes "toks \<noteq> []"
  shows "parseSegment logical (stepTokens p step @ toks) = Inr (Some (stepSegment step), toks)"
proof -
  obtain t ts where toks: "toks = t # ts" using assms by (cases toks) auto
  show ?thesis
    using integerToken
    by (cases step; cases "length ts")
      (simp_all add: toks parseSegment_def parseChildBracketSegment_def parseBracketedSelection_def parseSelector_def
        matchToken_def check_def matchString_def matchNumber_def advance_def stepTokens_def ret_def
        parseIndexOrSlice_def optionalInteger_def stepSegment_def)
qed

lemma pathTokens_nonempty [simp]: "pathTokens p steps \<noteq> []"
  by (cases steps) (simp_all add: stepTokens_def)

lemma parseSegments_path:
  "length steps < fuel \<Longrightarrow>
    parseSegments fuel logical acc (pathTokens p steps) =
      Inr (acc @ map stepSegment steps, pathTokens (p + length (concat (map formatStep steps))) [])"
proof (induction steps arbitrary: fuel acc p)
  case Nil
  then show ?case by (cases fuel) (simp_all add: isAtEnd_def check_def)
next
  case (Cons step steps)
  then obtain fuel' where fuel: "fuel = Suc fuel'" "length steps < fuel'" by (cases fuel) auto
  have "\<not> isAtEnd (stepTokens p step @ toks)" for toks by (simp add: isAtEnd_def check_def stepTokens_def)
  with Cons.IH[OF fuel(2)] show ?case
    by (simp add: fuel(1) parseSegment_step add.assoc)
qed

lemma length_pathTokens: "length steps < length (pathTokens p steps)"
  by (induction steps arbitrary: p) (auto simp: stepTokens_def less_SucI)

definition pathQuery :: "pathStep list \<Rightarrow> query" where
  "pathQuery steps = Query DollarRoot (map stepSegment steps)"

lemma parse_path:
  assumes "list_all okStep steps"
  shows "parseJsonPath (formatNormalizedPath steps) = Some (pathQuery steps)"
proof -
  have adv: "advance (\<lparr>ttype = ROOT, pos = 0\<rparr> # pathTokens p steps) = pathTokens p steps" for p
    by (simp add: advance_def)
  show ?thesis
    using parseSegments_path[OF length_pathTokens[of steps 1], of "parseLogicalExpr maxExpressionDepth" "[]"]
    by (simp add: parseJsonPath_def lexer_path[OF assms] parseQuery_def matchToken_def check_def adv ret_def
        isAtEnd_def pathQuery_def)
qed

section \<open>Evaluating a normalized path\<close>

lemma map_of_zip_Idx:
  "map_of (zip (map Idx [k..<k + length vs]) vs) (Idx i) = (if k \<le> i \<and> i < k + length vs then Some (vs ! (i - k)) else None)"
proof (induction vs arbitrary: k)
  case (Cons v vs)
  have "[k..<k + length (v # vs)] = k # [Suc k..<Suc k + length vs]" by (simp add: upt_rec[of k] Suc_le_eq)
  with Cons.IH[of "Suc k"] show ?case by (auto simp: nth_Cons' Suc_diff_le)
qed simp

lemma map_of_Key: "map_of (map (\<lambda>(k, w). (Key k, w)) ps) (Key k) = map_of ps k"
  by (induction ps) auto

lemma map_of_no_Key: "map_of (zip (map Idx is) vs) (Key k) = None"
  by (auto simp: map_of_eq_None_iff dest!: set_zip_leftD)

lemma map_of_no_Idx: "map_of (map (\<lambda>(k, w). (Key k, w)) ps) (Idx i) = None"
  by (auto simp: map_of_eq_None_iff)

lemma stepValue_Key: "stepValue h v (Key k) = (case recordOf h v of None \<Rightarrow> None | Some ps \<Rightarrow> map_of ps k)"
proof (cases "recordOf h v")
  case (Some ps)
  then have "arrayOf h v = None"
    by (auto simp: recordOf_def arrayOf_def split: jsval.splits option.splits heapobj.splits)
  with Some show ?thesis by (simp add: stepValue_def entriesOf_def map_of_Key)
qed (simp add: stepValue_def entriesOf_def map_of_no_Key split: option.split)

lemma stepValue_Idx:
  "stepValue h v (Idx i) = (case arrayOf h v of None \<Rightarrow> None | Some vs \<Rightarrow> if i < length vs then Some (vs ! i) else None)"
proof (cases "arrayOf h v")
  case (Some vs)
  then show ?thesis using map_of_zip_Idx[of 0 vs i] by (simp add: stepValue_def entriesOf_def)
qed (simp add: stepValue_def entriesOf_def map_of_no_Idx split: option.split)

lemma evaluate_step:
  "evaluateSegment (stepSegment step) ctx [n] =
     (case stepValue (docHeap ctx) (nodeValue n) step of
        None \<Rightarrow> retA [] | Some w \<Rightarrow> addResultNode ctx (childNode n (step, w)))"
proof (cases step)
  case (Key k)
  show ?thesis
    by (auto simp: Key stepSegment_def evaluateNameSelector_def stepValue_Key hasOwnKey_map_of getProp_def
        bindA_assoc addResultNode_def split: option.split)
next
  case (Idx i)
  show ?thesis
    by (auto simp: Idx stepSegment_def evaluateIndexSelector_def stepValue_Idx bindA_assoc addResultNode_def
        split: option.split)
qed

lemma evaluate_no_nodes: "foldA (\<lambda>seg. evaluateSegment seg ctx) segs [] = retA []"
proof (induction segs)
  case (Cons seg segs)
  have "evaluateSegment seg ctx [] = retA []" by (cases seg) simp_all
  with Cons show ?case by simp
qed (rule ext, simp add: retA_def)

lemma evaluate_steps:
  "length (segments n) + length steps \<le> maxDepth (limits ctx) \<Longrightarrow>
   nodesVisited s + length steps \<le> maxNodesVisited (limits ctx) \<Longrightarrow>
    \<exists>s'. foldA (\<lambda>seg. evaluateSegment seg ctx) (map stepSegment steps) [n] s =
      Inr (case valueAt (docHeap ctx) (nodeValue n) steps of
             None \<Rightarrow> [] | Some w \<Rightarrow> [\<lparr>nodeValue = w, segments = segments n @ steps\<rparr>], s')"
proof (induction steps arbitrary: n s)
  case Nil
  then show ?case by (simp add: retA_def)
next
  case (Cons step steps)
  show ?case
  proof (cases "stepValue (docHeap ctx) (nodeValue n) step")
    case None
    then show ?thesis by (simp add: evaluate_step evaluate_no_nodes)
  next
    case (Some w)
    let ?c = "childNode n (step, w)"
    have "addResultNode ctx ?c s = Inr ([?c], s\<lparr>nodesVisited := nodesVisited s + 1\<rparr>)"
      using Cons.prems by (auto simp: addResultNode_def bindA_run trackNodeVisit_run childNode_def)
    moreover have "\<exists>s'. foldA (\<lambda>seg. evaluateSegment seg ctx) (map stepSegment steps) [?c]
        (s\<lparr>nodesVisited := nodesVisited s + 1\<rparr>) =
      Inr (case valueAt (docHeap ctx) (nodeValue ?c) steps of
             None \<Rightarrow> [] | Some w \<Rightarrow> [\<lparr>nodeValue = w, segments = segments ?c @ steps\<rparr>], s')"
      by (rule Cons.IH) (use Cons.prems in \<open>simp_all add: childNode_def\<close>)
    ultimately show ?thesis
      using Some by (auto simp: evaluate_step bindA_def err_simps childNode_def split: option.split)
  qed
qed

lemma evaluate_path:
  assumes "length steps \<le> maxDepth (limits ctx)" and "length steps < maxNodesVisited (limits ctx)"
  shows "evaluateQuery (pathQuery steps) ctx =
    Inr (case valueAt (docHeap ctx) (rootValue ctx) steps of
           None \<Rightarrow> [] | Some w \<Rightarrow> [\<lparr>nodeValue = w, segments = steps\<rparr>])"
proof -
  let ?n = "\<lparr>nodeValue = rootValue ctx, segments = []\<rparr>" and ?s = "initialState\<lparr>nodesVisited := 1\<rparr>"
  have "trackNodeVisit ctx 0 initialState = Inr ((), ?s)"
    using assms by (simp add: trackNodeVisit_run initialState_def)
  moreover have "\<exists>s'. foldA (\<lambda>seg. evaluateSegment seg ctx) (map stepSegment steps) [?n] ?s =
      Inr (case valueAt (docHeap ctx) (nodeValue ?n) steps of
             None \<Rightarrow> [] | Some w \<Rightarrow> [\<lparr>nodeValue = w, segments = segments ?n @ steps\<rparr>], s')"
    by (rule evaluate_steps) (use assms in simp_all)
  ultimately show ?thesis
    by (auto simp: evaluateQuery_def pathQuery_def bindA_def split: option.split)
qed

end
