(* ===== verification/JsonPathSpec.thy ===== *)
theory JsonPathSpec
  imports JsonPatchValue JsonPathEvalLaws
begin

text \<open>
  The reference semantics of JSONPath (RFC 9535) on JSON trees: pure functions from the syntax and a
  node (the steps to it and its subtree) to the selected nodes, without heap, counters or caches;
  and the refinement: what the evaluator returns on values that denote trees is the reference
  result, node by node. \<open><=\<close> and \<open>>=\<close> are as the code has them: strict comparison or equality of
  two numbers or two strings.
\<close>

section \<open>Nodes\<close>

type_synonym jnode = "pathStep list \<times> json"

definition jsonEntries :: "json \<Rightarrow> (pathStep \<times> json) list" where
  "jsonEntries j =
     (case j of
        JArr js \<Rightarrow> zip (map Idx [0..<length js]) js
      | JObj ps \<Rightarrow> map (\<lambda>(k, w). (Key k, w)) ps
      | _ \<Rightarrow> [])"

lemma jsonEntries_size [termination_simp]: "(st, w) \<in> set (jsonEntries j) \<Longrightarrow> size w < size j"
  by (cases j) (auto simp: jsonEntries_def dest: size_json_field dest!: set_zip_rightD[THEN size_json_elem])

definition jsonChildren :: "jnode \<Rightarrow> jnode list" where
  "jsonChildren n = map (\<lambda>(st, w). (fst n @ [st], w)) (jsonEntries (snd n))"

text \<open>The node and its descendants, parents first, in document order.\<close>

fun descendants :: "pathStep list \<Rightarrow> json \<Rightarrow> jnode list" where
  "descendants p j = (p, j) # concat (map (\<lambda>(st, w). descendants (p @ [st]) w) (jsonEntries j))"

declare descendants.simps [simp del]

section \<open>Values\<close>

definition literalRef :: "literal \<Rightarrow> json" where
  "literalRef l =
     (case l of
        StringLiteral s \<Rightarrow> JStr s
      | NumberLiteral x \<Rightarrow> JNum (case x of Fin q \<Rightarrow> q | _ \<Rightarrow> 0)
      | BoolLiteral b \<Rightarrow> JBool b
      | NullLiteral \<Rightarrow> JNull)"

definition lessRef :: "json \<Rightarrow> json \<Rightarrow> bool" where
  "lessRef i j =
     (case (i, j) of
        (JNum a, JNum b) \<Rightarrow> a < b
      | (JStr s, JStr t) \<Rightarrow> s < t
      | _ \<Rightarrow> False)"

definition orderedRef :: "json \<Rightarrow> bool" where
  "orderedRef j \<longleftrightarrow> (case j of JNum a \<Rightarrow> True | JStr s \<Rightarrow> True | _ \<Rightarrow> False)"

definition lessEqRef :: "json \<Rightarrow> json \<Rightarrow> bool" where
  "lessEqRef i j \<longleftrightarrow> lessRef i j \<or> (i = j \<and> orderedRef i)"

text \<open>A comparison with \<open>Nothing\<close> is false.\<close>

definition compareRef :: "comparisonOp \<Rightarrow> json option \<Rightarrow> json option \<Rightarrow> bool" where
  "compareRef op left right =
     (case (left, right) of
        (Some i, Some j) \<Rightarrow>
          (case op of
             EqOp \<Rightarrow> jsonEq i j
           | NeOp \<Rightarrow> \<not> jsonEq i j
           | LtOp \<Rightarrow> lessRef i j
           | LeOp \<Rightarrow> lessEqRef i j
           | GtOp \<Rightarrow> lessRef j i
           | GeOp \<Rightarrow> lessEqRef j i)
      | _ \<Rightarrow> False)"

definition lengthRef :: "json option \<Rightarrow> json option" where
  "lengthRef v =
     (case v of
        Some (JStr s) \<Rightarrow> Some (JNum (of_nat (length s)))
      | Some (JArr js) \<Rightarrow> Some (JNum (of_nat (length js)))
      | Some (JObj ps) \<Rightarrow> Some (JNum (of_nat (length ps)))
      | _ \<Rightarrow> None)"

definition regexRef :: "(jsstr \<Rightarrow> regex option) \<Rightarrow> (jsstr \<Rightarrow> jsstr) \<Rightarrow> json option \<Rightarrow> json option \<Rightarrow> bool" where
  "regexRef eng wrap value pattern =
     (case (value, pattern) of
        (Some (JStr v), Some (JStr p)) \<Rightarrow> (case eng (wrap p) of None \<Rightarrow> False | Some test \<Rightarrow> test v)
      | _ \<Rightarrow> False)"

definition onlyRef :: "jnode list \<Rightarrow> json option" where
  "onlyRef ns = (case ns of [n] \<Rightarrow> Some (snd n) | _ \<Rightarrow> None)"

text \<open>Membership of an index in a slice, without the clamping of bounds the code does.\<close>

definition inSlice :: "int option \<Rightarrow> int option \<Rightarrow> int \<Rightarrow> int \<Rightarrow> int \<Rightarrow> bool" where
  "inSlice a b step len i \<longleftrightarrow>
     (let fromEnd = (\<lambda>k. if k < 0 then len + k else k);
          first = (case a of None \<Rightarrow> if 0 < step then 0 else len - 1 | Some k \<Rightarrow> fromEnd k);
          last = (case b of None \<Rightarrow> if 0 < step then len else - 1 | Some k \<Rightarrow> fromEnd k)
      in 0 \<le> i \<and> i < len \<and>
         (if 0 < step then first \<le> i \<and> i < last \<and> step dvd i - max first 0
          else step < 0 \<and> i \<le> first \<and> last < i \<and> step dvd i - min first (len - 1)))"

section \<open>Selectors, segments and expressions\<close>

definition nameRef :: "jsstr \<Rightarrow> jnode \<Rightarrow> jnode list" where
  "nameRef k n =
     (case snd n of
        JObj ps \<Rightarrow> (case map_of ps k of None \<Rightarrow> [] | Some w \<Rightarrow> [(fst n @ [Key k], w)])
      | _ \<Rightarrow> [])"

definition elementRef :: "jnode \<Rightarrow> int \<Rightarrow> jnode list" where
  "elementRef n i =
     (case snd n of
        JArr js \<Rightarrow> if 0 \<le> i \<and> i < int (length js) then [(fst n @ [Idx (nat i)], js ! nat i)] else []
      | _ \<Rightarrow> [])"

definition lengthOf :: "json \<Rightarrow> int" where
  "lengthOf j = (case j of JArr js \<Rightarrow> int (length js) | _ \<Rightarrow> 0)"

record refEnv =
  refEngine :: "jsstr \<Rightarrow> regex option"
  refDoc :: json

definition refStart :: "rootId \<Rightarrow> refEnv \<Rightarrow> jnode \<Rightarrow> jnode" where
  "refStart r env cur = (if r = DollarRoot then ([], refDoc env) else cur)"

fun segmentRef :: "segment \<Rightarrow> refEnv \<Rightarrow> jnode list \<Rightarrow> jnode list"
and selectorRef :: "selector \<Rightarrow> refEnv \<Rightarrow> jnode \<Rightarrow> jnode list"
and logicalRef :: "logicalExpr \<Rightarrow> refEnv \<Rightarrow> jnode \<Rightarrow> bool"
and comparableRef :: "comparable \<Rightarrow> refEnv \<Rightarrow> jnode \<Rightarrow> json option"
and functionRef :: "functionExpr \<Rightarrow> refEnv \<Rightarrow> jnode \<Rightarrow> json option"
and argRef :: "functionArg \<Rightarrow> refEnv \<Rightarrow> jnode \<Rightarrow> json option"
and queryRef :: "query \<Rightarrow> refEnv \<Rightarrow> jnode \<Rightarrow> jnode list" where
  "segmentRef (ChildSegment sels) = (\<lambda>env ns.
     concat (map (\<lambda>n. concat (map (\<lambda>sel. selectorRef sel env n) sels)) ns))"
| "segmentRef (DescendantSegment sels) = (\<lambda>env ns.
     concat (map (\<lambda>n. concat (map (\<lambda>d. concat (map (\<lambda>sel. selectorRef sel env d) sels))
       (descendants (fst n) (snd n)))) ns))"
| "selectorRef (NameSelector k) = (\<lambda>env. nameRef k)"
| "selectorRef WildcardSelector = (\<lambda>env. jsonChildren)"
| "selectorRef (IndexSelector i) = (\<lambda>env n. elementRef n (if i < 0 then lengthOf (snd n) + i else i))"
| "selectorRef (SliceSelector a b c) = (\<lambda>env n.
     concat (map (elementRef n) (sliceIndices a b c (lengthOf (snd n)))))"
| "selectorRef (FilterSelector e) = (\<lambda>env n. filter (logicalRef e env) (jsonChildren n))"
| "logicalRef (OrExpr es) = (\<lambda>env cur. list_ex (\<lambda>e. logicalRef e env cur) es)"
| "logicalRef (AndExpr es) = (\<lambda>env cur. list_all (\<lambda>e. logicalRef e env cur) es)"
| "logicalRef (NotExpr e) = (\<lambda>env cur. \<not> logicalRef e env cur)"
| "logicalRef (ComparisonExpr op l r) = (\<lambda>env cur.
     compareRef op (comparableRef l env cur) (comparableRef r env cur))"
| "logicalRef (TestExpr q) = (\<lambda>env cur. queryRef q env cur \<noteq> [])"
| "logicalRef (FunctionTest f) = (\<lambda>env cur. functionRef f env cur = Some (JBool True))"
| "comparableRef (LiteralComparable l) = (\<lambda>env cur. Some (literalRef l))"
| "comparableRef (SingularQuery r ss) = (\<lambda>env cur.
     onlyRef (foldl (\<lambda>ns s. segmentRef s env ns) [refStart r env cur] ss))"
| "comparableRef (FunctionComparable f) = functionRef f"
| "functionRef (FunctionExpr name args) = (\<lambda>env cur.
     case name of
       LengthFn \<Rightarrow> (case args of [arg] \<Rightarrow> lengthRef (argRef arg env cur) | _ \<Rightarrow> None)
     | CountFn \<Rightarrow>
         (case args of
            [QueryArg q] \<Rightarrow> Some (JNum (of_nat (length (queryRef q env cur))))
          | _ \<Rightarrow> Some (JNum 0))
     | MatchFn \<Rightarrow>
         (case args of
            [v, p] \<Rightarrow> Some (JBool (regexRef (refEngine env) anchored (argRef v env cur) (argRef p env cur)))
          | _ \<Rightarrow> Some (JBool False))
     | SearchFn \<Rightarrow>
         (case args of
            [v, p] \<Rightarrow> Some (JBool (regexRef (refEngine env) (\<lambda>p. p) (argRef v env cur) (argRef p env cur)))
          | _ \<Rightarrow> Some (JBool False))
     | ValueFn \<Rightarrow> (case args of [QueryArg q] \<Rightarrow> onlyRef (queryRef q env cur) | _ \<Rightarrow> None))"
| "argRef (LiteralArg l) = (\<lambda>env cur. Some (literalRef l))"
| "argRef (QueryArg q) = (\<lambda>env cur. onlyRef (queryRef q env cur))"
| "argRef (FunctionArg f) = functionRef f"
| "queryRef (Query r ss) = (\<lambda>env cur.
     foldl (\<lambda>ns s. segmentRef s env ns) [refStart r env cur] ss)"

end
