(* ===== verification/JsonPathRefine.thy ===== *)
theory JsonPathRefine
  imports JsonPathSpec
begin

text \<open>
  The evaluator of JSONPath refines the reference semantics. \<open>yields eng Q m\<close> is partial
  correctness of an action with the coherence of the regex cache as its invariant: a run that ends
  without an exceeded limit has a result with \<open>Q\<close>. There is one rule per combinator and one lemma
  per selector; the two explicit stacks have lemmas of their own (\<open>descend_tree\<close>, \<open>deepEqual_tree\<close>).
\<close>

named_theorems yields_rules

section \<open>Partial correctness of actions\<close>

definition yields :: "(jsstr \<Rightarrow> regex option) \<Rightarrow> ('a \<Rightarrow> bool) \<Rightarrow> 'a action \<Rightarrow> bool" where
  "yields eng Q m \<longleftrightarrow> (\<forall>s x s'. cacheOk eng s \<longrightarrow> m s = Inr (x, s') \<longrightarrow> Q x \<and> cacheOk eng s')"

lemma yieldsD: "yields eng Q m \<Longrightarrow> cacheOk eng s \<Longrightarrow> m s = Inr (x, s') \<Longrightarrow> Q x \<and> cacheOk eng s'"
  unfolding yields_def by blast

lemma yieldsI:
  "(\<And>s x s'. cacheOk eng s \<Longrightarrow> m s = Inr (x, s') \<Longrightarrow> Q x \<and> cacheOk eng s') \<Longrightarrow> yields eng Q m"
  unfolding yields_def by blast

lemma yields_ret [yields_rules]: "Q x \<Longrightarrow> yields eng Q (retA x)"
  by (auto intro: yieldsI)

lemma yields_mono: "yields eng P m \<Longrightarrow> (\<And>x. P x \<Longrightarrow> Q x) \<Longrightarrow> yields eng Q m"
  unfolding yields_def by blast

lemma yields_bind:
  assumes "yields eng P m" and "\<And>x. P x \<Longrightarrow> yields eng Q (f x)"
  shows "yields eng Q (bindA m f)"
proof (rule yieldsI)
  fix s x s' assume s: "cacheOk eng s" and run: "bindA m f s = Inr (x, s')"
  obtain y t where "m s = Inr (y, t)" "f y t = Inr (x, s')" using run by (auto simp: bindA_run)
  with s assms show "Q x \<and> cacheOk eng s'" by (meson yieldsD)
qed

lemma yields_track: "yields eng (\<lambda>u. True) (trackNodeVisit ctx d)"
  by (rule yieldsI) (auto simp: trackNodeVisit_run cacheOk_def)

lemma yields_inChild: "yields eng Q m \<Longrightarrow> yields eng Q (inChild m)"
proof (rule yieldsI)
  fix s x s' assume m: "yields eng Q m" and s: "cacheOk eng s" and run: "inChild m s = Inr (x, s')"
  obtain t where t: "m s = Inr (x, t)" "s' = s\<lparr>regexCache := regexCache t\<rparr>"
    using inChild_run[OF run] by (elim exE conjE)
  have "cacheOk eng s' = cacheOk eng t" unfolding t(2) cacheOk_def by simp
  with yieldsD[OF m s t(1)] show "Q x \<and> cacheOk eng s'" by simp
qed

lemma yields_collect:
  "list_all2 A xs ys \<Longrightarrow>
    (\<And>x y. x \<in> set xs \<Longrightarrow> y \<in> set ys \<Longrightarrow> A x y \<Longrightarrow> yields eng (\<lambda>r. list_all2 B r (F y)) (f x)) \<Longrightarrow>
    yields eng (\<lambda>r. list_all2 B r (concat (map F ys))) (collectA f xs)"
proof (induction xs ys rule: list_all2_induct)
  case Nil
  then show ?case by (simp add: yields_ret)
next
  case (Cons x xs y ys)
  have x: "yields eng (\<lambda>r. list_all2 B r (F y)) (f x)" using Cons by simp
  have xs: "yields eng (\<lambda>r. list_all2 B r (concat (map F ys))) (collectA f xs)" using Cons by simp
  show ?case
    by (auto intro!: yields_bind[OF x] yields_bind[OF xs] yields_ret list_all2_appendI)
qed

lemma yields_any:
  "(\<And>x. x \<in> set xs \<Longrightarrow> yields eng (\<lambda>b. b = g x) (f x)) \<Longrightarrow> yields eng (\<lambda>b. b = list_ex g xs) (anyA f xs)"
proof (induction xs)
  case (Cons x xs)
  then have "yields eng (\<lambda>b. b = g x) (f x)" "yields eng (\<lambda>b. b = list_ex g xs) (anyA f xs)" by auto
  then show ?case by (auto intro!: yields_bind yields_ret elim: yields_mono)
qed (simp add: yields_ret)

lemma yields_all:
  "(\<And>x. x \<in> set xs \<Longrightarrow> yields eng (\<lambda>b. b = g x) (f x)) \<Longrightarrow> yields eng (\<lambda>b. b = list_all g xs) (allA f xs)"
proof (induction xs)
  case (Cons x xs)
  then have "yields eng (\<lambda>b. b = g x) (f x)" "yields eng (\<lambda>b. b = list_all g xs) (allA f xs)" by auto
  then show ?case by (auto intro!: yields_bind yields_ret elim: yields_mono)
qed (simp add: yields_ret)

lemma yields_fold:
  "A x y \<Longrightarrow> (\<And>seg x y. seg \<in> set segs \<Longrightarrow> A x y \<Longrightarrow> yields eng (\<lambda>r. A r (F y seg)) (f seg x)) \<Longrightarrow>
    yields eng (\<lambda>r. A r (foldl F y segs)) (foldA f segs x)"
proof (induction segs arbitrary: x y)
  case (Cons seg segs)
  have seg: "yields eng (\<lambda>r. A r (F y seg)) (f seg x)" using Cons.prems by simp
  have "yields eng (\<lambda>r. A r (foldl F (F y seg) segs)) (foldA f segs z)" if "A z (F y seg)" for z
    using Cons.IH[OF that] Cons.prems(2) by simp
  then show ?case by (simp add: yields_bind[OF seg])
qed (simp add: yields_ret)

section \<open>Nodes of a tree\<close>

definition nodeRel :: "heap \<Rightarrow> evalNode \<Rightarrow> jnode \<Rightarrow> bool" where
  "nodeRel h n d \<longleftrightarrow> segments n = fst d \<and> unfolds h (nodeValue n) (snd d)"

lemma yields_add:
  "nodeRel h n d \<Longrightarrow> yields eng (\<lambda>r. list_all2 (nodeRel h) r [d]) (addResultNode ctx n)"
  unfolding addResultNode_def by (auto intro!: yields_bind[OF yields_track] yields_ret)

lemma arrayOf_tree:
  "unfolds h v (JArr js) \<Longrightarrow> \<exists>vs. arrayOf h v = Some vs \<and> recordOf h v = None \<and> list_all2 (unfolds h) vs js"
  by (auto elim!: unfolds_JArrE simp: arrayOf_def recordOf_def)

lemma recordOf_tree:
  "unfolds h v (JObj qs) \<Longrightarrow>
    \<exists>ps. arrayOf h v = None \<and> recordOf h v = Some ps \<and> list_all2 (rel_prod (=) (unfolds h)) ps qs"
  by (auto elim!: unfolds_JObjE simp: arrayOf_def recordOf_def)

lemma scalar_tree:
  "unfolds h v j \<Longrightarrow> \<forall>js. j \<noteq> JArr js \<Longrightarrow> \<forall>ps. j \<noteq> JObj ps \<Longrightarrow>
    arrayOf h v = None \<and> recordOf h v = None \<and> (\<forall>a. v \<noteq> Ref a)"
  by (cases v) (auto simp: unfolds_simps arrayOf_def recordOf_def)

lemma entries_tree:
  assumes "unfolds h v j"
  shows "list_all2 (rel_prod (=) (unfolds h)) (entriesOf h v) (jsonEntries j)"
proof (cases "(\<exists>js. j = JArr js) \<or> (\<exists>ps. j = JObj ps)")
  case True
  then show ?thesis
  proof (elim disjE exE)
    fix js assume j: "j = JArr js"
    then obtain vs where "arrayOf h v = Some vs" "list_all2 (unfolds h) vs js"
      using arrayOf_tree assms by blast
    then show ?thesis
      by (auto simp: j entriesOf_def jsonEntries_def list_all2_conv_all_nth)
  next
    fix ps assume j: "j = JObj ps"
    then obtain qs where "arrayOf h v = None" "recordOf h v = Some qs" "list_all2 (rel_prod (=) (unfolds h)) qs ps"
      using recordOf_tree assms by blast
    then show ?thesis
      by (auto simp: j entriesOf_def jsonEntries_def list_all2_conv_all_nth rel_prod_sel case_prod_beta)
  qed
next
  case False
  then show ?thesis
    using scalar_tree[OF assms] by (auto simp: entriesOf_def jsonEntries_def split: json.split)
qed

lemma child_tree:
  "nodeRel h n d \<Longrightarrow> rel_prod (=) (unfolds h) e (st, w) \<Longrightarrow> nodeRel h (childNode n e) (fst d @ [st], w)"
  by (cases e) (simp add: nodeRel_def childNode_def)

lemma map_of_tree:
  "list_all2 (rel_prod (=) R) ps qs \<Longrightarrow> rel_option R (map_of ps k) (map_of qs k)"
  by (induction ps qs rule: list_all2_induct) auto

section \<open>Selectors\<close>

abbreviation nodesRel :: "heap \<Rightarrow> evalNode list \<Rightarrow> jnode list \<Rightarrow> bool" where
  "nodesRel h \<equiv> list_all2 (nodeRel h)"

lemma name_tree:
  assumes "nodeRel (docHeap ctx) n d"
  shows "yields eng (\<lambda>r. nodesRel (docHeap ctx) r (nameRef k d)) (evaluateNameSelector k ctx n)"
proof (cases "\<exists>qs. snd d = JObj qs")
  case True
  then obtain qs where qs: "snd d = JObj qs" by blast
  then obtain ps where ps: "recordOf (docHeap ctx) (nodeValue n) = Some ps"
      "list_all2 (rel_prod (=) (unfolds (docHeap ctx))) ps qs"
    using recordOf_tree[of "docHeap ctx" "nodeValue n" qs] assms by (auto simp: nodeRel_def)
  have rel: "rel_option (unfolds (docHeap ctx)) (map_of ps k) (map_of qs k)" by (rule map_of_tree[OF ps(2)])
  show ?thesis
  proof (cases "map_of ps k")
    case None
    with rel show ?thesis
      by (simp add: evaluateNameSelector_def ps(1) hasOwnKey_map_of nameRef_def qs yields_ret)
  next
    case (Some v)
    then obtain w where w: "map_of qs k = Some w" "unfolds (docHeap ctx) v w"
      using rel by (cases "map_of qs k") auto
    have "nodeRel (docHeap ctx) (childNode n (Key k, v)) (fst d @ [Key k], w)"
      by (rule child_tree[OF assms]) (use w in simp)
    from yields_add[OF this] Some w show ?thesis
      by (simp add: evaluateNameSelector_def ps(1) hasOwnKey_map_of getProp_def nameRef_def qs)
  qed
next
  case False
  have "recordOf (docHeap ctx) (nodeValue n) = None"
    using False assms scalar_tree[of "docHeap ctx" "nodeValue n" "snd d"] arrayOf_tree
    by (cases "snd d") (auto simp: nodeRel_def)
  with False show ?thesis
    by (cases "snd d") (simp_all add: evaluateNameSelector_def nameRef_def yields_ret)
qed

lemma children_tree:
  assumes "nodeRel (docHeap ctx) n d"
    and "\<And>e c. e \<in> set (entriesOf (docHeap ctx) (nodeValue n)) \<Longrightarrow> c \<in> set (jsonChildren d) \<Longrightarrow>
      nodeRel (docHeap ctx) (childNode n e) c \<Longrightarrow> yields eng (\<lambda>r. nodesRel (docHeap ctx) r (F c)) (f e)"
  shows "yields eng (\<lambda>r. nodesRel (docHeap ctx) r (concat (map F (jsonChildren d))))
    (collectA f (entriesOf (docHeap ctx) (nodeValue n)))"
proof (rule yields_collect[where A = "\<lambda>e c. nodeRel (docHeap ctx) (childNode n e) c"])
  have "list_all2 (rel_prod (=) (unfolds (docHeap ctx))) (entriesOf (docHeap ctx) (nodeValue n)) (jsonEntries (snd d))"
    using assms(1) entries_tree by (simp add: nodeRel_def)
  then show "list_all2 (\<lambda>e c. nodeRel (docHeap ctx) (childNode n e) c)
      (entriesOf (docHeap ctx) (nodeValue n)) (jsonChildren d)"
    unfolding jsonChildren_def list_all2_map2
    by (rule list_all2_mono) (use child_tree[OF assms(1)] in \<open>force\<close>)
qed (use assms(2) in blast)

lemma wildcard_tree:
  assumes "nodeRel (docHeap ctx) n d"
  shows "yields eng (\<lambda>r. nodesRel (docHeap ctx) r (jsonChildren d)) (evaluateWildcardSelector ctx n)"
  using children_tree[OF assms, where F = "\<lambda>c. [c]"] yields_add
  by (simp add: evaluateWildcardSelector_def)

lemma element_tree:
  assumes "nodeRel (docHeap ctx) n d" and "arrayOf (docHeap ctx) (nodeValue n) = Some vs" and "snd d = JArr js"
    and "0 \<le> i" and "i < int (length js)"
  shows "yields eng (\<lambda>r. nodesRel (docHeap ctx) r (elementRef d i))
    (addResultNode ctx (childNode n (Idx (nat i), vs ! nat i)))"
proof -
  have "list_all2 (unfolds (docHeap ctx)) vs js"
    using assms(1-3) arrayOf_tree by (fastforce simp: nodeRel_def)
  then have "nodeRel (docHeap ctx) (childNode n (Idx (nat i), vs ! nat i)) (fst d @ [Idx (nat i)], js ! nat i)"
    using assms(4,5) by (intro child_tree[OF assms(1)]) (auto simp: list_all2_conv_all_nth)
  from yields_add[OF this] show ?thesis using assms by (simp add: elementRef_def)
qed

text \<open>An array node is an array on both sides.\<close>

lemma array_tree:
  assumes "nodeRel h n d"
  shows "arrayOf h (nodeValue n) = None \<and> (\<forall>js. snd d \<noteq> JArr js) \<or>
    (\<exists>vs js. arrayOf h (nodeValue n) = Some vs \<and> snd d = JArr js \<and> length vs = length js)"
proof (cases "\<exists>js. snd d = JArr js")
  case True
  then show ?thesis using assms arrayOf_tree by (fastforce simp: nodeRel_def dest: list_all2_lengthD)
next
  case False
  then show ?thesis using assms scalar_tree recordOf_tree
    by (cases "snd d") (fastforce simp: nodeRel_def)+
qed

lemma index_tree:
  assumes "nodeRel (docHeap ctx) n d"
  shows "yields eng (\<lambda>r. nodesRel (docHeap ctx) r (elementRef d (if i < 0 then lengthOf (snd d) + i else i)))
    (evaluateIndexSelector i ctx n)"
  using array_tree[OF assms]
proof (elim disjE exE conjE)
  fix vs js assume a: "arrayOf (docHeap ctx) (nodeValue n) = Some vs" "snd d = JArr js" "length vs = length js"
  let ?i = "if i < 0 then int (length js) + i else i"
  have "yields eng (\<lambda>r. nodesRel (docHeap ctx) r (elementRef d ?i))
      (addResultNode ctx (childNode n (Idx (nat ?i), vs ! nat ?i)))" if "0 \<le> ?i" "?i < int (length js)"
    by (rule element_tree[OF assms a(1,2) that])
  then show ?thesis
    using a by (auto simp: evaluateIndexSelector_def Let_def lengthOf_def elementRef_def intro: yields_ret)
next
  assume "arrayOf (docHeap ctx) (nodeValue n) = None" "\<forall>js. snd d \<noteq> JArr js"
  then show ?thesis by (cases "snd d") (simp_all add: evaluateIndexSelector_def elementRef_def yields_ret)
qed

lemma slice_tree:
  assumes "nodeRel (docHeap ctx) n d"
  shows "yields eng (\<lambda>r. nodesRel (docHeap ctx) r (concat (map (elementRef d) (sliceIndices a b c (lengthOf (snd d))))))
    (evaluateSliceSelector a b c ctx n)"
  using array_tree[OF assms]
proof (elim disjE exE conjE)
  fix vs js assume arr: "arrayOf (docHeap ctx) (nodeValue n) = Some vs" "snd d = JArr js" "length vs = length js"
  let ?is = "sliceIndices a b c (int (length js))"
  have "yields eng (\<lambda>r. nodesRel (docHeap ctx) r (concat (map (elementRef d) ?is)))
      (collectA (\<lambda>i. addResultNode ctx (childNode n (Idx (nat i), vs ! nat i))) ?is)"
    by (rule yields_collect[where A = "(=)"])
      (use element_tree[OF assms arr(1,2)] sliceIndices_range[of "int (length js)"] in \<open>auto simp: list.rel_eq\<close>)
  then show ?thesis using arr by (simp add: evaluateSliceSelector_def lengthOf_def)
next
  assume "arrayOf (docHeap ctx) (nodeValue n) = None" "\<forall>js. snd d \<noteq> JArr js"
  then have "concat (map (elementRef d) is) = []" "arrayOf (docHeap ctx) (nodeValue n) = None" for "is"
    by (cases "snd d"; simp add: elementRef_def)+
  then show ?thesis by (simp add: evaluateSliceSelector_def yields_ret)
qed

lemma filter_tree:
  assumes "nodeRel (docHeap ctx) n d"
    and "\<And>c k. nodeRel (docHeap ctx) c k \<Longrightarrow> yields eng (\<lambda>b. b = P k)
      (expression (ctx\<lparr>currentValue := nodeValue c, currentPath := segments c\<rparr>))"
  shows "yields eng (\<lambda>r. nodesRel (docHeap ctx) r (filter P (jsonChildren d))) (evaluateFilterSelector expression ctx n)"
proof -
  have "concat (map (\<lambda>c. if P c then [c] else []) cs) = filter P cs" for cs by (induction cs) auto
  moreover have "yields eng (\<lambda>r. nodesRel (docHeap ctx) r (if P c then [c] else []))
      (bindA (trackNodeVisit ctx k) (\<lambda>_. bindA (inChild (expression
          (ctx\<lparr>currentValue := nodeValue child, currentPath := segments child\<rparr>)))
        (\<lambda>b. if b then addResultNode ctx child else retA [])))"
    if "nodeRel (docHeap ctx) child c" for child c k
    using that yields_add[OF that]
    by (auto intro!: yields_bind[OF yields_track] yields_bind[OF yields_inChild[OF assms(2)]] yields_ret)
  ultimately show ?thesis
    using children_tree[OF assms(1), where F = "\<lambda>c. if P c then [c] else []"]
    by (simp add: evaluateFilterSelector_def Let_def)
qed

section \<open>Descendants\<close>

text \<open>
  Every object on the path to a node denotes a larger tree than the node, so the ancestor test never
  fires on a tree, and the loop leaves the frame of a node with the stack and the ancestors it had.
\<close>

definition aboveAll :: "heap \<Rightarrow> nat set \<Rightarrow> json \<Rightarrow> bool" where
  "aboveAll h anc j \<longleftrightarrow> (\<forall>a\<in>anc. \<exists>i. unfolds h (Ref a) i \<and> size j < size i)"

lemma not_ancestor: "aboveAll h anc j \<Longrightarrow> unfolds h v j \<Longrightarrow> \<not> isAncestor anc v"
  using unfolds_det by (fastforce simp: aboveAll_def isAncestor_def split: jsval.splits)

lemma aboveAll_child:
  "aboveAll h anc j \<Longrightarrow> unfolds h v j \<Longrightarrow> (st, w) \<in> set (jsonEntries j) \<Longrightarrow> aboveAll h (addAncestor v anc) w"
proof -
  assume above: "aboveAll h anc j" and v: "unfolds h v j" and w: "(st, w) \<in> set (jsonEntries j)"
  have "\<exists>i. unfolds h (Ref a) i \<and> size w < size i" if "a \<in> anc" for a
    using above that jsonEntries_size[OF w] unfolding aboveAll_def by (meson less_trans)
  then show "aboveAll h (addAncestor v anc) w"
    using v jsonEntries_size[OF w] by (cases v) (auto simp: aboveAll_def addAncestor_def)
qed

lemma concat_map_concat: "concat (map F (concat xss)) = concat (map (\<lambda>xs. concat (map F xs)) xss)"
  by (induction xss) auto

text \<open>One more frame: \<open>reaches\<close> says the loop gets to the rest of the stack with the selected nodes.\<close>

definition reaches :: "evalContext \<Rightarrow> (evalNode \<Rightarrow> evalNode list action) \<Rightarrow> frame list \<Rightarrow> nat set \<Rightarrow> jnode list \<Rightarrow> bool" where
  "reaches ctx visit frames anc ds \<longleftrightarrow>
     (\<forall>fuel stack acc s r. cacheOk (engine ctx) s \<longrightarrow>
       descendLoop fuel ctx visit (frames @ stack) anc acc s = Inr r \<longrightarrow>
       (\<exists>xs fuel' s'. nodesRel (docHeap ctx) xs ds \<and> cacheOk (engine ctx) s' \<and>
          descendLoop fuel' ctx visit stack anc (acc @ xs) s' = Inr r))"

lemma reachesD:
  assumes "reaches ctx visit frames anc ds" and "cacheOk (engine ctx) s"
    and "descendLoop fuel ctx visit (frames @ stack) anc acc s = Inr r"
  obtains xs fuel' s' where "nodesRel (docHeap ctx) xs ds" "cacheOk (engine ctx) s'"
    "descendLoop fuel' ctx visit stack anc (acc @ xs) s' = Inr r"
  using assms unfolding reaches_def by blast

lemma reaches_append:
  assumes "reaches ctx visit fs anc ds" and "reaches ctx visit gs anc es"
  shows "reaches ctx visit (fs @ gs) anc (ds @ es)"
  unfolding reaches_def
proof (intro allI impI)
  fix fuel stack acc s r
  assume s: "cacheOk (engine ctx) s" and run: "descendLoop fuel ctx visit ((fs @ gs) @ stack) anc acc s = Inr r"
  then have "descendLoop fuel ctx visit (fs @ (gs @ stack)) anc acc s = Inr r" by simp
  from reachesD[OF assms(1) s this] obtain xs fuel1 s1 where 1: "nodesRel (docHeap ctx) xs ds"
    "cacheOk (engine ctx) s1" "descendLoop fuel1 ctx visit (gs @ stack) anc (acc @ xs) s1 = Inr r" .
  from reachesD[OF assms(2) 1(2,3)] obtain ys fuel2 s2 where 2: "nodesRel (docHeap ctx) ys es"
    "cacheOk (engine ctx) s2" "descendLoop fuel2 ctx visit stack anc ((acc @ xs) @ ys) s2 = Inr r" .
  with 1(1) show "\<exists>xs fuel' s'. nodesRel (docHeap ctx) xs (ds @ es) \<and> cacheOk (engine ctx) s' \<and>
      descendLoop fuel' ctx visit stack anc (acc @ xs) s' = Inr r"
    by (metis append.assoc list_all2_appendI)
qed

lemma reaches_Nil [simp]: "reaches ctx visit [] anc []"
  by (auto simp: reaches_def intro!: exI[of _ "[]"])

lemma reaches_children:
  "list_all2 (\<lambda>e c. reaches ctx visit [Visit (childNode n e) k] anc (G c)) es cs \<Longrightarrow>
    reaches ctx visit (map (\<lambda>e. Visit (childNode n e) k) es) anc (concat (map G cs))"
proof (induction es cs rule: list_all2_induct)
  case (Cons e es c cs)
  then show ?case
    using reaches_append[of ctx visit "[Visit (childNode n e) k]" anc "G c"] by simp
qed simp

text \<open>What an object pushes: its children, then the frame that takes it off the ancestors.\<close>

lemma reaches_frames:
  assumes "reaches ctx visit (map (\<lambda>e. Visit (childNode n e) (k + 1)) (entriesOf (docHeap ctx) (nodeValue n)))
      (addAncestor (nodeValue n) anc) ds"
    and "\<not> isAncestor anc (nodeValue n)" and "cacheOk (engine ctx) s"
    and "descendLoop fuel ctx visit (childFrames (docHeap ctx) n k @ stack) (addAncestor (nodeValue n) anc) acc s = Inr r"
  shows "\<exists>xs fuel' s'. nodesRel (docHeap ctx) xs ds \<and> cacheOk (engine ctx) s' \<and>
      descendLoop fuel' ctx visit stack anc (acc @ xs) s' = Inr r"
proof (cases "\<exists>a. nodeValue n = Ref a")
  case True
  then obtain a where a: "nodeValue n = Ref a" by blast
  have anc: "insert a anc - {a} = anc" using assms(2) by (auto simp: a isAncestor_def)
  have "descendLoop fuel ctx visit
      (map (\<lambda>e. Visit (childNode n e) (k + 1)) (entriesOf (docHeap ctx) (nodeValue n)) @ (Exit a # stack))
      (addAncestor (nodeValue n) anc) acc s = Inr r"
    using assms(4) by (simp add: childFrames_def a)
  from reachesD[OF assms(1,3) this] obtain xs fuel' s' where
    "nodesRel (docHeap ctx) xs ds" "cacheOk (engine ctx) s'"
    "descendLoop fuel' ctx visit (Exit a # stack) (addAncestor (nodeValue n) anc) (acc @ xs) s' = Inr r" .
  then show ?thesis using anc by (auto simp: a addAncestor_def)
next
  case False
  then have "childFrames (docHeap ctx) n k = []" "entriesOf (docHeap ctx) (nodeValue n) = []"
      "addAncestor (nodeValue n) anc = anc"
    by (cases "nodeValue n"; simp add: childFrames_def entriesOf_def arrayOf_def recordOf_def addAncestor_def)+
  with assms(1,3,4) show ?thesis by (fastforce elim: reachesD[where stack = stack])
qed

lemma descend_tree:
  assumes visit: "\<And>n d. nodeRel (docHeap ctx) n d \<Longrightarrow>
      yields (engine ctx) (\<lambda>r. nodesRel (docHeap ctx) r (F d)) (visit n)"
  shows "nodeRel (docHeap ctx) n (p, j) \<Longrightarrow> aboveAll (docHeap ctx) anc j \<Longrightarrow>
    reaches ctx visit [Visit n k] anc (concat (map F (descendants p j)))"
proof (induction p j arbitrary: n anc k rule: descendants.induct)
  case (1 p j)
  let ?h = "docHeap ctx" and ?ds = "\<lambda>(st, w). concat (map F (descendants (p @ [st]) w))"
  have tree: "unfolds ?h (nodeValue n) j" and p: "segments n = p" using "1.prems"(1) by (auto simp: nodeRel_def)
  have "list_all2 (\<lambda>e c. reaches ctx visit [Visit (childNode n e) (k + 1)] (addAncestor (nodeValue n) anc) (?ds c))
      (entriesOf ?h (nodeValue n)) (jsonEntries j)"
  proof (rule list.rel_mono_strong[OF entries_tree[OF tree]])
    fix e c assume c: "c \<in> set (jsonEntries j)" "rel_prod (=) (unfolds ?h) e c"
    obtain st w where cw: "c = (st, w)" by (cases c)
    have "nodeRel ?h (childNode n e) (p @ [st], w)" using child_tree[OF "1.prems"(1)] c(2) cw by simp
    moreover have "aboveAll ?h (addAncestor (nodeValue n) anc) w"
      using aboveAll_child[OF "1.prems"(2) tree] c(1) cw by blast
    ultimately show "reaches ctx visit [Visit (childNode n e) (k + 1)] (addAncestor (nodeValue n) anc) (?ds c)"
      using "1.IH" c(1) cw by simp
  qed
  from reaches_children[OF this]
  have children: "reaches ctx visit (map (\<lambda>e. Visit (childNode n e) (k + 1)) (entriesOf ?h (nodeValue n)))
      (addAncestor (nodeValue n) anc) (concat (map ?ds (jsonEntries j)))" .
  have split: "concat (map F (descendants p j)) = F (p, j) @ concat (map ?ds (jsonEntries j))"
    by (subst descendants.simps) (simp add: concat_map_concat comp_def split_def)
  show ?case
    unfolding reaches_def split
  proof (intro allI impI)
    fix fuel stack acc s r
    assume s: "cacheOk (engine ctx) s" and run: "descendLoop fuel ctx visit ([Visit n k] @ stack) anc acc s = Inr r"
    have na: "\<not> isAncestor anc (nodeValue n)" by (rule not_ancestor[OF "1.prems"(2) tree])
    then obtain fuel' s1 sel s2 where r: "trackNodeVisit ctx k s = Inr ((), s1)" "visit n s1 = Inr (sel, s2)"
      "descendLoop fuel' ctx visit (childFrames ?h n k @ stack) (addAncestor (nodeValue n) anc) (acc @ sel) s2 = Inr r"
      using run by (cases r; cases fuel) (auto simp: bindA_run)
    have "cacheOk (engine ctx) s1" using yieldsD[OF yields_track s r(1)] by simp
    then have sel: "nodesRel ?h sel (F (p, j))" "cacheOk (engine ctx) s2"
      using yieldsD[OF visit[OF "1.prems"(1)] _ r(2)] by simp_all
    from reaches_frames[OF children na sel(2) r(3)] sel(1)
    show "\<exists>xs fuel' s'. nodesRel ?h xs (F (p, j) @ concat (map ?ds (jsonEntries j))) \<and> cacheOk (engine ctx) s' \<and>
        descendLoop fuel' ctx visit stack anc (acc @ xs) s' = Inr r"
      by (metis append.assoc list_all2_appendI)
  qed
qed

lemma forEachDescendant_tree:
  assumes "\<And>n d. nodeRel (docHeap ctx) n d \<Longrightarrow>
      yields (engine ctx) (\<lambda>r. nodesRel (docHeap ctx) r (F d)) (visit n)"
    and "nodeRel (docHeap ctx) n d"
  shows "yields (engine ctx) (\<lambda>r. nodesRel (docHeap ctx) r (concat (map F (descendants (fst d) (snd d)))))
    (forEachDescendant ctx visit n)"
proof (rule yieldsI)
  fix s x s' assume s: "cacheOk (engine ctx) s" and run: "forEachDescendant ctx visit n s = Inr (x, s')"
  have "reaches ctx visit [Visit n (length (segments n))] {} (concat (map F (descendants (fst d) (snd d))))"
    by (rule descend_tree[OF assms(1)]) (use assms(2) in \<open>auto simp: aboveAll_def\<close>)
  from reachesD[OF this s, of _ "[]" "[]" "(x, s')"] run
  obtain xs fuel t where "nodesRel (docHeap ctx) xs (concat (map F (descendants (fst d) (snd d))))"
    "cacheOk (engine ctx) t" "descendLoop fuel ctx visit [] {} ([] @ xs) t = Inr (x, s')"
    unfolding forEachDescendant_def by auto
  then show "nodesRel (docHeap ctx) x (concat (map F (descendants (fst d) (snd d)))) \<and> cacheOk (engine ctx) s'"
    by simp
qed

section \<open>Deep equality\<close>

text \<open>
  The loop keeps a set of pairs of objects it has met and never compares again. When it returns
  \<open>true\<close> those pairs form a bisimulation, and on trees a bisimulation is equality.
\<close>

definition eqv :: "(nat \<times> nat) set \<Rightarrow> jsval \<Rightarrow> jsval \<Rightarrow> bool" where
  "eqv S u v \<longleftrightarrow> strictEq u v \<or> (\<exists>a b. u = Ref a \<and> v = Ref b \<and> (a, b) \<in> S)"

definition sameObject :: "heap \<Rightarrow> (nat \<times> nat) set \<Rightarrow> nat \<Rightarrow> nat \<Rightarrow> bool" where
  "sameObject h S a b \<longleftrightarrow>
     (case (arrayOf h (Ref a), arrayOf h (Ref b)) of
        (Some xs, Some ys) \<Rightarrow> list_all2 (eqv S) xs ys
      | (None, None) \<Rightarrow>
          (let ps = propsOf h (Ref a); qs = propsOf h (Ref b)
           in length ps = length qs \<and> (\<forall>(k, x)\<in>set ps. hasOwnKey qs k \<and> eqv S x (getProp qs k)))
      | _ \<Rightarrow> False)"

lemma compareFrame_sound:
  assumes "compareFrame h u v d seen = GoOn pushed seen'" and "seen' \<subseteq> S"
    and "\<forall>(x, y, k)\<in>set pushed. eqv S x y"
  shows "eqv S u v \<and> seen \<subseteq> seen' \<and> (\<forall>(a, b)\<in>seen' - seen. sameObject h S a b)"
proof (cases "strictEq u v")
  case True
  with assms(1) show ?thesis by (simp add: compareFrame_def eqv_def)
next
  case False
  with assms(1) obtain a b where ab: "u = Ref a" "v = Ref b"
    by (auto simp: compareFrame_def split: if_splits jsval.splits)
  show ?thesis
  proof (cases "(a, b) \<in> seen")
    case True
    with False assms(1,2) show ?thesis
      by (auto simp: compareFrame_def ab typeOf_def eqv_def)
  next
    case new: False
    with False assms(1) have seen': "seen' = insert (a, b) seen"
      by (auto simp: compareFrame_def ab typeOf_def Let_def split: if_splits option.splits)
    have "sameObject h S a b"
      using False new assms(1,3)
      by (auto simp: compareFrame_def ab typeOf_def Let_def sameObject_def list_all2_iff list_ex_iff
          split: if_splits option.splits)
    with seen' assms(2) show ?thesis by (auto simp: eqv_def ab)
  qed
qed

lemma deepEqualLoop_bisim:
  "deepEqualLoop fuel ctx stack seen s = Inr (True, s') \<Longrightarrow>
    \<exists>S. seen \<subseteq> S \<and> (\<forall>(x, y, k)\<in>set stack. eqv S x y) \<and>
      (\<forall>(a, b)\<in>S - seen. sameObject (docHeap ctx) S a b)"
proof (induction fuel ctx stack seen arbitrary: s rule: deepEqualLoop.induct)
  case (3 fuel ctx u v d stack seen)
  then obtain s1 pushed seen' where g: "compareFrame (docHeap ctx) u v d seen = GoOn pushed seen'"
    "deepEqualLoop fuel ctx (pushed @ stack) seen' s1 = Inr (True, s')"
    by (auto simp: bindA_run split: compareStep.splits)
  from "3.IH"[OF g] obtain S where S: "seen' \<subseteq> S" "\<forall>(x, y, k)\<in>set (pushed @ stack). eqv S x y"
    "\<forall>(a, b)\<in>S - seen'. sameObject (docHeap ctx) S a b"
    by blast
  have f: "eqv S u v \<and> seen \<subseteq> seen' \<and> (\<forall>(a, b)\<in>seen' - seen. sameObject (docHeap ctx) S a b)"
    using compareFrame_sound[OF g(1) S(1)] S(2) by auto
  moreover have "\<forall>(a, b)\<in>S - seen. sameObject (docHeap ctx) S a b" using f S(3) by blast
  ultimately show ?case using S(1,2) by (intro exI[of _ S]) auto
qed (auto intro: exI[of _ "{}"])

text \<open>On trees.\<close>

lemma strictEq_tree:
  assumes "strictEq u v" and "unfolds h u i" and "unfolds h v j"
  shows "i = j"
proof (cases "u = v")
  case True
  then show ?thesis using assms(2,3) unfolds_det by blast
next
  case False
  then show ?thesis using assms by (cases u; cases v) (auto simp: strictEq_def numEq_def)
qed

lemma bisim_tree:
  assumes "wfHeap h" and "\<forall>(a, b)\<in>S. sameObject h S a b"
  shows "unfolds h u i \<Longrightarrow> unfolds h v j \<Longrightarrow> eqv S u v \<Longrightarrow> jsonEq i j"
proof (induction i arbitrary: u v j rule: measure_induct_rule[where f = size])
  case (less i)
  show ?case
  proof (cases "strictEq u v")
    case True
    with less.prems have "i = j" using strictEq_tree by blast
    then show ?thesis using jsonEq_refl unfolds_wf[OF less.prems(1) assms(1)] by simp
  next
    case False
    then obtain a b where ab: "u = Ref a" "v = Ref b" "sameObject h S a b"
      using less.prems(3) assms(2) by (auto simp: eqv_def)
    show ?thesis
    proof (cases "\<exists>is. i = JArr is")
      case True
      then obtain "is" where i: "i = JArr is" by blast
      obtain xs where xs: "arrayOf h (Ref a) = Some xs" "list_all2 (unfolds h) xs is"
        using arrayOf_tree[of h "Ref a" "is"] less.prems(1) by (auto simp: ab i)
      obtain ys where ys: "arrayOf h (Ref b) = Some ys" "list_all2 (eqv S) xs ys"
        using ab(3) xs(1) by (auto simp: sameObject_def split: option.splits)
      obtain js where j: "j = JArr js" "list_all2 (unfolds h) ys js"
        using less.prems(2) ys(1) by (auto simp: ab unfolds_simps arrayOf_def split: option.splits heapobj.splits)
      have "list_all2 jsonEq is js"
        unfolding list_all2_conv_all_nth
      proof (intro conjI allI impI)
        show "length is = length js" using xs(2) ys(2) j(2) by (metis list_all2_lengthD)
        fix k assume k: "k < length is"
        show "jsonEq (is ! k) (js ! k)"
          by (rule less.IH[of "is ! k" "xs ! k" "ys ! k"])
            (use k xs(2) ys(2) j(2) size_elem[of "is ! k" "is"] in \<open>auto simp: i list_all2_conv_all_nth\<close>)
      qed
      then show ?thesis by (simp add: i j)
    next
      case False
      then obtain ps where i: "i = JObj ps" using less.prems(1) by (auto simp: ab unfolds_simps)
      obtain xs where xs: "recordOf h (Ref a) = Some xs" "arrayOf h (Ref a) = None"
          "list_all2 (rel_prod (=) (unfolds h)) xs ps"
        using recordOf_tree[of h "Ref a" ps] less.prems(1) by (auto simp: ab i)
      obtain qs where j: "j = JObj qs"
        using less.prems(2) ab(3) xs(2) by (auto simp: ab unfolds_simps sameObject_def arrayOf_def split: option.splits)
      obtain ys where ys: "recordOf h (Ref b) = Some ys" "arrayOf h (Ref b) = None"
          "list_all2 (rel_prod (=) (unfolds h)) ys qs"
        using recordOf_tree[of h "Ref b" qs] less.prems(2) by (auto simp: ab j)
      have same: "length xs = length ys" "\<forall>(k, x)\<in>set xs. hasOwnKey ys k \<and> eqv S x (getProp ys k)"
        using ab(3) by (auto simp: sameObject_def xs ys propsOf_def Let_def)
      have keys: "map fst ps = map fst xs" "map fst qs = map fst ys"
        using unfolds_keys[OF xs(3)] unfolds_keys[OF ys(3)] by simp_all
      have ord: "keysOrdered ps" "keysOrdered qs"
        using unfolds_wf[OF less.prems(1) assms(1)] unfolds_wf[OF less.prems(2) assms(1)] by (simp_all add: i j)
      have member: "case map_of qs k of None \<Rightarrow> False | Some w \<Rightarrow> jsonEq x w" if x: "(k, x) \<in> set ps" for k x
      proof -
        obtain n where n: "n < length ps" "ps ! n = (k, x)" using x by (auto simp: in_set_conv_nth)
        have xn: "xs ! n \<in> set xs" "fst (xs ! n) = k" "unfolds h (snd (xs ! n)) x"
          using n xs(3) by (auto simp: list_all2_conv_all_nth rel_prod_sel)
        then have own: "hasOwnKey ys k" and e: "eqv S (snd (xs ! n)) (getProp ys k)"
          using same(2) by (auto simp: case_prod_beta)
        obtain y where y: "map_of ys k = Some y" using own by (auto simp: hasOwnKey_map_of)
        obtain w where w: "map_of qs k = Some w" "unfolds h y w"
          using map_of_tree[OF ys(3), of k] y by (cases "map_of qs k") auto
        have "jsonEq x w"
          by (rule less.IH[OF _ xn(3) w(2)]) (use e y size_field[OF x] in \<open>simp_all add: i getProp_def\<close>)
        with w show ?thesis by simp
      qed
      have "fst ` set ps \<subseteq> fst ` set qs"
        using member by (force split: option.splits dest: map_of_SomeD)
      moreover have "length ps = length qs" using same(1) keys by (metis length_map)
      ultimately have "fst ` set ps = fst ` set qs" using same_keys ord by blast
      then show ?thesis using member by (auto simp: i j list_all_iff)
    qed
  qed
qed

definition treesEq :: "heap \<Rightarrow> jsval \<Rightarrow> jsval \<Rightarrow> bool" where
  "treesEq h u v \<longleftrightarrow> (\<exists>i j. unfolds h u i \<and> unfolds h v j \<and> jsonEq i j)"

lemma jsonEq_scalar:
  assumes "unfolds h u i" and "unfolds h v j" and "jsonEq i j" and "\<not> strictEq u v"
  shows "\<exists>a b. u = Ref a \<and> v = Ref b \<and>
    ((\<exists>is js. i = JArr is \<and> j = JArr js) \<or> (\<exists>ps qs. i = JObj ps \<and> j = JObj qs))"
  using assms
  by (cases u; cases v) (auto simp: unfolds_simps strictEq_def numEq_def split: json.splits)

lemma compareFrame_complete:
  assumes "wfHeap h" and "unfolds h u i" and "unfolds h v j" and "jsonEq i j"
  shows "\<exists>pushed seen'. compareFrame h u v d seen = GoOn pushed seen' \<and> (\<forall>(x, y, k)\<in>set pushed. treesEq h x y)"
proof (cases "strictEq u v")
  case True
  then show ?thesis by (simp add: compareFrame_def)
next
  case False
  with jsonEq_scalar[OF assms(2-4)] obtain a b where ab: "u = Ref a" "v = Ref b" and
    shape: "(\<exists>is js. i = JArr is \<and> j = JArr js) \<or> (\<exists>ps qs. i = JObj ps \<and> j = JObj qs)" by blast
  show ?thesis
  proof (cases "(a, b) \<in> seen")
    case True
    with False show ?thesis by (simp add: compareFrame_def ab typeOf_def)
  next
    case new: False
    from shape show ?thesis
    proof (elim disjE exE conjE)
      fix "is" js assume ij: "i = JArr is" "j = JArr js"
      obtain xs ys where xs: "arrayOf h (Ref a) = Some xs" "list_all2 (unfolds h) xs is"
        and ys: "arrayOf h (Ref b) = Some ys" "list_all2 (unfolds h) ys js"
        using arrayOf_tree assms(2,3) ab ij by metis
      have eq: "list_all2 jsonEq is js" using assms(4) by (simp add: ij)
      have "length xs = length ys" using xs(2) ys(2) eq by (metis list_all2_lengthD)
      moreover have "\<forall>(x, y)\<in>set (zip xs ys). treesEq h x y"
        using xs(2) ys(2) eq unfolding treesEq_def by (fastforce simp: set_zip list_all2_conv_all_nth)
      ultimately show ?thesis
        using False new xs(1) ys(1) by (auto simp: compareFrame_def ab typeOf_def)
    next
      fix ps qs assume ij: "i = JObj ps" "j = JObj qs"
      obtain xs ys where xs: "arrayOf h (Ref a) = None" "recordOf h (Ref a) = Some xs"
          "list_all2 (rel_prod (=) (unfolds h)) xs ps"
        and ys: "arrayOf h (Ref b) = None" "recordOf h (Ref b) = Some ys"
          "list_all2 (rel_prod (=) (unfolds h)) ys qs"
        using recordOf_tree assms(2,3) ab ij by metis
      have keys: "map fst ps = map fst xs" "map fst qs = map fst ys"
        using unfolds_keys[OF xs(3)] unfolds_keys[OF ys(3)] by simp_all
      have sets: "fst ` set ps = fst ` set qs" using assms(4) by (simp add: ij)
      have "length ps = length qs"
        using same_keys_length[OF _ _ sets] unfolds_wf[OF assms(2,1)] unfolds_wf[OF assms(3,1)] by (simp add: ij)
      then have len: "length xs = length ys" using keys by (metis length_map)
      have own: "treesEq h x (getProp ys k) \<and> hasOwnKey ys k" if x: "(k, x) \<in> set xs" for k x
      proof -
        obtain n where n: "n < length xs" "xs ! n = (k, x)" using x by (auto simp: in_set_conv_nth)
        have p: "ps ! n \<in> set ps" "fst (ps ! n) = k" "unfolds h x (snd (ps ! n))"
          using n xs(3) by (auto simp: list_all2_conv_all_nth rel_prod_sel)
        then obtain w where w: "map_of qs k = Some w" "jsonEq (snd (ps ! n)) w"
          using assms(4) by (auto simp: ij list_all_iff case_prod_beta split: option.splits)
        obtain y where y: "map_of ys k = Some y" "unfolds h y w"
          using map_of_tree[OF ys(3), of k] w by (cases "map_of ys k") auto
        with p w show ?thesis by (auto simp: treesEq_def getProp_def hasOwnKey_map_of)
      qed
      have "\<not> list_ex (\<lambda>(k, x). \<not> hasOwnKey ys k) xs" using own by (auto simp: list_ex_iff)
      then show ?thesis
        using False new xs(1,2) ys(1,2) len own
        by (auto simp: compareFrame_def ab typeOf_def propsOf_def Let_def)
    qed
  qed
qed

lemma deepEqualLoop_complete:
  "deepEqualLoop fuel ctx stack seen s = Inr (b, s') \<Longrightarrow> wfHeap (docHeap ctx) \<Longrightarrow>
    \<forall>(x, y, k)\<in>set stack. treesEq (docHeap ctx) x y \<Longrightarrow> b"
proof (induction fuel ctx stack seen arbitrary: s rule: deepEqualLoop.induct)
  case (3 fuel ctx u v d stack seen)
  obtain i j where ij: "unfolds (docHeap ctx) u i" "unfolds (docHeap ctx) v j" "jsonEq i j"
    using "3.prems"(3) by (auto simp: treesEq_def)
  from compareFrame_complete[OF "3.prems"(2) ij, of d seen] obtain pushed seen' where
    g: "compareFrame (docHeap ctx) u v d seen = GoOn pushed seen'" and
    p: "\<forall>(x, y, k)\<in>set pushed. treesEq (docHeap ctx) x y" by blast
  from "3.prems"(1) g obtain s1 where "deepEqualLoop fuel ctx (pushed @ stack) seen' s1 = Inr (b, s')"
    by (auto simp: bindA_run)
  then show ?case by (rule "3.IH"[OF g]) (use p "3.prems"(2,3) in auto)
qed auto

lemma deepEqual_tree:
  assumes "wfHeap (docHeap ctx)" and "unfolds (docHeap ctx) u i" and "unfolds (docHeap ctx) v j"
    and "deepEqualA ctx u v s = Inr (b, s')"
  shows "b = jsonEq i j"
proof
  assume "jsonEq i j"
  with assms(2,3) have "treesEq (docHeap ctx) u v" by (auto simp: treesEq_def)
  then show b using deepEqualLoop_complete[OF assms(4)[unfolded deepEqualA_def] assms(1)] by simp
next
  assume b: b
  obtain S where "eqv S u v" "\<forall>(a, b)\<in>S. sameObject (docHeap ctx) S a b"
    using deepEqualLoop_bisim[OF assms(4)[unfolded deepEqualA_def, simplified b]] by auto
  then show "jsonEq i j" using bisim_tree[OF assms(1) _ assms(2,3)] by blast
qed

section \<open>Comparisons and functions\<close>

definition valueRel :: "heap \<Rightarrow> jsval option \<Rightarrow> json option \<Rightarrow> bool" where
  "valueRel h \<equiv> rel_option (unfolds h)"

lemma literal_tree: "wfLiteral l \<Longrightarrow> unfolds h (literalValue l) (literalRef l)"
  by (cases l) (auto simp: literalValue_def literalRef_def wfLiteral_def unfolds_simps split: jsnum.splits)

lemma less_tree:
  assumes "unfolds h u i" and "unfolds h v j"
  shows "compareLessThan u v = lessRef i j" "compareLessThanOrEqual u v = lessEqRef i j"
  using assms
  by (cases u; cases v; auto simp: compareLessThan_def compareLessThanOrEqual_def lessRef_def lessEqRef_def
      orderedRef_def unfolds_simps less_eq_jsnum_def)+

lemma yields_deepEqual:
  assumes "wfHeap (docHeap ctx)" and "unfolds (docHeap ctx) u i" and "unfolds (docHeap ctx) v j"
  shows "yields eng (\<lambda>b. b = jsonEq i j) (deepEqualA ctx u v)"
proof (rule yieldsI)
  fix s b s' assume s: "cacheOk eng s" and run: "deepEqualA ctx u v s = Inr (b, s')"
  have "sat (cacheStep eng) anyError (deepEqualA ctx u v)"
    unfolding deepEqualA_def by (rule deepEqualLoop_cache)
  from satD[OF this run] s have "cacheOk eng s'" by (simp add: cacheStep_def)
  with deepEqual_tree[OF assms run] show "b = jsonEq i j \<and> cacheOk eng s'" by simp
qed

lemma compare_tree:
  assumes "wfHeap (docHeap ctx)" and "valueRel (docHeap ctx) l i" and "valueRel (docHeap ctx) r j"
  shows "yields eng (\<lambda>b. b = compareRef op i j) (compareA ctx l op r)"
proof (cases "l = None \<or> r = None")
  case True
  with assms(2,3) show ?thesis
    by (auto simp: compareA_def compareRef_def valueRel_def split: option.split intro: yields_ret)
next
  case False
  then obtain u v where lr: "l = Some u" "r = Some v" by auto
  then obtain a b where ab: "i = Some a" "j = Some b" "unfolds (docHeap ctx) u a" "unfolds (docHeap ctx) v b"
    using assms(2,3) by (auto simp: valueRel_def option_rel_Some1)
  note eq = yields_deepEqual[OF assms(1) ab(3,4), of eng]
  show ?thesis
    using less_tree[OF ab(3,4)] less_tree[OF ab(4,3)] eq
    by (cases op) (auto simp: compareA_def compareRef_def lr ab(1,2) intro!: yields_ret yields_bind[OF eq])
qed

lemma cached_regex:
  "yields (engine ctx) (\<lambda>re. re = engine ctx (anchored p)) (getCachedRegex ctx (matchKey p) (anchored p))"
  "yields (engine ctx) (\<lambda>re. re = engine ctx p) (getCachedRegex ctx (searchKey p) p)"
  using getCachedRegex_match[of ctx _ p] getCachedRegex_search[of ctx _ p] by (fastforce intro!: yieldsI)+

lemma yields_policy: "yields eng (\<lambda>u. True) (enforceRegexPolicy ctx p v)"
  by (rule yieldsI) (auto simp: enforceRegexPolicy_def split: if_splits)

lemma unfolds_JStr: "unfolds h v (JStr s) \<longleftrightarrow> v = Str s"
  by (cases v) (auto simp: unfolds_simps)

lemma unfolds_JBool: "unfolds h v (JBool b) \<longleftrightarrow> v = Bool b"
  by (cases v) (auto simp: unfolds_simps)

lemma regexRef_strings: "regexRef eng wrap i j \<Longrightarrow> \<exists>w q. i = Some (JStr w) \<and> j = Some (JStr q)"
  by (cases i; cases j) (simp_all add: regexRef_def split: json.splits)

lemma regexTest_tree:
  assumes "valueRel h v i" and "valueRel h p j"
    and "\<And>q. p = Some (Str q) \<Longrightarrow> yields eng (\<lambda>re. re = eng (wrap q)) (getCachedRegex ctx k c)"
  shows "yields eng (\<lambda>b. b = regexRef eng wrap i j) (regexTest ctx k c v p)"
proof (cases "\<exists>w q. v = Some (Str w) \<and> p = Some (Str q)")
  case True
  then obtain w q where v: "v = Some (Str w)" "p = Some (Str q)" by blast
  then have ij: "i = Some (JStr w)" "j = Some (JStr q)"
    using assms(1,2) by (auto simp: valueRel_def option_rel_Some1 unfolds_simps)
  show ?thesis
    by (auto simp: regexTest_def v ij regexRef_def
        intro!: yields_bind[OF yields_policy] yields_bind[OF assms(3)] yields_ret)
next
  case False
  have "regexTest ctx k c v p = retA False"
    using False by (auto simp: regexTest_def split: option.split jsval.split)
  moreover have "\<not> (i = Some (JStr w) \<and> j = Some (JStr q))" for w q
    using False assms(1,2) by (auto simp: valueRel_def option_rel_Some2 unfolds_JStr)
  then have "regexRef eng wrap i j = False" using regexRef_strings by blast
  ultimately show ?thesis by (simp add: yields_ret)
qed

lemma fnMatch_tree:
  assumes "valueRel h v i" and "valueRel h p j"
  shows "yields (engine ctx) (\<lambda>b. b = regexRef (engine ctx) anchored i j) (fnMatch ctx v p)"
  unfolding fnMatch_def by (rule regexTest_tree[OF assms]) (simp add: patternOf_def cached_regex)

lemma fnSearch_tree:
  assumes "valueRel h v i" and "valueRel h p j"
  shows "yields (engine ctx) (\<lambda>b. b = regexRef (engine ctx) (\<lambda>p. p) i j) (fnSearch ctx v p)"
  unfolding fnSearch_def by (rule regexTest_tree[OF assms]) (simp add: patternOf_def cached_regex)

lemma fnLength_tree:
  assumes "valueRel (docHeap ctx) v i"
  shows "valueRel (docHeap ctx) (fnLength ctx v) (lengthRef i)"
proof (cases v)
  case (Some u)
  then obtain j where j: "i = Some j" "unfolds (docHeap ctx) u j"
    using assms by (auto simp: valueRel_def option_rel_Some1)
  have num: "unfolds (docHeap ctx) (numOfNat n) (JNum (of_nat n))" for n
    by (simp add: numOfNat_def unfolds_simps)
  show ?thesis
  proof (cases j)
    case (JArr js)
    then show ?thesis
      using arrayOf_tree[of "docHeap ctx" u js] j(2) num
      by (cases u) (auto simp: valueRel_def Some j(1) fnLength_def lengthRef_def arrayOf_def dest!: list_all2_lengthD)
  next
    case (JObj ps)
    then show ?thesis
      using recordOf_tree[of "docHeap ctx" u ps] j(2) num
      by (cases u) (auto simp: valueRel_def Some j(1) fnLength_def lengthRef_def recordOf_def propsOf_def
          dest!: list_all2_lengthD)
  qed (use j(2) num in \<open>auto simp: valueRel_def Some j(1) fnLength_def lengthRef_def elim!: unfolds.cases\<close>)
qed (use assms in \<open>simp add: valueRel_def fnLength_def lengthRef_def\<close>)

lemma only_tree: "nodesRel h ns ds \<Longrightarrow> valueRel h (onlyValue ns) (onlyRef ds)"
  by (auto simp: onlyValue_def onlyRef_def valueRel_def nodeRel_def list_all2_Cons1 list_all2_Cons2 split: list.split)

section \<open>The evaluator\<close>

definition docRel :: "evalContext \<Rightarrow> refEnv \<Rightarrow> bool" where
  "docRel ctx env \<longleftrightarrow> wfHeap (docHeap ctx) \<and> refEngine env = engine ctx \<and>
     unfolds (docHeap ctx) (rootValue ctx) (refDoc env)"

definition curRel :: "evalContext \<Rightarrow> refEnv \<Rightarrow> jnode \<Rightarrow> bool" where
  "curRel ctx env cur \<longleftrightarrow> docRel ctx env \<and> currentPath ctx = fst cur \<and>
     unfolds (docHeap ctx) (currentValue ctx) (snd cur)"

lemma curRel_child:
  "docRel ctx env \<Longrightarrow> nodeRel (docHeap ctx) c k \<Longrightarrow>
    curRel (ctx\<lparr>currentValue := nodeValue c, currentPath := segments c\<rparr>) env k"
  by (simp add: curRel_def docRel_def nodeRel_def)

lemma start_tree: "curRel ctx env cur \<Longrightarrow> nodeRel (docHeap ctx) (startNode r ctx) (refStart r env cur)"
  by (simp add: curRel_def docRel_def nodeRel_def startNode_def refStart_def)

lemma from_tree:
  assumes "curRel ctx env cur"
    and "\<And>seg ns ds. seg \<in> set ss \<Longrightarrow> nodesRel (docHeap ctx) ns ds \<Longrightarrow>
      yields (engine ctx) (\<lambda>r. nodesRel (docHeap ctx) r (segmentRef seg env ds)) (evaluateSegment seg ctx ns)"
  shows "yields (engine ctx) (\<lambda>res. nodesRel (docHeap ctx) res
      (foldl (\<lambda>ns s. segmentRef s env ns) [refStart r env cur] ss))
    (evaluateFrom r ctx (foldA (\<lambda>seg. evaluateSegment seg ctx) ss))"
  unfolding evaluateFrom_def
  by (rule yields_bind[OF yields_track])
    (rule yields_fold, use start_tree[OF assms(1)] assms(2) in simp_all)

lemma wellTyped_args:
  assumes "isWellTypedFunctionExpr (FunctionExpr name args)"
  shows "case name of LengthFn \<Rightarrow> \<exists>a. args = [a] | CountFn \<Rightarrow> \<exists>q. args = [QueryArg q]
    | MatchFn \<Rightarrow> \<exists>a b. args = [a, b] | SearchFn \<Rightarrow> \<exists>a b. args = [a, b] | ValueFn \<Rightarrow> \<exists>q. args = [QueryArg q]"
  using assms
  by (cases name) (auto simp: isWellTypedFunctionExpr_def isArgTypeCompatible_def length_Suc_conv split: functionArg.splits)

lemma evaluator_tree:
  "wfSegment m seg \<Longrightarrow> docRel ctx env \<Longrightarrow> nodesRel (docHeap ctx) ns ds \<Longrightarrow>
    yields (engine ctx) (\<lambda>r. nodesRel (docHeap ctx) r (segmentRef seg env ds)) (evaluateSegment seg ctx ns)"
  "wfSelector m sel \<Longrightarrow> docRel ctx env \<Longrightarrow> nodeRel (docHeap ctx) n d \<Longrightarrow>
    yields (engine ctx) (\<lambda>r. nodesRel (docHeap ctx) r (selectorRef sel env d)) (evaluateSelector sel ctx n)"
  "wfLogical m e \<Longrightarrow> curRel ctx env cur \<Longrightarrow>
    yields (engine ctx) (\<lambda>b. b = logicalRef e env cur) (evaluateLogicalExpr e ctx)"
  "wfComparable m c \<Longrightarrow> curRel ctx env cur \<Longrightarrow>
    yields (engine ctx) (\<lambda>v. valueRel (docHeap ctx) v (comparableRef c env cur)) (evaluateComparable c ctx)"
  "wfFunction m f \<Longrightarrow> curRel ctx env cur \<Longrightarrow>
    yields (engine ctx) (\<lambda>v. valueRel (docHeap ctx) v (functionRef f env cur)) (evaluateFunction f ctx)"
  "wfArg m a \<Longrightarrow> curRel ctx env cur \<Longrightarrow>
    yields (engine ctx) (\<lambda>v. valueRel (docHeap ctx) v (argRef a env cur)) (evaluateFunctionArg a ctx)"
  "wfQuery m q \<Longrightarrow> curRel ctx env cur \<Longrightarrow>
    yields (engine ctx) (\<lambda>r. nodesRel (docHeap ctx) r (queryRef q env cur)) (evaluateFilterQuery q ctx)"
proof (induction seg and sel and e and c and f and a and q
    arbitrary: m ctx ns ds and m ctx n d and m ctx cur and m ctx cur and m ctx cur and m ctx cur and m ctx cur
    rule: evaluateSegment_evaluateSelector_evaluateLogicalExpr_evaluateComparable_evaluateFunction_evaluateFunctionArg_evaluateFilterQuery.induct)
  case (1 sels)
  have sel: "yields (engine ctx) (\<lambda>r. nodesRel (docHeap ctx) r (selectorRef sel env d)) (evaluateSelector sel ctx n)"
    if "sel \<in> set sels" "nodeRel (docHeap ctx) n d" for sel n d
  proof -
    have "wfSelector m sel" using "1.prems"(1) that(1) by (simp add: list_all_iff)
    then show ?thesis by (rule "1.IH"[OF that(1) _ "1.prems"(2) that(2)])
  qed
  have "yields (engine ctx) (\<lambda>r. nodesRel (docHeap ctx) r (concat (map (\<lambda>sel. selectorRef sel env d) sels)))
      (collectA (\<lambda>sel. evaluateSelector sel ctx n) sels)" if "nodeRel (docHeap ctx) n d" for n d
    by (rule yields_collect[where A = "(=)"]) (use sel[OF _ that] in \<open>auto simp: list.rel_eq\<close>)
  then show ?case
    by (simp, intro yields_collect[OF "1.prems"(3)])
next
  case (2 sels)
  have sel: "yields (engine ctx) (\<lambda>r. nodesRel (docHeap ctx) r (selectorRef sel env d)) (evaluateSelector sel ctx n)"
    if "sel \<in> set sels" "nodeRel (docHeap ctx) n d" for sel n d
  proof -
    have "wfSelector m sel" using "2.prems"(1) that(1) by (simp add: list_all_iff)
    then show ?thesis by (rule "2.IH"[OF that(1) _ "2.prems"(2) that(2)])
  qed
  have "yields (engine ctx) (\<lambda>r. nodesRel (docHeap ctx) r (concat (map (\<lambda>sel. selectorRef sel env d) sels)))
      (collectA (\<lambda>sel. evaluateSelector sel ctx n) sels)" if "nodeRel (docHeap ctx) n d" for n d
    by (rule yields_collect[where A = "(=)"]) (use sel[OF _ that] in \<open>auto simp: list.rel_eq\<close>)
  from forEachDescendant_tree[OF this] show ?case
    by (simp, intro yields_collect[OF "2.prems"(3)])
next
  case (7 e)
  have "yields (engine ctx) (\<lambda>b. b = logicalRef e env k)
      (evaluateLogicalExpr e (ctx\<lparr>currentValue := nodeValue c, currentPath := segments c\<rparr>))"
    if "nodeRel (docHeap ctx) c k" for c k
    using "7.IH"[of "m - 1", OF _ curRel_child[OF "7.prems"(2) that]] "7.prems"(1) by simp
  then show ?case using filter_tree[OF "7.prems"(3)] by simp
next
  case (8 es)
  have "yields (engine ctx) (\<lambda>b. b = logicalRef e env cur) (evaluateLogicalExpr e ctx)" if "e \<in> set es" for e
  proof -
    have "wfLogical m e" using "8.prems"(1) that by (simp add: list_all_iff)
    then show ?thesis by (rule "8.IH"[OF that _ "8.prems"(2)])
  qed
  then show ?case by (simp add: yields_any)
next
  case (9 es)
  have "yields (engine ctx) (\<lambda>b. b = logicalRef e env cur) (evaluateLogicalExpr e ctx)" if "e \<in> set es" for e
  proof -
    have "wfLogical m e" using "9.prems"(1) that by (simp add: list_all_iff)
    then show ?thesis by (rule "9.IH"[OF that _ "9.prems"(2)])
  qed
  then show ?case by (simp add: yields_all)
next
  case (10 e)
  have "yields (engine ctx) (\<lambda>b. b = logicalRef e env cur) (evaluateLogicalExpr e ctx)"
    by (rule "10.IH"[of "m - 1", OF _ "10.prems"(2)]) (use "10.prems"(1) in simp)
  then show ?case by (simp, elim yields_bind) (simp add: yields_ret)
next
  case (11 op l r)
  have doc: "wfHeap (docHeap ctx)" using "11.prems"(2) by (simp add: curRel_def docRel_def)
  have l: "yields (engine ctx) (\<lambda>v. valueRel (docHeap ctx) v (comparableRef l env cur)) (evaluateComparable l ctx)"
    by (rule "11.IH"(1)[of m, OF _ "11.prems"(2)]) (use "11.prems"(1) in simp)
  have r: "yields (engine ctx) (\<lambda>v. valueRel (docHeap ctx) v (comparableRef r env cur)) (evaluateComparable r ctx)"
    by (rule "11.IH"(2)[of m, OF _ "11.prems"(2)]) (use "11.prems"(1) in simp)
  show ?case by (simp, intro yields_bind[OF l] yields_bind[OF r] compare_tree[OF doc])
next
  case (12 q)
  have q: "yields (engine ctx) (\<lambda>r. nodesRel (docHeap ctx) r (queryRef q env cur)) (evaluateFilterQuery q ctx)"
    by (rule "12.IH"[of m, OF _ "12.prems"(2)]) (use "12.prems"(1) in simp)
  show ?case by (simp, rule yields_bind[OF q], rule yields_ret) (auto dest: list_all2_lengthD)
next
  case (13 f)
  have f: "yields (engine ctx) (\<lambda>v. valueRel (docHeap ctx) v (functionRef f env cur)) (evaluateFunction f ctx)"
    by (rule "13.IH"[of m, OF _ "13.prems"(2)]) (use "13.prems"(1) in simp)
  have "(v = Some (Bool True)) = (j = Some (JBool True))" if "valueRel h v j" for h v j
    using that unfolds_JBool by (cases v; cases j) (auto simp: valueRel_def unfolds_simps)
  with f show ?case by (simp, elim yields_bind) (simp add: yields_ret)
next
  case (14 l)
  then show ?case by (simp add: yields_ret literal_tree valueRel_def)
next
  case (15 r ss)
  have seg: "yields (engine ctx) (\<lambda>r. nodesRel (docHeap ctx) r (segmentRef seg env ds)) (evaluateSegment seg ctx ns)"
    if "seg \<in> set ss" "nodesRel (docHeap ctx) ns ds" for seg ns ds
  proof -
    have "wfSegment m seg" "docRel ctx env" using 15(2,3) that(1) by (auto simp: list_all_iff curRel_def)
    then show ?thesis by (rule "15.IH"[OF that(1) _ _ that(2)])
  qed
  from from_tree[OF "15.prems"(2) seg, of ss r] show ?case
    by (simp, elim yields_bind) (rule yields_ret, rule only_tree)
next
  case (17 name args)
  have args: "case name of LengthFn \<Rightarrow> \<exists>a. args = [a] | CountFn \<Rightarrow> \<exists>q. args = [QueryArg q]
      | MatchFn \<Rightarrow> \<exists>a b. args = [a, b] | SearchFn \<Rightarrow> \<exists>a b. args = [a, b] | ValueFn \<Rightarrow> \<exists>q. args = [QueryArg q]"
    using "17.prems"(1) by (intro wellTyped_args) simp
  have wf: "wfArg (m - 1) a" if "a \<in> set args" for a
    using "17.prems"(1) that by (simp add: list_all_iff)
  have num: "valueRel h (Some (numOfNat n)) (Some (JNum (of_nat n)))" for h n
    by (simp add: valueRel_def numOfNat_def unfolds_simps)
  show ?case
  proof (cases name)
    case LengthFn
    with args obtain a where a: "args = [a]" by auto
    have "yields (engine ctx) (\<lambda>v. valueRel (docHeap ctx) v (argRef a env cur)) (evaluateFunctionArg a ctx)"
      using "17.IH"(1)[OF LengthFn a refl wf "17.prems"(2)] a by simp
    then show ?thesis
      by (simp add: LengthFn a, elim yields_bind) (rule yields_ret, rule fnLength_tree)
  next
    case CountFn
    with args obtain q where a: "args = [QueryArg q]" by auto
    have "yields (engine ctx) (\<lambda>r. nodesRel (docHeap ctx) r (queryRef q env cur)) (evaluateFilterQuery q ctx)"
      by (rule "17.IH"(2)[OF CountFn a refl refl _ "17.prems"(2)]) (use wf[of "QueryArg q"] a in simp)
    then show ?thesis
      by (simp add: CountFn a, elim yields_bind) (rule yields_ret, use num in \<open>simp add: list_all2_lengthD\<close>)
  next
    case MatchFn
    with args obtain a b where a: "args = [a, b]" by auto
    have "yields (engine ctx) (\<lambda>v. valueRel (docHeap ctx) v (argRef a env cur)) (evaluateFunctionArg a ctx)"
      "yields (engine ctx) (\<lambda>v. valueRel (docHeap ctx) v (argRef b env cur)) (evaluateFunctionArg b ctx)"
      using "17.IH"(3)[OF MatchFn a refl refl wf "17.prems"(2)] "17.IH"(4)[OF MatchFn a refl refl wf "17.prems"(2)] a
      by simp_all
    then show ?thesis
      by (simp add: MatchFn a, elim yields_bind)
        (intro yields_bind[OF fnMatch_tree] yields_ret, assumption+,
          use "17.prems"(2) in \<open>simp add: valueRel_def unfolds_JBool curRel_def docRel_def\<close>)
  next
    case SearchFn
    with args obtain a b where a: "args = [a, b]" by auto
    have "yields (engine ctx) (\<lambda>v. valueRel (docHeap ctx) v (argRef a env cur)) (evaluateFunctionArg a ctx)"
      "yields (engine ctx) (\<lambda>v. valueRel (docHeap ctx) v (argRef b env cur)) (evaluateFunctionArg b ctx)"
      using "17.IH"(5)[OF SearchFn a refl refl wf "17.prems"(2)] "17.IH"(6)[OF SearchFn a refl refl wf "17.prems"(2)] a
      by simp_all
    then show ?thesis
      by (simp add: SearchFn a, elim yields_bind)
        (intro yields_bind[OF fnSearch_tree] yields_ret, assumption+,
          use "17.prems"(2) in \<open>simp add: valueRel_def unfolds_JBool curRel_def docRel_def\<close>)
  next
    case ValueFn
    with args obtain q where a: "args = [QueryArg q]" by auto
    have "yields (engine ctx) (\<lambda>r. nodesRel (docHeap ctx) r (queryRef q env cur)) (evaluateFilterQuery q ctx)"
      by (rule "17.IH"(7)[OF ValueFn a refl refl _ "17.prems"(2)]) (use wf[of "QueryArg q"] a in simp)
    then show ?thesis
      by (simp add: ValueFn a, elim yields_bind) (rule yields_ret, rule only_tree)
  qed
next
  case (18 l)
  then show ?case by (simp add: yields_ret literal_tree valueRel_def)
next
  case (19 q)
  have q: "yields (engine ctx) (\<lambda>r. nodesRel (docHeap ctx) r (queryRef q env cur)) (evaluateFilterQuery q ctx)"
    by (rule "19.IH"[of m, OF _ "19.prems"(2)]) (use "19.prems"(1) in simp)
  show ?case by (simp, rule yields_bind[OF q], rule yields_ret, rule only_tree)
next
  case (21 r ss)
  have seg: "yields (engine ctx) (\<lambda>r. nodesRel (docHeap ctx) r (segmentRef seg env ds)) (evaluateSegment seg ctx ns)"
    if "seg \<in> set ss" "nodesRel (docHeap ctx) ns ds" for seg ns ds
  proof -
    have "wfSegment m seg" "docRel ctx env" using 21(2,3) that(1) by (auto simp: list_all_iff curRel_def)
    then show ?thesis by (rule "21.IH"[OF that(1) _ _ that(2)])
  qed
  show ?case by (simp add: from_tree[OF "21.prems"(2) seg])
next
  case (5 i)
  from index_tree[OF "5.prems"(3), of _ i] show ?case by (simp cong: if_cong)
next
  case (6 a b c)
  from slice_tree[OF "6.prems"(3)] show ?case by simp
qed (auto intro: name_tree wildcard_tree)

text \<open>A whole query, from the root of the document.\<close>

definition queryResult :: "query \<Rightarrow> (jsstr \<Rightarrow> regex option) \<Rightarrow> json \<Rightarrow> jnode list" where
  "queryResult ast eng j =
     (case ast of Query r ss \<Rightarrow>
        foldl (\<lambda>ns s. segmentRef s \<lparr>refEngine = eng, refDoc = j\<rparr> ns) [([], j)] ss)"

lemma initial_cacheOk: "cacheOk eng initialState"
  by (simp add: cacheOk_def initialState_def)

lemma evaluateQuery_tree:
  assumes "wfHeap (docHeap ctx)" and "unfolds (docHeap ctx) (rootValue ctx) j" and "wfQuery m ast"
    and "evaluateQuery ast ctx = Inr ns"
  shows "nodesRel (docHeap ctx) ns (queryResult ast (engine ctx) j)"
proof -
  obtain r ss where ast: "ast = Query r ss" by (cases ast)
  let ?env = "\<lparr>refEngine = engine ctx, refDoc = j\<rparr>"
  have doc: "docRel ctx ?env" using assms(1,2) by (simp add: docRel_def)
  have start: "nodesRel (docHeap ctx) [\<lparr>nodeValue = rootValue ctx, segments = []\<rparr>] [([], j)]"
    using assms(2) by (simp add: nodeRel_def)
  have seg: "yields (engine ctx) (\<lambda>r. nodesRel (docHeap ctx) r (segmentRef seg ?env ds)) (evaluateSegment seg ctx ns)"
    if "seg \<in> set ss" "nodesRel (docHeap ctx) ns ds" for seg ns ds
    by (rule evaluator_tree(1)[OF _ doc that(2), of m]) (use assms(3) that(1) in \<open>simp add: ast list_all_iff\<close>)
  have "yields (engine ctx) (\<lambda>res. nodesRel (docHeap ctx) res (foldl (\<lambda>ns s. segmentRef s ?env ns) [([], j)] ss))
      (foldA (\<lambda>segment. evaluateSegment segment ctx) ss [\<lparr>nodeValue = rootValue ctx, segments = []\<rparr>])"
    by (rule yields_fold[where A = "nodesRel (docHeap ctx)", OF start seg])
  from yields_bind[OF yields_track this, of ctx 0] assms(4) show ?thesis
    by (auto simp: evaluateQuery_def ast err_simps queryResult_def dest!: yieldsD[OF _ initial_cacheOk])
qed

end
