(* ===== verification/JsonPathLaws.thy ===== *)
theory JsonPathLaws
  imports JsonPathNormal JsonPathRefine
begin

text \<open>
  The properties of JSONPath (RFC 9535), \<open>src/jsonpath/\<close>, each with a run at a concrete input: what
  the lexer and the parser promise, the refinement of the reference semantics by the exported
  queries, normalized paths, limits, slices, comparison and the regex cache.
\<close>

section \<open>A sample document\<close>

text \<open>The document \<open>{"a":[1,2,3],"b":{"a":true}}\<close> at address 0.\<close>

definition pathHeap :: heap where
  "pathHeap = [0 \<mapsto> HObj ObjectProto [(lit ''a'', Ref 1), (lit ''b'', Ref 2)],
     1 \<mapsto> HArr [Num (Fin 1), Num (Fin 2), Num (Fin 3)],
     2 \<mapsto> HObj ObjectProto [(lit ''a'', Bool True)]]"

definition pathTree :: json where
  "pathTree = JObj [(lit ''a'', JArr [JNum 1, JNum 2, JNum 3]), (lit ''b'', JObj [(lit ''a'', JBool True)])]"

lemma pathHeap_tree: "unfolds pathHeap (Ref 0) pathTree"
  by (simp add: pathHeap_def pathTree_def unfolds_simps)

lemma pathHeap_wf: "wfHeap pathHeap"
  by (simp add: wfHeap_def pathHeap_def keysOrdered_def keyBefore_def isIndexKey_def isDigit_def)

lemma slice_bounds:
  assumes "0 \<le> len"
  shows "i \<in> set (sliceIndices a b c len) \<longleftrightarrow> inSlice a b (case c of None \<Rightarrow> 1 | Some k \<Rightarrow> k) len i"
proof -
  define step where "step = (case c of None \<Rightarrow> 1 | Some k \<Rightarrow> k)"
  define first where "first = (case a of None \<Rightarrow> if 0 < step then 0 else len - 1 | Some k \<Rightarrow> if k < 0 then len + k else k)"
  define last where "last = (case b of None \<Rightarrow> if 0 < step then len else - 1 | Some k \<Rightarrow> if k < 0 then len + k else k)"
  consider "step = 0" | "0 < step" | "step < 0" by linarith
  then show ?thesis
  proof cases
    case 1
    then show ?thesis by (simp add: sliceIndices_def step_def[symmetric] inSlice_def Let_def)
  next
    case 2
    have "normalize (case a of None \<Rightarrow> 0 | Some k \<Rightarrow> k) len = first"
      "normalize (case b of None \<Rightarrow> len | Some k \<Rightarrow> k) len = last"
      using 2 assms by (auto simp: normalize_def first_def last_def split: option.split)
    then have "sliceIndices a b c len = indicesUp (min (max first 0) len) (min (max last 0) len) step"
      using 2 by (simp add: sliceIndices_def step_def[symmetric] Let_def)
    moreover have "i \<in> set (indicesUp (min (max first 0) len) (min (max last 0) len) step) \<longleftrightarrow>
        0 \<le> i \<and> i < len \<and> first \<le> i \<and> i < last \<and> step dvd i - max first 0"
      unfolding indicesUp_set[OF 2] using assms by (cases "max first 0 \<le> len") (auto simp: min_def max_def)
    ultimately show ?thesis
      using 2 by (simp add: inSlice_def Let_def step_def[symmetric] first_def last_def)
  next
    case 3
    have "normalize (case a of None \<Rightarrow> len - 1 | Some k \<Rightarrow> k) len = first"
      "normalize (case b of None \<Rightarrow> - len - 1 | Some k \<Rightarrow> k) len = last"
      using 3 assms by (auto simp: normalize_def first_def last_def split: option.split)
    then have "sliceIndices a b c len = indicesDown (min (max first (- 1)) (len - 1)) (min (max last (- 1)) (len - 1)) step"
      using 3 by (simp add: sliceIndices_def step_def[symmetric] Let_def)
    moreover have "i \<in> set (indicesDown (min (max first (- 1)) (len - 1)) (min (max last (- 1)) (len - 1)) step) \<longleftrightarrow>
        0 \<le> i \<and> i < len \<and> i \<le> first \<and> last < i \<and> step dvd i - min first (len - 1)"
      unfolding indicesDown_set[OF 3] using assms by (cases "- 1 \<le> first") (auto simp: min_def max_def)
    ultimately show ?thesis
      using 3 by (simp add: inSlice_def Let_def step_def[symmetric] first_def last_def)
  qed
qed

lemma slice_sorted:
  "sorted_wrt (if 0 < (case c of None \<Rightarrow> 1 | Some k \<Rightarrow> k) then (<) else (>)) (sliceIndices a b c len)"
  using indicesUp_sorted indicesDown_sorted by (auto simp: sliceIndices_def Let_def)

section \<open>A sample query\<close>

text \<open>\<open>$..a\<close>, through the lexer and the parser, and its two nodes.\<close>

definition pathText :: jsstr where
  "pathText = lit ''$..a''"

definition pathAst :: query where
  "pathAst = Query DollarRoot [DescendantSegment [NameSelector (lit ''a'')]]"

lemma pathText_tokens: "lexer pathText = Inr
  [\<lparr>ttype = ROOT, pos = 0\<rparr>, \<lparr>ttype = DOTDOT, pos = 1\<rparr>, \<lparr>ttype = NAME (lit ''a''), pos = 3\<rparr>,
   \<lparr>ttype = EOF, pos = 4\<rparr>]"
  by code_simp

lemmas parser_defs = parseQuery_def parseSegment_def parseDescendantSegment_def matchToken_def check_def
  matchName_def advance_def ret_def null_def isAtEnd_def

lemma pathText_parses: "parseJsonPath pathText = Some pathAst"
  unfolding parseJsonPath_def pathText_tokens by (simp add: parser_defs pathAst_def)

lemmas action_defs = bindA_def retA_def failA_def trackNodeVisit_def addResultNode_def childNode_def

lemma pathText_nodes:
  "evaluateQuery pathAst (rootContext pathHeap (\<lambda>p. None) defaultLimits (Ref 0)) =
    Inr [\<lparr>nodeValue = Ref 1, segments = [Key (lit ''a'')]\<rparr>,
         \<lparr>nodeValue = Bool True, segments = [Key (lit ''b''), Key (lit ''a'')]\<rparr>]"
  by (simp add: evaluateQuery_def pathAst_def rootContext_def initialState_def defaultLimits_def action_defs
      entriesOf_def arrayOf_def recordOf_def pathHeap_def forEachDescendant_def childFrames_def isAncestor_def
      addAncestor_def evaluateNameSelector_def hasOwnKey_def getProp_def)

lemma noOptions_limits: "resolveEvalLimits noOptions = defaultLimits"
  by (simp add: resolveEvalLimits_def noOptions_def defaultLimits_def floorOr_def)

lemma pathText_query:
  "queryJsonPathNodes pathHeap (\<lambda>p. None) pathText (Ref 0) noOptions =
    Inr (Some [(Ref 1, formatNormalizedPath [Key (lit ''a'')]),
               (Bool True, formatNormalizedPath [Key (lit ''b''), Key (lit ''a'')])])"
  by (simp add: queryJsonPathNodes_def queryWith_def pathText_parses noOptions_limits pathText_nodes
      materializeNodePath_def)

section \<open>The lexer and the parser\<close>

text \<open>A text the lexer accepts becomes tokens with strictly increasing positions
  inside the text, ended by the one end-of-input token; the parser's cursor relies on that.\<close>

theorem path_tokens_wf:
  assumes "lexer text = Inr toks"
  shows "wfTokens toks \<and> (\<forall>t\<in>set toks. pos t \<le> length text)"
  using tokenize_wf[of 0 "text" toks] assms by (auto simp: lexer_def)

theorem path_tokens_wf_witness:
  "wfTokens [\<lparr>ttype = ROOT, pos = 0\<rparr>, \<lparr>ttype = DOTDOT, pos = 1\<rparr>, \<lparr>ttype = NAME (lit ''a''), pos = 3\<rparr>,
    \<lparr>ttype = EOF, pos = 4\<rparr>]"
  using path_tokens_wf[OF pathText_tokens] by blast

text \<open>The parser always returns: on the tokens of any text, at any depth of
  scopes, it ends with a query, with null or with the depth error, never by running out of the fuel
  its loops have.\<close>

theorem path_parser_returns:
  assumes "lexer text = Inr toks"
  shows "parseQuery (parseLogicalExpr n) r toks \<noteq> Inl OutOfFuel"
  using parseQuery_good[OF lexer_ok[OF assms], of n r] by (auto simp: good_def)

theorem path_parser_returns_witness:
  "parseQuery (parseLogicalExpr 64) DollarRoot
    [\<lparr>ttype = ROOT, pos = 0\<rparr>, \<lparr>ttype = DOTDOT, pos = 1\<rparr>, \<lparr>ttype = NAME (lit ''a''), pos = 3\<rparr>,
     \<lparr>ttype = EOF, pos = 4\<rparr>] \<noteq> Inl OutOfFuel"
  by (rule path_parser_returns[OF pathText_tokens])

lemma parse_wf:
  assumes "parseJsonPath text = Some q"
  shows "wfQuery maxExpressionDepth q"
proof -
  obtain toks toks1 where t: "lexer text = Inr toks"
    "parseQuery (parseLogicalExpr maxExpressionDepth) DollarRoot toks = Inr (Some q, toks1)"
    using assms by (auto simp: parseJsonPath_def split: sum.splits if_splits)
  from parseQuery_good[OF lexer_ok[OF t(1)], of maxExpressionDepth DollarRoot] t(2) show ?thesis
    by simp
qed



section \<open>Queries\<close>



text \<open>C5 (path_results_located): On any document, cycles included, a query returns at most
  \<open>maxNodesVisited\<close> nodes, each a value of the document, reached from the root by the steps its
  normalized path writes, at most \<open>maxDepth\<close> of them.\<close>

theorem path_results_located:
  assumes "wfHeap h" and "queryJsonPathNodes h eng text doc options = Inr (Some ns)"
  shows "length ns \<le> maxNodesVisited (resolveEvalLimits options) \<and>
    (\<forall>(v, path)\<in>set ns. \<exists>steps. path = formatNormalizedPath steps \<and> valueAt h doc steps = Some v \<and>
      length steps \<le> maxDepth (resolveEvalLimits options))"
proof -
  let ?ctx = "rootContext h eng (resolveEvalLimits options) doc"
  obtain ast nodes where n: "evaluateQuery ast ?ctx = Inr nodes" "ns = map materializeNodePath nodes"
    using assms(2) by (auto simp: queryJsonPathNodes_def queryWith_def split: sum.splits if_splits option.splits)
  from evaluateQuery_nodes[OF _ n(1)] assms(1) show ?thesis
    by (auto simp: n(2) nodeOk_def materializeNodePath_def rootContext_def)
qed

theorem path_results_located_witness:
  "length [(Ref 1, formatNormalizedPath [Key (lit ''a'')]),
     (Bool True, formatNormalizedPath [Key (lit ''b''), Key (lit ''a'')])] \<le> 100000"
  using path_results_located[OF pathHeap_wf pathText_query] by (simp add: noOptions_limits defaultLimits_def)

text \<open>C12 (path_evaluation_ends): Evaluation always ends by itself: the loops over explicit stacks
  (descendants, deep comparison) stop by the visit limit before the fuel of the model, so the only
  failures are the limits of the source. It holds for cyclic documents too.\<close>

theorem path_evaluation_ends: "evaluateQuery ast ctx \<noteq> Inl LoopOutOfFuel"
proof (cases ast)
  case (Query r ss)
  have "sat (budgetStep (limits ctx)) notFuel (trackNodeVisit ctx 0)"
    by (rule track_budget) simp
  moreover have "sat (budgetStep (limits ctx)) notFuel
      (foldA (\<lambda>segment. evaluateSegment segment ctx) ss [\<lparr>nodeValue = rootValue ctx, segments = []\<rparr>])"
    by (intro budget.sat_fold budget.sat_evaluator) simp_all
  ultimately have "sat (budgetStep (limits ctx)) notFuel (bindA (trackNodeVisit ctx 0) (\<lambda>_.
      foldA (\<lambda>segment. evaluateSegment segment ctx) ss [\<lparr>nodeValue = rootValue ctx, segments = []\<rparr>]))"
    by (rule budget.sat_bind)
  from satD_fail[OF this, of initialState LoopOutOfFuel] show ?thesis
    by (auto simp: Query evaluateQuery_def err_simps notFuel_def)
qed

section \<open>Normalized paths\<close>

text \<open>A normalized path, whatever the characters of its names, is a
  query that parses, to the name and index selectors of its steps (indices up to the largest integer
  a query may contain).\<close>

theorem path_normalized_roundtrip:
  assumes "list_all okStep steps"
  shows "parseJsonPath (formatNormalizedPath steps) = Some (pathQuery steps)"
  using assms by (rule parse_path)

theorem path_normalized_roundtrip_witness:
  "parseJsonPath (formatNormalizedPath [Key [39, 92, 10, 1], Idx 12]) = Some (pathQuery [Key [39, 92, 10, 1], Idx 12])"
  by (rule path_normalized_roundtrip) (simp add: okStep_def I_JSON_MAX_def)

text \<open>C10 (path_normalized_locates): A normalized path used as a query selects exactly the node it
  names, or nothing when the document has no such node, provided the limits admit its length.\<close>

theorem path_normalized_locates:
  assumes "list_all okStep steps" and "length steps \<le> maxDepth (resolveEvalLimits options)"
    and "length steps < maxNodesVisited (resolveEvalLimits options)"
  shows "queryJsonPathNodes h eng (formatNormalizedPath steps) doc options =
    Inr (Some (case valueAt h doc steps of None \<Rightarrow> [] | Some v \<Rightarrow> [(v, formatNormalizedPath steps)]))"
  using assms evaluate_path[of steps "rootContext h eng (resolveEvalLimits options) doc"]
  by (simp add: queryJsonPathNodes_def queryWith_def parse_path rootContext_def materializeNodePath_def
      split: option.split)

theorem path_normalized_locates_witness:
  "queryJsonPathNodes pathHeap (\<lambda>p. None) (formatNormalizedPath [Key (lit ''a''), Idx 1]) (Ref 0) noOptions =
    Inr (Some [(Num (Fin 2), formatNormalizedPath [Key (lit ''a''), Idx 1])])"
  by (subst path_normalized_locates)
    (simp_all add: okStep_def I_JSON_MAX_def noOptions_limits defaultLimits_def
      pathHeap_def stepValue_Key stepValue_Idx recordOf_def arrayOf_def)

section \<open>Slices, comparison and the regex cache\<close>

text \<open>The loops of a slice visit exactly the indices in the range its bounds give
  (negative ones counted from the end) at multiples of the step from its start, upwards for a
  positive step and downwards for a negative one, and none for step zero.\<close>

theorem path_slice:
  assumes "0 \<le> len"
  shows "set (sliceIndices start end' step len) =
      {i. inSlice start end' (case step of None \<Rightarrow> 1 | Some k \<Rightarrow> k) len i} \<and>
    sorted_wrt (if 0 < (case step of None \<Rightarrow> 1 | Some k \<Rightarrow> k) then (<) else (>)) (sliceIndices start end' step len)"
  using slice_bounds[OF assms] slice_sorted by blast

theorem path_slice_witness:
  "set (sliceIndices (Some 4) None (Some (- 2)) 5) = {i. inSlice (Some 4) None (- 2) 5 i} \<and>
    sorted_wrt (>) (sliceIndices (Some 4) None (Some (- 2)) 5)"
  using path_slice[of 5 "Some 4" None "Some (- 2)"] by simp

text \<open>C36 (path_deep_equal): When the comparison of two values that denote trees returns, with its
  explicit stack, its set of pairs already met and its visit budget, the result is equality of JSON
  values, the order of members aside.\<close>

theorem path_deep_equal:
  assumes "wfHeap (docHeap ctx)" and "unfolds (docHeap ctx) u i" and "unfolds (docHeap ctx) v j"
    and "deepEqualA ctx u v s = Inr (b, s')"
  shows "b \<longleftrightarrow> jsonEq i j"
  using deepEqual_tree[OF assms] by simp

definition pairHeap :: heap where
  "pairHeap = [0 \<mapsto> HArr [Str [97]], 1 \<mapsto> HArr [Str [97]]]"

definition smallContext :: evalContext where
  "smallContext = \<lparr>docHeap = pairHeap, engine = (\<lambda>p. Some (\<lambda>v. v = p)),
     limits = \<lparr>maxNodesVisited = 2, maxDepth = 1, maxRegexPatternLength = 5, maxRegexInputLength = 5,
       rejectUnsafeRegex = False\<rparr>,
     rootValue = Ref 0, currentValue = Ref 0, currentPath = []\<rparr>"

lemma smallContext_equal:
  "deepEqualA smallContext (Ref 0) (Ref 1) initialState = Inr (True, initialState\<lparr>nodesVisited := 2\<rparr>)"
  by (simp add: deepEqualA_def smallContext_def numeral_2_eq_2 bindA_def retA_def trackNodeVisit_def
      initialState_def compareFrame_def strictEq_def typeOf_def arrayOf_def pairHeap_def)

theorem path_deep_equal_witness: "jsonEq (JArr [JStr [97]]) (JArr [JStr [97]])"
proof -
  have "wfHeap (docHeap smallContext)" "unfolds (docHeap smallContext) (Ref 0) (JArr [JStr [97]])"
    "unfolds (docHeap smallContext) (Ref 1) (JArr [JStr [97]])"
    by (simp_all add: smallContext_def pairHeap_def wfHeap_def unfolds_simps)
  from path_deep_equal[OF this smallContext_equal] show ?thesis by simp
qed

text \<open>C37 (path_regex_cache): From a coherent cache, every filter expression leaves a coherent cache,
  so a pattern always runs with the engine's own compilation of it: \<open>match\<close> tests the anchored
  pattern and \<open>search\<close> the pattern itself, whichever of them compiled first.\<close>

theorem path_regex_cache:
  assumes "cacheOk (engine ctx) s" and "evaluateLogicalExpr e ctx s = Inr (b, s')"
    and "fnMatch ctx (Some (Str v)) (Some (Str p)) s' = Inr (m, s1)"
    and "fnSearch ctx (Some (Str v)) (Some (Str p)) s1 = Inr (f, s2)"
  shows "cacheOk (engine ctx) s2 \<and>
    m = (case engine ctx (anchored p) of None \<Rightarrow> False | Some test \<Rightarrow> test v) \<and>
    f = (case engine ctx p of None \<Rightarrow> False | Some test \<Rightarrow> test v)"
proof -
  have s': "cacheOk (engine ctx) s'"
    using satD[OF cache.sat_evaluator(3)[of ctx "limits ctx" "engine ctx" e] assms(2)] assms(1)
    by (simp add: cacheStep_def)
  have str: "valueRel Map.empty (Some (Str w)) (Some (JStr w))" for w
    by (simp add: valueRel_def unfolds_JStr)
  from yieldsD[OF fnMatch_tree[OF str str] s' assms(3)]
  have m: "m = regexRef (engine ctx) anchored (Some (JStr v)) (Some (JStr p))" "cacheOk (engine ctx) s1" by auto
  from yieldsD[OF fnSearch_tree[OF str str] m(2) assms(4)] m(1) show ?thesis
    by (simp add: regexRef_def)
qed

theorem path_regex_cache_witness:
  "\<exists>s'. evaluateLogicalExpr (FunctionTest (FunctionExpr SearchFn [LiteralArg (StringLiteral [97]), LiteralArg (StringLiteral [97])]))
      smallContext initialState = Inr (True, s') \<and> regexCache s' (searchKey [97]) \<noteq> None \<and>
    (\<exists>s1 s2. fnMatch smallContext (Some (Str [97])) (Some (Str [97])) s' = Inr (False, s1) \<and>
      fnSearch smallContext (Some (Str [97])) (Some (Str [97])) s1 = Inr (True, s2) \<and> cacheOk (engine smallContext) s2)"
proof -
  let ?e = "FunctionTest (FunctionExpr SearchFn [LiteralArg (StringLiteral [97]), LiteralArg (StringLiteral [97])])"
  let ?t = "initialState\<lparr>regexCache := [searchKey [97] \<mapsto> engine smallContext [97]]\<rparr>"
  let ?u = "?t\<lparr>regexCache := [searchKey [97] \<mapsto> engine smallContext [97],
    matchKey [97] \<mapsto> engine smallContext (anchored [97])]\<rparr>"
  have e: "evaluateLogicalExpr ?e smallContext initialState = Inr (True, ?t)"
    by (simp add: bindA_def retA_def fnSearch_def regexTest_def patternOf_def literalValue_def enforceRegexPolicy_def
        getCachedRegex_def initialState_def smallContext_def)
  have m: "fnMatch smallContext (Some (Str [97])) (Some (Str [97])) ?t = Inr (False, ?u)"
    by (simp add: bindA_def retA_def fnMatch_def regexTest_def patternOf_def enforceRegexPolicy_def
        getCachedRegex_def initialState_def smallContext_def keys_differ anchored_def)
  have f: "fnSearch smallContext (Some (Str [97])) (Some (Str [97])) ?u = Inr (True, ?u)"
    by (simp add: bindA_def retA_def fnSearch_def regexTest_def patternOf_def enforceRegexPolicy_def
        getCachedRegex_def initialState_def smallContext_def keys_differ keys_differ(1)[symmetric])
  have "cacheOk (engine smallContext) ?u"
    using path_regex_cache[OF initial_cacheOk e m f] by blast
  with e m f show ?thesis by auto
qed

end
