(* ===== verification/Utf8.thy ===== *)
theory Utf8
  imports JsString "HOL-Library.Word"
begin

text \<open>
  UTF-8: \<open>src/internal-unicode.ts\<close> and the \<open>TextEncoder\<close> and fatal \<open>TextDecoder\<close> of the language it
  and its clients use. A byte is an \<open>8 word\<close>. The decoder drops a leading byte order mark, and
  rejects overlong forms, surrogates and values above U+10FFFF.
\<close>

type_synonym byte = "8 word"

section \<open>Surrogates\<close>

fun hasLoneSurrogate :: "jsstr \<Rightarrow> bool" where
  "hasLoneSurrogate [] = False"
| "hasLoneSurrogate (c # cs) =
     (if isHighSurrogate c then
        (case cs of
           [] \<Rightarrow> True
         | d # ds \<Rightarrow> if \<not> isLowSurrogate d then True else hasLoneSurrogate ds)
      else if isLowSurrogate c then True
      else hasLoneSurrogate cs)"

text \<open>A Unicode scalar value.\<close>

definition isScalar :: "nat \<Rightarrow> bool" where
  "isScalar n \<longleftrightarrow> n < 0x110000 \<and> \<not> (0xD800 \<le> n \<and> n \<le> 0xDFFF)"

section \<open>Encoding\<close>

definition utf8Bytes :: "nat \<Rightarrow> nat list" where
  "utf8Bytes n =
     (if n < 0x80 then [n]
      else if n < 0x800 then [0xC0 + n div 64, 0x80 + n mod 64]
      else if n < 0x10000 then [0xE0 + n div 4096, 0x80 + n div 64 mod 64, 0x80 + n mod 64]
      else [0xF0 + n div 262144, 0x80 + n div 4096 mod 64, 0x80 + n div 64 mod 64, 0x80 + n mod 64])"

definition encodeUtf8 :: "jsstr \<Rightarrow> byte list" where
  "encodeUtf8 value = map word_of_nat (concat (map utf8Bytes (codePoints value)))"

section \<open>Decoding\<close>

definition isCont :: "nat \<Rightarrow> bool" where
  "isCont b \<longleftrightarrow> 0x80 \<le> b \<and> b \<le> 0xBF"

text \<open>One sequence of bytes: the code point and how many bytes it took.\<close>

definition utf8Head :: "nat list \<Rightarrow> (nat \<times> nat) option" where
  "utf8Head bs =
     (case bs of
        [] \<Rightarrow> None
      | b # cs \<Rightarrow>
          if b < 0x80 then Some (b, 1)
          else if 0xC2 \<le> b \<and> b \<le> 0xDF then
            (case cs of
               c # _ \<Rightarrow> if isCont c then Some ((b - 0xC0) * 64 + (c - 0x80), 2) else None
             | _ \<Rightarrow> None)
          else if 0xE0 \<le> b \<and> b \<le> 0xEF then
            (case cs of
               c # d # _ \<Rightarrow>
                 if isCont c \<and> isCont d \<and> (b = 0xE0 \<longrightarrow> 0xA0 \<le> c) \<and> (b = 0xED \<longrightarrow> c \<le> 0x9F)
                 then Some ((b - 0xE0) * 4096 + (c - 0x80) * 64 + (d - 0x80), 3) else None
             | _ \<Rightarrow> None)
          else if 0xF0 \<le> b \<and> b \<le> 0xF4 then
            (case cs of
               c # d # e # _ \<Rightarrow>
                 if isCont c \<and> isCont d \<and> isCont e \<and> (b = 0xF0 \<longrightarrow> 0x90 \<le> c) \<and> (b = 0xF4 \<longrightarrow> c \<le> 0x8F)
                 then Some ((b - 0xF0) * 262144 + (c - 0x80) * 4096 + (d - 0x80) * 64 + (e - 0x80), 4) else None
             | _ \<Rightarrow> None)
          else None)"

lemma utf8Head_length: "utf8Head bs = Some (n, k) \<Longrightarrow> 0 < k \<and> k \<le> length bs"
  by (auto simp: utf8Head_def split: list.splits if_splits)

function utf8Points :: "nat list \<Rightarrow> nat list option" where
  "utf8Points bs =
     (if bs = [] then Some []
      else case utf8Head bs of
        None \<Rightarrow> None
      | Some (n, k) \<Rightarrow> map_option (\<lambda>ns. n # ns) (utf8Points (drop k bs)))"
  by pat_completeness auto
termination
  by (relation "measure length") (use utf8Head_length in fastforce)+

declare utf8Points.simps [simp del]

definition byteOrderMark :: "nat list" where
  "byteOrderMark = [0xEF, 0xBB, 0xBF]"

definition decodeUtf8 :: "byte list \<Rightarrow> jsstr option" where
  "decodeUtf8 bytes =
     (let bs = map unat bytes; cs = (if take 3 bs = byteOrderMark then drop 3 bs else bs)
      in map_option (\<lambda>ns. concat (map fromCodePoint ns)) (utf8Points cs))"

section \<open>Round trip\<close>

lemma utf8Bytes_small: "n < 0x110000 \<Longrightarrow> b \<in> set (utf8Bytes n) \<Longrightarrow> b < 256"
  by (auto simp: utf8Bytes_def split: if_splits)

lemma utf8Head_bytes:
  assumes "isScalar n"
  shows "utf8Head (utf8Bytes n @ bs) = Some (n, length (utf8Bytes n))"
proof -
  have digit: "k mod 64 < 64" for k :: nat by simp
  consider "n < 0x80" | "0x80 \<le> n" "n < 0x800" | "0x800 \<le> n" "n < 0x10000" | "0x10000 \<le> n" "n < 0x110000"
    using assms unfolding isScalar_def by linarith
  then show ?thesis
  proof cases
    case 2
    obtain q r where n: "n = q * 64 + r" "r < 64" using digit by (metis div_mult_mod_eq)
    then have "utf8Bytes n = [0xC0 + q, 0x80 + r]" using 2 by (simp add: utf8Bytes_def)
    moreover have "2 \<le> q" "q \<le> 31" using 2 n by linarith+
    ultimately show ?thesis using n(2) by (simp add: n(1) utf8Head_def isCont_def)
  next
    case 3
    obtain u r where u: "n = u * 64 + r" "r < 64" using digit by (metis div_mult_mod_eq)
    obtain q t where q: "u = q * 64 + t" "t < 64" using digit by (metis div_mult_mod_eq)
    have "n div 64 = u" "n mod 64 = r" using u by simp_all
    moreover have "u div 64 = q" "u mod 64 = t" using q by simp_all
    ultimately have "n div 4096 = q" "n div 64 = u" "n mod 64 = r" "u mod 64 = t" using div_mult2_eq[of n 64 64] by simp_all
    with \<open>n div 64 = u\<close> \<open>n mod 64 = r\<close> \<open>u mod 64 = t\<close>
    have "utf8Bytes n = [0xE0 + q, 0x80 + t, 0x80 + r]" using 3 by (simp add: utf8Bytes_def)
    moreover have "q \<le> 15" "q = 0 \<Longrightarrow> 32 \<le> t" "q = 13 \<Longrightarrow> t \<le> 31" using 3 u q assms unfolding isScalar_def by linarith+
    ultimately show ?thesis using u(2) q(2) by (auto simp: u(1) q(1) utf8Head_def isCont_def)
  next
    case 4
    obtain u r where u: "n = u * 64 + r" "r < 64" using digit by (metis div_mult_mod_eq)
    obtain v t where v: "u = v * 64 + t" "t < 64" using digit by (metis div_mult_mod_eq)
    obtain q w where q: "v = q * 64 + w" "w < 64" using digit by (metis div_mult_mod_eq)
    have "n div 64 = u" "n mod 64 = r" using u by simp_all
    moreover have "u div 64 = v" "u mod 64 = t" using v by simp_all
    moreover have "v div 64 = q" "v mod 64 = w" using q by simp_all
    moreover from calculation have "n div 4096 = v" using div_mult2_eq[of n 64 64] by simp
    moreover from calculation have "n div 262144 = q" using div_mult2_eq[of n 4096 64] by simp
    ultimately have "utf8Bytes n = [0xF0 + q, 0x80 + w, 0x80 + t, 0x80 + r]" using 4 by (simp add: utf8Bytes_def)
    moreover have "q \<le> 4" "q = 0 \<Longrightarrow> 16 \<le> w" "q = 4 \<Longrightarrow> w \<le> 15" using 4 u v q by linarith+
    ultimately show ?thesis using u(2) v(2) q(2) by (auto simp: u(1) v(1) q(1) utf8Head_def isCont_def)
  qed (simp add: utf8Bytes_def utf8Head_def)
qed

lemma utf8Bytes_nonempty [simp]: "utf8Bytes n \<noteq> []"
  by (simp add: utf8Bytes_def)

lemma utf8Points_bytes: "list_all isScalar ns \<Longrightarrow> utf8Points (concat (map utf8Bytes ns)) = Some ns"
proof (induction ns)
  case (Cons n ns)
  then show ?case by (subst utf8Points.simps) (simp add: utf8Head_bytes)
qed (simp add: utf8Points.simps)

lemma pair_scalar:
  assumes "isHighSurrogate c" and "isLowSurrogate d"
  shows "isScalar (0x10000 + (c - 0xD800) * 1024 + (d - 0xDC00))"
    and "fromCodePoint (0x10000 + (c - 0xD800) * 1024 + (d - 0xDC00)) = [c, d]"
proof -
  define x y where "x = c - 0xD800" and "y = d - 0xDC00"
  have c: "c = 0xD800 + x" "x < 1024" and d: "d = 0xDC00 + y" "y < 1024"
    using assms by (auto simp: x_def y_def isHighSurrogate_def isLowSurrogate_def)
  have "(x * 1024 + y) div 1024 = x" "(x * 1024 + y) mod 1024 = y" using d(2) by simp_all
  then show "fromCodePoint (0x10000 + (c - 0xD800) * 1024 + (d - 0xDC00)) = [c, d]"
    by (simp add: c d fromCodePoint_def)
  show "isScalar (0x10000 + (c - 0xD800) * 1024 + (d - 0xDC00))"
    using c(2) d(2) by (simp add: c(1) d(1) isScalar_def)
qed

lemma codePoints_scalar: "\<not> hasLoneSurrogate s \<Longrightarrow> list_all (\<lambda>c. c < 0x10000) s \<Longrightarrow> list_all isScalar (codePoints s)"
proof (induction s rule: hasLoneSurrogate.induct)
  case (2 c cs)
  show ?case
  proof (cases "isHighSurrogate c")
    case True
    then obtain d ds where "cs = d # ds" "isLowSurrogate d" using "2.prems"(1) by (auto split: list.splits if_splits)
    with True "2.prems" "2.IH"(1)[OF True] show ?thesis by (simp add: pair_scalar)
  next
    case False
    then have "\<not> isLowSurrogate c" "\<not> hasLoneSurrogate cs" using "2.prems"(1) by (auto split: if_splits)
    with False "2.prems"(2) "2.IH"(2)[OF False] show ?thesis
      by (auto simp: isScalar_def isHighSurrogate_def isLowSurrogate_def)
  qed
qed simp

lemma codePoints_units:
  "\<not> hasLoneSurrogate s \<Longrightarrow> list_all (\<lambda>c. c < 0x10000) s \<Longrightarrow> concat (map fromCodePoint (codePoints s)) = s"
proof (induction s rule: hasLoneSurrogate.induct)
  case (2 c cs)
  show ?case
  proof (cases "isHighSurrogate c")
    case True
    then obtain d ds where "cs = d # ds" "isLowSurrogate d" using "2.prems"(1) by (auto split: list.splits if_splits)
    with True "2.prems" "2.IH"(1)[OF True] show ?thesis by (simp add: pair_scalar)
  next
    case False
    with "2.prems" "2.IH"(2) show ?thesis by (auto simp: fromCodePoint_def split: if_splits)
  qed
qed simp

lemma decode_encode:
  assumes "\<not> hasLoneSurrogate s" and "list_all (\<lambda>c. c < 0x10000) s" and "s = [] \<or> hd s \<noteq> 0xFEFF"
  shows "decodeUtf8 (encodeUtf8 s) = Some s"
proof -
  let ?bs = "concat (map utf8Bytes (codePoints s))"
  have scalar: "list_all isScalar (codePoints s)" using codePoints_scalar assms by blast
  have "map unat (encodeUtf8 s) = ?bs"
  proof -
    have "b < 256" if "b \<in> set ?bs" for b
      using that scalar utf8Bytes_small by (auto simp: list_all_iff isScalar_def)
    then show ?thesis
      unfolding encodeUtf8_def map_map by (intro map_idI) (simp add: unat_of_nat)
  qed
  moreover have "take 3 ?bs \<noteq> byteOrderMark"
  proof
    assume bom: "take 3 ?bs = byteOrderMark"
    then obtain c cs where s: "s = c # cs" by (cases s) (auto simp: byteOrderMark_def)
    have "codePoints s \<noteq> []" by (simp add: s split: list.split)
    then obtain n ns where n: "codePoints s = n # ns" by (cases "codePoints s") auto
    have "utf8Head ?bs = Some (n, length (utf8Bytes n))"
      using scalar utf8Head_bytes[of n] by (simp add: n)
    moreover have "utf8Head ?bs = Some (0xFEFF, 3)"
    proof -
      have "take 3 ?bs @ drop 3 ?bs = ?bs" by (rule append_take_drop_id)
      then have "byteOrderMark @ drop 3 ?bs = ?bs" unfolding bom .
      then have "utf8Head ?bs = utf8Head (byteOrderMark @ drop 3 ?bs)" by (rule arg_cong[OF sym])
      moreover have "utf8Head (byteOrderMark @ xs) = Some (0xFEFF, 3)" for xs
        by (simp add: byteOrderMark_def utf8Head_def isCont_def)
      ultimately show ?thesis by (rule trans)
    qed
    ultimately have "n = 0xFEFF" by simp
    moreover have "concat (map fromCodePoint (n # ns)) = s"
      using codePoints_units[OF assms(1,2)] by (simp add: n)
    ultimately have "hd s = 0xFEFF" by (auto simp: fromCodePoint_def)
    with assms(3) s show False by simp
  qed
  ultimately show ?thesis
    using utf8Points_bytes[OF scalar] codePoints_units[OF assms(1,2)] by (simp add: decodeUtf8_def Let_def)
qed

text \<open>What the decoder returns has no lone surrogate, and its units are 16 bits wide.\<close>

lemma threeBytes_scalar:
  fixes b c d :: nat
  assumes "0xE0 \<le> b" "b \<le> 0xEF" "isCont c" "isCont d" "b = 0xED \<longrightarrow> c \<le> 0x9F"
  shows "isScalar ((b - 0xE0) * 4096 + (c - 0x80) * 64 + (d - 0x80))"
proof -
  define x where "x = b - 0xE0"
  define y where "y = c - 0x80"
  define z where "z = d - 0x80"
  have e: "b = 0xE0 + x" "c = 0x80 + y" "d = 0x80 + z" "x \<le> 15" "y \<le> 63" "z \<le> 63" "x = 13 \<longrightarrow> y \<le> 31"
    using assms by (auto simp: isCont_def x_def y_def z_def)
  consider "x \<le> 12" | "x = 13" | "14 \<le> x" by linarith
  then have "x * 4096 + y * 64 + z < 0xD800 \<or> 0xDFFF < x * 4096 + y * 64 + z"
    by cases (use e(4-7) in auto)
  then show ?thesis using e(4-6) by (auto simp: e(1-3) isScalar_def)
qed

lemma utf8Head_scalar: "utf8Head bs = Some (n, k) \<Longrightarrow> isScalar n"
proof (cases "\<exists>b cs. bs = b # cs \<and> 0xE0 \<le> b \<and> b \<le> 0xEF")
  case True
  assume h: "utf8Head bs = Some (n, k)"
  from True obtain b cs where bs: "bs = b # cs" "0xE0 \<le> b" "b \<le> 0xEF" by blast
  with h obtain c d ds where "cs = c # d # ds" "isCont c" "isCont d" "b = 0xED \<longrightarrow> c \<le> 0x9F"
    and n: "n = (b - 0xE0) * 4096 + (c - 0x80) * 64 + (d - 0x80)"
    by (auto simp: utf8Head_def split: list.splits if_splits)
  then show ?thesis unfolding n by (intro threeBytes_scalar[OF bs(2,3)])
next
  case False
  assume "utf8Head bs = Some (n, k)"
  with False show ?thesis
    by (auto simp: utf8Head_def isScalar_def isCont_def split: list.splits if_splits)
qed

lemma utf8Points_scalar: "utf8Points bs = Some ns \<Longrightarrow> list_all isScalar ns"
proof (induction bs arbitrary: ns rule: utf8Points.induct)
  case (1 bs)
  show ?case
  proof (cases "bs = []")
    case True
    with "1.prems" show ?thesis by (simp add: utf8Points.simps)
  next
    case False
    then obtain n k ms where "utf8Head bs = Some (n, k)" "utf8Points (drop k bs) = Some ms" "ns = n # ms"
      using "1.prems" by (subst (asm) utf8Points.simps) (auto split: option.splits)
    with "1.IH"[OF False, of "(n, k)" n k ms] utf8Head_scalar show ?thesis by auto
  qed
qed

lemma fromCodePoint_units:
  assumes "isScalar n"
  shows "hasLoneSurrogate (fromCodePoint n @ s) = hasLoneSurrogate s" "list_all (\<lambda>c. c < 0x10000) (fromCodePoint n)"
proof -
  have "(n - 0x10000) div 1024 < 1024" if "\<not> n < 0x10000"
    using that assms by (auto simp: isScalar_def less_mult_imp_div_less)
  moreover have "(n - 0x10000) mod 1024 < 1024" by simp
  ultimately show "hasLoneSurrogate (fromCodePoint n @ s) = hasLoneSurrogate s"
    "list_all (\<lambda>c. c < 0x10000) (fromCodePoint n)"
    using assms by (auto simp: fromCodePoint_def isScalar_def isHighSurrogate_def isLowSurrogate_def)
qed

lemma decodeUtf8_units:
  assumes "decodeUtf8 bytes = Some s"
  shows "\<not> hasLoneSurrogate s \<and> list_all (\<lambda>c. c < 0x10000) s"
proof -
  obtain bs ns where n: "utf8Points bs = Some ns" "s = concat (map fromCodePoint ns)"
    using assms by (auto simp: decodeUtf8_def Let_def split: if_splits)
  have "list_all isScalar ns" by (rule utf8Points_scalar[OF n(1)])
  then have "\<not> hasLoneSurrogate (concat (map fromCodePoint ns)) \<and> list_all (\<lambda>c. c < 0x10000) (concat (map fromCodePoint ns))"
    by (induction ns) (auto simp: fromCodePoint_units)
  then show ?thesis by (simp add: n(2))
qed

end
