(* ===== verification/Base64.thy ===== *)
theory Base64
  imports Utf8
begin

text \<open>
  The base 64 form of a byte string as \<open>Buffer.from(text, 'base64')\<close> reads it and
  \<open>toString('base64')\<close> writes it (RFC 4648 section 4), with the pattern \<open>BASE64_RE\<close> of
  \<open>src/structured-fields.ts\<close> as a predicate. Decoding is defined on groups of four characters,
  which is what a text has once the pattern accepts it.
\<close>

section \<open>The alphabet\<close>

definition b64Char :: "nat \<Rightarrow> cu" where
  "b64Char n =
     (if n < 26 then 65 + n
      else if n < 52 then 71 + n
      else if n < 62 then n - 4
      else if n = 62 then 43
      else 47)"

definition b64Val :: "cu \<Rightarrow> nat" where
  "b64Val c =
     (if 65 \<le> c \<and> c \<le> 90 then c - 65
      else if 97 \<le> c \<and> c \<le> 122 then c - 71
      else if 48 \<le> c \<and> c \<le> 57 then c + 4
      else if c = 43 then 62
      else 63)"

definition isB64 :: "cu \<Rightarrow> bool" where
  "isB64 c \<longleftrightarrow> (65 \<le> c \<and> c \<le> 90) \<or> (97 \<le> c \<and> c \<le> 122) \<or> (48 \<le> c \<and> c \<le> 57) \<or> c = 43 \<or> c = 47"

lemma b64Val_char [simp]: "n < 64 \<Longrightarrow> b64Val (b64Char n) = n"
  by (auto simp: b64Val_def b64Char_def)

lemma b64Char_ok [simp]: "n < 64 \<Longrightarrow> isB64 (b64Char n)"
  by (auto simp: isB64_def b64Char_def)

lemma isB64_pad [simp]: "\<not> isB64 61"
  by (simp add: isB64_def)

lemma b64Char_pad [simp]: "b64Char n \<noteq> 61"
  by (auto simp: b64Char_def)

section \<open>Text\<close>

text \<open>\<open>BASE64_RE\<close>\<close>

fun isBase64Text :: "jsstr \<Rightarrow> bool" where
  "isBase64Text [] = True"
| "isBase64Text (a # b # c # d # cs) =
     ((isB64 a \<and> isB64 b \<and> isB64 c \<and> isB64 d \<and> isBase64Text cs) \<or>
      (cs = [] \<and> isB64 a \<and> isB64 b \<and> d = 61 \<and> (c = 61 \<or> isB64 c)))"
| "isBase64Text _ = False"

section \<open>Encoding and decoding\<close>

fun base64Encode :: "nat list \<Rightarrow> jsstr" where
  "base64Encode [] = []"
| "base64Encode [a] = [b64Char (a div 4), b64Char (a mod 4 * 16), 61, 61]"
| "base64Encode [a, b] = [b64Char (a div 4), b64Char (a mod 4 * 16 + b div 16), b64Char (b mod 16 * 4), 61]"
| "base64Encode (a # b # c # bs) =
     b64Char (a div 4) # b64Char (a mod 4 * 16 + b div 16) # b64Char (b mod 16 * 4 + c div 64) #
     b64Char (c mod 64) # base64Encode bs"

fun base64Decode :: "jsstr \<Rightarrow> nat list" where
  "base64Decode (a # b # c # d # cs) =
     (let p = b64Val a; q = b64Val b; r = b64Val c; s = b64Val d in
      if d = 61 then
        if c = 61 then [p * 4 + q div 16]
        else [p * 4 + q div 16, q mod 16 * 16 + r div 4]
      else (p * 4 + q div 16) # (q mod 16 * 16 + r div 4) # (r mod 4 * 64 + s) # base64Decode cs)"
| "base64Decode _ = []"

definition bytesToBase64 :: "byte list \<Rightarrow> jsstr" where
  "bytesToBase64 bytes = base64Encode (map unat bytes)"

definition bytesOfBase64 :: "jsstr \<Rightarrow> byte list" where
  "bytesOfBase64 text = map word_of_nat (base64Decode text)"

section \<open>Round trip\<close>

lemma base64_split:
  fixes a b :: nat
  assumes "a < 256" and "b < 256"
  shows "a div 4 < 64" and "a mod 4 * 16 + b div 16 < 64" and "b mod 16 * 4 + a div 64 < 64"
    and "a mod 4 * 16 < 64" and "b mod 16 * 4 < 64"
proof -
  show "a div 4 < 64" using assms(1) by (simp add: less_mult_imp_div_less)
  have 1: "b div 16 < 16" using assms(2) by (simp add: less_mult_imp_div_less)
  have 2: "a mod 4 < 4" "b mod 16 < 16" by simp_all
  have 3: "a div 64 < 4" using assms(1) by (simp add: less_mult_imp_div_less)
  show "a mod 4 * 16 + b div 16 < 64" using 1 2(1) by linarith
  show "b mod 16 * 4 + a div 64 < 64" using 2(2) 3 by linarith
  show "a mod 4 * 16 < 64" using 2(1) by linarith
  show "b mod 16 * 4 < 64" using 2(2) by linarith
qed

lemma base64_join:
  fixes a b c :: nat
  assumes "b < 256" and "c < 256"
  shows "a div 4 * 4 + (a mod 4 * 16 + b div 16) div 16 = a"
    and "(a mod 4 * 16 + b div 16) mod 16 * 16 + (b mod 16 * 4 + c div 64) div 4 = b"
    and "(b mod 16 * 4 + c div 64) mod 4 * 64 + c mod 64 = c"
    and "a div 4 * 4 + (a mod 4 * 16) div 16 = a"
    and "(a mod 4 * 16 + b div 16) mod 16 * 16 + (b mod 16 * 4) div 4 = b"
proof -
  have 1: "b div 16 < 16" using assms(1) by (simp add: less_mult_imp_div_less)
  have 2: "c div 64 < 4" using assms(2) by (simp add: less_mult_imp_div_less)
  show "a div 4 * 4 + (a mod 4 * 16 + b div 16) div 16 = a" using 1 by simp
  show "(a mod 4 * 16 + b div 16) mod 16 * 16 + (b mod 16 * 4 + c div 64) div 4 = b" using 1 2 by simp
  show "(b mod 16 * 4 + c div 64) mod 4 * 64 + c mod 64 = c" using 2 by simp
  show "a div 4 * 4 + (a mod 4 * 16) div 16 = a" by simp
  show "(a mod 4 * 16 + b div 16) mod 16 * 16 + (b mod 16 * 4) div 4 = b" using 1 by simp
qed

lemma sextet: "a < 256 \<Longrightarrow> a div 4 < (64::nat)"
  by (simp add: less_mult_imp_div_less)

text \<open>The sextets of a group are in range, and put together they are the bytes.\<close>

lemma base64Decode_group:
  assumes "p < 64" "q < 64" "r < 64" "s < 64"
  shows "base64Decode (b64Char p # b64Char q # b64Char r # b64Char s # cs) =
      (p * 4 + q div 16) # (q mod 16 * 16 + r div 4) # (r mod 4 * 64 + s) # base64Decode cs"
    and "base64Decode [b64Char p, b64Char q, b64Char r, 61] = [p * 4 + q div 16, q mod 16 * 16 + r div 4]"
    and "base64Decode [b64Char p, b64Char q, 61, 61] = [p * 4 + q div 16]"
  using assms by (simp_all only: base64Decode.simps Let_def b64Val_char b64Char_pad if_False if_True simp_thms)

lemma base64Decode_encode: "list_all (\<lambda>b. b < 256) bs \<Longrightarrow> base64Decode (base64Encode bs) = bs"
proof (induction bs rule: base64Encode.induct)
  case (2 a)
  then have "a < 256" by simp
  then show ?case
    by (simp only: base64Encode.simps base64Decode_group(3)[OF sextet base64_split(4)[of a a]
        sextet sextet] base64_join)
next
  case (3 a b)
  then have "a < 256" "b < 256" by simp_all
  then show ?case
    by (simp only: base64Encode.simps base64Decode_group(2)[OF sextet base64_split(2)[of a b]
        base64_split(5)[of a b] sextet] base64_join)
next
  case (4 a b c bs)
  then have "a < 256" "b < 256" "c < 256" "base64Decode (base64Encode bs) = bs" by simp_all
  moreover have "c mod 64 < 64" by simp
  ultimately show ?case
    by (simp only: base64Encode.simps base64Decode_group(1)[OF sextet base64_split(2)[of a b]
        base64_split(3)[of c b] _] base64_join)
qed simp

lemma isBase64Text_encode: "list_all (\<lambda>b. b < 256) bs \<Longrightarrow> isBase64Text (base64Encode bs)"
  by (induction bs rule: base64Encode.induct) (simp_all add: base64_split sextet)

lemma dvd_four: "4 dvd Suc (Suc (Suc (Suc n))) \<longleftrightarrow> 4 dvd n"
  by presburger

lemma length_base64: "4 dvd length (base64Encode bs)"
  by (induction bs rule: base64Encode.induct) (auto simp: dvd_four)

lemma isBase64Text_length: "isBase64Text s \<Longrightarrow> 4 dvd length s"
  by (induction s rule: isBase64Text.induct) (auto simp: dvd_four)

lemma base64Encode_chars: "list_all (\<lambda>b. b < 256) bs \<Longrightarrow> c \<in> set (base64Encode bs) \<Longrightarrow> isB64 c \<or> c = 61"
  by (induction bs rule: base64Encode.induct) (auto simp: base64_split sextet)

lemma unat_byte: "list_all (\<lambda>b. b < 256) (map unat (bytes :: byte list))"
proof -
  have "unat b < 256" for b :: byte using unsigned_less[of b] by simp
  then show ?thesis by (simp add: list_all_iff)
qed

text \<open>Encoding gives a text that matches the pattern and decodes to the same bytes.\<close>

lemma bytesOfBase64_toBase64 [simp]: "bytesOfBase64 (bytesToBase64 bytes) = bytes"
  unfolding bytesOfBase64_def bytesToBase64_def base64Decode_encode[OF unat_byte] map_map
  by (rule map_idI) simp

lemma bytesToBase64_text: "isBase64Text (bytesToBase64 bytes)"
  unfolding bytesToBase64_def by (rule isBase64Text_encode[OF unat_byte])

lemma bytesToBase64_chars: "c \<in> set (bytesToBase64 bytes) \<Longrightarrow> isB64 c \<or> c = 61"
  unfolding bytesToBase64_def by (rule base64Encode_chars[OF unat_byte])

end
