(* ===== verification/JsNumberText.thy ===== *)
theory JsNumberText
  imports JsValue
begin

text \<open>
  Numbers as text: \<open>String(x)\<close> and \<open>x.toFixed(f)\<close> of the language, and what the rounding of
  \<open>roundDouble\<close> guarantees: it does not depend on the fraction chosen for the value, it is exact on
  small integers, and near enough that three decimal digits survive.
\<close>

section \<open>Rounding\<close>

lemma roundHalfEven_error: "0 < d \<Longrightarrow> 2 * \<bar>roundHalfEven a d * d - a\<bar> \<le> d"
proof -
  assume d: "0 < d"
  have a: "a = a div d * d + a mod d" and r: "0 \<le> a mod d" "a mod d < d" using d by simp_all
  have "a div d * d - a = - (a mod d)" "(a div d + 1) * d - a = d - a mod d"
    using a by (simp_all add: algebra_simps)
  with r show ?thesis by (auto simp: roundHalfEven_def Let_def)
qed

lemma roundHalfEven_scale: "0 < c \<Longrightarrow> 0 < d \<Longrightarrow> roundHalfEven (a * c) (d * c) = roundHalfEven a d"
proof -
  assume c: "0 < c" "0 < d"
  have "2 * (a mod d * c) < d * c \<longleftrightarrow> 2 * (a mod d) < d" "2 * (a mod d * c) = d * c \<longleftrightarrow> 2 * (a mod d) = d"
    using c by (simp_all add: mult.assoc[symmetric])
  with c show ?thesis by (simp add: roundHalfEven_def Let_def mod_mult_mult2)
qed

text \<open>The exponent is the one that makes the significand a number of 53 bits.\<close>

definition ulpAt :: "rat \<Rightarrow> int \<Rightarrow> bool" where
  "ulpAt x e \<longleftrightarrow> 2 powi (e + 52) \<le> x \<and> x < 2 powi (e + 53)"

lemma ulpAt_unique: "ulpAt x e \<Longrightarrow> ulpAt x f \<Longrightarrow> e = f"
proof -
  have "e \<le> f" if "ulpAt x e" "ulpAt x f" for e f
  proof (rule ccontr)
    assume "\<not> e \<le> f"
    then have "(2::rat) powi (f + 53) \<le> 2 powi (e + 52)" by (intro power_int_increasing) auto
    with that show False by (auto simp: ulpAt_def)
  qed
  then show "ulpAt x e \<Longrightarrow> ulpAt x f \<Longrightarrow> e = f" by (meson order_antisym)
qed

lemma bitlen_powi:
  assumes "0 < a"
  shows "(2::rat) powi (bitlen a - 1) \<le> of_int a" and "of_int a < (2::rat) powi bitlen a"
proof -
  have b: "2 ^ nat (bitlen a - 1) \<le> a" "a < 2 ^ nat (bitlen a)" using bitlen_bounds[OF assms] by auto
  have "1 \<le> bitlen a" using assms bitlen_le_iff_power[of a 0] by simp
  then have e: "(2::rat) powi (bitlen a - 1) = of_int (2 ^ nat (bitlen a - 1))"
    "(2::rat) powi bitlen a = of_int (2 ^ nat (bitlen a))"
    by (simp_all add: power_int_nonneg_exp)
  show "(2::rat) powi (bitlen a - 1) \<le> of_int a" unfolding e(1) of_int_le_iff by (rule b)
  show "of_int a < (2::rat) powi bitlen a" unfolding e(2) of_int_less_iff by (rule b)
qed

lemma powi_le_quotient:
  assumes "0 < a" "0 < d"
  shows "(if 0 \<le> k then d * 2 ^ nat k \<le> a else d \<le> a * 2 ^ nat (- k)) \<longleftrightarrow> (2::rat) powi k \<le> of_int a / of_int d"
proof (cases "0 \<le> k")
  case True
  have "(2::rat) powi k \<le> of_int a / of_int d \<longleftrightarrow> of_int (d * 2 ^ nat k) \<le> (of_int a :: rat)"
    using True assms by (simp add: power_int_nonneg_exp pos_le_divide_eq mult.commute)
  with True show ?thesis by (simp only: of_int_le_iff if_True)
next
  case False
  have "(2::rat) powi k \<le> of_int a / of_int d \<longleftrightarrow> of_int d \<le> (of_int (a * 2 ^ nat (- k)) :: rat)"
  proof -
    have "(2::rat) powi k = 1 / 2 ^ nat (- k)"
      using False power_int_minus_divide[of "2::rat" "- k"] by (simp add: power_int_nonneg_exp)
    with assms show ?thesis by (simp add: pos_le_divide_eq pos_divide_le_eq mult.commute)
  qed
  with False show ?thesis by (simp only: of_int_le_iff if_False)
qed

lemma ulpExp_at:
  assumes "0 < a" "0 < d"
  obtains e where "ulpAt (of_int a / of_int d) e" "ulpExp a d = max e (- 1074)"
proof -
  let ?x = "of_int a / of_int d :: rat"
  let ?e = "bitlen a - bitlen d - 53"
  have d: "0 < (of_int d :: rat)" using assms by simp
  have lo: "(2::rat) powi (?e + 52) \<le> ?x"
  proof -
    have "(2::rat) powi (?e + 52) * of_int d \<le> 2 powi (?e + 52) * 2 powi bitlen d"
      using bitlen_powi(2)[OF assms(2)] by (intro mult_left_mono) auto
    also have "\<dots> = 2 powi (bitlen a - 1)" by (simp flip: power_int_add)
    also have "\<dots> \<le> of_int a" by (rule bitlen_powi(1)[OF assms(1)])
    finally show ?thesis using d by (simp add: pos_le_divide_eq)
  qed
  have hi: "?x < 2 powi (?e + 54)"
  proof -
    have "of_int a < (2::rat) powi bitlen a" by (rule bitlen_powi(2)[OF assms(1)])
    also have "\<dots> = 2 powi (?e + 54) * 2 powi (bitlen d - 1)" by (simp flip: power_int_add)
    also have "\<dots> \<le> 2 powi (?e + 54) * of_int d"
      using bitlen_powi(1)[OF assms(2)] by (intro mult_left_mono) auto
    finally show ?thesis using d by (simp add: pos_divide_less_eq)
  qed
  show ?thesis
  proof (cases "(2::rat) powi (?e + 53) \<le> ?x")
    case True
    show ?thesis
    proof (rule that)
      show "ulpAt ?x (?e + 1)" using True hi by (simp add: ulpAt_def add.commute)
      show "ulpExp a d = max (?e + 1) (- 1074)"
        using True unfolding ulpExp_def Let_def powi_le_quotient[OF assms] by simp
    qed
  next
    case False
    show ?thesis
    proof (rule that)
      show "ulpAt ?x ?e" using False lo by (simp add: ulpAt_def)
      show "ulpExp a d = max ?e (- 1074)"
        using False unfolding ulpExp_def Let_def powi_le_quotient[OF assms] by simp
    qed
  qed
qed

lemma ulpExp_scale:
  assumes "0 < a" "0 < d" "0 < c"
  shows "ulpExp (a * c) (d * c) = ulpExp a d"
proof -
  obtain e where e: "ulpAt (of_int a / of_int d) e" "ulpExp a d = max e (- 1074)"
    by (rule ulpExp_at[OF assms(1,2)])
  obtain f where f: "ulpAt (of_int (a * c) / of_int (d * c)) f" "ulpExp (a * c) (d * c) = max f (- 1074)"
    by (rule ulpExp_at[of "a * c" "d * c"]) (use assms in auto)
  have "(of_int (a * c) / of_int (d * c) :: rat) = of_int a / of_int d" using assms by simp
  with e f ulpAt_unique show ?thesis by metis
qed

text \<open>The value of a numeral does not depend on the fraction it is written as.\<close>

lemma roundDouble_scale:
  assumes "0 < d" "0 < c"
  shows "roundDouble (n * c) (d * c) = roundDouble n d"
proof (cases "n = 0")
  case True
  then show ?thesis by (simp add: roundDouble_def)
next
  case False
  then have a: "0 < \<bar>n\<bar>" "\<bar>n * c\<bar> = \<bar>n\<bar> * c" "sgn (n * c) = sgn n" "n * c < 0 \<longleftrightarrow> n < 0" "n * c \<noteq> 0"
    using assms by (auto simp: abs_mult sgn_mult mult_less_0_iff)
  have e: "ulpExp (\<bar>n\<bar> * c) (d * c) = ulpExp \<bar>n\<bar> d" by (rule ulpExp_scale[OF a(1) assms])
  have "roundHalfEven (\<bar>n\<bar> * c) (d * c * 2 ^ k) = roundHalfEven \<bar>n\<bar> (d * 2 ^ k)"
    "roundHalfEven (\<bar>n\<bar> * c * 2 ^ k) (d * c) = roundHalfEven (\<bar>n\<bar> * 2 ^ k) d" for k
    using roundHalfEven_scale[of c "d * 2 ^ k" "\<bar>n\<bar>"] roundHalfEven_scale[of c d "\<bar>n\<bar> * 2 ^ k"] assms
    by (simp_all add: ac_simps)
  then show ?thesis using a(5) False unfolding roundDouble_def Let_def a(2,3,4) e by (simp only: if_False)
qed

text \<open>Below \<open>2^40\<close> the error of rounding is at most \<open>2^-14\<close>.\<close>

lemma roundDouble_near:
  assumes d: "0 < d" and n: "\<bar>n\<bar> < 2 ^ 40 * d"
  obtains q where "roundDouble n d = Fin q" "\<bar>q - of_int n / of_int d\<bar> \<le> 1 / 2 ^ 14"
proof (cases "n = 0")
  case True
  then show ?thesis by (intro that[of 0]) (simp_all add: roundDouble_def)
next
  case False
  then have a: "0 < \<bar>n\<bar>" by simp
  obtain e where e: "ulpAt (of_int \<bar>n\<bar> / of_int d) e" "ulpExp \<bar>n\<bar> d = max e (- 1074)"
    by (rule ulpExp_at[OF a d])
  have "(2::rat) powi (e + 52) < 2 powi 40"
  proof -
    have "(of_int \<bar>n\<bar> :: rat) < of_int (2 ^ 40 * d)" using n by (simp only: of_int_less_iff)
    then have "of_int \<bar>n\<bar> / of_int d < (2 ^ 40 :: rat)" using d by (simp add: pos_divide_less_eq)
    with e(1) show ?thesis by (simp add: ulpAt_def)
  qed
  then have "e + 52 < 40" by (rule power_int_le_imp_less_exp[rotated]) auto
  define f where "f = ulpExp \<bar>n\<bar> d"
  have f: "f \<le> - 13" using e(2) \<open>e + 52 < 40\<close> by (simp add: f_def)
  define p where "p = (2::int) ^ nat (- f)"
  define m where "m = roundHalfEven (\<bar>n\<bar> * p) d"
  have p: "2 ^ 13 \<le> p" unfolding p_def by (rule power_increasing) (use f in auto)
  have "2 * \<bar>m * d - \<bar>n\<bar> * p\<bar> \<le> d" unfolding m_def by (rule roundHalfEven_error[OF d])
  then have "2 * \<bar>sgn n * m * d - n * p\<bar> \<le> d"
  proof (cases "0 < n")
    case neg: False
    then have "sgn n * m * d - n * p = - (m * d - \<bar>n\<bar> * p)" using False by simp
    with \<open>2 * \<bar>m * d - \<bar>n\<bar> * p\<bar> \<le> d\<close> show ?thesis by (simp only: abs_minus_cancel)
  qed simp
  then have "(of_int (2 * \<bar>sgn n * m * d - n * p\<bar>) :: rat) \<le> of_int d" by (simp only: of_int_le_iff)
  then have err: "2 * \<bar>of_int (sgn n * m) * of_int d - of_int n * of_int p\<bar> \<le> (of_int d :: rat)" by simp
  have "roundDouble n d = Fin (of_int (sgn n * m) / of_int p)"
    using False f by (simp add: roundDouble_def f_def[symmetric] Let_def m_def p_def)
  moreover have "\<bar>of_int (sgn n * m) / of_int p - of_int n / of_int d\<bar> \<le> (1 / 2 ^ 14 :: rat)"
  proof -
    have P: "0 < (of_int p :: rat)" "0 < (of_int d :: rat)" using p d by simp_all
    let ?t = "of_int (sgn n * m) * of_int d - of_int n * of_int p :: rat"
    have "of_int (sgn n * m) / of_int p - of_int n / of_int d = ?t / (of_int p * of_int d)"
      using P by (simp add: field_simps)
    then have "\<bar>of_int (sgn n * m) / of_int p - of_int n / of_int d\<bar> = \<bar>?t\<bar> / (of_int p * of_int d)"
      using P by (simp add: abs_divide abs_mult)
    also have "\<dots> \<le> (of_int d / 2) / (of_int p * of_int d)"
      using err P by (intro divide_right_mono) auto
    also have "\<dots> = 1 / (2 * of_int p)" using P by simp
    also have "\<dots> \<le> 1 / 2 ^ 14"
    proof -
      have "(2::rat) ^ 14 \<le> 2 * of_int p" using p of_int_le_iff[of "2 ^ 13" p, where ?'a = rat] by simp
      then show ?thesis by (intro divide_left_mono) auto
    qed
    finally show ?thesis .
  qed
  ultimately show ?thesis by (rule that)
qed

section \<open>\<open>String(x)\<close>\<close>

text \<open>
  \<open>s * 10^e\<close> as a double. \<open>shortestFrom\<close> looks for the shortest decimal that reads back as \<open>a/d\<close>:
  from the exponent of the leading digit downwards, the two multiples of \<open>10^e\<close> around the value;
  when both read back, the closer one. The exponents tried end where the multiple is exact, at
  \<open>-1074\<close> at the latest, since a double is a multiple of \<open>2^-1074\<close>.
\<close>

definition decimalValue :: "int \<Rightarrow> int \<Rightarrow> jsnum" where
  "decimalValue s e = (if 0 \<le> e then roundDouble (s * 10 ^ nat e) 1 else roundDouble s (10 ^ nat (- e)))"

definition floorScaled :: "int \<Rightarrow> int \<Rightarrow> int \<Rightarrow> int" where
  "floorScaled a d e = (if 0 \<le> e then a div (d * 10 ^ nat e) else (a * 10 ^ nat (- e)) div d)"

text \<open>Whether \<open>s * 10^e\<close> is closer to \<open>a/d\<close> than \<open>(s + 1) * 10^e\<close>, ties to the even digit.\<close>

definition lowerCloser :: "int \<Rightarrow> int \<Rightarrow> int \<Rightarrow> int \<Rightarrow> bool" where
  "lowerCloser a d s e =
     (let x = (if 0 \<le> e then a else a * 10 ^ nat (- e)); u = (if 0 \<le> e then d * 10 ^ nat e else d);
          r = x - s * u
      in 2 * r < u \<or> (2 * r = u \<and> even s))"

fun shortestFrom :: "nat \<Rightarrow> int \<Rightarrow> int \<Rightarrow> int \<Rightarrow> int \<times> int" where
  "shortestFrom 0 a d e = (floorScaled a d e, e)"
| "shortestFrom (Suc k) a d e =
     (let lo = floorScaled a d e; x = Fin (of_int a / of_int d);
          okLo = (0 < lo \<and> decimalValue lo e = x); okHi = (decimalValue (lo + 1) e = x)
      in if okLo \<and> (\<not> okHi \<or> lowerCloser a d lo e) then (lo, e)
         else if okHi then (lo + 1, e)
         else shortestFrom k a d (e - 1))"

definition positiveText :: "int \<Rightarrow> int \<Rightarrow> jsstr" where
  "positiveText a d =
     (let e0 = int (length (showNat (nat (a div d)))); (s, e) = shortestFrom (nat (e0 + 1075)) a d e0;
          ds = showNat (nat s); n = int (length ds) + e
      in if 0 \<le> e \<and> n \<le> 21 then ds @ replicate (nat e) 48
         else if 0 < n \<and> n \<le> 21 then take (nat n) ds @ [46] @ drop (nat n) ds
         else if - 6 < n \<and> n \<le> 0 then lit ''0.'' @ replicate (nat (- n)) 48 @ ds
         else
           take 1 ds @ (if length ds = 1 then [] else [46] @ drop 1 ds) @ lit ''e'' @
           (if n - 1 < 0 then lit ''-'' else lit ''+'') @ showNat (nat \<bar>n - 1\<bar>))"

definition numToString :: "jsnum \<Rightarrow> jsstr" where
  "numToString x =
     (case x of
        NaN \<Rightarrow> lit ''NaN''
      | PosInf \<Rightarrow> lit ''Infinity''
      | NegInf \<Rightarrow> lit ''-Infinity''
      | Fin q \<Rightarrow>
          let (a, d) = quotient_of q in
          if a = 0 then [48]
          else if a < 0 then 45 # positiveText (- a) d
          else positiveText a d)"

lemma showNat_shift: "0 < s \<Longrightarrow> showNat (s * 10 ^ k) = showNat s @ replicate k 48"
proof (induction k)
  case (Suc k)
  have "10 \<le> s * 10 ^ Suc k" using Suc.prems by simp
  moreover have "s * 10 ^ Suc k div 10 = s * 10 ^ k" "s * 10 ^ Suc k mod 10 = 0" by simp_all
  ultimately have "showNat (s * 10 ^ Suc k) = showNat (s * 10 ^ k) @ [48]"
    by (simp add: showNat_large del: power_Suc)
  then show ?case using Suc by (simp add: replicate_append_same)
qed simp

lemma length_showNat: "n < 10 ^ k \<Longrightarrow> 0 < k \<Longrightarrow> length (showNat n) \<le> k"
proof (induction k arbitrary: n)
  case (Suc k)
  show ?case
  proof (cases "n < 10")
    case False
    then have "n div 10 < 10 ^ k" "0 < k" using Suc.prems by (simp_all add: div_less_iff_less_mult mult.commute) (cases k; simp)
    with Suc.IH False show ?thesis by (simp add: showNat_large)
  qed (simp add: showNat_small)
qed simp

lemma showNat_ge: "0 < n \<Longrightarrow> 10 ^ (length (showNat n) - 1) \<le> n \<and> n < 10 ^ length (showNat n)"
proof (induction n rule: less_induct)
  case (less n)
  show ?case
  proof (cases "n < 10")
    case False
    let ?m = "n div 10"
    have m: "10 ^ (length (showNat ?m) - 1) \<le> ?m \<and> ?m < 10 ^ length (showNat ?m)"
      using less.IH[of ?m] False by simp
    obtain k where k: "length (showNat ?m) = Suc k" by (cases "showNat ?m") auto
    have "10 * (10 ^ k) \<le> 10 * ?m" "10 * ?m \<le> n" "n < 10 * (?m + 1)" "?m + 1 \<le> 10 ^ Suc k"
      using m by (simp_all add: k Suc_le_eq)
    then have "10 * 10 ^ k \<le> n" "n < 10 * 10 ^ Suc k" by linarith+
    with False show ?thesis by (simp add: showNat_large k)
  qed (use less.prems in \<open>simp add: showNat_small\<close>)
qed

text \<open>An integer of at most fifteen digits is printed digit by digit.\<close>

lemma shortestFrom_int:
  assumes "0 < a" "a < 10 ^ 15" "e \<le> 15"
  shows "nat e < k \<Longrightarrow> 0 \<le> e \<Longrightarrow>
    \<exists>s f. shortestFrom k a 1 e = (s, f) \<and> 0 < s \<and> 0 \<le> f \<and> f \<le> 15 \<and> s * 10 ^ nat f = a"
  using assms(3)
proof (induction k arbitrary: e)
  case (Suc k)
  let ?lo = "floorScaled a 1 e"
  have p: "0 < (10::int) ^ nat e" by simp
  have lo: "?lo = a div 10 ^ nat e" using Suc.prems by (simp add: floorScaled_def)
  have le: "?lo * 10 ^ nat e \<le> a" "0 \<le> ?lo"
    unfolding lo minus_mod_eq_div_mult[symmetric] using assms(1) p by (simp_all add: pos_imp_zdiv_nonneg_iff)
  have "(10::int) ^ nat e \<le> 10 ^ 15" by (rule power_increasing) (use Suc.prems in auto)
  then have small: "s * 10 ^ nat e < 2 ^ 53" "0 \<le> s * 10 ^ nat e" if "s = ?lo \<or> s = ?lo + 1" for s
    using that le assms(2) by (auto simp: algebra_simps)
  have val: "decimalValue s e = Fin (of_int (s * 10 ^ nat e))" if "s = ?lo \<or> s = ?lo + 1" for s
    using roundDouble_int[of "s * 10 ^ nat e"] small[OF that] Suc.prems by (simp add: decimalValue_def)
  have eq: "decimalValue s e = Fin (of_int a / of_int 1) \<longleftrightarrow> s * 10 ^ nat e = a" if "s = ?lo \<or> s = ?lo + 1" for s
    unfolding val[OF that] by (simp only: jsnum.inject of_int_1 div_by_1 of_int_eq_iff)
  show ?case
  proof (cases "e = 0")
    case True
    then have "?lo = a" by (simp add: floorScaled_def)
    then show ?thesis
      using eq[of ?lo] eq[of "?lo + 1"] assms(1) True by (simp add: Let_def del: of_int_1)
  next
    case False
    show ?thesis
    proof (cases "?lo * 10 ^ nat e = a \<or> (?lo + 1) * 10 ^ nat e = a")
      case True
      then have "?lo * 10 ^ nat e = a \<longrightarrow> 0 < ?lo" using assms(1) le by (cases "?lo = 0") auto
      with True eq[of ?lo] eq[of "?lo + 1"] le Suc.prems show ?thesis
        by (auto simp: Let_def simp del: of_int_1)
    next
      case F: False
      then have "shortestFrom (Suc k) a 1 e = shortestFrom k a 1 (e - 1)"
        using eq[of ?lo] eq[of "?lo + 1"] by (simp add: Let_def del: of_int_1)
      moreover have "nat (e - 1) < k" "0 \<le> e - 1" "e - 1 \<le> 15" using Suc.prems False by auto
      ultimately show ?thesis using Suc.IH by simp
    qed
  qed
qed simp

definition intText :: "int \<Rightarrow> jsstr" where
  "intText n = (if n < 0 then 45 # showNat (nat (- n)) else showNat (nat n))"

lemma positiveText_int:
  assumes "0 < a" "a < 10 ^ 15"
  shows "positiveText a 1 = showNat (nat a)"
proof -
  define e0 where "e0 = int (length (showNat (nat (a div 1))))"
  have "length (showNat (nat a)) \<le> 15" using assms by (intro length_showNat) (auto simp: nat_less_iff)
  then have e0: "0 \<le> e0" "e0 \<le> 15" by (simp_all add: e0_def)
  then have "nat e0 < nat (e0 + 1075)" by simp
  from shortestFrom_int[OF assms e0(2) this e0(1)] obtain s f where
    sf: "shortestFrom (nat (e0 + 1075)) a 1 e0 = (s, f)" "0 < s" "0 \<le> f" "s * 10 ^ nat f = a" by auto
  have "nat a = nat s * 10 ^ nat f"
    unfolding sf(4)[symmetric] using sf(2) by (simp only: nat_mult_distrib[OF less_imp_le]) (simp add: nat_power_eq)
  then have shown: "showNat (nat a) = showNat (nat s) @ replicate (nat f) 48"
    using sf(2) by (simp add: showNat_shift)
  then have "int (length (showNat (nat s))) + f \<le> 15"
    using \<open>length (showNat (nat a)) \<le> 15\<close> sf(3) by simp
  then have "0 \<le> f \<and> int (length (showNat (nat s))) + f \<le> 21" using sf(3) by linarith
  then show ?thesis
    unfolding positiveText_def e0_def[symmetric] Let_def sf(1) prod.case shown by (simp only: simp_thms if_True)
qed

lemma numToString_int: "\<bar>n\<bar> < 10 ^ 15 \<Longrightarrow> numToString (Fin (of_int n)) = intText n"
  using positiveText_int[of n] positiveText_int[of "- n"]
  by (auto simp: numToString_def intText_def quotient_of_int)

section \<open>\<open>x.toFixed(f)\<close>\<close>

text \<open>The nearest multiple of \<open>10^-f\<close>, the larger of two; the magnitude is below \<open>10^21\<close>.\<close>

definition fixedDigits :: "nat \<Rightarrow> nat \<Rightarrow> jsstr" where
  "fixedDigits f n = (let m = showNat n in replicate (Suc f - length m) 48 @ m)"

definition toFixed :: "nat \<Rightarrow> rat \<Rightarrow> jsstr" where
  "toFixed f x =
     (if 10 ^ 21 \<le> \<bar>x\<bar> then numToString (Fin x)
      else
        let m = fixedDigits f (nat \<lfloor>\<bar>x\<bar> * 10 ^ f + 1 / 2\<rfloor>); k = length m
        in (if x < 0 then [45] else []) @ (if f = 0 then m else take (k - f) m @ [46] @ drop (k - f) m))"

lemma fixedDigits_length: "f < length (fixedDigits f n)"
  by (simp add: fixedDigits_def Let_def)

lemma readDigits_zeros: "readDigits 0 (replicate k 48 @ s) = readDigits 0 s"
  by (induction k) (simp_all add: digitVal_def)

lemma fixedDigits_parse: "parseDec (fixedDigits f n) = n"
  using parseDec_showNat[of n] by (simp add: fixedDigits_def Let_def parseDec_def readDigits_zeros)

lemma fixedDigits_digits: "c \<in> set (fixedDigits f n) \<Longrightarrow> isDigit c"
  by (auto simp: fixedDigits_def Let_def isDigit_def dest: showNat_digits)

end
