(* ===== verification/StructuredFields.thy ===== *)
theory StructuredFields
  imports Base64 JsNumberText
begin

text \<open>
  Structured field values: \<open>src/structured-fields.ts\<close> and \<open>src/types/structured-fields.ts\<close>
  (RFC 8941, RFC 9651). The parser object keeps the input and an index; here it is the rest of the
  input, and every parse function returns its result, \<open>None\<close> for \<open>null\<close>, with the rest it stopped at,
  on failure too, since \<open>parseParameters\<close> answers \<open>null\<close> both for no parameters and for a bad one and
  its callers go on from where it stopped.
\<close>

section \<open>Data\<close>

text \<open>An \<open>SfDate\<close> holds an integer: its constructor rejects any other number.\<close>

datatype sfBareItem =
    SfNumber jsnum
  | SfString jsstr
  | SfBoolean bool
  | SfBytes "byte list"
  | SfDate jsnum
  | SfToken jsstr
  | SfDisplayString jsstr

type_synonym sfParams = "(jsstr \<times> sfBareItem) list"

record sfItem =
  itemValue :: sfBareItem
  itemParams :: "sfParams option"

record sfInnerList =
  innerItems :: "sfItem list"
  innerParams :: "sfParams option"

datatype sfMember = ItemMember sfItem | ListMember sfInnerList

type_synonym sfList = "sfMember list"
type_synonym sfDictionary = "(jsstr \<times> sfMember) list"

datatype sfError =
    SfNotFinite jsnum
  | SfIntegerRange jsnum
  | SfDecimalRange jsnum
  | SfDecimalDigits jsstr
  | SfInvalidToken jsstr
  | SfLoneSurrogate
  | SfStringChar nat nat          \<comment> \<open>the code and the index\<close>
  | SfParameterKey jsstr
  | SfDictionaryKey jsstr

text \<open>\<open>new SfDate(timestamp)\<close>\<close>

definition newSfDate :: "jsnum \<Rightarrow> unit + sfBareItem" where
  "newSfDate timestamp = (if \<not> isIntegerNum timestamp then Inl () else Inr (SfDate timestamp))"

section \<open>Characters\<close>

definition isKeyChar :: "cu \<Rightarrow> bool" where
  "isKeyChar code \<longleftrightarrow>
     (0x61 \<le> code \<and> code \<le> 0x7A) \<or> (0x30 \<le> code \<and> code \<le> 0x39) \<or>
     code = cu CHR ''_'' \<or> code = cu CHR ''-'' \<or> code = cu CHR ''.'' \<or> code = cu CHR ''*''"

definition isTokenChar :: "cu \<Rightarrow> bool" where
  "isTokenChar code \<longleftrightarrow>
     (0x41 \<le> code \<and> code \<le> 0x5A) \<or> (0x61 \<le> code \<and> code \<le> 0x7A) \<or> (0x30 \<le> code \<and> code \<le> 0x39) \<or>
     code \<in> set (lit ''!#$%&'' @ [39] @ lit ''*+-.^_`|~:/'')"

definition isKeyStart :: "cu \<Rightarrow> bool" where
  "isKeyStart c \<longleftrightarrow> c = cu CHR ''*'' \<or> (0x61 \<le> c \<and> c \<le> 0x7A)"

definition isTokenStart :: "cu \<Rightarrow> bool" where
  "isTokenStart c \<longleftrightarrow> c = cu CHR ''*'' \<or> (0x41 \<le> c \<and> c \<le> 0x5A) \<or> (0x61 \<le> c \<and> c \<le> 0x7A)"

text \<open>\<open>SF_KEY_TEXT_RE\<close> and \<open>SF_TOKEN_TEXT_RE\<close>\<close>

definition sfKeyText :: "jsstr \<Rightarrow> bool" where
  "sfKeyText s = (case s of [] \<Rightarrow> False | c # cs \<Rightarrow> isKeyStart c \<and> list_all isKeyChar cs)"

definition sfTokenText :: "jsstr \<Rightarrow> bool" where
  "sfTokenText s = (case s of [] \<Rightarrow> False | c # cs \<Rightarrow> isTokenStart c \<and> list_all isTokenChar cs)"

section \<open>The cursor\<close>

type_synonym 'a parsed = "'a option \<times> jsstr"

definition mapParsed :: "('a \<Rightarrow> 'b) \<Rightarrow> 'a parsed \<Rightarrow> 'b parsed" where
  "mapParsed f p = (map_option f (fst p), snd p)"

text \<open>\<open>peek() === c\<close>\<close>

definition peekIs :: "char \<Rightarrow> jsstr \<Rightarrow> bool" where
  "peekIs c s = (case s of [] \<Rightarrow> False | d # _ \<Rightarrow> d = cu c)"

definition skipOWS :: "jsstr \<Rightarrow> jsstr" where
  "skipOWS s = dropWhile (\<lambda>c. c = 32 \<or> c = 9) s"

definition skipSP :: "jsstr \<Rightarrow> jsstr" where
  "skipSP s = dropWhile (\<lambda>c. c = 32) s"

definition sfIsAtEnd :: "jsstr \<Rightarrow> bool" where
  "sfIsAtEnd s \<longleftrightarrow> skipOWS s = []"

section \<open>Bare items\<close>

definition parseKey :: "jsstr \<Rightarrow> jsstr parsed" where
  "parseKey s =
     (case s of
        [] \<Rightarrow> (None, s)
      | c # cs \<Rightarrow>
          if \<not> isKeyStart c then (None, s)
          else (Some (c # takeWhile isKeyChar cs), dropWhile isKeyChar cs))"

definition parseToken :: "jsstr \<Rightarrow> sfBareItem parsed" where
  "parseToken s =
     (case s of
        [] \<Rightarrow> (None, s)
      | c # cs \<Rightarrow>
          if \<not> isTokenStart c then (None, s)
          else (Some (SfToken (c # takeWhile isTokenChar cs)), dropWhile isTokenChar cs))"

fun stringChars :: "jsstr \<Rightarrow> jsstr \<Rightarrow> jsstr parsed" where
  "stringChars chars [] = (None, [])"
| "stringChars chars (char # cs) =
     (if char = 34 then (Some chars, cs)
      else if char = 92 then
        (case cs of
           [] \<Rightarrow> (None, [])
         | escapedChar # ds \<Rightarrow>
             if escapedChar \<noteq> 34 \<and> escapedChar \<noteq> 92 then (None, ds)
             else stringChars (chars @ [escapedChar]) ds)
      else if char < 0x20 \<or> char > 0x7E \<or> char = 0x22 \<or> char = 0x5C then (None, cs)
      else stringChars (chars @ [char]) cs)"

definition parseString :: "jsstr \<Rightarrow> jsstr parsed" where
  "parseString s = (if \<not> peekIs CHR ''\"'' s then (None, tl s) else stringChars [] (tl s))"

definition parseBoolean :: "jsstr \<Rightarrow> bool parsed" where
  "parseBoolean s =
     (if \<not> peekIs CHR ''?'' s then (None, tl s)
      else if peekIs CHR ''1'' (tl s) then (Some True, tl (tl s))
      else if peekIs CHR ''0'' (tl s) then (Some False, tl (tl s))
      else (None, tl (tl s)))"

definition parseByteSequence :: "jsstr \<Rightarrow> byte list parsed" where
  "parseByteSequence s =
     (if \<not> peekIs CHR '':'' s then (None, tl s)
      else
        let base64 = takeWhile (\<lambda>c. c \<noteq> cu CHR '':'') (tl s); after = dropWhile (\<lambda>c. c \<noteq> cu CHR '':'') (tl s)
        in if after = [] then (None, [])
           else if 10 \<in> set base64 \<or> 13 \<in> set base64 then (None, tl after)
           else if \<not> isBase64Text base64 then (None, tl after)
           else if length base64 mod 4 \<noteq> 0 then (None, tl after)
           else (Some (bytesOfBase64 base64), tl after))"

text \<open>\<open>INTEGER_RE\<close> and \<open>NUMBER_RE\<close>: an optional sign and the longest run of digits.\<close>

definition signedDigits :: "jsstr \<Rightarrow> (bool \<times> jsstr \<times> jsstr) option" where
  "signedDigits s =
     (let neg = peekIs CHR ''-'' s; cs = (if neg then tl s else s); ds = takeWhile isDigit cs
      in if ds = [] then None else Some (neg, ds, dropWhile isDigit cs))"

definition parseInteger :: "jsstr \<Rightarrow> jsnum parsed" where
  "parseInteger s =
     (case signedDigits s of
        None \<Rightarrow> (None, s)
      | Some (neg, integerPart, rest) \<Rightarrow>
          if length integerPart = 0 \<or> length integerPart > 15 then (None, s)
          else
            let v = numberOfParts neg integerPart [] 0
            in if \<not> isIntegerNum v then (None, rest) else (Some v, rest))"

definition parseNumber :: "jsstr \<Rightarrow> jsnum parsed" where
  "parseNumber s =
     (case signedDigits s of
        None \<Rightarrow> (None, s)
      | Some (neg, integerPart, rest) \<Rightarrow>
          let fractionalPart = (if peekIs CHR ''.'' rest then take 3 (takeWhile isDigit (tl rest)) else []);
              v = numberOfParts neg integerPart fractionalPart 0
          in if fractionalPart \<noteq> [] then
               if length integerPart > 12 then (None, s)
               else if length fractionalPart > 3 then (None, s)
               else
                 let after = drop (length fractionalPart) (tl rest)
                 in if \<not> isFiniteNum v then (None, after) else (Some v, after)
             else if length integerPart > 15 then (None, s)
             else if \<not> isFiniteNum v then (None, rest) else (Some v, rest))"

definition parseDate :: "jsstr \<Rightarrow> sfBareItem parsed" where
  "parseDate s = (if \<not> peekIs CHR ''@'' s then (None, tl s) else mapParsed SfDate (parseInteger (tl s)))"

fun displayChars :: "byte list \<Rightarrow> jsstr \<Rightarrow> jsstr parsed" where
  "displayChars bytes [] = (None, [])"
| "displayChars bytes (char # cs) =
     (if char < 0x20 \<or> char > 0x7E then (None, cs)
      else if char = cu CHR ''%'' then
        (let octetHex = take 2 cs
         in if length octetHex < 2 \<or> \<not> list_all isLowerHex octetHex then (None, cs)
            else displayChars (bytes @ [word_of_nat (parseHex octetHex)]) (drop 2 cs))
      else if char = 34 then (decodeUtf8 bytes, cs)
      else displayChars (bytes @ [word_of_nat char]) cs)"

definition parseDisplayString :: "jsstr \<Rightarrow> sfBareItem parsed" where
  "parseDisplayString s =
     (if \<not> peekIs CHR ''%'' s then (None, tl s)
      else if \<not> peekIs CHR ''\"'' (tl s) then (None, tl (tl s))
      else mapParsed SfDisplayString (displayChars [] (tl (tl s))))"

definition parseBareItem :: "jsstr \<Rightarrow> sfBareItem parsed" where
  "parseBareItem s =
     (case s of
        [] \<Rightarrow> (None, [])
      | char # _ \<Rightarrow>
          if char = 34 then mapParsed SfString (parseString s)
          else if char = cu CHR ''?'' then mapParsed SfBoolean (parseBoolean s)
          else if char = cu CHR '':'' then mapParsed SfBytes (parseByteSequence s)
          else if char = cu CHR ''@'' then parseDate s
          else if char = cu CHR ''%'' then parseDisplayString s
          else if char = cu CHR ''-'' \<or> isDigit char then mapParsed SfNumber (parseNumber s)
          else parseToken s)"

text \<open>What is consumed: every parse function moves forward, and at least one unit when it succeeds.\<close>

lemma skipOWS_length: "length (skipOWS s) \<le> length s"
  by (simp add: skipOWS_def length_dropWhile_le)

lemma skipSP_length: "length (skipSP s) \<le> length s"
  by (simp add: skipSP_def length_dropWhile_le)

lemma parseKey_progress: "parseKey s = (Some k, r) \<Longrightarrow> length r < length s"
  by (auto simp: parseKey_def less_Suc_eq_le length_dropWhile_le split: list.splits if_splits)

lemma stringChars_length: "length (snd (stringChars chars s)) \<le> length s"
  by (induction chars s rule: stringChars.induct) (auto simp: le_SucI split: list.split)

lemma displayChars_length: "length (snd (displayChars bytes s)) \<le> length s"
proof (induction bytes s rule: displayChars.induct)
  case (2 bytes char cs)
  show ?case
  proof (cases "char = cu CHR ''%'' \<and> length (take 2 cs) = 2 \<and> list_all isLowerHex (take 2 cs)")
    case True
    then have "displayChars bytes (char # cs) =
        displayChars (bytes @ [word_of_nat (parseHex (take 2 cs))]) (drop 2 cs)" by (auto simp: Let_def)
    moreover have "length (snd (displayChars (bytes @ [word_of_nat (parseHex (take 2 cs))]) (drop 2 cs)))
        \<le> length (drop 2 cs)"
      by (rule "2.IH"(1)[OF _ _ refl]) (use True in auto)
    ultimately show ?thesis by simp
  next
    case False
    then show ?thesis using "2.IH"(2) by (auto simp: Let_def le_SucI)
  qed
qed simp

lemma signedDigits_length: "signedDigits s = Some (neg, ds, r) \<Longrightarrow> length r < length s \<and> ds \<noteq> []"
proof -
  assume a: "signedDigits s = Some (neg, ds, r)"
  define cs where "cs = (if neg then tl s else s)"
  have e: "ds = takeWhile isDigit cs" "r = dropWhile isDigit cs" "ds \<noteq> []"
    using a by (auto simp: signedDigits_def cs_def Let_def split: if_splits)
  have "length cs = length ds + length r"
    unfolding e by (metis length_append takeWhile_dropWhile_id)
  moreover have "length cs \<le> length s" by (simp add: cs_def)
  ultimately show ?thesis using e(3) by (cases ds) auto
qed

lemma parseNumber_progress: "parseNumber s = (Some v, r) \<Longrightarrow> length r < length s"
  by (auto simp: parseNumber_def Let_def split: option.splits if_splits dest!: signedDigits_length)

lemma parseInteger_progress: "parseInteger s = (Some v, r) \<Longrightarrow> length r < length s"
  by (auto simp: parseInteger_def Let_def split: option.splits if_splits dest!: signedDigits_length)

lemma parseNumber_length: "length (snd (parseNumber s)) \<le> length s"
  by (auto simp: parseNumber_def Let_def split: option.splits if_splits dest!: signedDigits_length)

lemma parseInteger_length: "length (snd (parseInteger s)) \<le> length s"
  by (auto simp: parseInteger_def Let_def split: option.splits if_splits dest!: signedDigits_length)

lemma mapParsed_simps [simp]:
  "fst (mapParsed f p) = map_option f (fst p)"
  "snd (mapParsed f p) = snd p"
  by (simp_all add: mapParsed_def)

lemma mapParsed_eq: "mapParsed f p = (Some y, r) \<longleftrightarrow> (\<exists>x. p = (Some x, r) \<and> y = f x)"
  by (cases p) (auto simp: mapParsed_def)

lemma parseBareItem_length: "length (snd (parseBareItem s)) \<le> length s"
proof (cases s)
  case (Cons c cs)
  have "length (snd (parseString s)) \<le> length s"
    by (auto simp: Cons parseString_def intro: le_SucI stringChars_length)
  moreover have "length (snd (parseBoolean s)) \<le> length s" by (auto simp: parseBoolean_def)
  moreover have "length (snd (parseByteSequence s)) \<le> length s"
    using length_dropWhile_le[of "\<lambda>c. c \<noteq> cu CHR '':''" cs] by (auto simp: Cons parseByteSequence_def Let_def)
  moreover have "length (snd (parseDate s)) \<le> length s"
    using parseInteger_length[of cs] by (auto simp: Cons parseDate_def)
  moreover have "length (snd (parseDisplayString s)) \<le> length s"
    using displayChars_length[of "[]" "tl cs"] by (auto simp: Cons parseDisplayString_def)
  moreover have "length (snd (parseToken s)) \<le> length s"
    by (auto simp: Cons parseToken_def intro: le_SucI length_dropWhile_le)
  ultimately show ?thesis using parseNumber_length[of s] by (auto simp: Cons parseBareItem_def)
qed (simp add: parseBareItem_def)

lemma parseBareItem_progress: "parseBareItem s = (Some v, r) \<Longrightarrow> length r < length s"
proof (cases s)
  case (Cons c cs)
  assume a: "parseBareItem s = (Some v, r)"
  have dw: "length (dropWhile P cs) < Suc (length cs)" for P :: "cu \<Rightarrow> bool"
    by (simp add: less_Suc_eq_le length_dropWhile_le)
  have str: "length r < length s" if "parseString s = (Some x, r)" for x
    using that stringChars_length[of "[]" cs] by (auto simp: Cons parseString_def split: if_splits)
  have bool: "length r < length s" if "parseBoolean s = (Some x, r)" for x
    using that by (auto simp: Cons parseBoolean_def split: if_splits)
  have bytes: "length r < length s" if "parseByteSequence s = (Some x, r)" for x
    using that dw less_imp_diff_less[OF dw] by (auto simp: Cons parseByteSequence_def Let_def split: if_splits)
  have date: "length r < length s" if "parseDate s = (Some x, r)" for x
    using that parseInteger_progress[of cs] by (auto simp: Cons parseDate_def mapParsed_eq less_SucI split: if_splits)
  have disp: "length r < length s" if "parseDisplayString s = (Some x, r)" for x
    using that displayChars_length[of "[]" "tl cs"]
    by (auto simp: Cons parseDisplayString_def mapParsed_eq split: if_splits)
  have tok: "length r < length s" if "parseToken s = (Some x, r)" for x
    using that dw by (auto simp: Cons parseToken_def split: if_splits)
  show ?thesis
    using a str bool bytes date disp tok parseNumber_progress[of s]
    by (auto simp: Cons parseBareItem_def mapParsed_eq split: if_splits)
qed (simp add: parseBareItem_def)

section \<open>Parameters\<close>

lemma parameter_key:
  "parseKey (skipOWS (tl s0)) = (Some key, s1) \<Longrightarrow> s0 = (if allow then skipOWS s else s) \<Longrightarrow> length s1 < length s"
  using parseKey_progress[of "skipOWS (tl s0)" key s1] skipOWS_length[of "tl s0"] skipOWS_length[of s]
  by (cases allow) auto

lemma parameter_value:
  assumes "parseBareItem (skipOWS (tl (skipOWS s1))) = (Some bare, s3)" and "length s1 < length s"
  shows "length s3 < length s"
proof -
  have "length s3 < length (skipOWS (tl (skipOWS s1)))" by (rule parseBareItem_progress[OF assms(1)])
  also have "\<dots> \<le> length (skipOWS s1)"
    using skipOWS_length[of "tl (skipOWS s1)"] by simp
  also have "\<dots> \<le> length s1" by (rule skipOWS_length)
  finally show ?thesis using assms(2) by simp
qed

function parameterLoop :: "bool \<Rightarrow> sfParams \<Rightarrow> jsstr \<Rightarrow> sfParams parsed" where
  "parameterLoop allowLeadingOWS params s =
     (let s0 = (if allowLeadingOWS then skipOWS s else s)
      in if \<not> peekIs CHR '';'' s0 then (if params \<noteq> [] then Some params else None, s0)
         else
           (case parseKey (skipOWS (tl s0)) of
              (None, s1) \<Rightarrow> (None, s1)
            | (Some key, s1) \<Rightarrow>
                let s2 = skipOWS s1
                in if peekIs CHR ''='' s2 then
                     (case parseBareItem (skipOWS (tl s2)) of
                        (None, s3) \<Rightarrow> (None, s3)
                      | (Some bare, s3) \<Rightarrow> parameterLoop allowLeadingOWS (objPut key bare params) s3)
                   else parameterLoop allowLeadingOWS (objPut key (SfBoolean True) params) s1))"
  by pat_completeness auto
termination
proof (relation "measure (\<lambda>(_, _, s). length s)", goal_cases)
  case (2 allow params s s0 p s1 key s2 q s3 bare)
  then have "parseKey (skipOWS (tl s0)) = (Some key, s1)"
    "parseBareItem (skipOWS (tl (skipOWS s1))) = (Some bare, s3)" by simp_all
  with 2(1) show ?case using parameter_value[of s1 bare s3 s] parameter_key[of s0 key s1 allow s] by simp
next
  case (3 allow params s s0 p s1 key s2)
  then have "parseKey (skipOWS (tl s0)) = (Some key, s1)" by simp
  with 3(1) show ?case using parameter_key[of s0 key s1 allow s] by simp
qed simp

declare parameterLoop.simps [simp del]

definition parseParameters :: "bool \<Rightarrow> jsstr \<Rightarrow> sfParams parsed" where
  "parseParameters allowLeadingOWS s = parameterLoop allowLeadingOWS [] s"

lemma parameterLoop_length: "length (snd (parameterLoop allow params s)) \<le> length s"
proof (induction allow params s rule: parameterLoop.induct)
  case (1 allow params s)
  let ?s0 = "if allow then skipOWS s else s"
  have s0: "length ?s0 \<le> length s" using skipOWS_length by simp
  have failed: "length (snd (parseKey t)) \<le> length t" for t
    by (auto simp: parseKey_def length_dropWhile_le le_SucI split: list.split)
  show ?case
  proof (cases "peekIs CHR '';'' ?s0")
    case semi: True
    obtain k s1 where key: "parseKey (skipOWS (tl ?s0)) = (k, s1)" by fastforce
    have "length s1 \<le> length (skipOWS (tl ?s0))" using failed[of "skipOWS (tl ?s0)"] key by simp
    then have s1: "length s1 \<le> length s" using skipOWS_length[of "tl ?s0"] s0 by simp
    show ?thesis
    proof (cases k)
      case None
      with semi key s1 show ?thesis by (subst parameterLoop.simps) (simp add: Let_def)
    next
      case (Some name)
      obtain v s3 where bare: "parseBareItem (skipOWS (tl (skipOWS s1))) = (v, s3)" by fastforce
      have "length s3 \<le> length (skipOWS (tl (skipOWS s1)))"
        using parseBareItem_length[of "skipOWS (tl (skipOWS s1))"] bare by simp
      then have s3: "length s3 \<le> length s"
        using skipOWS_length[of "tl (skipOWS s1)"] skipOWS_length[of s1] s1 by simp
      note IH = "1.IH"[OF refl _ key[symmetric] Some refl]
      show ?thesis
      proof (cases "peekIs CHR ''='' (skipOWS s1)")
        case True
        show ?thesis
        proof (cases v)
          case None
          with semi key Some True bare s3 show ?thesis by (subst parameterLoop.simps) (simp add: Let_def)
        next
          case v: (Some x)
          have "length (snd (parameterLoop allow (objPut name x params) s3)) \<le> length s3"
            using IH(1)[OF _ True bare[symmetric] v] semi by simp
          with semi key Some True bare v s3 show ?thesis by (subst parameterLoop.simps) (simp add: Let_def)
        qed
      next
        case False
        have "length (snd (parameterLoop allow (objPut name (SfBoolean True) params) s1)) \<le> length s1"
          using IH(2)[OF _ False] semi by simp
        with semi key Some False s1 show ?thesis by (subst parameterLoop.simps) (simp add: Let_def)
      qed
    qed
  next
    case False
    with s0 show ?thesis by (subst parameterLoop.simps) (simp add: Let_def)
  qed
qed

section \<open>Items, lists and dictionaries\<close>

definition parseItemWithParameterOWS :: "bool \<Rightarrow> jsstr \<Rightarrow> sfItem parsed" where
  "parseItemWithParameterOWS allowLeadingParameterOWS s =
     (case parseBareItem s of
        (None, s1) \<Rightarrow> (None, s1)
      | (Some v, s1) \<Rightarrow>
          let (params, s2) = parseParameters allowLeadingParameterOWS s1
          in (Some \<lparr>itemValue = v, itemParams = params\<rparr>, s2))"

definition parseItem :: "jsstr \<Rightarrow> sfItem parsed" where
  "parseItem s = parseItemWithParameterOWS True s"

lemma parseItemWith_progress:
  "parseItemWithParameterOWS allow s = (Some item, r) \<Longrightarrow> length r < length s"
proof -
  assume a: "parseItemWithParameterOWS allow s = (Some item, r)"
  then obtain v s1 where v: "parseBareItem s = (Some v, s1)" "r = snd (parseParameters allow s1)"
    by (auto simp: parseItemWithParameterOWS_def split: prod.splits option.splits)
  then have "length r \<le> length s1" by (simp add: parseParameters_def parameterLoop_length)
  with parseBareItem_progress[OF v(1)] show ?thesis by simp
qed

text \<open>The loop of \<open>parseInnerList\<close>, up to the closing parenthesis, which it leaves unread.\<close>

function innerLoop :: "sfItem list \<Rightarrow> jsstr \<Rightarrow> sfItem list parsed" where
  "innerLoop items s =
     (if s = [] then (Some items, s)
      else
        let s1 = skipSP s
        in if peekIs CHR '')'' s1 then (Some items, s1)
           else
             (case parseItemWithParameterOWS False s1 of
                (None, s2) \<Rightarrow> (None, s2)
              | (Some item, s2) \<Rightarrow>
                  if peekIs CHR '')'' s2 then (Some (items @ [item]), s2)
                  else if \<not> peekIs CHR '' '' s2 then (None, s2)
                  else innerLoop (items @ [item]) (skipSP s2)))"
  by pat_completeness auto
termination
proof (relation "measure (\<lambda>(_, s). length s)", goal_cases)
  case (2 items s s1 p s2 item)
  then have "parseItemWithParameterOWS False s1 = (Some item, s2)" by simp
  from parseItemWith_progress[OF this] 2(2) show ?case
    using skipSP_length[of s] skipSP_length[of s2] by simp
qed simp

declare innerLoop.simps [simp del]

definition parseInnerList :: "jsstr \<Rightarrow> sfInnerList parsed" where
  "parseInnerList s =
     (if \<not> peekIs CHR ''('' s then (None, s)
      else
        (case innerLoop [] (tl s) of
           (None, s1) \<Rightarrow> (None, s1)
         | (Some items, s1) \<Rightarrow>
             if \<not> peekIs CHR '')'' s1 then (None, s1)
             else
               let (params, s2) = parseParameters True (tl s1)
               in (Some \<lparr>innerItems = items, innerParams = params\<rparr>, s2)))"

lemma innerLoop_length: "innerLoop items s = (Some xs, r) \<Longrightarrow> length r \<le> length s"
proof (induction items s rule: innerLoop.induct)
  case (1 items s)
  show ?case
  proof (cases "s = [] \<or> peekIs CHR '')'' (skipSP s)")
    case True
    then show ?thesis
      using "1.prems" skipSP_length[of s] by (subst (asm) innerLoop.simps) (auto simp: Let_def split: if_splits)
  next
    case False
    then obtain item s2 where item: "parseItemWithParameterOWS False (skipSP s) = (Some item, s2)"
      using "1.prems" by (subst (asm) innerLoop.simps) (auto simp: Let_def split: prod.splits option.splits)
    have s2: "length s2 < length s" using parseItemWith_progress[OF item] skipSP_length[of s] by simp
    show ?thesis
    proof (cases "peekIs CHR '')'' s2")
      case True
      with False item "1.prems" s2 show ?thesis by (subst (asm) innerLoop.simps) (simp add: Let_def)
    next
      case next_item: False
      then have sp: "peekIs CHR '' '' s2" "innerLoop (items @ [item]) (skipSP s2) = (Some xs, r)"
        using False item "1.prems" by (subst (asm) innerLoop.simps; auto simp: Let_def split: if_splits)+
      have "length r \<le> length (skipSP s2)"
        using "1.IH"[OF _ refl _ item[symmetric] refl next_item _ sp(2)] False sp(1) by simp
      with skipSP_length[of s2] s2 show ?thesis by simp
    qed
  qed
qed

lemma parseInnerList_progress: "parseInnerList s = (Some list, r) \<Longrightarrow> length r < length s"
proof -
  assume a: "parseInnerList s = (Some list, r)"
  then obtain items s1 where i: "innerLoop [] (tl s) = (Some items, s1)" "peekIs CHR '')'' s1"
    "r = snd (parseParameters True (tl s1))" and s: "peekIs CHR ''('' s"
    by (auto simp: parseInnerList_def split: prod.splits option.splits if_splits)
  have "length r \<le> length (tl s1)"
    unfolding i(3) parseParameters_def by (rule parameterLoop_length)
  moreover have "length s1 \<le> length (tl s)" by (rule innerLoop_length[OF i(1)])
  moreover have "s \<noteq> []" using s by (auto simp: peekIs_def)
  ultimately show ?thesis by (cases s) auto
qed

definition parseMember :: "jsstr \<Rightarrow> sfMember parsed" where
  "parseMember s =
     (if peekIs CHR ''('' s then mapParsed ListMember (parseInnerList s) else mapParsed ItemMember (parseItem s))"

lemma parseMember_progress: "parseMember s = (Some m, r) \<Longrightarrow> length r < length s"
  by (auto simp: parseMember_def mapParsed_eq parseItem_def split: if_splits
      dest: parseInnerList_progress parseItemWith_progress)

function listLoop :: "sfList \<Rightarrow> jsstr \<Rightarrow> sfList parsed" where
  "listLoop members s =
     (let s1 = skipOWS s
      in if s1 = [] then (Some members, s1)
         else
           (case parseMember s1 of
              (None, s2) \<Rightarrow> (None, s2)
            | (Some member, s2) \<Rightarrow>
                let s3 = skipOWS s2
                in if s3 = [] then (Some (members @ [member]), s3)
                   else if peekIs CHR '','' s3 then
                     (let s4 = skipOWS (tl s3)
                      in if s4 = [] then (None, s4) else listLoop (members @ [member]) s4)
                   else (None, s3)))"
  by pat_completeness auto
termination
proof (relation "measure (\<lambda>(_, s). length s)", goal_cases)
  case (2 members s s1 p s2 member s3 s4)
  then have "parseMember s1 = (Some member, s2)" by simp
  from parseMember_progress[OF this] 2 show ?case
    using skipOWS_length[of s] skipOWS_length[of s2] skipOWS_length[of "tl s3"] by simp
qed simp

declare listLoop.simps [simp del]

definition parseList :: "jsstr \<Rightarrow> sfList parsed" where
  "parseList s = listLoop [] s"

text \<open>The value of a dictionary member: after \<open>=\<close> a member, otherwise the item \<open>true\<close> with parameters.\<close>

definition parseDictValue :: "jsstr \<Rightarrow> sfMember parsed" where
  "parseDictValue s =
     (if peekIs CHR ''='' s then parseMember (skipOWS (tl s))
      else
        let (params, s1) = parseParameters True s
        in (Some (ItemMember \<lparr>itemValue = SfBoolean True, itemParams = params\<rparr>), s1))"

lemma parseDictValue_length: "parseDictValue s = (Some m, r) \<Longrightarrow> length r \<le> length s"
proof (cases "peekIs CHR ''='' s")
  case True
  assume "parseDictValue s = (Some m, r)"
  with True have "length r < length (skipOWS (tl s))" by (simp add: parseDictValue_def parseMember_progress)
  with skipOWS_length[of "tl s"] show ?thesis by simp
next
  case False
  assume "parseDictValue s = (Some m, r)"
  with False have "r = snd (parseParameters True s)" by (auto simp: parseDictValue_def split: prod.splits)
  then show ?thesis by (simp add: parseParameters_def parameterLoop_length)
qed

function dictionaryLoop :: "sfDictionary \<Rightarrow> jsstr \<Rightarrow> sfDictionary parsed" where
  "dictionaryLoop dict s =
     (let s1 = skipOWS s
      in if s1 = [] then (Some dict, s1)
         else
           (case parseKey s1 of
              (None, s2) \<Rightarrow> (None, s2)
            | (Some key, s2) \<Rightarrow>
                (case parseDictValue (skipOWS s2) of
                   (None, s3) \<Rightarrow> (None, s3)
                 | (Some v, s3) \<Rightarrow>
                     let s4 = skipOWS s3; dict' = objPut key v dict
                     in if s4 = [] then (Some dict', s4)
                        else if peekIs CHR '','' s4 then
                          (let s5 = skipOWS (tl s4)
                           in if s5 = [] then (None, s5) else dictionaryLoop dict' s5)
                        else (None, s4))))"
  by pat_completeness auto
termination
proof (relation "measure (\<lambda>(_, s). length s)", goal_cases)
  case (2 dict s s1 p s2 key q s3 v s4 dict' s5)
  then have "parseKey s1 = (Some key, s2)" "parseDictValue (skipOWS s2) = (Some v, s3)" by simp_all
  from parseKey_progress[OF this(1)] parseDictValue_length[OF this(2)] 2 show ?case
    using skipOWS_length[of s] skipOWS_length[of s2] skipOWS_length[of s3] skipOWS_length[of "tl s4"] by simp
qed simp

declare dictionaryLoop.simps [simp del]

definition parseDictionary :: "jsstr \<Rightarrow> sfDictionary parsed" where
  "parseDictionary s = dictionaryLoop [] s"

text \<open>The three exported parsers. An empty list and an empty object are not falsy.\<close>

definition atEndOnly :: "'a parsed \<Rightarrow> 'a option" where
  "atEndOnly p = (case p of (None, _) \<Rightarrow> None | (Some x, rest) \<Rightarrow> if \<not> sfIsAtEnd rest then None else Some x)"

definition parseSfList :: "jsstr \<Rightarrow> sfList option" where
  "parseSfList input = atEndOnly (parseList input)"

definition parseSfDict :: "jsstr \<Rightarrow> sfDictionary option" where
  "parseSfDict input = atEndOnly (parseDictionary input)"

definition parseSfItem :: "jsstr \<Rightarrow> sfItem option" where
  "parseSfItem input = atEndOnly (parseItem (jsTrim input))"

section \<open>Serialization\<close>

text \<open>\<open>encoded.replace(/0+$/, '')\<close>\<close>

definition stripZeros :: "jsstr \<Rightarrow> jsstr" where
  "stripZeros s = rev (dropWhile (\<lambda>c. c = 48) (rev s))"

definition sfMaxInteger :: jsnum where "sfMaxInteger = Fin 999999999999999"
definition sfMinInteger :: jsnum where "sfMinInteger = Fin (- 999999999999999)"
definition sfMaxDecimal :: jsnum where "sfMaxDecimal = roundDouble 999999999999999 1000"
definition sfMinDecimal :: jsnum where "sfMinDecimal = roundDouble (- 999999999999999) 1000"

definition serializeNumber :: "jsnum \<Rightarrow> sfError + jsstr" where
  "serializeNumber v =
     (case v of
        Fin q \<Rightarrow>
          if isIntegerNum v then
            if v < sfMinInteger \<or> sfMaxInteger < v then Inl (SfIntegerRange v) else Inr (numToString v)
          else if v < sfMinDecimal \<or> sfMaxDecimal < v then Inl (SfDecimalRange v)
          else
            let stripped = stripZeros (toFixed 3 q);
                encoded = (if last stripped = cu CHR ''.'' then stripped @ [48] else stripped);
                wholePart = hd (splitOn (cu CHR ''.'') (if peekIs CHR ''-'' encoded then tl encoded else encoded))
            in if wholePart = [] \<or> length wholePart > 12 then Inl (SfDecimalDigits encoded) else Inr encoded
      | _ \<Rightarrow> Inl (SfNotFinite v))"

text \<open>The first unit of a string that is not visible ASCII, with its index.\<close>

fun invisibleUnit :: "nat \<Rightarrow> jsstr \<Rightarrow> (nat \<times> nat) option" where
  "invisibleUnit i [] = None"
| "invisibleUnit i (code # cs) =
     (if code < 0x20 \<or> code > 0x7E then Some (code, i) else invisibleUnit (Suc i) cs)"

definition displayByte :: "byte \<Rightarrow> jsstr" where
  "displayByte b =
     (let n = unat b
      in if n = 0x25 \<or> n = 0x22 \<or> n < 0x20 \<or> n > 0x7E then cu CHR ''%'' # hexByte n else [n])"

fun serializeBareItem :: "sfBareItem \<Rightarrow> sfError + jsstr" where
  "serializeBareItem (SfBoolean b) = Inr (if b then lit ''?1'' else lit ''?0'')"
| "serializeBareItem (SfDate timestamp) = Inr (cu CHR ''@'' # numToString timestamp)"
| "serializeBareItem (SfNumber v) = serializeNumber v"
| "serializeBareItem (SfBytes bytes) = Inr (lit '':'' @ bytesToBase64 bytes @ lit '':'')"
| "serializeBareItem (SfToken v) = (if \<not> sfTokenText v then Inl (SfInvalidToken v) else Inr v)"
| "serializeBareItem (SfDisplayString v) =
     (if hasLoneSurrogate v then Inl SfLoneSurrogate
      else Inr ([cu CHR ''%'', 34] @ concat (map displayByte (encodeUtf8 v)) @ [34]))"
| "serializeBareItem (SfString v) =
     (case invisibleUnit 0 v of
        Some (code, i) \<Rightarrow> Inl (SfStringChar code i)
      | None \<Rightarrow> Inr ([34] @ replaceUnit 34 [92, 34] (replaceUnit 92 [92, 92] v) @ [34]))"

fun serializeParamList :: "sfParams \<Rightarrow> sfError + jsstr" where
  "serializeParamList [] = Inr []"
| "serializeParamList ((key, v) # ps) =
     (if \<not> sfKeyText key then Inl (SfParameterKey key)
      else
        andThen (if v = SfBoolean True then Inr (cu CHR '';'' # key)
                 else andThen (serializeBareItem v) (\<lambda>t. Inr (cu CHR '';'' # key @ lit ''='' @ t)))
          (\<lambda>t. andThen (serializeParamList ps) (\<lambda>u. Inr (t @ u))))"

definition serializeParams :: "sfParams option \<Rightarrow> sfError + jsstr" where
  "serializeParams params = (case params of None \<Rightarrow> Inr [] | Some ps \<Rightarrow> serializeParamList ps)"

definition serializeItem :: "sfItem \<Rightarrow> sfError + jsstr" where
  "serializeItem item =
     andThen (serializeBareItem (itemValue item)) (\<lambda>base.
     andThen (serializeParams (itemParams item)) (\<lambda>t. Inr (base @ t)))"

definition serializeInnerList :: "sfInnerList \<Rightarrow> sfError + jsstr" where
  "serializeInnerList list =
     andThen (mapR serializeItem (innerItems list)) (\<lambda>ts.
     andThen (serializeParams (innerParams list)) (\<lambda>t. Inr (lit ''('' @ joinWith (lit '' '') ts @ lit '')'' @ t)))"

definition serializeMember :: "sfMember \<Rightarrow> sfError + jsstr" where
  "serializeMember member =
     (case member of ListMember list \<Rightarrow> serializeInnerList list | ItemMember item \<Rightarrow> serializeItem item)"

definition serializeSfList :: "sfList \<Rightarrow> sfError + jsstr" where
  "serializeSfList members = andThen (mapR serializeMember members) (\<lambda>ts. Inr (joinWith (lit '', '') ts))"

definition serializeDictMember :: "jsstr \<times> sfMember \<Rightarrow> sfError + jsstr" where
  "serializeDictMember kv =
     (case kv of (key, v) \<Rightarrow>
        if \<not> sfKeyText key then Inl (SfDictionaryKey key)
        else
          (case v of
             ListMember list \<Rightarrow> andThen (serializeInnerList list) (\<lambda>t. Inr (key @ lit ''='' @ t))
           | ItemMember item \<Rightarrow>
               if itemValue item = SfBoolean True then
                 andThen (serializeParams (itemParams item)) (\<lambda>t. Inr (key @ t))
               else andThen (serializeItem item) (\<lambda>t. Inr (key @ lit ''='' @ t))))"

definition serializeSfDict :: "sfDictionary \<Rightarrow> sfError + jsstr" where
  "serializeSfDict dict = andThen (mapR serializeDictMember dict) (\<lambda>ts. Inr (joinWith (lit '', '') ts))"

definition serializeSfItem :: "sfItem \<Rightarrow> sfError + jsstr" where
  "serializeSfItem item = serializeItem item"

end
