(* ===== verification/StructuredFieldsBare.thy ===== *)
theory StructuredFieldsBare
  imports StructuredFields
begin

text \<open>
  Bare items read back: what \<open>serializeBareItem\<close> writes, followed by a unit that cannot continue it,
  is what \<open>parseBareItem\<close> reads, for every value the format can carry exactly; a decimal is first
  rounded to three digits.
\<close>

section \<open>Where a bare item ends\<close>

definition bareStop :: "jsstr \<Rightarrow> bool" where
  "bareStop rest \<longleftrightarrow> rest = [] \<or> \<not> isTokenChar (hd rest)"

lemma isDigit_token: "isDigit c \<Longrightarrow> isTokenChar c"
  by (simp add: isDigit_def isTokenChar_def)

lemma isKeyChar_token: "isKeyChar c \<Longrightarrow> isTokenChar c"
  by (auto simp: isKeyChar_def isTokenChar_def)

lemma run_takes:
  assumes "list_all P w" and "rest = [] \<or> \<not> P (hd rest)"
  shows "takeWhile P (w @ rest) = w" and "dropWhile P (w @ rest) = rest"
proof -
  have "\<forall>c\<in>set w. P c" using assms(1) by (simp add: list_all_iff)
  then show "takeWhile P (w @ rest) = w" "dropWhile P (w @ rest) = rest"
    using assms(2) by (simp_all add: takeWhile_append2 dropWhile_append2) (cases rest; auto)+
qed

lemma bareStop_digit: "bareStop rest \<Longrightarrow> rest = [] \<or> \<not> isDigit (hd rest)"
  using isDigit_token by (auto simp: bareStop_def)

lemma bareStop_point: "bareStop rest \<Longrightarrow> \<not> peekIs CHR ''.'' rest"
  by (cases rest) (auto simp: bareStop_def peekIs_def isTokenChar_def)

section \<open>Numbers\<close>

definition signText :: "bool \<Rightarrow> jsstr" where
  "signText neg = (if neg then [45] else [])"

lemma signedDigits_text:
  assumes "list_all isDigit ds" "ds \<noteq> []" "rest = [] \<or> \<not> isDigit (hd rest)"
  shows "signedDigits (signText neg @ ds @ rest) = Some (neg, ds, rest)"
proof -
  obtain d es where "ds = d # es" "isDigit d" using assms(1,2) by (cases ds) auto
  then have "peekIs CHR ''-'' (signText neg @ ds @ rest) = neg"
    by (auto simp: signText_def peekIs_def isDigit_def)
  with run_takes[OF assms(1,3)] assms(2) show ?thesis
    by (simp add: signedDigits_def Let_def signText_def)
qed

lemma showNat_all_digits: "list_all isDigit (showNat n)"
  using showNat_digits by (simp add: list_all_iff)

lemma intText_sign: "intText n = signText (n < 0) @ showNat (nat \<bar>n\<bar>)"
  by (simp add: intText_def signText_def)

lemma digits_number:
  assumes "\<bar>n\<bar> < 10 ^ 15"
  shows "length (showNat (nat \<bar>n\<bar>)) \<le> 15"
    and "numberOfParts (n < 0) (showNat (nat \<bar>n\<bar>)) [] 0 = Fin (of_int n)"
proof -
  show "length (showNat (nat \<bar>n\<bar>)) \<le> 15" using assms by (intro length_showNat) (auto simp: nat_less_iff)
  have "parseDec (showNat (nat \<bar>n\<bar>)) < 2 ^ 53" using assms by (simp add: nat_less_iff)
  from numberOfParts_int[OF this] show "numberOfParts (n < 0) (showNat (nat \<bar>n\<bar>)) [] 0 = Fin (of_int n)"
    by simp
qed

lemma parseInteger_intText:
  assumes "\<bar>n\<bar> < 10 ^ 15" "bareStop rest"
  shows "parseInteger (intText n @ rest) = (Some (Fin (of_int n)), rest)"
  using signedDigits_text[OF showNat_all_digits showNat_nonempty bareStop_digit[OF assms(2)]]
    digits_number[OF assms(1)]
  by (simp add: intText_sign parseInteger_def Let_def)

lemma parseNumber_intText:
  assumes "\<bar>n\<bar> < 10 ^ 15" "bareStop rest"
  shows "parseNumber (intText n @ rest) = (Some (Fin (of_int n)), rest)"
  using signedDigits_text[OF showNat_all_digits showNat_nonempty bareStop_digit[OF assms(2)]]
    digits_number[OF assms(1)] bareStop_point[OF assms(2)]
  by (simp add: intText_sign parseNumber_def Let_def)

text \<open>The text of \<open>n\<close> thousandths, without the zeros at the end but for one.\<close>

definition decimalText :: "bool \<Rightarrow> nat \<Rightarrow> jsstr" where
  "decimalText neg n =
     (let p = fixedDigits 3 n; k = length p - 3; f = stripZeros (drop k p)
      in signText neg @ take k p @ [46] @ (if f = [] then [48] else f))"

lemma stripZeros_split: "\<exists>j. s = stripZeros s @ replicate j 48"
proof -
  have "rev s = takeWhile (\<lambda>c. c = 48) (rev s) @ dropWhile (\<lambda>c. c = 48) (rev s)" by simp
  moreover have "takeWhile (\<lambda>c. c = 48) (rev s) = replicate (length (takeWhile (\<lambda>c. c = 48) (rev s))) 48"
    by (rule replicate_length_same[symmetric]) (auto dest: set_takeWhileD)
  ultimately have "s = rev (dropWhile (\<lambda>c. c = 48) (rev s)) @ replicate (length (takeWhile (\<lambda>c. c = 48) (rev s))) 48"
    by (metis rev_append rev_replicate rev_rev_ident)
  then show ?thesis unfolding stripZeros_def by blast
qed

lemma stripZeros_append: "stripZeros (s @ t) = (if stripZeros t = [] then stripZeros s else s @ stripZeros t)"
  by (auto simp: stripZeros_def dropWhile_append)

lemma stripZeros_point: "stripZeros (s @ 46 # f) = s @ 46 # stripZeros f"
proof -
  have "stripZeros [46] = [46]" by (simp add: stripZeros_def)
  then have "stripZeros ([46] @ f) = 46 # stripZeros f" by (simp only: stripZeros_append) simp
  then show ?thesis by (simp add: stripZeros_append)
qed

lemma last_stripZeros: "stripZeros s \<noteq> [] \<Longrightarrow> last (stripZeros s) \<noteq> 48"
  unfolding stripZeros_def by (metis (mono_tags) hd_dropWhile last_rev rev_is_Nil_conv)

lemma set_stripZeros: "set (stripZeros s) \<subseteq> set s"
  by (auto simp: stripZeros_def dest: set_dropWhileD)

lemma readDigits_shift: "readDigits n (s @ replicate j 48) = readDigits n s * 10 ^ j"
proof -
  have "readDigits m (replicate j 48) = m * 10 ^ j" for m
    by (induction j arbitrary: m) (simp_all add: digitVal_def)
  then show ?thesis by (simp add: readDigits_append)
qed

lemma parseDec_shift: "parseDec (s @ replicate j 48) = parseDec s * 10 ^ j"
  by (simp add: parseDec_def readDigits_shift)

text \<open>The parts of the text denote the thousandths again.\<close>

lemma decimalText_parts:
  assumes "n < 10 ^ 15"
  obtains ip fp where "decimalText neg n = signText neg @ ip @ [46] @ fp"
    "list_all isDigit ip" "ip \<noteq> []" "length ip \<le> 12" "list_all isDigit fp" "fp \<noteq> []" "length fp \<le> 3"
    "numberOfParts neg ip fp 0 = roundDouble (if neg then - int n else int n) 1000"
proof -
  define p where "p = fixedDigits 3 n"
  define k where "k = length p - 3"
  define ip where "ip = take k p"
  define f where "f = stripZeros (drop k p)"
  have lp: "3 < length p" unfolding p_def by (rule fixedDigits_length)
  have "length (showNat n) \<le> 15" by (rule length_showNat) (use assms in auto)
  then have "length p \<le> 15" unfolding p_def fixedDigits_def Let_def by simp
  with lp have ip: "ip \<noteq> []" "length ip \<le> 12" by (auto simp: ip_def k_def)
  have digits: "list_all isDigit p" using fixedDigits_digits by (simp add: p_def list_all_iff)
  then have dip: "list_all isDigit ip" by (auto simp: ip_def list_all_iff dest: in_set_takeD)
  have df: "list_all isDigit f"
    using digits set_stripZeros[of "drop k p"] by (auto simp: f_def list_all_iff dest: in_set_dropD)
  have l3: "length (drop k p) = 3" using lp by (simp add: k_def)
  obtain j where j: "drop k p = f @ replicate j 48" using stripZeros_split unfolding f_def by blast
  have lf: "length f + j = 3" using l3 by (simp add: j)
  have pn: "parseDec (ip @ f) * 10 ^ j = n"
  proof -
    have "p = (ip @ f) @ replicate j 48" unfolding ip_def by (simp flip: j)
    then show ?thesis using fixedDigits_parse[of 3 n] parseDec_shift[of "ip @ f" j] by (simp add: p_def)
  qed
  define s where "s = (if neg then - 1 else 1 :: int)"
  have parts: "numberOfParts neg ip g 0 = roundDouble (s * int (parseDec (ip @ g))) (10 ^ length g)" if "g \<noteq> []" for g
    using that by (simp add: numberOfParts_def Let_def s_def)
  have target: "roundDouble (if neg then - int n else int n) 1000 = roundDouble (s * int n) 1000"
    by (simp add: s_def)
  show ?thesis
  proof (cases "f = []")
    case False
    have "roundDouble (s * int (parseDec (ip @ f)) * 10 ^ j) (10 ^ length f * 10 ^ j) =
        roundDouble (s * int (parseDec (ip @ f))) (10 ^ length f)" by (rule roundDouble_scale) auto
    moreover have "(10::int) ^ length f * 10 ^ j = 1000" by (simp flip: power_add add: lf)
    moreover have "s * int (parseDec (ip @ f)) * 10 ^ j = s * int n" by (simp flip: pn)
    ultimately have "numberOfParts neg ip f 0 = roundDouble (s * int n) 1000" using parts[OF False] by simp
    with False show ?thesis
      using lf dip ip df
      by (intro that[of ip f]) (simp_all add: target decimalText_def Let_def p_def[symmetric] k_def[symmetric] ip_def[symmetric] f_def[symmetric])
  next
    case True
    have "parseDec (ip @ [48]) = parseDec ip * 10" using parseDec_shift[of ip 1] by simp
    moreover have "n = parseDec ip * 1000" using pn lf True by simp
    moreover have "roundDouble (s * int (parseDec ip * 10) * 100) (10 * 100) = roundDouble (s * int (parseDec ip * 10)) 10"
      by (rule roundDouble_scale) auto
    ultimately have "numberOfParts neg ip [48] 0 = roundDouble (s * int n) 1000"
      using parts[of "[48]"] by (simp add: ac_simps)
    with True show ?thesis
      using dip ip
      by (intro that[of ip "[48]"]) (simp_all add: target decimalText_def Let_def p_def[symmetric] k_def[symmetric] ip_def[symmetric] f_def[symmetric] isDigit_def)
  qed
qed

lemma decimal_near:
  assumes "\<bar>N\<bar> < 10 ^ 15"
  obtains q where "roundDouble N 1000 = Fin q"
    "of_int N / 1000 - 1 / 16384 \<le> q" "q \<le> of_int N / 1000 + 1 / 16384"
proof -
  obtain q where q: "roundDouble N 1000 = Fin q" "\<bar>q - of_int N / of_int 1000\<bar> \<le> 1 / 2 ^ 14"
    by (rule roundDouble_near[of 1000 N]) (use assms in auto)
  have "of_int N / 1000 - 1 / 2 ^ 14 \<le> q \<and> q \<le> of_int N / 1000 + 1 / 2 ^ 14"
    using q(2) unfolding abs_diff_le_iff by (simp only: of_int_numeral)
  with q(1) show ?thesis by (intro that[of q]) simp_all
qed

lemma parseNumber_decimalText:
  assumes "n < 10 ^ 15" "bareStop rest"
  shows "parseNumber (decimalText neg n @ rest) = (Some (roundDouble (if neg then - int n else int n) 1000), rest)"
proof -
  obtain ip fp where p: "decimalText neg n = signText neg @ ip @ [46] @ fp"
    "list_all isDigit ip" "ip \<noteq> []" "length ip \<le> 12" "list_all isDigit fp" "fp \<noteq> []" "length fp \<le> 3"
    "numberOfParts neg ip fp 0 = roundDouble (if neg then - int n else int n) 1000"
    by (rule decimalText_parts[OF assms(1)])
  have "signedDigits (signText neg @ ip @ 46 # fp @ rest) = Some (neg, ip, 46 # fp @ rest)"
    by (rule signedDigits_text[OF p(2,3)]) (simp add: isDigit_def)
  moreover have "take 3 (takeWhile isDigit (fp @ rest)) = fp"
    using run_takes(1)[OF p(5) bareStop_digit[OF assms(2)]] p(7) by simp
  moreover have "isFiniteNum (roundDouble (if neg then - int n else int n) 1000)"
    by (rule decimal_near[of "if neg then - int n else int n"]) (use assms(1) in auto)
  ultimately show ?thesis
    using p(4,6,7,8) by (simp add: p(1) parseNumber_def Let_def peekIs_def)
qed

text \<open>A finite number of at most fifteen integer, or twelve integer and three fraction digits.\<close>

definition thousandths :: "rat \<Rightarrow> nat" where
  "thousandths q = nat \<lfloor>\<bar>q\<bar> * 1000 + 1 / 2\<rfloor>"

definition roundedDecimal :: "rat \<Rightarrow> jsnum" where
  "roundedDecimal q = roundDouble (if q < 0 then - int (thousandths q) else int (thousandths q)) 1000"

lemma decimal_bounds:
  obtains Q where "sfMaxDecimal = Fin Q" "sfMinDecimal = Fin (- Q)"
    "999999999999999 / 1000 - 1 / 16384 \<le> Q" "Q \<le> 999999999999999 / 1000 + 1 / 16384"
proof -
  obtain Q where Q: "roundDouble 999999999999999 1000 = Fin Q"
    "of_int 999999999999999 / 1000 - 1 / 16384 \<le> Q" "Q \<le> of_int 999999999999999 / 1000 + 1 / 16384"
    by (rule decimal_near[of 999999999999999]) auto
  have "roundDouble (- 999999999999999) 1000 = Fin (- Q)"
    using Q(1) by (auto simp: roundDouble_def Let_def split: if_splits)
  with Q show ?thesis by (intro that[of Q]) (simp_all add: sfMaxDecimal_def sfMinDecimal_def)
qed

lemma toFixed_decimalText:
  assumes "\<bar>q\<bar> < 10 ^ 12" "thousandths q < 10 ^ 15"
  shows "(let stripped = stripZeros (toFixed 3 q)
          in if last stripped = 46 then stripped @ [48] else stripped) = decimalText (q < 0) (thousandths q)"
    and "hd (splitOn 46 (if peekIs CHR ''-'' (decimalText (q < 0) (thousandths q))
          then tl (decimalText (q < 0) (thousandths q)) else decimalText (q < 0) (thousandths q))) =
        take (length (fixedDigits 3 (thousandths q)) - 3) (fixedDigits 3 (thousandths q))"
proof -
  let ?p = "fixedDigits 3 (thousandths q)"
  let ?k = "length ?p - 3"
  let ?f = "stripZeros (drop ?k ?p)"
  have "toFixed 3 q = signText (q < 0) @ take ?k ?p @ [46] @ drop ?k ?p"
    using assms(1) by (simp add: toFixed_def Let_def signText_def thousandths_def)
  then have s: "stripZeros (toFixed 3 q) = signText (q < 0) @ take ?k ?p @ 46 # ?f"
    using stripZeros_point[of "signText (q < 0) @ take ?k ?p"] by simp
  have "last (46 # ?f) = 46 \<longleftrightarrow> ?f = []"
  proof (cases "?f = []")
    case False
    then have "last ?f \<in> set ?p"
      using set_stripZeros[of "drop ?k ?p"] last_in_set[OF False] set_drop_subset[of ?k ?p] by blast
    from fixedDigits_digits[OF this] False show ?thesis by (auto simp: isDigit_def)
  qed simp
  with s show "(let stripped = stripZeros (toFixed 3 q)
      in if last stripped = 46 then stripped @ [48] else stripped) = decimalText (q < 0) (thousandths q)"
    by (simp add: decimalText_def Let_def)
  have "isDigit c" if "c \<in> set (take ?k ?p)" for c using that fixedDigits_digits in_set_takeD by metis
  moreover have "\<not> isDigit 46" "\<not> isDigit 45" by (simp_all add: isDigit_def)
  ultimately have nodot: "46 \<notin> set (take ?k ?p)" "45 \<notin> set (take ?k ?p)" by blast+
  have "3 < length ?p" by (rule fixedDigits_length)
  then have "take ?k ?p \<noteq> []" by (cases ?p) auto
  with nodot(2) have "\<not> peekIs CHR ''-'' (take ?k ?p @ r)" for r by (cases "take ?k ?p") (auto simp: peekIs_def)
  with nodot(1) show "hd (splitOn 46 (if peekIs CHR ''-'' (decimalText (q < 0) (thousandths q))
        then tl (decimalText (q < 0) (thousandths q)) else decimalText (q < 0) (thousandths q))) = take ?k ?p"
    by (simp add: decimalText_def Let_def signText_def peekIs_def splitOn_append_sep)
qed

lemma serializeNumber_decimal:
  assumes "\<not> isIntegerNum (Fin q)" "\<not> Fin q < sfMinDecimal" "\<not> sfMaxDecimal < Fin q"
  shows "serializeNumber (Fin q) = Inr (decimalText (q < 0) (thousandths q))" and "thousandths q < 10 ^ 15"
proof -
  obtain Q where Q: "sfMaxDecimal = Fin Q" "sfMinDecimal = Fin (- Q)"
    "999999999999999 / 1000 - 1 / 16384 \<le> Q" "Q \<le> 999999999999999 / 1000 + 1 / 16384"
    by (rule decimal_bounds)
  have "\<bar>q\<bar> \<le> Q"
    using assms(2,3) unfolding Q(1,2) less_jsnum.simps by (simp add: abs_le_iff)
  with Q(4) have q: "\<bar>q\<bar> * 1000 + 1 / 2 < 10 ^ 15" by simp
  then have "\<lfloor>\<bar>q\<bar> * 1000 + 1 / 2\<rfloor> < 10 ^ 15" by (simp add: floor_less_iff)
  then show t: "thousandths q < 10 ^ 15" by (simp add: thousandths_def nat_less_iff)
  have big: "\<bar>q\<bar> < 10 ^ 12" using q by simp
  let ?p = "fixedDigits 3 (thousandths q)"
  let ?w = "take (length ?p - 3) ?p"
  have "length (showNat (thousandths q)) \<le> 15" by (rule length_showNat) (use t in auto)
  then have "length ?p \<le> 15" by (simp add: fixedDigits_def Let_def)
  then have "\<not> (?w = [] \<or> length ?w > 12)" using fixedDigits_length[of 3 "thousandths q"] by auto
  moreover have "(cu CHR ''.'') = 46" by simp
  ultimately show "serializeNumber (Fin q) = Inr (decimalText (q < 0) (thousandths q))"
    using assms toFixed_decimalText[OF big t]
    unfolding serializeNumber_def Let_def by (simp only: jsnum.case if_False simp_thms)
qed

text \<open>A decimal with at most three digits after the point is its own rounding.\<close>

lemma rounded_exact:
  assumes "roundDouble N 1000 = Fin q" "\<bar>N\<bar> < 10 ^ 15" "\<not> isIntegerNum (Fin q)"
  shows "roundedDecimal q = Fin q" and "\<not> Fin q < sfMinDecimal" and "\<not> sfMaxDecimal < Fin q"
proof -
  have near: "of_int N / 1000 - 1 / 16384 \<le> q" "q \<le> of_int N / 1000 + 1 / 16384"
    using decimal_near[OF assms(2)] assms(1) by (metis jsnum.inject)+
  have N0: "N \<noteq> 0"
  proof
    assume "N = 0"
    then have "Fin q = Fin (of_int 0)" using assms(1) by (simp add: roundDouble_def)
    with assms(3) isIntegerNum_of_int[of 0] show False by metis
  qed
  have sign: "q < 0 \<longleftrightarrow> N < 0"
  proof (cases "N < 0")
    case True
    then have "of_int N \<le> (- 1 :: rat)" using of_int_le_iff[of N "- 1", where ?'a = rat] by simp
    with near True show ?thesis by simp
  next
    case False
    with N0 have "1 \<le> (of_int N :: rat)" using of_int_le_iff[of 1 N, where ?'a = rat] by simp
    with near False show ?thesis by simp
  qed
  have "of_int \<bar>N\<bar> \<le> \<bar>q\<bar> * 1000 + 1 / 2 \<and> \<bar>q\<bar> * 1000 + 1 / 2 < of_int \<bar>N\<bar> + 1"
    using near sign by (cases "q < 0") auto
  then have "\<lfloor>\<bar>q\<bar> * 1000 + 1 / 2\<rfloor> = \<bar>N\<bar>" by (intro floor_unique) auto
  then have "(if q < 0 then - int (thousandths q) else int (thousandths q)) = N"
    using sign by (auto simp: thousandths_def)
  with assms(1) show "roundedDecimal q = Fin q" by (simp add: roundedDecimal_def)
  obtain Q where Q: "sfMaxDecimal = Fin Q" "sfMinDecimal = Fin (- Q)"
    "999999999999999 / 1000 - 1 / 16384 \<le> Q" "Q \<le> 999999999999999 / 1000 + 1 / 16384"
    by (rule decimal_bounds)
  have upper: "q \<le> Q"
  proof (cases "N = 999999999999999")
    case True
    with assms(1) Q(1) show ?thesis by (simp add: sfMaxDecimal_def)
  next
    case False
    then have "N \<le> 999999999999998" using assms(2) by simp
    then have "of_int N \<le> (999999999999998 :: rat)"
      using of_int_le_iff[of N 999999999999998, where ?'a = rat] by simp
    with near Q(3) show ?thesis by simp
  qed
  have lower: "- Q \<le> q"
  proof (cases "N = - 999999999999999")
    case True
    with assms(1) Q(2) show ?thesis by (simp add: sfMinDecimal_def)
  next
    case False
    then have "- 999999999999998 \<le> N" using assms(2) by simp
    then have "- 999999999999998 \<le> (of_int N :: rat)"
      using of_int_le_iff[of "- 999999999999998" N, where ?'a = rat] by simp
    with near Q(3) show ?thesis by simp
  qed
  from upper lower show "\<not> Fin q < sfMinDecimal" "\<not> sfMaxDecimal < Fin q"
    unfolding Q(1,2) less_jsnum.simps by auto
qed

section \<open>Strings, tokens, bytes\<close>

definition escapeUnits :: "jsstr \<Rightarrow> jsstr" where
  "escapeUnits v = replaceUnit 34 [92, 34] (replaceUnit 92 [92, 92] v)"

lemma escapeUnits_simps [simp]:
  "escapeUnits [] = []"
  "escapeUnits (c # v) = (if c = 92 then [92, 92] else if c = 34 then [92, 34] else [c]) @ escapeUnits v"
  by (simp_all add: escapeUnits_def replaceUnit_append)

definition visible :: "cu \<Rightarrow> bool" where
  "visible c \<longleftrightarrow> 0x20 \<le> c \<and> c \<le> 0x7E"

lemma invisibleUnit_None: "invisibleUnit i v = None \<longleftrightarrow> list_all visible v"
  by (induction i v rule: invisibleUnit.induct) (auto simp: visible_def)

lemma stringChars_escape:
  "list_all visible v \<Longrightarrow> stringChars acc (escapeUnits v @ 34 # rest) = (Some (acc @ v), rest)"
proof (induction v arbitrary: acc)
  case (Cons c v)
  then have "stringChars (acc @ [c]) (escapeUnits v @ 34 # rest) = (Some (acc @ c # v), rest)"
    using Cons.IH[of "acc @ [c]"] by simp
  then show ?case using Cons.prems by (auto simp: visible_def)
qed simp

lemma displayChars_bytes:
  "displayChars acc (concat (map displayByte bs) @ 34 # rest) = (decodeUtf8 (acc @ bs), rest)"
proof (induction bs arbitrary: acc)
  case (Cons b bs)
  have b: "unat b < 256" using unsigned_less[of b] by simp
  have hex: "\<exists>x y. hexByte (unat b) = [x, y]" by (simp add: hexByte_def)
  have step: "displayChars acc (displayByte b @ t) = displayChars (acc @ [b]) t" for t
  proof (cases "unat b = 0x25 \<or> unat b = 0x22 \<or> unat b < 0x20 \<or> unat b > 0x7E")
    case True
    obtain x y where xy: "hexByte (unat b) = [x, y]" using hex by blast
    have "displayByte b @ t = 37 # hexByte (unat b) @ t" using True by (simp add: displayByte_def Let_def)
    moreover have "list_all isLowerHex [x, y]" "parseHex [x, y] = unat b"
      using hexByte_lower[OF b] parseHex_byte[OF b] by (simp_all add: xy)
    ultimately show ?thesis by (simp add: xy Let_def)
  next
    case False
    then show ?thesis by (simp add: displayByte_def Let_def)
  qed
  show ?case using step[of "concat (map displayByte bs) @ 34 # rest"] Cons.IH[of "acc @ [b]"] by simp
qed simp

section \<open>Every bare item\<close>

text \<open>
  The numbers the format carries exactly, and the bare items: visible strings, token text, display
  strings of scalar values that do not start with a byte order mark.
\<close>

definition numberExact :: "jsnum \<Rightarrow> bool" where
  "numberExact v =
     (case v of
        Fin q \<Rightarrow>
          if isIntegerNum v then \<bar>intOfNum v\<bar> < 10 ^ 15
          else \<not> v < sfMinDecimal \<and> \<not> sfMaxDecimal < v \<and> roundedDecimal q = v
      | _ \<Rightarrow> False)"

fun bareOk :: "sfBareItem \<Rightarrow> bool" where
  "bareOk (SfNumber v) = numberExact v"
| "bareOk (SfString v) = list_all visible v"
| "bareOk (SfBoolean b) = True"
| "bareOk (SfBytes bytes) = True"
| "bareOk (SfDate v) = (isIntegerNum v \<and> \<bar>intOfNum v\<bar> < 10 ^ 15)"
| "bareOk (SfToken v) = sfTokenText v"
| "bareOk (SfDisplayString v) =
     (\<not> hasLoneSurrogate v \<and> list_all (\<lambda>c. c < 0x10000) v \<and> (v = [] \<or> hd v \<noteq> 0xFEFF))"

lemma serializeNumber_int:
  "\<bar>n\<bar> < 10 ^ 15 \<Longrightarrow> serializeNumber (Fin (of_int n)) = Inr (intText n)"
proof -
  assume n: "\<bar>n\<bar> < 10 ^ 15"
  have "\<not> (of_int n :: rat) < - 999999999999999" "\<not> (999999999999999 :: rat) < of_int n"
    using n of_int_less_iff[of n "- 999999999999999", where ?'a = rat]
      of_int_less_iff[of 999999999999999 n, where ?'a = rat] by auto
  then show ?thesis
    using numToString_int[OF n] by (simp add: serializeNumber_def sfMinInteger_def sfMaxInteger_def)
qed

lemma number_first:
  "\<exists>c t. intText n = c # t \<and> (c = 45 \<or> isDigit c)"
  "\<exists>c t. decimalText neg m = c # t \<and> (c = 45 \<or> isDigit c)"
proof -
  have run: "\<exists>c t. signText b @ ds @ r = c # t \<and> (c = 45 \<or> isDigit c)" if "list_all isDigit ds" "ds \<noteq> []" for b ds r
    using that by (cases ds) (auto simp: signText_def)
  show "\<exists>c t. intText n = c # t \<and> (c = 45 \<or> isDigit c)"
    using run[OF showNat_all_digits showNat_nonempty, of _ _ "[]"] by (simp add: intText_sign)
  have "list_all isDigit (take k (fixedDigits 3 m))" for k
    using fixedDigits_digits by (auto simp: list_all_iff dest: in_set_takeD)
  moreover have "take (length (fixedDigits 3 m) - 3) (fixedDigits 3 m) \<noteq> []"
    using fixedDigits_length[of 3 m] by (cases "fixedDigits 3 m") auto
  ultimately show "\<exists>c t. decimalText neg m = c # t \<and> (c = 45 \<or> isDigit c)"
    unfolding decimalText_def Let_def by (rule run)
qed

lemma parse_number_first:
  assumes "c = 45 \<or> isDigit c"
  shows "parseBareItem (c # t) = mapParsed SfNumber (parseNumber (c # t))"
  using assms by (auto simp: parseBareItem_def isDigit_def)

text \<open>In general a number comes back rounded to a thousandth.\<close>

definition numberCarried :: "jsnum \<Rightarrow> jsnum" where
  "numberCarried v = (if isIntegerNum v then v else case v of Fin q \<Rightarrow> roundedDecimal q | _ \<Rightarrow> v)"

lemma serializeNumber_cases:
  assumes "serializeNumber v = Inr t"
  obtains n where "v = Fin (of_int n)" "\<bar>n\<bar> < 10 ^ 15" "t = intText n"
  | q where "v = Fin q" "\<not> isIntegerNum v" "t = decimalText (q < 0) (thousandths q)" "thousandths q < 10 ^ 15"
proof -
  obtain q where v: "v = Fin q" using assms by (cases v) (auto simp: serializeNumber_def)
  show ?thesis
  proof (cases "isIntegerNum v")
    case True
    then obtain n where n: "v = Fin (of_int n)" by (auto simp: isIntegerNum_iff)
    have "\<not> (of_int n :: rat) < - 999999999999999" "\<not> (999999999999999 :: rat) < of_int n"
      using assms n by (auto simp: serializeNumber_def sfMinInteger_def sfMaxInteger_def split: if_splits)
    then have "\<bar>n\<bar> < 10 ^ 15"
      using of_int_less_iff[of n "- 999999999999999", where ?'a = rat]
        of_int_less_iff[of 999999999999999 n, where ?'a = rat] by auto
    with n assms serializeNumber_int[of n] show ?thesis by (intro that(1)) auto
  next
    case False
    then have q: "\<not> isIntegerNum (Fin q)" "\<not> Fin q < sfMinDecimal" "\<not> sfMaxDecimal < Fin q"
      using assms by (auto simp: v serializeNumber_def split: if_splits)
    from that(2)[OF v False] serializeNumber_decimal[OF q] assms show ?thesis by (simp add: v)
  qed
qed

lemma number_roundtrip:
  assumes "serializeNumber v = Inr t" "bareStop rest"
  shows "parseBareItem (t @ rest) = (Some (SfNumber (numberCarried v)), rest)"
  using assms(1)
proof (cases rule: serializeNumber_cases)
  case (1 n)
  then obtain c u where "t = c # u" "c = 45 \<or> isDigit c" using number_first(1) by blast
  then show ?thesis
    using parse_number_first[of c "u @ rest"] parseNumber_intText[OF 1(2) assms(2)] 1(3)
    by (simp add: 1(1) numberCarried_def mapParsed_def)
next
  case (2 q)
  then obtain c u where "t = c # u" "c = 45 \<or> isDigit c" using number_first(2) by blast
  moreover have "parseNumber (t @ rest) = (Some (roundedDecimal q), rest)"
    unfolding 2(3) roundedDecimal_def by (rule parseNumber_decimalText[OF 2(4) assms(2)])
  ultimately show ?thesis
    using parse_number_first[of c "u @ rest"] 2(1,2) by (simp add: numberCarried_def mapParsed_def)
qed

lemma numberExact_carried: "numberExact v \<Longrightarrow> numberCarried v = v \<and> (\<exists>t. serializeNumber v = Inr t)"
proof (cases v)
  case (Fin q)
  assume ok: "numberExact v"
  show ?thesis
  proof (cases "isIntegerNum v")
    case True
    then obtain n where n: "v = Fin (of_int n)" by (auto simp: isIntegerNum_iff)
    with ok have "\<bar>n\<bar> < 10 ^ 15" by (simp add: numberExact_def)
    with n True serializeNumber_int show ?thesis by (auto simp: numberCarried_def)
  next
    case False
    with ok Fin show ?thesis using serializeNumber_decimal(1)[of q] by (auto simp: numberExact_def numberCarried_def)
  qed
qed (auto simp: numberExact_def)

text \<open>The units a bare item can start with.\<close>

definition bareLead :: "cu \<Rightarrow> bool" where
  "bareLead c \<longleftrightarrow> c \<in> {34, 63, 58, 64, 37, 45} \<or> isDigit c \<or> isTokenStart c"

lemma bareLead_not: "bareLead c \<Longrightarrow> c \<notin> {9, 32, 40, 41, 44, 59, 61} \<and> \<not> isJsSpace c"
  by (auto simp: bareLead_def isDigit_def isTokenStart_def isJsSpace_def)

lemma intText_last: "isDigit (last (intText n))"
  using showNat_digits[OF last_in_set[OF showNat_nonempty]] by (simp add: intText_sign)

lemma number_last: "serializeNumber v = Inr t \<Longrightarrow> isDigit (last t)"
proof (erule serializeNumber_cases)
  show "isDigit (last t)" if "t = intText n" for n
    using that intText_last by simp
next
  fix q assume t: "t = decimalText (q < 0) (thousandths q)" "thousandths q < 10 ^ 15"
  obtain ip fp where "decimalText (q < 0) (thousandths q) = signText (q < 0) @ ip @ [46] @ fp"
    "list_all isDigit fp" "fp \<noteq> []" by (rule decimalText_parts[OF t(2)])
  then show "isDigit (last t)" by (simp add: t(1) list_all_iff)
qed

lemma bare_lead: "serializeBareItem b = Inr t \<Longrightarrow> \<exists>c u. t = c # u \<and> bareLead c"
proof (cases b)
  case (SfNumber v)
  assume "serializeBareItem b = Inr t"
  then have "serializeNumber v = Inr t" by (simp add: SfNumber)
  then have "\<exists>c u. t = c # u \<and> (c = 45 \<or> isDigit c)"
    by (rule serializeNumber_cases) (use number_first in blast)+
  then show ?thesis by (auto simp: bareLead_def)
qed (auto simp: bareLead_def sfTokenText_def split: if_splits list.splits option.splits)

lemma bare_last: "bareOk b \<Longrightarrow> serializeBareItem b = Inr t \<Longrightarrow> t \<noteq> [] \<and> \<not> isJsSpace (last t)"
proof (cases b)
  case (SfNumber v)
  assume s: "serializeBareItem b = Inr t"
  then have "isDigit (last t)" by (simp add: SfNumber number_last)
  moreover have "t \<noteq> []" using bare_lead[OF s] by auto
  ultimately show ?thesis by (auto simp: isDigit_def isJsSpace_def)
next
  case (SfDate v)
  assume a: "bareOk b" "serializeBareItem b = Inr t"
  then obtain n where n: "v = Fin (of_int n)" "\<bar>n\<bar> < 10 ^ 15"
    by (auto simp: SfDate isIntegerNum_iff)
  then have "t = 64 # intText n" using a(2) numToString_int[OF n(2)] by (simp add: SfDate)
  moreover have "isDigit (last (intText n))" by (rule intText_last)
  moreover have "intText n \<noteq> []" by (simp add: intText_def)
  ultimately show ?thesis by (auto simp: isDigit_def isJsSpace_def)
next
  case (SfToken v)
  assume a: "bareOk b" "serializeBareItem b = Inr t"
  then have v: "t = v" "sfTokenText v" by (simp_all add: SfToken)
  then have "t \<noteq> []" "\<forall>c\<in>set t. isTokenChar c"
    by (auto simp: sfTokenText_def list_all_iff isTokenStart_def isTokenChar_def split: list.splits)
  then have "t \<noteq> [] \<and> isTokenChar (last t)" by simp
  then show ?thesis by (auto simp: isTokenChar_def isJsSpace_def)
qed (auto simp: isJsSpace_def split: if_splits option.splits)

lemma bare_serializes: "bareOk b \<Longrightarrow> \<exists>t. serializeBareItem b = Inr t"
  by (cases b) (auto simp: numberExact_carried iffD2[OF invisibleUnit_None])

lemma bytes_colon: "list_all (\<lambda>c. c \<noteq> 58) (bytesToBase64 bytes)"
  "10 \<notin> set (bytesToBase64 bytes)" "13 \<notin> set (bytesToBase64 bytes)"
  using bytesToBase64_chars[of _ bytes] by (fastforce simp: list_all_iff isB64_def)+

lemma bare_roundtrip:
  assumes "bareOk b" "serializeBareItem b = Inr t" "bareStop rest"
  shows "parseBareItem (t @ rest) = (Some b, rest)"
proof (cases b)
  case (SfNumber v)
  with assms numberExact_carried[of v] number_roundtrip[of v t rest] show ?thesis by simp
next
  case (SfString v)
  then have "t = 34 # escapeUnits v @ [34]" using assms(1,2) invisibleUnit_None[of 0 v] by (simp add: escapeUnits_def)
  moreover have "stringChars [] (escapeUnits v @ 34 # rest) = (Some v, rest)"
    using stringChars_escape[of v "[]" rest] assms(1) by (simp add: SfString)
  ultimately show ?thesis
    by (simp add: SfString parseBareItem_def parseString_def peekIs_def mapParsed_def)
next
  case (SfBoolean x)
  with assms(2) show ?thesis
    by (auto simp: parseBareItem_def parseBoolean_def peekIs_def mapParsed_def)
next
  case (SfBytes bytes)
  then have t: "t @ rest = 58 # bytesToBase64 bytes @ 58 # rest" using assms(2) by auto
  have "takeWhile (\<lambda>c. c \<noteq> 58) (bytesToBase64 bytes @ 58 # rest) = bytesToBase64 bytes"
    "dropWhile (\<lambda>c. c \<noteq> 58) (bytesToBase64 bytes @ 58 # rest) = 58 # rest"
    using run_takes[OF bytes_colon(1), of "58 # rest"] by simp_all
  moreover have "4 dvd length (bytesToBase64 bytes)"
    by (rule isBase64Text_length[OF bytesToBase64_text])
  ultimately show ?thesis
    using bytes_colon(2,3) bytesToBase64_text[of bytes]
    unfolding t SfBytes by (simp add: parseBareItem_def parseByteSequence_def peekIs_def mapParsed_def Let_def)
next
  case (SfDate v)
  then obtain n where n: "v = Fin (of_int n)" "\<bar>n\<bar> < 10 ^ 15"
    using assms(1) by (auto simp: isIntegerNum_iff)
  then have "t = 64 # intText n" using assms(2) numToString_int[OF n(2)] by (simp add: SfDate)
  then show ?thesis
    using parseInteger_intText[OF n(2) assms(3)]
    by (simp add: SfDate n(1) parseBareItem_def parseDate_def peekIs_def mapParsed_def)
next
  case (SfToken v)
  then obtain c u where v: "v = c # u" "isTokenStart c" "list_all isTokenChar u" and t: "t = v"
    using assms(1,2) by (auto simp: sfTokenText_def split: list.splits)
  have "c \<notin> {34, 63, 58, 64, 37, 45} \<and> \<not> isDigit c" using v(2) by (auto simp: isTokenStart_def isDigit_def)
  then have "parseBareItem (t @ rest) = parseToken (c # u @ rest)"
    by (simp add: t v(1) parseBareItem_def)
  also have "\<dots> = (Some b, rest)"
    using run_takes[OF v(3), of rest] assms(3) v(2) by (simp add: SfToken v(1) parseToken_def bareStop_def)
  finally show ?thesis .
next
  case (SfDisplayString v)
  then have t: "t @ rest = 37 # 34 # concat (map displayByte (encodeUtf8 v)) @ 34 # rest"
    using assms(1,2) by auto
  have "decodeUtf8 (encodeUtf8 v) = Some v" by (rule decode_encode) (use assms(1) in \<open>auto simp: SfDisplayString\<close>)
  then show ?thesis
    using displayChars_bytes[of "[]" "encodeUtf8 v" rest]
    unfolding t SfDisplayString
    by (simp add: parseBareItem_def parseDisplayString_def peekIs_def mapParsed_def)
qed

section \<open>Printers and prefix parsers\<close>

text \<open>
  What one level of the format promises to the next: on the values it carries, the printer succeeds,
  and the parser takes exactly the printed text off the front of an input that continues with
  something the value cannot swallow.
\<close>

locale prefix_syntax =
  fixes parse :: "jsstr \<Rightarrow> 'a parsed"
    and print :: "'a \<Rightarrow> sfError + jsstr"
    and ok :: "'a \<Rightarrow> bool"
    and stop :: "jsstr \<Rightarrow> bool"
  assumes printed: "ok x \<Longrightarrow> \<exists>t. print x = Inr t"
    and parse_print: "ok x \<Longrightarrow> print x = Inr t \<Longrightarrow> stop rest \<Longrightarrow> parse (t @ rest) = (Some x, rest)"
    and stop_Nil: "stop []"
begin

lemma parse_whole: "ok x \<Longrightarrow> print x = Inr t \<Longrightarrow> parse t = (Some x, [])"
  using parse_print[of x t "[]"] stop_Nil by simp

lemma print_inject: "ok x \<Longrightarrow> ok y \<Longrightarrow> print x = Inr t \<Longrightarrow> print y = Inr t \<Longrightarrow> x = y"
  using parse_whole[of x t] parse_whole[of y t] by simp

text \<open>No printed text is another one followed by a delimiter.\<close>

lemma prefix_free:
  assumes "ok x" "ok y" "print x = Inr t" "print y = Inr (t @ u)" "stop u"
  shows "x = y" and "u = []"
  using parse_print[OF assms(1,3,5)] parse_whole[OF assms(2,4)] by simp_all

lemma all_printed: "list_all ok xs \<Longrightarrow> \<exists>ts. mapR print xs = Inr ts"
  by (rule mapR_no_error) (auto simp: list_all_iff printed)

end

interpretation bare: prefix_syntax parseBareItem serializeBareItem bareOk bareStop
  by (rule prefix_syntax.intro) (fact bare_serializes bare_roundtrip | simp add: bareStop_def)+

end
