(* ===== verification/StructuredFieldsLaws.thy ===== *)
theory StructuredFieldsLaws
  imports StructuredFieldsBare
begin

text \<open>
  Structured fields, whole values: what a list, a dictionary or an item is serialized to is parsed
  back to it, level by level through the interface \<open>prefix_syntax\<close>; and whatever is parsed can be
  serialized.
\<close>

section \<open>Parameters\<close>

text \<open>Present parameters are some, with distinct valid keys, and values of a given kind.\<close>

definition paramsAll :: "(sfBareItem \<Rightarrow> bool) \<Rightarrow> sfParams option \<Rightarrow> bool" where
  "paramsAll P params =
     (case params of
        None \<Rightarrow> True
      | Some ps \<Rightarrow> ps \<noteq> [] \<and> distinct (map fst ps) \<and> list_all (\<lambda>(k, v). sfKeyText k \<and> P v) ps)"

abbreviation paramsOk :: "sfParams option \<Rightarrow> bool" where
  "paramsOk \<equiv> paramsAll bareOk"

text \<open>What may follow parameters: nothing that a value, a key or another parameter could take.\<close>

definition paramStop :: "bool \<Rightarrow> jsstr \<Rightarrow> bool" where
  "paramStop allow rest \<longleftrightarrow>
     bareStop rest \<and> \<not> peekIs CHR ''='' (skipOWS rest) \<and> \<not> peekIs CHR '';'' rest \<and>
     (allow \<longrightarrow> skipOWS rest = rest)"

lemma bareStop_semicolon: "bareStop (59 # t)"
  by (simp add: bareStop_def isTokenChar_def)

lemma paramStop_Nil: "paramStop allow []"
  by (simp add: paramStop_def bareStop_def peekIs_def skipOWS_def)

lemma paramStop_comma: "paramStop allow (44 # t)"
  by (simp add: paramStop_def bareStop_def peekIs_def skipOWS_def isTokenChar_def)

lemma paramStop_close: "paramStop allow (41 # t)"
  by (simp add: paramStop_def bareStop_def peekIs_def skipOWS_def isTokenChar_def)

lemma skipOWS_id: "c \<noteq> 32 \<Longrightarrow> c \<noteq> 9 \<Longrightarrow> skipOWS (c # t) = c # t"
  by (simp add: skipOWS_def)

lemma skipOWS_Nil [simp]: "skipOWS [] = []"
  by (simp add: skipOWS_def)

lemma skipSP_id: "c \<noteq> 32 \<Longrightarrow> skipSP (c # t) = c # t"
  by (simp add: skipSP_def)

lemma sfKeyText_first: "sfKeyText k \<Longrightarrow> \<exists>c u. k = c # u \<and> isKeyStart c \<and> c \<noteq> 32 \<and> c \<noteq> 9 \<and> \<not> isDigit c"
  by (auto simp: sfKeyText_def isKeyStart_def isDigit_def split: list.splits)

lemma parseKey_text:
  assumes "sfKeyText k" "rest = [] \<or> \<not> isKeyChar (hd rest)"
  shows "parseKey (skipOWS (k @ rest)) = (Some k, rest)"
proof -
  obtain c u where k: "k = c # u" "isKeyStart c" "c \<noteq> 32" "c \<noteq> 9" using sfKeyText_first[OF assms(1)] by blast
  with assms(1) have "list_all isKeyChar u" by (simp add: sfKeyText_def)
  from run_takes[OF this assms(2)] k show ?thesis by (simp add: skipOWS_id parseKey_def)
qed

lemma objPut_new:
  assumes "sfKeyText k" "k \<notin> fst ` set ps"
  shows "objPut k v ps = ps @ [(k, v)]"
proof -
  have "\<not> isIndexKey k" using sfKeyText_first[OF assms(1)] by (auto simp: isIndexKey_def isDigit_def)
  then show ?thesis using assms(2) by (simp add: objPut_def hasOwnKey_def insertKey_last keyBefore_def)
qed

lemma serializeParamList_first:
  "serializeParamList ps = Inr t \<Longrightarrow> t = [] \<or> (\<exists>u. t = 59 # u)"
  by (cases ps) (auto simp: err_simps split: if_splits prod.splits)

lemma parameterLoop_print:
  assumes "serializeParamList ps = Inr t" "list_all (\<lambda>(k, v). sfKeyText k \<and> bareOk v) ps"
    and "distinct (map fst (acc @ ps))" "paramStop allow rest"
  shows "parameterLoop allow acc (t @ rest) = (if acc @ ps \<noteq> [] then Some (acc @ ps) else None, rest)"
  using assms(1-3)
proof (induction ps arbitrary: acc t)
  case Nil
  have "\<not> peekIs CHR '';'' rest" "allow \<longrightarrow> skipOWS rest = rest" using assms(4) by (auto simp: paramStop_def)
  with Nil show ?case by (cases allow) (simp_all add: parameterLoop.simps[of _ acc rest])
next
  case (Cons kv ps)
  obtain k v where kv: "kv = (k, v)" by force
  have k: "sfKeyText k" "bareOk v" "k \<notin> fst ` set acc" using Cons.prems by (auto simp: kv)
  obtain vt t' where t': "serializeParamList ps = Inr t'" and t: "t = 59 # k @ vt @ t'"
    and vt: "if v = SfBoolean True then vt = [] else \<exists>u. vt = 61 # u \<and> serializeBareItem v = Inr u"
    using Cons.prems(1) k(1) by (auto simp: kv err_simps split: if_splits)
  have tail: "t' @ rest = rest \<or> (\<exists>u. t' @ rest = 59 # u)"
    using serializeParamList_first[OF t'] by auto
  have stop: "bareStop (t' @ rest)" "\<not> peekIs CHR ''='' (skipOWS (t' @ rest))"
    using tail assms(4) bareStop_semicolon by (auto simp: paramStop_def skipOWS_id peekIs_def[of "CHR ''=''" "59 # _"])
  have put: "objPut k v acc = acc @ [(k, v)]" by (rule objPut_new[OF k(1,3)])
  have rec: "parameterLoop allow (acc @ [(k, v)]) (t' @ rest) = (Some (acc @ (k, v) # ps), rest)"
    using Cons.IH[OF t', of "acc @ [(k, v)]"] Cons.prems by (simp add: kv)
  have semi: "(if allow then skipOWS (t @ rest) else t @ rest) = 59 # k @ vt @ t' @ rest"
    by (simp add: t skipOWS_id)
  show ?case
  proof (cases "v = SfBoolean True")
    case True
    then have vt0: "vt = []" using vt by simp
    have "rest0 = [] \<or> \<not> isKeyChar (hd rest0)" if "bareStop rest0" for rest0
      using that isKeyChar_token by (auto simp: bareStop_def)
    from parseKey_text[OF k(1) this[OF stop(1)]]
    have "parseKey (skipOWS (k @ t' @ rest)) = (Some k, t' @ rest)" .
    then show ?thesis
      using stop(2) rec put True
      by (subst parameterLoop.simps) (simp add: semi Let_def vt0 peekIs_def[of "CHR '';''"] kv)
  next
    case False
    then obtain u where u: "vt = 61 # u" "serializeBareItem v = Inr u" using vt by auto
    obtain c w where lead: "u = c # w" "bareLead c" using bare_lead[OF u(2)] by blast
    then have "skipOWS (u @ t' @ rest) = u @ t' @ rest" using bareLead_not[of c] by (simp add: skipOWS_id)
    moreover have "parseBareItem (u @ t' @ rest) = (Some v, t' @ rest)"
      by (rule bare.parse_print[OF k(2) u(2) stop(1)])
    moreover have "parseKey (skipOWS (k @ 61 # u @ t' @ rest)) = (Some k, 61 # u @ t' @ rest)"
      by (rule parseKey_text[OF k(1)]) (simp add: isKeyChar_def)
    ultimately show ?thesis
      using rec put
      by (subst parameterLoop.simps)
        (simp add: semi Let_def u(1) peekIs_def[of "CHR '';''"] peekIs_def[of "CHR ''=''"] skipOWS_id kv)
  qed
qed

lemma parseParameters_print:
  assumes "paramsOk params" "serializeParams params = Inr t" "paramStop allow rest"
  shows "parseParameters allow (t @ rest) = (params, rest)"
proof (cases params)
  case None
  with assms parameterLoop_print[of "[]" "[]" "[]" allow rest] show ?thesis
    by (simp add: serializeParams_def parseParameters_def)
next
  case (Some ps)
  with assms parameterLoop_print[of ps t "[]" allow rest] show ?thesis
    by (simp add: serializeParams_def parseParameters_def paramsAll_def)
qed

lemma serializeParams_first: "serializeParams params = Inr t \<Longrightarrow> t = [] \<or> (\<exists>u. t = 59 # u)"
  by (auto simp: serializeParams_def serializeParamList_first split: option.splits)

lemma params_serialize: "paramsOk params \<Longrightarrow> \<exists>t. serializeParams params = Inr t"
proof -
  have "\<exists>t. serializeParamList ps = Inr t" if "list_all (\<lambda>(k, v). sfKeyText k \<and> bareOk v) ps" for ps
    using that
  proof (induction ps)
    case (Cons kv ps)
    then obtain u where "serializeParamList ps = Inr u" by auto
    moreover obtain k v where "kv = (k, v)" by force
    moreover obtain w where "serializeBareItem v = Inr w"
      using Cons.prems bare_serializes[of v] \<open>kv = (k, v)\<close> by auto
    ultimately show ?case using Cons.prems by simp
  qed simp
  then show "paramsOk params \<Longrightarrow> ?thesis" by (auto simp: paramsAll_def serializeParams_def split: option.splits)
qed

lemma bareStop_params:
  "serializeParams params = Inr t \<Longrightarrow> paramStop allow rest \<Longrightarrow> bareStop (t @ rest)"
  using serializeParams_first[of params t] bareStop_semicolon by (auto simp: paramStop_def)

section \<open>Items\<close>

definition itemAll :: "(sfBareItem \<Rightarrow> bool) \<Rightarrow> sfItem \<Rightarrow> bool" where
  "itemAll P item \<longleftrightarrow> P (itemValue item) \<and> paramsAll P (itemParams item)"

abbreviation itemOk :: "sfItem \<Rightarrow> bool" where
  "itemOk \<equiv> itemAll bareOk"

lemma item_lead: "serializeItem item = Inr t \<Longrightarrow> \<exists>c u. t = c # u \<and> bareLead c"
  by (auto simp: serializeItem_def err_simps dest: bare_lead)

lemma item_roundtrip:
  assumes "itemOk item" "serializeItem item = Inr t" "paramStop allow rest"
  shows "parseItemWithParameterOWS allow (t @ rest) = (Some item, rest)"
proof -
  obtain u w where u: "serializeBareItem (itemValue item) = Inr u" "serializeParams (itemParams item) = Inr w" "t = u @ w"
    using assms(2) by (auto simp: serializeItem_def err_simps)
  have "parseBareItem (u @ w @ rest) = (Some (itemValue item), w @ rest)"
    using bare_roundtrip[OF _ u(1) bareStop_params[OF u(2) assms(3)]] assms(1) by (simp add: itemAll_def)
  moreover have "parseParameters allow (w @ rest) = (itemParams item, rest)"
    by (rule parseParameters_print[OF _ u(2) assms(3)]) (use assms(1) in \<open>simp add: itemAll_def\<close>)
  ultimately show ?thesis by (simp add: u(3) parseItemWithParameterOWS_def)
qed

lemma item_serializes: "itemOk item \<Longrightarrow> \<exists>t. serializeItem item = Inr t"
  using bare_serializes[of "itemValue item"] params_serialize[of "itemParams item"]
  by (auto simp: itemAll_def serializeItem_def)

interpretation item: prefix_syntax "parseItemWithParameterOWS allow" serializeItem itemOk "paramStop allow" for allow
  by (rule prefix_syntax.intro) (fact item_serializes item_roundtrip paramStop_Nil)+

section \<open>Inner lists and members\<close>

definition innerAll :: "(sfBareItem \<Rightarrow> bool) \<Rightarrow> sfInnerList \<Rightarrow> bool" where
  "innerAll P inner \<longleftrightarrow> list_all (itemAll P) (innerItems inner) \<and> paramsAll P (innerParams inner)"

abbreviation innerOk :: "sfInnerList \<Rightarrow> bool" where
  "innerOk \<equiv> innerAll bareOk"

lemma lead_not_peek: "bareLead c \<Longrightarrow> \<not> peekIs CHR '')'' (c # t) \<and> \<not> peekIs CHR ''('' (c # t) \<and> c \<noteq> 32 \<and> c \<noteq> 9"
  using bareLead_not[of c] by (auto simp: peekIs_def)

lemma innerLoop_print:
  "mapR serializeItem items = Inr ts \<Longrightarrow> list_all itemOk items \<Longrightarrow>
    innerLoop acc (joinWith [32] ts @ 41 # rest) = (Some (acc @ items), 41 # rest)"
proof (induction items arbitrary: acc ts)
  case Nil
  then show ?case by (simp add: innerLoop.simps[of acc "41 # rest"] Let_def skipSP_id peekIs_def)
next
  case (Cons x xs)
  then obtain t us where t: "serializeItem x = Inr t" "mapR serializeItem xs = Inr us" "ts = t # us"
    by (auto split: sum.splits)
  obtain c w where c: "t = c # w" "bareLead c" using item_lead[OF t(1)] by blast
  define after where "after = (if us = [] then 41 # rest else 32 # joinWith [32] us @ 41 # rest)"
  have s: "joinWith [32] ts @ 41 # rest = t @ after"
    by (cases us) (simp_all add: t(3) after_def)
  have next_lead: "us \<noteq> [] \<Longrightarrow> \<exists>d v. joinWith [32] us @ 41 # rest = d # v \<and> bareLead d"
  proof -
    assume "us \<noteq> []"
    then obtain u us' where us: "us = u # us'" by (cases us) auto
    then obtain y where "serializeItem y = Inr u" using t(2) by (cases xs) (auto split: sum.splits)
    from item_lead[OF this] show ?thesis by (cases us') (auto simp: us)
  qed
  have "paramStop False after"
  proof (cases "us = []")
    case False
    then obtain d v where d: "joinWith [32] us @ 41 # rest = d # v" "bareLead d" using next_lead by blast
    have "skipOWS (32 # d # v) = d # v" "d \<noteq> 61"
      using bareLead_not[OF d(2)] by (auto simp: skipOWS_def)
    then show ?thesis
      using False by (simp add: after_def d(1) paramStop_def bareStop_def isTokenChar_def peekIs_def)
  qed (simp add: after_def paramStop_close)
  from item.parse_print[OF _ t(1) this] Cons.prems(2)
  have item: "parseItemWithParameterOWS False (t @ after) = (Some x, after)" by simp
  have "innerLoop acc (t @ after) =
      (if peekIs CHR '')'' after then (Some (acc @ [x]), after)
       else if \<not> peekIs CHR '' '' after then (None, after)
       else innerLoop (acc @ [x]) (skipSP after))"
    using item c lead_not_peek[OF c(2)] by (subst innerLoop.simps) (simp add: Let_def skipSP_id)
  also have "\<dots> = (Some (acc @ x # xs), 41 # rest)"
  proof (cases "us = []")
    case True
    then have "xs = []" using mapR_length[OF t(2)] by simp
    with True show ?thesis by (simp add: after_def peekIs_def)
  next
    case False
    then obtain d v where d: "joinWith [32] us @ 41 # rest = d # v" "bareLead d" using next_lead by blast
    have "skipSP after = joinWith [32] us @ 41 # rest"
      using False lead_not_peek[OF d(2)] by (simp add: after_def d(1) skipSP_def)
    moreover have "innerLoop (acc @ [x]) (joinWith [32] us @ 41 # rest) = (Some (acc @ x # xs), 41 # rest)"
      using Cons.IH[OF t(2), of "acc @ [x]"] Cons.prems(2) by simp
    ultimately show ?thesis using False by (simp add: after_def peekIs_def)
  qed
  finally show ?case by (simp only: s)
qed

lemma inner_roundtrip:
  assumes "innerOk inner" "serializeInnerList inner = Inr t" "paramStop True rest"
  shows "parseInnerList (t @ rest) = (Some inner, rest)"
proof -
  obtain ts u where u: "mapR serializeItem (innerItems inner) = Inr ts" "serializeParams (innerParams inner) = Inr u"
    "t = 40 # joinWith [32] ts @ 41 # u"
    using assms(2) by (auto simp: serializeInnerList_def err_simps)
  have "innerLoop [] (joinWith [32] ts @ 41 # u @ rest) = (Some (innerItems inner), 41 # u @ rest)"
    using innerLoop_print[OF u(1), of "[]" "u @ rest"] assms(1) by (simp add: innerAll_def)
  moreover have "parseParameters True (u @ rest) = (innerParams inner, rest)"
    by (rule parseParameters_print[OF _ u(2) assms(3)]) (use assms(1) in \<open>simp add: innerAll_def\<close>)
  ultimately show ?thesis by (simp add: u(3) parseInnerList_def peekIs_def)
qed

lemma inner_serializes: "innerOk inner \<Longrightarrow> \<exists>t. serializeInnerList inner = Inr t"
  using item.all_printed[of "innerItems inner"] params_serialize[of "innerParams inner"]
  by (auto simp: innerAll_def serializeInnerList_def)

interpretation inner: prefix_syntax parseInnerList serializeInnerList innerOk "paramStop True"
  by (rule prefix_syntax.intro) (fact inner_serializes inner_roundtrip paramStop_Nil)+

definition memberAll :: "(sfBareItem \<Rightarrow> bool) \<Rightarrow> sfMember \<Rightarrow> bool" where
  "memberAll P m = (case m of ItemMember item \<Rightarrow> itemAll P item | ListMember inner \<Rightarrow> innerAll P inner)"

abbreviation memberOk :: "sfMember \<Rightarrow> bool" where
  "memberOk \<equiv> memberAll bareOk"

lemma member_lead: "serializeMember m = Inr t \<Longrightarrow> \<exists>c u. t = c # u \<and> c \<noteq> 32 \<and> c \<noteq> 9"
proof (cases m)
  case (ItemMember item)
  assume "serializeMember m = Inr t"
  then have "serializeItem item = Inr t" by (simp add: ItemMember serializeMember_def)
  from item_lead[OF this] obtain c u where c: "t = c # u" "bareLead c" by blast
  show ?thesis using c(1) bareLead_not[OF c(2)] by simp
qed (auto simp: serializeMember_def serializeInnerList_def err_simps)

lemma member_roundtrip:
  assumes "memberOk m" "serializeMember m = Inr t" "paramStop True rest"
  shows "parseMember (t @ rest) = (Some m, rest)"
proof (cases m)
  case (ItemMember item)
  then have "serializeItem item = Inr t" using assms(2) by (simp add: serializeMember_def)
  moreover obtain c u where "t = c # u" "bareLead c" using item_lead[OF \<open>serializeItem item = Inr t\<close>] by blast
  ultimately show ?thesis
    using lead_not_peek[of c "u @ rest"] item.parse_print[of item t True rest] assms(1,3)
    by (simp add: ItemMember memberAll_def parseMember_def parseItem_def mapParsed_def)
next
  case (ListMember inner)
  then have s: "serializeInnerList inner = Inr t" using assms(2) by (simp add: serializeMember_def)
  then have "peekIs CHR ''('' (t @ rest)"
    by (auto simp: serializeInnerList_def err_simps peekIs_def)
  with s inner.parse_print[of inner t rest] assms(1,3) show ?thesis
    by (simp add: ListMember memberAll_def parseMember_def mapParsed_def)
qed

lemma member_serializes: "memberOk m \<Longrightarrow> \<exists>t. serializeMember m = Inr t"
  by (cases m) (auto simp: memberAll_def serializeMember_def item_serializes inner_serializes)

interpretation member: prefix_syntax parseMember serializeMember memberOk "paramStop True"
  by (rule prefix_syntax.intro) (fact member_serializes member_roundtrip paramStop_Nil)+

section \<open>Lists\<close>

lemma listLoop_print:
  "mapR serializeMember ms = Inr ts \<Longrightarrow> list_all memberOk ms \<Longrightarrow>
    listLoop acc (joinWith [44, 32] ts) = (Some (acc @ ms), [])"
proof (induction ms arbitrary: acc ts)
  case Nil
  then show ?case by (simp add: listLoop.simps[of acc "[]"] skipOWS_def)
next
  case (Cons m ms)
  then obtain t us where t: "serializeMember m = Inr t" "mapR serializeMember ms = Inr us" "ts = t # us"
    by (auto split: sum.splits)
  obtain c w where c: "t = c # w" "c \<noteq> 32" "c \<noteq> 9" using member_lead[OF t(1)] by blast
  define after where "after = (if us = [] then [] else 44 # 32 # joinWith [44, 32] us)"
  have s: "joinWith [44, 32] ts = t @ after" by (cases us) (simp_all add: t(3) after_def)
  have "paramStop True after" by (simp add: after_def paramStop_Nil paramStop_comma)
  from member.parse_print[OF _ t(1) this] Cons.prems(2) have m: "parseMember (t @ after) = (Some m, after)" by simp
  have "skipOWS after = after" by (simp add: after_def skipOWS_def)
  then have "listLoop acc (t @ after) =
      (if after = [] then (Some (acc @ [m]), after)
       else if peekIs CHR '','' after then
         (if skipOWS (tl after) = [] then (None, skipOWS (tl after)) else listLoop (acc @ [m]) (skipOWS (tl after)))
       else (None, after))"
    using m c by (subst listLoop.simps) (simp add: Let_def skipOWS_id)
  also have "\<dots> = (Some (acc @ m # ms), [])"
  proof (cases "us = []")
    case True
    then have "ms = []" using mapR_length[OF t(2)] by simp
    with True show ?thesis by (simp add: after_def)
  next
    case False
    then obtain u us' where us: "us = u # us'" by (cases us) auto
    then obtain y where "serializeMember y = Inr u" using t(2) by (cases ms) (auto split: sum.splits)
    then obtain d v where d: "u = d # v" "d \<noteq> 32" "d \<noteq> 9" using member_lead by blast
    have "skipOWS (32 # joinWith [44, 32] us) = joinWith [44, 32] us" "joinWith [44, 32] us \<noteq> []"
      by (cases us'; simp add: us d skipOWS_def)+
    moreover have "listLoop (acc @ [m]) (joinWith [44, 32] us) = (Some (acc @ m # ms), [])"
      using Cons.IH[OF t(2), of "acc @ [m]"] Cons.prems(2) by simp
    ultimately show ?thesis using False by (simp add: after_def peekIs_def)
  qed
  finally show ?case by (simp only: s)
qed

section \<open>Dictionaries\<close>

definition dictAll :: "(sfBareItem \<Rightarrow> bool) \<Rightarrow> sfDictionary \<Rightarrow> bool" where
  "dictAll P dict \<longleftrightarrow> distinct (map fst dict) \<and> list_all (\<lambda>(k, m). sfKeyText k \<and> memberAll P m) dict"

abbreviation dictOk :: "sfDictionary \<Rightarrow> bool" where
  "dictOk \<equiv> dictAll bareOk"

lemma dictMember_lead: "serializeDictMember (k, m) = Inr t \<Longrightarrow> \<exists>c u. t = c # u \<and> c \<noteq> 32 \<and> c \<noteq> 9"
  by (auto simp: serializeDictMember_def err_simps dest!: sfKeyText_first split: if_splits sfMember.splits)

lemma dictMember_print:
  assumes "sfKeyText k" "memberOk m" "serializeDictMember (k, m) = Inr t" "paramStop True rest"
  obtains s where "parseKey (t @ rest) = (Some k, s)" "parseDictValue (skipOWS s) = (Some m, rest)"
proof -
  obtain c u where k: "k = c # u" "c \<noteq> 32" "c \<noteq> 9" using sfKeyText_first[OF assms(1)] by blast
  have key: "parseKey (k @ r) = (Some k, r)" if "r = [] \<or> \<not> isKeyChar (hd r)" for r
    using parseKey_text[OF assms(1) that] k by (simp add: skipOWS_id)
  show ?thesis
  proof (cases "\<exists>item. m = ItemMember item \<and> itemValue item = SfBoolean True")
    case True
    then obtain item where item: "m = ItemMember item" "itemValue item = SfBoolean True" by blast
    then obtain w where w: "serializeParams (itemParams item) = Inr w" "t = k @ w"
      using assms(1,3) by (auto simp: serializeDictMember_def err_simps)
    have tail: "w @ rest = rest \<or> (\<exists>v. w @ rest = 59 # v)" using serializeParams_first[OF w(1)] by auto
    have "bareStop (w @ rest)" by (rule bareStop_params[OF w(1) assms(4)])
    then have 1: "parseKey (t @ rest) = (Some k, w @ rest)"
      using key[of "w @ rest"] isKeyChar_token by (auto simp: w(2) bareStop_def)
    have "skipOWS (w @ rest) = w @ rest" "\<not> peekIs CHR ''='' (w @ rest)"
      using tail assms(4) by (auto simp: paramStop_def skipOWS_id peekIs_def[of "CHR ''=''" "59 # _"])
    moreover have "parseParameters True (w @ rest) = (itemParams item, rest)"
      by (rule parseParameters_print[OF _ w(1) assms(4)])
        (use assms(2) in \<open>simp add: item memberAll_def itemAll_def\<close>)
    moreover have "item = \<lparr>itemValue = SfBoolean True, itemParams = itemParams item\<rparr>" using item(2) by simp
    ultimately have "parseDictValue (skipOWS (w @ rest)) = (Some m, rest)"
      by (simp add: parseDictValue_def item(1))
    with 1 show ?thesis by (rule that)
  next
    case False
    then obtain w where w: "serializeMember m = Inr w" "t = k @ 61 # w"
      using assms(1,3)
      by (cases m) (auto simp: serializeDictMember_def serializeMember_def err_simps split: if_splits)
    have 1: "parseKey (t @ rest) = (Some k, 61 # w @ rest)" using key[of "61 # w @ rest"] by (simp add: w(2) isKeyChar_def)
    obtain d v where d: "w = d # v" "d \<noteq> 32" "d \<noteq> 9" using member_lead[OF w(1)] by blast
    have "parseMember (w @ rest) = (Some m, rest)" by (rule member.parse_print[OF assms(2) w(1) assms(4)])
    then have "parseDictValue (skipOWS (61 # w @ rest)) = (Some m, rest)"
      using d by (simp add: parseDictValue_def skipOWS_id peekIs_def)
    with 1 show ?thesis by (rule that)
  qed
qed

lemma dictionaryLoop_print:
  "mapR serializeDictMember kvs = Inr ts \<Longrightarrow> dictOk (acc @ kvs) \<Longrightarrow>
    dictionaryLoop acc (joinWith [44, 32] ts) = (Some (acc @ kvs), [])"
proof (induction kvs arbitrary: acc ts)
  case Nil
  then show ?case by (simp add: dictionaryLoop.simps[of acc "[]"] skipOWS_def)
next
  case (Cons kv kvs)
  obtain k m where kv: "kv = (k, m)" by force
  with Cons.prems obtain t us where t: "serializeDictMember (k, m) = Inr t" "mapR serializeDictMember kvs = Inr us"
    "ts = t # us" by (auto split: sum.splits)
  obtain c w where c: "t = c # w" "c \<noteq> 32" "c \<noteq> 9" using dictMember_lead[OF t(1)] by blast
  define after where "after = (if us = [] then [] else 44 # 32 # joinWith [44, 32] us)"
  have s: "joinWith [44, 32] ts = t @ after" by (cases us) (simp_all add: t(3) after_def)
  have ok: "sfKeyText k" "memberOk m" "k \<notin> fst ` set acc" using Cons.prems(2) by (auto simp: kv dictAll_def)
  have "paramStop True after" by (simp add: after_def paramStop_Nil paramStop_comma)
  from dictMember_print[OF ok(1,2) t(1) this] obtain r where
    r: "parseKey (t @ after) = (Some k, r)" "parseDictValue (skipOWS r) = (Some m, after)" by blast
  have "skipOWS after = after" by (simp add: after_def skipOWS_def)
  then have "dictionaryLoop acc (t @ after) =
      (if after = [] then (Some (acc @ [kv]), after)
       else if peekIs CHR '','' after then
         (if skipOWS (tl after) = [] then (None, skipOWS (tl after)) else dictionaryLoop (acc @ [kv]) (skipOWS (tl after)))
       else (None, after))"
    using r c objPut_new[OF ok(1,3)] by (subst dictionaryLoop.simps) (simp add: Let_def skipOWS_id kv)
  also have "\<dots> = (Some (acc @ kv # kvs), [])"
  proof (cases "us = []")
    case True
    then have "kvs = []" using mapR_length[OF t(2)] by simp
    with True show ?thesis by (simp add: after_def)
  next
    case False
    then obtain u us' where us: "us = u # us'" by (cases us) auto
    then obtain y where "serializeDictMember y = Inr u" using t(2) by (cases kvs) (auto split: sum.splits)
    then obtain d v where d: "u = d # v" "d \<noteq> 32" "d \<noteq> 9" using dictMember_lead by (metis surj_pair)
    have "skipOWS (32 # joinWith [44, 32] us) = joinWith [44, 32] us" "joinWith [44, 32] us \<noteq> []"
      by (cases us'; simp add: us d skipOWS_def)+
    moreover have "dictionaryLoop (acc @ [kv]) (joinWith [44, 32] us) = (Some (acc @ kv # kvs), [])"
      using Cons.IH[OF t(2), of "acc @ [kv]"] Cons.prems(2) by simp
    ultimately show ?thesis using False by (simp add: after_def peekIs_def)
  qed
  finally show ?case by (simp only: s)
qed

section \<open>What the parsers accept\<close>

lemma parseDec_bound: "list_all isDigit ds \<Longrightarrow> length ds \<le> k \<Longrightarrow> parseDec ds < 10 ^ k"
  using readDigits_bound[of ds 0] power_increasing[of "length ds" k "10::nat"]
  unfolding parseDec_def by (simp del: power_increasing_iff)

lemma signedDigits_digits: "signedDigits s = Some (neg, ds, r) \<Longrightarrow> list_all isDigit ds"
  by (auto simp: signedDigits_def Let_def list_all_iff dest: set_takeWhileD split: if_splits)

lemma numberExact_int: "\<bar>n\<bar> < 10 ^ 15 \<Longrightarrow> numberExact (Fin (of_int n))"
  by (simp add: numberExact_def)

lemma numberExact_round:
  assumes "\<bar>N\<bar> < 10 ^ 15"
  shows "numberExact (roundDouble N 1000)"
proof -
  obtain q where q: "roundDouble N 1000 = Fin q" "of_int N / 1000 - 1 / 16384 \<le> q" "q \<le> of_int N / 1000 + 1 / 16384"
    by (rule decimal_near[OF assms])
  show ?thesis
  proof (cases "isIntegerNum (Fin q)")
    case True
    then obtain n where n: "Fin q = Fin (of_int n)" by (auto simp: isIntegerNum_iff)
    have "(of_int N :: rat) < of_int (10 ^ 15)" "of_int (- (10 ^ 15)) < (of_int N :: rat)"
      using assms by (simp_all only: of_int_less_iff)
    then have "q < 10 ^ 15" "- (10 ^ 15) < q" using q(2,3) by simp_all
    then have "(of_int n :: rat) < of_int (10 ^ 15)" "of_int (- (10 ^ 15)) < (of_int n :: rat)" using n by simp_all
    then have "\<bar>n\<bar> < 10 ^ 15" by (simp only: of_int_less_iff)
    then show ?thesis unfolding q(1) n by (rule numberExact_int)
  next
    case False
    with q(1) rounded_exact[OF q(1) assms] show ?thesis by (simp add: numberExact_def)
  qed
qed

lemma signed_bound: "m < 10 ^ 15 \<Longrightarrow> \<bar>if neg then - int m else int m\<bar> < 10 ^ 15"
  by auto

lemma parseInteger_ok: "parseInteger s = (Some v, r) \<Longrightarrow> isIntegerNum v \<and> \<bar>intOfNum v\<bar> < 10 ^ 15"
proof -
  assume a: "parseInteger s = (Some v, r)"
  then obtain neg ds r' where d: "signedDigits s = Some (neg, ds, r')" "length ds \<le> 15" "v = numberOfParts neg ds [] 0"
    by (auto simp: parseInteger_def Let_def split: option.splits if_splits)
  have b: "parseDec ds < 10 ^ 15" by (rule parseDec_bound[OF signedDigits_digits[OF d(1)] d(2)])
  then have "v = Fin (of_int (if neg then - int (parseDec ds) else int (parseDec ds)))"
    unfolding d(3) by (intro numberOfParts_int) simp
  with signed_bound[OF b] show ?thesis by (simp only: isIntegerNum_of_int intOfNum_of_int)
qed

lemma parseNumber_ok: "parseNumber s = (Some v, r) \<Longrightarrow> numberExact v"
proof -
  assume a: "parseNumber s = (Some v, r)"
  then obtain neg ip rest fp where p: "signedDigits s = Some (neg, ip, rest)" "v = numberOfParts neg ip fp 0"
    "if fp = [] then length ip \<le> 15 else length ip \<le> 12 \<and> length fp \<le> 3"
    and fp: "fp = (if peekIs CHR ''.'' rest then take 3 (takeWhile isDigit (tl rest)) else [])"
    by (auto simp: parseNumber_def Let_def split: option.splits if_splits)
  have ip: "list_all isDigit ip" by (rule signedDigits_digits[OF p(1)])
  have digits: "list_all isDigit (ip @ fp)"
    using ip by (auto simp: fp list_all_iff dest!: in_set_takeD set_takeWhileD)
  show ?thesis
  proof (cases "fp = []")
    case True
    have b: "parseDec ip < 10 ^ 15" by (rule parseDec_bound[OF ip]) (use p(3) True in simp)
    then have "v = Fin (of_int (if neg then - int (parseDec ip) else int (parseDec ip)))"
      unfolding p(2) True by (intro numberOfParts_int) simp
    with numberExact_int[OF signed_bound[OF b]] show ?thesis by metis
  next
    case False
    define j where "j = 3 - length fp"
    define n where "n = (if neg then - int (parseDec (ip @ fp)) else int (parseDec (ip @ fp)))"
    have j: "length fp + j = 3" using p(3) False by (simp add: j_def)
    have "v = roundDouble n (10 ^ length fp)"
      using False by (simp add: p(2) numberOfParts_def Let_def n_def)
    also have "\<dots> = roundDouble (n * 10 ^ j) (10 ^ length fp * 10 ^ j)" by (rule roundDouble_scale[symmetric]) auto
    also have "(10::int) ^ length fp * 10 ^ j = 1000" by (simp flip: power_add add: j)
    finally have v: "v = roundDouble (n * 10 ^ j) 1000" .
    have "parseDec ((ip @ fp) @ replicate j 48) < 10 ^ 15"
      by (rule parseDec_bound) (use digits p(3) False j in \<open>auto simp: list_all_iff isDigit_def\<close>)
    then have "parseDec (ip @ fp) * 10 ^ j < 10 ^ 15" by (simp only: parseDec_shift)
    from signed_bound[OF this, of neg] have "\<bar>n * 10 ^ j\<bar> < 10 ^ 15" by (simp add: n_def split: if_splits)
    then show ?thesis unfolding v by (rule numberExact_round)
  qed
qed

text \<open>
  What a parsed bare item is known to be: as \<open>bareOk\<close>, except that a display string may start with a
  byte order mark.
\<close>

fun leadingMark :: "sfBareItem \<Rightarrow> bool" where
  "leadingMark (SfDisplayString (c # cs)) = (c = 0xFEFF)"
| "leadingMark b = False"

fun bareParsed :: "sfBareItem \<Rightarrow> bool" where
  "bareParsed (SfDisplayString v) = (\<not> hasLoneSurrogate v \<and> list_all (\<lambda>c. c < 0x10000) v)"
| "bareParsed b = bareOk b"

lemma bareOk_iff: "bareOk b \<longleftrightarrow> bareParsed b \<and> \<not> leadingMark b"
  by (cases b rule: leadingMark.cases) auto

lemma stringChars_ok: "stringChars acc s = (Some v, r) \<Longrightarrow> list_all visible acc \<Longrightarrow> list_all visible v"
proof (induction acc s rule: stringChars.induct)
  case (2 acc char cs)
  show ?case
  proof (cases "char = 92")
    case True
    then obtain d ds where "cs = d # ds" "stringChars (acc @ [d]) ds = (Some v, r)" "d = 34 \<or> d = 92"
      using 2(3) by (auto split: list.splits if_splits)
    with True 2(1)[of d ds] 2(4) show ?thesis by (auto simp: visible_def)
  next
    case False
    show ?thesis
    proof (cases "char = 34")
      case True
      with 2(3,4) show ?thesis by simp
    next
      case plain: False
      then have "\<not> (char < 0x20 \<or> 0x7E < char)" "stringChars (acc @ [char]) cs = (Some v, r)"
        using 2(3) False by (simp_all split: if_splits)
      with plain False 2(2,4) show ?thesis by (simp add: visible_def)
    qed
  qed
qed simp

lemma displayChars_ok: "displayChars acc s = (Some v, r) \<Longrightarrow> \<exists>bs. decodeUtf8 bs = Some v"
proof (induction acc s rule: displayChars.induct)
  case (2 bytes char cs)
  show ?case
  proof (cases "char = cu CHR ''%''")
    case True
    then have ok: "\<not> (char < 0x20 \<or> 0x7E < char)" by simp
    have len: "\<not> (length (take 2 cs) < 2 \<or> \<not> list_all isLowerHex (take 2 cs))"
      using "2.prems" True by (auto simp: Let_def split: if_splits)
    then have "displayChars (bytes @ [word_of_nat (parseHex (take 2 cs))]) (drop 2 cs) = (Some v, r)"
      using "2.prems" True by (simp add: Let_def)
    from "2.IH"(1)[OF ok True refl len this] show ?thesis .
  next
    case other: False
    show ?thesis
    proof (cases "char = 34")
      case True
      then have "decodeUtf8 bytes = Some v" using "2.prems" by simp
      then show ?thesis by blast
    next
      case False
      then have r: "\<not> (char < 0x20 \<or> 0x7E < char)" "displayChars (bytes @ [word_of_nat char]) cs = (Some v, r)"
        using "2.prems" other by (simp_all split: if_splits)
      show ?thesis by (rule "2.IH"(2)[OF r(1) other False r(2)])
    qed
  qed
qed simp

lemma parseToken_ok: "parseToken s = (Some b, r) \<Longrightarrow> bareParsed b"
  by (auto simp: parseToken_def sfTokenText_def list_all_iff dest: set_takeWhileD split: list.splits if_splits)

lemma parseBareItem_ok:
  assumes "parseBareItem s = (Some b, r)"
  shows "bareParsed b"
proof -
  have "bareParsed b" if "parseDate s = (Some b, r)"
    using that parseInteger_ok by (auto simp: parseDate_def mapParsed_eq split: if_splits)
  moreover have "bareParsed b" if "parseDisplayString s = (Some b, r)"
    using that displayChars_ok[of "[]" "tl (tl s)"] decodeUtf8_units
    by (auto simp: parseDisplayString_def mapParsed_eq split: if_splits)
  moreover have "list_all visible v" if "parseString s = (Some v, r)" for v
    using that stringChars_ok[of "[]" "tl s" v r] by (simp add: parseString_def split: if_splits)
  ultimately show ?thesis
    using assms parseToken_ok[of s b r] parseNumber_ok[of s _ r]
    by (auto simp: parseBareItem_def mapParsed_eq split: list.splits if_splits)
qed

lemma parseKey_ok: "parseKey s = (Some k, r) \<Longrightarrow> sfKeyText k"
  by (auto simp: parseKey_def sfKeyText_def list_all_iff dest: set_takeWhileD split: list.splits if_splits)

lemma objPut_ok:
  assumes "distinct (map fst ps)" "list_all (\<lambda>(k, v). sfKeyText k \<and> P v) ps" "sfKeyText k" "P v"
  shows "distinct (map fst (objPut k v ps)) \<and> list_all (\<lambda>(k, v). sfKeyText k \<and> P v) (objPut k v ps) \<and> objPut k v ps \<noteq> []"
proof (cases "hasOwnKey ps k")
  case True
  have "set (replaceKey k v ps) \<subseteq> insert (k, v) (set ps)" by (induction ps) (auto split: if_splits)
  moreover have "ps \<noteq> []" "map fst (replaceKey k v ps) = map fst ps" using True by (auto simp: hasOwnKey_def)
  moreover have "list_all (\<lambda>(k, v). sfKeyText k \<and> P v) (replaceKey k v ps)"
    using calculation(1) assms(2-4) by (auto simp: list_all_iff)
  moreover have "replaceKey k v ps \<noteq> []" using calculation(2,3) by (metis map_is_Nil_conv)
  ultimately show ?thesis using assms(1) True by (auto simp: objPut_def)
next
  case False
  then show ?thesis using assms by (simp add: objPut_new hasOwnKey_def)
qed

lemma parameterLoop_ok:
  "parameterLoop allow acc s = (params, r) \<Longrightarrow> distinct (map fst acc) \<Longrightarrow>
    list_all (\<lambda>(k, v). sfKeyText k \<and> bareParsed v) acc \<Longrightarrow> paramsAll bareParsed params"
proof (induction allow acc s rule: parameterLoop.induct)
  case (1 allow acc s)
  let ?s0 = "if allow then skipOWS s else s"
  show ?case
  proof (cases "peekIs CHR '';'' ?s0")
    case False
    with 1(3-5) show ?thesis
      by (subst (asm) parameterLoop.simps) (auto simp: Let_def paramsAll_def split: if_splits)
  next
    case semi: True
    obtain k s1 where key: "parseKey (skipOWS (tl ?s0)) = (k, s1)" by fastforce
    show ?thesis
    proof (cases k)
      case None
      with semi key 1(3) show ?thesis
        by (subst (asm) parameterLoop.simps) (auto simp: Let_def paramsAll_def)
    next
      case (Some name)
      have name: "sfKeyText name" using parseKey_ok key Some by blast
      note IH = "1.IH"[OF refl _ key[symmetric] Some refl]
      obtain v s3 where bare: "parseBareItem (skipOWS (tl (skipOWS s1))) = (v, s3)" by fastforce
      consider (none) "peekIs CHR ''='' (skipOWS s1)" "v = None"
        | (given) x where "peekIs CHR ''='' (skipOWS s1)" "v = Some x"
        | (true) "\<not> peekIs CHR ''='' (skipOWS s1)" by fastforce
      then show ?thesis
      proof cases
        case none
        with semi key Some bare 1(3) show ?thesis
          by (subst (asm) parameterLoop.simps) (auto simp: Let_def paramsAll_def)
      next
        case (given x)
        have r: "parameterLoop allow (objPut name x acc) s3 = (params, r)"
          using semi key Some bare given 1(3) by (subst (asm) parameterLoop.simps) (simp add: Let_def)
        have "bareParsed x" using parseBareItem_ok bare given(2) by blast
        from objPut_ok[where P = bareParsed, OF 1(4,5) name this] show ?thesis
          using IH(1)[OF _ given(1) bare[symmetric] given(2) r] semi by blast
      next
        case true
        have r: "parameterLoop allow (objPut name (SfBoolean True) acc) s1 = (params, r)"
          using semi key Some true 1(3) by (subst (asm) parameterLoop.simps) (simp add: Let_def)
        have "bareParsed (SfBoolean True)" by simp
        from objPut_ok[where P = bareParsed, OF 1(4,5) name this] show ?thesis
          using IH(2)[OF _ true r] semi by blast
      qed
    qed
  qed
qed

lemma parseParameters_ok: "parseParameters allow s = (params, r) \<Longrightarrow> paramsAll bareParsed params"
  unfolding parseParameters_def by (erule parameterLoop_ok) simp_all

lemma parseItemWith_ok: "parseItemWithParameterOWS allow s = (Some item, r) \<Longrightarrow> itemAll bareParsed item"
  by (auto simp: parseItemWithParameterOWS_def itemAll_def split: prod.splits option.splits
      dest: parseBareItem_ok parseParameters_ok)

lemma innerLoop_ok:
  "innerLoop acc s = (Some items, r) \<Longrightarrow> list_all (itemAll bareParsed) acc \<Longrightarrow> list_all (itemAll bareParsed) items"
proof (induction acc s rule: innerLoop.induct)
  case (1 acc s)
  show ?case
  proof (cases "s = [] \<or> peekIs CHR '')'' (skipSP s)")
    case True
    with 1(2,3) show ?thesis by (subst (asm) innerLoop.simps) (auto simp: Let_def split: if_splits)
  next
    case False
    then obtain item s2 where item: "parseItemWithParameterOWS False (skipSP s) = (Some item, s2)"
      using 1(2) by (subst (asm) innerLoop.simps) (auto simp: Let_def split: prod.splits option.splits)
    have ok: "list_all (itemAll bareParsed) (acc @ [item])" using parseItemWith_ok[OF item] 1(3) by simp
    show ?thesis
    proof (cases "peekIs CHR '')'' s2")
      case True
      with False item 1(2) ok show ?thesis by (subst (asm) innerLoop.simps) (auto simp: Let_def)
    next
      case next_item: False
      then have sp: "peekIs CHR '' '' s2" "innerLoop (acc @ [item]) (skipSP s2) = (Some items, r)"
        using False item 1(2) by (subst (asm) innerLoop.simps; auto simp: Let_def split: if_splits)+
      show ?thesis
        by (rule "1.IH"[OF _ refl _ item[symmetric] refl next_item _ sp(2) ok]) (use False sp(1) in auto)
    qed
  qed
qed

lemma parseMember_ok: "parseMember s = (Some m, r) \<Longrightarrow> memberAll bareParsed m"
proof (cases "peekIs CHR ''('' s")
  case True
  assume "parseMember s = (Some m, r)"
  with True obtain inner where m: "m = ListMember inner" "parseInnerList s = (Some inner, r)"
    by (auto simp: parseMember_def mapParsed_eq)
  then obtain items s1 s2 where i: "innerLoop [] (tl s) = (Some items, s1)" "innerItems inner = items"
    "parseParameters True (tl s1) = (innerParams inner, s2)"
    by (auto simp: parseInnerList_def split: prod.splits option.splits if_splits)
  with innerLoop_ok[OF i(1)] parseParameters_ok[OF i(3)] show ?thesis by (simp add: m(1) memberAll_def innerAll_def)
next
  case False
  assume "parseMember s = (Some m, r)"
  with False show ?thesis
    by (auto simp: parseMember_def mapParsed_eq parseItem_def memberAll_def dest: parseItemWith_ok)
qed

lemma listLoop_ok:
  "listLoop acc s = (Some ms, r) \<Longrightarrow> list_all (memberAll bareParsed) acc \<Longrightarrow> list_all (memberAll bareParsed) ms"
proof (induction acc s rule: listLoop.induct)
  case (1 acc s)
  show ?case
  proof (cases "skipOWS s = []")
    case True
    with 1(2,3) show ?thesis by (subst (asm) listLoop.simps) (auto simp: Let_def)
  next
    case False
    then obtain m s2 where m: "parseMember (skipOWS s) = (Some m, s2)"
      using 1(2) by (subst (asm) listLoop.simps) (auto simp: Let_def split: prod.splits option.splits)
    have ok: "list_all (memberAll bareParsed) (acc @ [m])" using parseMember_ok[OF m] 1(3) by simp
    show ?thesis
    proof (cases "skipOWS s2 = []")
      case True
      with False m 1(2) ok show ?thesis by (subst (asm) listLoop.simps) (auto simp: Let_def)
    next
      case more: False
      then have r: "peekIs CHR '','' (skipOWS s2)" "skipOWS (tl (skipOWS s2)) \<noteq> []"
        "listLoop (acc @ [m]) (skipOWS (tl (skipOWS s2))) = (Some ms, r)"
        using False m 1(2) by (subst (asm) listLoop.simps; auto simp: Let_def split: if_splits)+
      show ?thesis by (rule "1.IH"[OF refl False m[symmetric] refl refl more r(1) refl r(2,3) ok])
    qed
  qed
qed

lemma parseDictValue_ok: "parseDictValue s = (Some m, r) \<Longrightarrow> memberAll bareParsed m"
proof (cases "peekIs CHR ''='' s")
  case True
  assume "parseDictValue s = (Some m, r)"
  with True show ?thesis by (auto simp: parseDictValue_def dest: parseMember_ok)
next
  case False
  assume "parseDictValue s = (Some m, r)"
  with False show ?thesis
    by (auto simp: parseDictValue_def memberAll_def itemAll_def split: prod.splits dest: parseParameters_ok)
qed

lemma dictionaryLoop_ok:
  "dictionaryLoop acc s = (Some dict, r) \<Longrightarrow> dictAll bareParsed acc \<Longrightarrow> dictAll bareParsed dict"
proof (induction acc s rule: dictionaryLoop.induct)
  case (1 acc s)
  show ?case
  proof (cases "skipOWS s = []")
    case True
    with 1(2,3) show ?thesis by (subst (asm) dictionaryLoop.simps) (auto simp: Let_def)
  next
    case False
    then obtain k s2 m s3 where km: "parseKey (skipOWS s) = (Some k, s2)" "parseDictValue (skipOWS s2) = (Some m, s3)"
      using 1(2) by (subst (asm) dictionaryLoop.simps) (auto simp: Let_def split: prod.splits option.splits)
    have ok: "dictAll bareParsed (objPut k m acc)"
      using objPut_ok[where P = "memberAll bareParsed", OF _ _ parseKey_ok[OF km(1)] parseDictValue_ok[OF km(2)]] 1(3)
      by (simp add: dictAll_def)
    show ?thesis
    proof (cases "skipOWS s3 = []")
      case True
      with False km 1(2) ok show ?thesis by (subst (asm) dictionaryLoop.simps) (auto simp: Let_def)
    next
      case more: False
      then have r: "peekIs CHR '','' (skipOWS s3)" "skipOWS (tl (skipOWS s3)) \<noteq> []"
        "dictionaryLoop (objPut k m acc) (skipOWS (tl (skipOWS s3))) = (Some dict, r)"
        using False km 1(2) by (subst (asm) dictionaryLoop.simps; auto simp: Let_def split: if_splits)+
      show ?thesis
        by (rule "1.IH"[OF refl False km(1)[symmetric] refl km(2)[symmetric] refl refl refl more r(1) refl r(2,3) ok])
    qed
  qed
qed

section \<open>Properties\<close>

definition noMark :: "sfBareItem \<Rightarrow> bool" where
  "noMark b \<longleftrightarrow> \<not> leadingMark b"

lemma paramsAll_both: "paramsAll bareParsed ps \<Longrightarrow> paramsAll noMark ps \<Longrightarrow> paramsAll bareOk ps"
  by (auto simp: paramsAll_def bareOk_iff noMark_def list_all_iff split: option.splits)

lemma itemAll_both: "itemAll bareParsed i \<Longrightarrow> itemAll noMark i \<Longrightarrow> itemAll bareOk i"
  by (simp add: itemAll_def paramsAll_both bareOk_iff noMark_def)

lemma memberAll_both: "memberAll bareParsed m \<Longrightarrow> memberAll noMark m \<Longrightarrow> memberAll bareOk m"
  by (auto simp: memberAll_def innerAll_def itemAll_both paramsAll_both list_all_iff split: sfMember.splits)

lemma dictAll_both: "dictAll bareParsed d \<Longrightarrow> dictAll noMark d \<Longrightarrow> dictAll bareOk d"
  by (simp add: dictAll_def list_all_iff case_prod_beta memberAll_both)

lemma listText:
  assumes "list_all memberOk members"
  shows "\<exists>t. serializeSfList members = Inr t \<and> parseSfList t = Some members"
proof -
  obtain ts where ts: "mapR serializeMember members = Inr ts" using member.all_printed[OF assms] by blast
  from listLoop_print[OF this assms, of "[]"] show ?thesis
    by (simp add: serializeSfList_def ts parseSfList_def parseList_def atEndOnly_def sfIsAtEnd_def)
qed

lemma dictText:
  assumes "dictOk dict"
  shows "\<exists>t. serializeSfDict dict = Inr t \<and> parseSfDict t = Some dict"
proof -
  have "\<exists>t. serializeDictMember kv = Inr t" if "kv \<in> set dict" for kv
  proof -
    obtain k m where kv: "kv = (k, m)" by force
    then have ok: "sfKeyText k" "memberOk m" using that assms by (auto simp: dictAll_def list_all_iff)
    from member_serializes[OF ok(2)] obtain t where "serializeMember m = Inr t" by blast
    moreover have "m = ItemMember item \<Longrightarrow> \<exists>t. serializeParams (itemParams item) = Inr t" for item
      using ok(2) params_serialize by (simp add: memberAll_def itemAll_def)
    ultimately show ?thesis using ok(1)
      by (cases m) (auto simp: kv serializeDictMember_def serializeMember_def)
  qed
  then obtain ts where ts: "mapR serializeDictMember dict = Inr ts" using mapR_no_error by blast
  from dictionaryLoop_print[OF this, of "[]"] assms show ?thesis
    by (simp add: serializeSfDict_def ts parseSfDict_def parseDictionary_def atEndOnly_def sfIsAtEnd_def)
qed

lemma paramList_last:
  "serializeParamList ps = Inr t \<Longrightarrow> list_all (\<lambda>(k, v). sfKeyText k \<and> bareOk v) ps \<Longrightarrow>
    t = [] \<or> \<not> isJsSpace (last t)"
proof (induction ps arbitrary: t)
  case (Cons kv ps)
  obtain k v where kv: "kv = (k, v)" by force
  have k: "sfKeyText k" "bareOk v" using Cons.prems(2) by (simp_all add: kv)
  then have "k \<noteq> []" "\<forall>c\<in>set k. \<not> isJsSpace c"
    by (auto simp: sfKeyText_def isKeyStart_def isKeyChar_def isJsSpace_def list_all_iff split: list.splits)
  then have lastk: "k \<noteq> [] \<and> \<not> isJsSpace (last k)" by simp
  obtain w u where u: "serializeParamList ps = Inr u" "t = w @ u" and w: "w \<noteq> [] \<and> \<not> isJsSpace (last w)"
    using Cons.prems(1) lastk bare_last[OF k(2)] by (auto simp: kv err_simps split: if_splits)
  from Cons.IH[OF u(1)] Cons.prems(2) w show ?case by (auto simp: u(2) last_append)
qed simp

lemma item_trim: "itemOk item \<Longrightarrow> serializeItem item = Inr t \<Longrightarrow> jsTrim t = t"
proof -
  assume a: "itemOk item" "serializeItem item = Inr t"
  then obtain u w where u: "serializeBareItem (itemValue item) = Inr u" "serializeParams (itemParams item) = Inr w" "t = u @ w"
    by (auto simp: serializeItem_def err_simps)
  have "u \<noteq> [] \<and> \<not> isJsSpace (last u)" by (rule bare_last[OF _ u(1)]) (use a in \<open>simp add: itemAll_def\<close>)
  moreover have "w = [] \<or> \<not> isJsSpace (last w)"
    using a(1) u(2) paramList_last[of _ w] by (auto simp: itemAll_def paramsAll_def serializeParams_def split: option.splits)
  ultimately have "\<not> isJsSpace (last t)" by (auto simp: u(3) last_append)
  moreover obtain c v where c: "t = c # v" "bareLead c" using item_lead[OF a(2)] by blast
  ultimately show ?thesis using c bareLead_not[OF c(2)] by (intro jsTrim_id) simp
qed

lemma itemText:
  assumes "itemOk item"
  shows "\<exists>t. serializeSfItem item = Inr t \<and> parseSfItem t = Some item"
proof -
  obtain t where t: "serializeItem item = Inr t" using item_serializes[OF assms] by blast
  have "parseItemWithParameterOWS True t = (Some item, [])" by (rule item.parse_whole[OF assms t])
  then show ?thesis
    using item_trim[OF assms t]
    by (simp add: serializeSfItem_def t parseSfItem_def parseItem_def atEndOnly_def sfIsAtEnd_def)
qed

lemma parseSfList_ok: "parseSfList text = Some members \<Longrightarrow> list_all (memberAll bareParsed) members"
  by (auto simp: parseSfList_def atEndOnly_def parseList_def split: prod.splits option.splits if_splits
      dest: listLoop_ok)

lemma parseSfDict_ok: "parseSfDict text = Some dict \<Longrightarrow> dictAll bareParsed dict"
proof -
  assume "parseSfDict text = Some dict"
  then obtain r where r: "dictionaryLoop [] text = (Some dict, r)"
    by (auto simp: parseSfDict_def atEndOnly_def parseDictionary_def split: prod.splits option.splits if_splits)
  show ?thesis by (rule dictionaryLoop_ok[OF r]) (simp add: dictAll_def)
qed

text \<open>Sample values: a list of a token with a parameter and an inner list, and a dictionary.\<close>

definition sampleList :: sfList where
  "sampleList =
     [ItemMember \<lparr>itemValue = SfToken (lit ''gzip''), itemParams = Some [(lit ''q'', SfNumber (Fin 1)), (lit ''x'', SfBoolean True)]\<rparr>,
      ListMember \<lparr>innerItems = [\<lparr>itemValue = SfString (lit ''a b''), itemParams = None\<rparr>], innerParams = None\<rparr>]"

definition sampleDict :: sfDictionary where
  "sampleDict =
     [(lit ''u'', ItemMember \<lparr>itemValue = SfNumber (Fin 3), itemParams = None\<rparr>),
      (lit ''i'', ItemMember \<lparr>itemValue = SfBoolean True, itemParams = None\<rparr>)]"

lemma numberExact_numeral [simp]: "numberExact (Fin 1)" "numberExact (Fin 3)"
  using numberExact_int[of 1] numberExact_int[of 3] by simp_all

lemmas sample_eval = sampleList_def sampleDict_def memberAll_def itemAll_def innerAll_def paramsAll_def dictAll_def
  sfKeyText_def isKeyStart_def isKeyChar_def sfTokenText_def isTokenStart_def isTokenChar_def visible_def

lemma sampleList_ok: "list_all memberOk sampleList"
  by (simp add: sample_eval)

lemma sampleDict_ok: "dictOk sampleDict"
  by (simp add: sample_eval)

text \<open>C13 (sf_list_roundtrip): A list whose values the format carries exactly (integers of fifteen digits,
  decimals of three places, visible strings, tokens, bytes, dates, display strings of scalar values; keys
  valid and distinct; no empty parameters) is serialized without error, and parsing the text gives the
  same list back, inner lists, parameters and their order included.\<close>

theorem sf_list_roundtrip:
  assumes "list_all memberOk members"
  shows "\<exists>t. serializeSfList members = Inr t \<and> parseSfList t = Some members"
  by (rule listText[OF assms])

theorem sf_list_roundtrip_witness:
  "\<exists>t. serializeSfList sampleList = Inr t \<and> parseSfList t = Some sampleList"
  by (rule sf_list_roundtrip[OF sampleList_ok])

text \<open>C14 (sf_dict_roundtrip): The same for dictionaries: members keep their order, a member whose value
  is true is written as its key alone with its parameters, and comes back as such.\<close>

theorem sf_dict_roundtrip:
  assumes "dictOk dict"
  shows "\<exists>t. serializeSfDict dict = Inr t \<and> parseSfDict t = Some dict"
  by (rule dictText[OF assms])

theorem sf_dict_roundtrip_witness:
  "\<exists>t. serializeSfDict sampleDict = Inr t \<and> parseSfDict t = Some sampleDict"
  by (rule sf_dict_roundtrip[OF sampleDict_ok])

text \<open>The same for a single item, whose parser trims the input first.\<close>

theorem sf_item_roundtrip:
  assumes "itemOk item"
  shows "\<exists>t. serializeSfItem item = Inr t \<and> parseSfItem t = Some item"
  by (rule itemText[OF assms])

theorem sf_item_roundtrip_witness:
  "\<exists>t. serializeSfItem \<lparr>itemValue = SfNumber (Fin 3), itemParams = None\<rparr> = Inr t \<and>
    parseSfItem t = Some \<lparr>itemValue = SfNumber (Fin 3), itemParams = None\<rparr>"
  by (rule sf_item_roundtrip) (simp add: itemAll_def paramsAll_def)


text \<open>The text \<open>a,(b)\<close> with spaces it does not need.\<close>

lemma sampleText_parse:
  "parseSfList (lit '' a ,  b;c'') =
    Some [ItemMember \<lparr>itemValue = SfToken (lit ''a''), itemParams = None\<rparr>,
      ItemMember \<lparr>itemValue = SfToken (lit ''b''), itemParams = Some [(lit ''c'', SfBoolean True)]\<rparr>]"
  by code_simp


text \<open>A parsed dictionary has distinct valid keys and values the format carries,
  parameters included; without a leading byte order mark it serializes, and parses back to itself.\<close>

theorem sf_dict_parsed_ok:
  assumes "parseSfDict text = Some dict" and "dictAll noMark dict"
  shows "dictOk dict \<and> (\<exists>t. serializeSfDict dict = Inr t \<and> parseSfDict t = Some dict)"
  using dictAll_both[OF parseSfDict_ok[OF assms(1)] assms(2)] dictText by blast

lemma sampleDict_parse: "parseSfDict (lit ''u = ?0,i , u'') =
    Some [(lit ''u'', ItemMember \<lparr>itemValue = SfBoolean True, itemParams = None\<rparr>),
      (lit ''i'', ItemMember \<lparr>itemValue = SfBoolean True, itemParams = None\<rparr>)]"
  by code_simp

theorem sf_dict_parsed_ok_witness:
  "dictOk [(lit ''u'', ItemMember \<lparr>itemValue = SfBoolean True, itemParams = None\<rparr>),
      (lit ''i'', ItemMember \<lparr>itemValue = SfBoolean True, itemParams = None\<rparr>)]"
  using sf_dict_parsed_ok[OF sampleDict_parse]
  by (simp add: dictAll_def memberAll_def itemAll_def paramsAll_def noMark_def sfKeyText_def isKeyStart_def)

text \<open>Any number that serializes comes back as itself when it is an integer, and
  otherwise as the double nearest to its rounding to three decimal places: the digits written and the
  double read are computed with the rounding of the language, not idealized.\<close>

theorem sf_number_rounded:
  assumes "serializeSfItem \<lparr>itemValue = SfNumber v, itemParams = None\<rparr> = Inr t"
  shows "parseSfItem t = Some \<lparr>itemValue = SfNumber (numberCarried v), itemParams = None\<rparr>"
proof -
  have s: "serializeNumber v = Inr t"
    using assms by (auto simp: serializeSfItem_def serializeItem_def serializeParams_def err_simps)
  obtain c u where c: "t = c # u" "bareLead c" using bare_lead[of "SfNumber v"] s by auto
  have "jsTrim t = t"
    using c bareLead_not[OF c(2)] number_last[OF s] by (intro jsTrim_id) (auto simp: isDigit_def isJsSpace_def)
  moreover have "parseBareItem t = (Some (SfNumber (numberCarried v)), [])"
    using number_roundtrip[OF s, of "[]"] by (simp add: bareStop_def)
  moreover have "parseParameters True [] = (None, [])"
    using parseParameters_print[of None "[]" True "[]"] by (simp add: paramsAll_def serializeParams_def paramStop_Nil)
  ultimately show ?thesis
    by (simp add: parseSfItem_def parseItem_def parseItemWithParameterOWS_def atEndOnly_def sfIsAtEnd_def)
qed

lemma quarter_serialize: "serializeSfItem \<lparr>itemValue = SfNumber (Fin (5 / 4)), itemParams = None\<rparr> = Inr (lit ''1.25'')"
  by code_simp

theorem sf_number_rounded_witness:
  "parseSfItem (lit ''1.25'') = Some \<lparr>itemValue = SfNumber (numberCarried (Fin (5 / 4))), itemParams = None\<rparr>"
  by (rule sf_number_rounded[OF quarter_serialize])

text \<open>No serialized member is another one followed by a separator, a parenthesis or
  parameters: where one text extends another by something a member may be followed by, the values are
  equal and nothing is left.\<close>

theorem sf_unambiguous:
  assumes "memberOk m" "memberOk m'" "serializeMember m = Inr t" "serializeMember m' = Inr (t @ u)"
    and "u = [] \<or> hd u = cu CHR '',''"
  shows "m = m' \<and> u = []"
proof -
  have "paramStop True u" using assms(5) by (cases u) (auto simp: paramStop_Nil paramStop_comma)
  from member.prefix_free[OF assms(1-4) this] show ?thesis by simp
qed

theorem sf_unambiguous_witness:
  "ItemMember \<lparr>itemValue = SfToken (lit ''a''), itemParams = None\<rparr> =
     ItemMember \<lparr>itemValue = SfToken (lit ''a''), itemParams = None\<rparr> \<and> ([] :: jsstr) = []"
  by (rule sf_unambiguous[where t = "lit ''a''"])
    (simp_all add: memberAll_def itemAll_def paramsAll_def sfTokenText_def isTokenStart_def
      serializeMember_def serializeItem_def serializeParams_def)

lemma invisibleUnit_Some:
  "invisibleUnit k v = Some (code, j) \<longleftrightarrow>
    (\<exists>i < length v. j = k + i \<and> code = v ! i \<and> \<not> visible (v ! i) \<and> (\<forall>l < i. visible (v ! l)))"
proof (induction v arbitrary: k)
  case (Cons c cs)
  have "invisibleUnit k (c # cs) = (if visible c then invisibleUnit (Suc k) cs else Some (c, k))"
    by (auto simp: visible_def)
  then show ?case
    unfolding length_Cons Ex_less_Suc2 All_less_Suc2 using Cons.IH[of "Suc k"] by auto
qed simp

text \<open>Which error serialization reports, and when: a number that is not finite, an
  integer of more than fifteen digits, a decimal outside the range of the format, the first unit of a
  string that is not visible ASCII with its index, a malformed token, a lone surrogate. The remaining
  check of the code, on the digits of an encoded decimal, never fires.\<close>

theorem sf_bare_errors:
  "serializeBareItem b = Inl e \<longleftrightarrow>
    (case b of
       SfNumber v \<Rightarrow>
         (\<not> isFiniteNum v \<and> e = SfNotFinite v) \<or>
         (isIntegerNum v \<and> 10 ^ 15 \<le> \<bar>intOfNum v\<bar> \<and> e = SfIntegerRange v) \<or>
         (isFiniteNum v \<and> \<not> isIntegerNum v \<and> (v < sfMinDecimal \<or> sfMaxDecimal < v) \<and> e = SfDecimalRange v)
     | SfString v \<Rightarrow>
         (\<exists>i < length v. e = SfStringChar (v ! i) i \<and> \<not> visible (v ! i) \<and> (\<forall>j < i. visible (v ! j)))
     | SfToken v \<Rightarrow> \<not> sfTokenText v \<and> e = SfInvalidToken v
     | SfDisplayString v \<Rightarrow> hasLoneSurrogate v \<and> e = SfLoneSurrogate
     | _ \<Rightarrow> False)"
proof (cases b)
  case (SfNumber v)
  show ?thesis
  proof (cases v)
    case (Fin q)
    show ?thesis
    proof (cases "isIntegerNum v")
      case True
      then obtain n where n: "v = Fin (of_int n)" by (auto simp: isIntegerNum_iff)
      have "(of_int n :: rat) < - 999999999999999 \<longleftrightarrow> n < - 999999999999999"
        "(999999999999999 :: rat) < of_int n \<longleftrightarrow> 999999999999999 < n"
        using of_int_less_iff[of n "- 999999999999999", where ?'a = rat]
          of_int_less_iff[of 999999999999999 n, where ?'a = rat] by auto
      then have "v < sfMinInteger \<or> sfMaxInteger < v \<longleftrightarrow> 10 ^ 15 \<le> \<bar>n\<bar>"
        by (auto simp: n sfMinInteger_def sfMaxInteger_def)
      then show ?thesis using True by (auto simp: SfNumber n serializeNumber_def)
    next
      case False
      then show ?thesis
        using serializeNumber_decimal(1)[of q]
        by (cases "v < sfMinDecimal \<or> sfMaxDecimal < v") (auto simp: SfNumber Fin serializeNumber_def)
    qed
  qed (auto simp: SfNumber serializeNumber_def isIntegerNum_def)
next
  case (SfString v)
  have "serializeBareItem b = Inl e \<longleftrightarrow> (\<exists>code j. invisibleUnit 0 v = Some (code, j) \<and> e = SfStringChar code j)"
    by (auto simp: SfString split: option.splits)
  then show ?thesis unfolding invisibleUnit_Some by (auto simp: SfString)
qed auto

theorem sf_bare_errors_witness: "serializeBareItem (SfString [97, 10, 98]) = Inl (SfStringChar 10 1)"
  unfolding sf_bare_errors by (auto simp: visible_def intro!: exI[of _ 1])

section \<open>What the parser lets through\<close>

text \<open>
  \<open>parseParameters\<close> answers \<open>null\<close> for a malformed parameter too, and \<open>parseItemWithParameterOWS\<close> takes
  that for no parameters: a dangling semicolon and an unterminated value are accepted, and dropped
  together with the parameters before them.
\<close>

lemma dangling_parameters_dropped:
  "parseSfItem (lit ''a;'') = Some \<lparr>itemValue = SfToken (lit ''a''), itemParams = None\<rparr>"
  "parseSfItem (lit ''a;b;'') = Some \<lparr>itemValue = SfToken (lit ''a''), itemParams = None\<rparr>"
proof -
  have "jsTrim (lit ''a;'') = lit ''a;''" "jsTrim (lit ''a;b;'') = lit ''a;b;''"
    by (rule jsTrim_id; simp add: isJsSpace_def)+
  moreover have
    "atEndOnly (parseItem (lit ''a;'')) = Some \<lparr>itemValue = SfToken (lit ''a''), itemParams = None\<rparr>"
    "atEndOnly (parseItem (lit ''a;b;'')) = Some \<lparr>itemValue = SfToken (lit ''a''), itemParams = None\<rparr>"
    by code_simp+
  ultimately show
    "parseSfItem (lit ''a;'') = Some \<lparr>itemValue = SfToken (lit ''a''), itemParams = None\<rparr>"
    "parseSfItem (lit ''a;b;'') = Some \<lparr>itemValue = SfToken (lit ''a''), itemParams = None\<rparr>"
    by (simp_all only: parseSfItem_def)
qed

text \<open>A byte order mark at the start of a display string is lost.\<close>

lemma display_mark_lost:
  "parseDisplayString ([cu CHR ''%'', 34] @ lit ''%ef%bb%bfa'' @ [34]) = (Some (SfDisplayString (lit ''a'')), [])"
proof -
  have "decodeUtf8 [239, 187, 191, 97] = Some [97]"
    by (simp add: decodeUtf8_def byteOrderMark_def utf8Points.simps utf8Head_def fromCodePoint_def)
  then show ?thesis
    by (simp add: parseDisplayString_def peekIs_def mapParsed_def isLowerHex_def isDigit_def parseHex_def hexVal_def)
qed

end
