(* ===== verification/Etag.thy ===== *)
theory Etag
  imports JsValue Utf8
begin

text \<open>
  Entity tags: \<open>src/etag.ts\<close> (RFC 9110 section 8.8.3), with the string functions of the language the
  header modules share. The hash works on 32-bit words, as the bit operators of the language do; the digest
  of the Web Crypto service and the JSON text of a value that is neither a string nor bytes are parameters.
\<close>

unbundle bit_operations_syntax

section \<open>Strings\<close>

text \<open>Case mapping on ASCII letters, and \<open>s.indexOf(c)\<close> for one unit.\<close>

definition lowerUnit :: "cu \<Rightarrow> cu" where
  "lowerUnit c = (if 65 \<le> c \<and> c \<le> 90 then c + 32 else c)"

definition upperUnit :: "cu \<Rightarrow> cu" where
  "upperUnit c = (if 97 \<le> c \<and> c \<le> 122 then c - 32 else c)"

definition toLower :: "jsstr \<Rightarrow> jsstr" where "toLower s = map lowerUnit s"
definition toUpper :: "jsstr \<Rightarrow> jsstr" where "toUpper s = map upperUnit s"

definition indexOfUnit :: "cu \<Rightarrow> jsstr \<Rightarrow> nat option" where
  "indexOfUnit c s = (let i = length (takeWhile (\<lambda>x. x \<noteq> c) s) in if i < length s then Some i else None)"

definition endsWithUnit :: "jsstr \<Rightarrow> cu \<Rightarrow> bool" where
  "endsWithUnit s c \<longleftrightarrow> s \<noteq> [] \<and> last s = c"

definition isOws :: "cu \<Rightarrow> bool" where
  "isOws c \<longleftrightarrow> c = 32 \<or> c = 9"

lemma indexOfUnit_first: "c \<notin> set a \<Longrightarrow> indexOfUnit c (a @ c # b) = Some (length a)"
  by (simp add: indexOfUnit_def Let_def takeWhile_append)

lemma indexOfUnit_none: "indexOfUnit c s = None \<longleftrightarrow> c \<notin> set s"
proof (cases "c \<in> set s")
  case True
  then obtain a b where "s = a @ c # b" "c \<notin> set a" using split_list_first by metis
  with True show ?thesis using indexOfUnit_first[of c a b] by simp
next
  case False
  then have "takeWhile (\<lambda>x. x \<noteq> c) s = s" by (auto simp: takeWhile_eq_all_conv)
  then show ?thesis using False by (simp only: indexOfUnit_def Let_def) simp
qed

lemma digit_not_space: "isDigit c \<Longrightarrow> \<not> isJsSpace c"
  by (auto simp: isDigit_def isJsSpace_def)

lemma digits_trim: "list_all isDigit s \<Longrightarrow> jsTrim s = s"
  using digit_not_space by (intro jsTrim_id) (auto simp: list_all_iff)

text \<open>\<open>n.toString(16)\<close> for a non-negative integer.\<close>

fun showHex :: "nat \<Rightarrow> jsstr" where
  "showHex n = (if n < 16 then [hexChar n] else showHex (n div 16) @ [hexChar (n mod 16)])"

declare showHex.simps [simp del]

lemma showHex_lower: "list_all isLowerHex (showHex n)"
  by (induction n rule: showHex.induct) (subst showHex.simps, simp)

lemma showHex_nonempty [simp]: "showHex n \<noteq> []"
  by (subst showHex.simps) simp

section \<open>Entity tags\<close>

record etag =
  weak :: bool
  tagValue :: jsstr

definition MAX_ETAG_CHAR :: nat where "MAX_ETAG_CHAR = 255"

definition isValidETagValue :: "jsstr \<Rightarrow> bool" where
  "isValidETagValue value =
     list_all (\<lambda>code. if code > MAX_ETAG_CHAR then False
                      else if code = 0x21 then True
                      else if 0x23 \<le> code \<and> code \<le> 0x7E then True
                      else 0x80 \<le> code \<and> code \<le> 0xFF) (codePoints value)"

definition djb2Hash :: "jsstr \<Rightarrow> jsstr" where
  "djb2Hash str = showHex (unat (foldl (\<lambda>hash c. (push_bit 5 hash + hash) XOR of_nat c) (5381 :: 32 word) str))"

definition djb2HashBytes :: "byte list \<Rightarrow> jsstr" where
  "djb2HashBytes bytes = showHex (unat (foldl (\<lambda>hash b. (push_bit 5 hash + hash) XOR ucast b) (5381 :: 32 word) bytes))"

text \<open>
  The data a tag is made of: bytes, a string, or another value with its text, \<open>JSON.stringify(data)\<close> or,
  where that is undefined, \<open>String(data)\<close>.
\<close>

datatype etagData = BytesData "byte list" | StringData jsstr | OtherData "jsstr option" jsstr

fun dataToString :: "etagData \<Rightarrow> jsstr" where
  "dataToString (StringData s) = s"
| "dataToString (OtherData json text') = (case json of Some j \<Rightarrow> j | None \<Rightarrow> text')"
| "dataToString (BytesData _) = []"

fun asByteView :: "etagData \<Rightarrow> byte list option" where
  "asByteView (BytesData bs) = Some bs"
| "asByteView _ = None"

definition quotedTag :: "bool \<Rightarrow> jsstr \<Rightarrow> jsstr" where
  "quotedTag w value = (if w then lit ''W/'' else []) @ [34] @ value @ [34]"

definition generateETag :: "etagData \<Rightarrow> bool \<Rightarrow> jsstr" where
  "generateETag data w =
     (let hash = (case asByteView data of Some bs \<Rightarrow> djb2HashBytes bs | None \<Rightarrow> djb2Hash (dataToString data))
      in quotedTag w hash)"

definition generateETagAsync :: "(byte list \<Rightarrow> byte list) \<Rightarrow> etagData \<Rightarrow> bool \<Rightarrow> jsstr" where
  "generateETagAsync digest data w =
     (let dataBuffer = (case asByteView data of Some bs \<Rightarrow> bs | None \<Rightarrow> encodeUtf8 (dataToString data));
          hash = concat (map (\<lambda>b. hexByte (unat b)) (take 16 (digest dataBuffer)))
      in quotedTag w hash)"

definition parseETag :: "jsstr \<Rightarrow> etag option" where
  "parseETag s =
     (if s = [] then None
      else
        let trimmed = jsTrim s;
            w = startsWith trimmed (lit ''W/'');
            rest = (if w then drop 2 trimmed else trimmed)
        in if \<not> startsWith rest [34] \<or> \<not> endsWithUnit rest 34 then None
           else
             let value = butlast (drop 1 rest)
             in if 34 \<in> set value then None
                else if \<not> isValidETagValue value then None
                else Some \<lparr>weak = w, tagValue = value\<rparr>)"

text \<open>\<open>formatETag\<close> throws on a value that is not valid.\<close>

definition formatETag :: "etag \<Rightarrow> jsstr + jsstr" where
  "formatETag e = (if \<not> isValidETagValue (tagValue e) then Inl (tagValue e) else Inr (quotedTag (weak e) (tagValue e)))"

definition compareETags :: "etag \<Rightarrow> etag \<Rightarrow> bool \<Rightarrow> bool" where
  "compareETags a b strong =
     (if tagValue a \<noteq> tagValue b then False
      else if \<not> strong then True
      else \<not> weak a \<and> \<not> weak b)"

definition compareETagStrings :: "jsstr \<Rightarrow> jsstr \<Rightarrow> bool \<Rightarrow> bool" where
  "compareETagStrings a b strong =
     (case (parseETag a, parseETag b) of
        (Some x, Some y) \<Rightarrow> compareETags x y strong
      | _ \<Rightarrow> False)"

section \<open>Facts\<close>

definition etagChar :: "cu \<Rightarrow> bool" where
  "etagChar c \<longleftrightarrow> c = 0x21 \<or> (0x23 \<le> c \<and> c \<le> 0x7E) \<or> (0x80 \<le> c \<and> c \<le> 0xFF)"

lemma etagChar_points: "list_all etagChar (codePoints s) \<longleftrightarrow> list_all etagChar s"
  by (induction s rule: codePoints.induct)
    (auto simp: etagChar_def isHighSurrogate_def isLowSurrogate_def split: list.splits)

lemma isValidETagValue_iff: "isValidETagValue s \<longleftrightarrow> list_all etagChar s"
proof -
  have "(\<lambda>code. if code > MAX_ETAG_CHAR then False else if code = 0x21 then True else if 0x23 \<le> code \<and> code \<le> 0x7E then True
      else 0x80 \<le> code \<and> code \<le> 0xFF) = etagChar"
    by (rule ext) (auto simp: etagChar_def MAX_ETAG_CHAR_def)
  then show ?thesis by (simp only: isValidETagValue_def etagChar_points)
qed

lemma hex_valid: "list_all isLowerHex s \<Longrightarrow> isValidETagValue s"
  unfolding isValidETagValue_iff list_all_iff by (auto simp: isLowerHex_def etagChar_def isDigit_def)

lemma etagChar_plain: "etagChar c \<Longrightarrow> c \<noteq> 34 \<and> c \<noteq> 32"
  by (auto simp: etagChar_def)

lemma valid_no_quote: "isValidETagValue s \<Longrightarrow> 34 \<notin> set s"
  by (auto simp: isValidETagValue_iff list_all_iff etagChar_def)

lemma quotedTag_ends: "quotedTag w v \<noteq> []" "hd (quotedTag w v) = (if w then 87 else 34)" "last (quotedTag w v) = 34"
  by (simp_all add: quotedTag_def)

lemma quotedTag_trim [simp]: "jsTrim (quotedTag w v) = quotedTag w v"
  by (rule jsTrim_id) (simp add: quotedTag_ends isJsSpace_def)

lemma parse_quotedTag: "isValidETagValue v \<Longrightarrow> parseETag (quotedTag w v) = Some \<lparr>weak = w, tagValue = v\<rparr>"
  unfolding parseETag_def quotedTag_trim
  by (simp add: quotedTag_ends(1)) (auto simp: quotedTag_def startsWith_def endsWithUnit_def valid_no_quote)

lemma parseETag_valid: "parseETag s = Some e \<Longrightarrow> isValidETagValue (tagValue e)"
  by (auto simp: parseETag_def Let_def split: if_splits)

lemma format_parse_tag: "formatETag e = Inr s \<Longrightarrow> parseETag s = Some e"
  using parse_quotedTag[of "tagValue e" "weak e"] by (simp add: formatETag_def split: if_splits)

section \<open>Properties\<close>

text \<open>The tags \<open>parseETag\<close> can return are exactly those \<open>formatETag\<close> writes without
  throwing, and what it writes is read back as the same tag.\<close>

theorem etag_roundtrip:
  "(\<exists>s. parseETag s = Some e) \<longleftrightarrow> (\<exists>s. formatETag e = Inr s \<and> parseETag s = Some e)"
proof
  assume "\<exists>s. parseETag s = Some e"
  then have "isValidETagValue (tagValue e)" by (elim exE) (rule parseETag_valid)
  then have "formatETag e = Inr (quotedTag (weak e) (tagValue e))" by (simp only: formatETag_def simp_thms if_False)
  with format_parse_tag[OF this] show "\<exists>s. formatETag e = Inr s \<and> parseETag s = Some e" by blast
qed (elim exE conjE, rule exI)

text \<open>The tags the module generates, from the 32-bit hash or from a digest of any
  length, are well formed: \<open>parseETag\<close> reads them, with the weakness asked for.\<close>

theorem generated_etag:
  "\<exists>v v'. parseETag (generateETag data w) = Some \<lparr>weak = w, tagValue = v\<rparr> \<and>
     parseETag (generateETagAsync digest data w) = Some \<lparr>weak = w, tagValue = v'\<rparr> \<and> length v' \<le> 32"
proof -
  have hash: "isValidETagValue (djb2Hash s)" "isValidETagValue (djb2HashBytes bs)" for s bs
    by (simp_all add: djb2Hash_def djb2HashBytes_def hex_valid showHex_lower)
  have bytes: "list_all isLowerHex (concat (map (\<lambda>b. hexByte (unat b)) bs))" for bs :: "byte list"
  proof (induction bs)
    case (Cons b bs)
    have "unat b < 256" using unsigned_less[of b] by simp
    with Cons hexByte_lower show ?case by simp
  qed simp
  have len: "length (concat (map (\<lambda>b. hexByte (unat b)) (take n bs))) \<le> 2 * n" for n and bs :: "byte list"
    by (simp add: length_concat comp_def sum_list_triv)
  obtain v where v: "generateETag data w = quotedTag w v" "isValidETagValue v"
    using hash by (cases "asByteView data") (auto simp: generateETag_def)
  obtain v' where v': "generateETagAsync digest data w = quotedTag w v'" "isValidETagValue v'" "length v' \<le> 32"
    using hex_valid[OF bytes] len[of 16] that by (simp add: generateETagAsync_def Let_def)
  show ?thesis using v v' parse_quotedTag by auto
qed

end
