(* ===== verification/JsDate.thy ===== *)
theory JsDate
  imports JsNumberText
begin

text \<open>
  The calendar of the \<open>Date\<close> object of the language: \<open>Date.UTC\<close> and the \<open>getUTC\<close> methods over time
  values, an integer number of milliseconds since 1970, from the day numbers of the language
  specification; the fields of a time value determine it, and are determined by it.
\<close>

section \<open>The calendar of the language\<close>

definition isLeapYear :: "int \<Rightarrow> bool" where
  "isLeapYear year =
     (if year mod 4 \<noteq> 0 then False
      else if year mod 100 \<noteq> 0 then True
      else year mod 400 = 0)"

definition dayFromYear :: "int \<Rightarrow> int" where
  "dayFromYear y = 365 * (y - 1970) + (y - 1969) div 4 - (y - 1901) div 100 + (y - 1601) div 400"

definition daysInYear :: "int \<Rightarrow> int" where
  "daysInYear y = (if isLeapYear y then 366 else 365)"

text \<open>The days of a year before its month \<open>m\<close>, counted from 0.\<close>

definition daysBeforeMonth :: "bool \<Rightarrow> int \<Rightarrow> int" where
  "daysBeforeMonth leap m =
     (let l = (if leap then 1 else 0)
      in if m \<le> 0 then 0 else if m = 1 then 31 else if m = 2 then 59 + l else if m = 3 then 90 + l
         else if m = 4 then 120 + l else if m = 5 then 151 + l else if m = 6 then 181 + l
         else if m = 7 then 212 + l else if m = 8 then 243 + l else if m = 9 then 273 + l
         else if m = 10 then 304 + l else 334 + l)"

definition makeDay :: "int \<Rightarrow> int \<Rightarrow> int \<Rightarrow> int" where
  "makeDay year month date =
     (let y = year + month div 12; m = month mod 12
      in dayFromYear y + daysBeforeMonth (isLeapYear y) m + date - 1)"

definition msPerDay :: int where "msPerDay = 86400000"

text \<open>\<open>Date.UTC\<close>: a year from 0 to 99 stands for one of the twentieth century.\<close>

definition dateUTC :: "int \<Rightarrow> int \<Rightarrow> int \<Rightarrow> int \<Rightarrow> int \<Rightarrow> int \<Rightarrow> int \<Rightarrow> int option" where
  "dateUTC year month date hours minutes seconds ms =
     (let y = (if 0 \<le> year \<and> year \<le> 99 then 1900 + year else year);
          t = makeDay y month date * msPerDay + hours * 3600000 + minutes * 60000 + seconds * 1000 + ms
      in if \<bar>t\<bar> \<le> 8640000000000000 then Some t else None)"

text \<open>The year of a day is the last one that has begun by then.\<close>

definition yearOfDay :: "int \<Rightarrow> int" where
  "yearOfDay d =
     (let y = 1970 + d * 400 div 146097
      in if d < dayFromYear y then y - 1 else if dayFromYear (y + 1) \<le> d then y + 1 else y)"

definition getUTCFullYear :: "int \<Rightarrow> int" where
  "getUTCFullYear t = yearOfDay (t div msPerDay)"

definition dayInYear :: "int \<Rightarrow> int" where
  "dayInYear t = t div msPerDay - dayFromYear (getUTCFullYear t)"

definition monthOfDay :: "bool \<Rightarrow> int \<Rightarrow> int" where
  "monthOfDay leap d =
     (let l = (if leap then 1 else 0)
      in if d < 31 then 0 else if d < 59 + l then 1 else if d < 90 + l then 2 else if d < 120 + l then 3
         else if d < 151 + l then 4 else if d < 181 + l then 5 else if d < 212 + l then 6
         else if d < 243 + l then 7 else if d < 273 + l then 8 else if d < 304 + l then 9
         else if d < 334 + l then 10 else 11)"

definition getUTCMonth :: "int \<Rightarrow> int" where
  "getUTCMonth t = monthOfDay (isLeapYear (getUTCFullYear t)) (dayInYear t)"

definition getUTCDate :: "int \<Rightarrow> int" where
  "getUTCDate t = dayInYear t - daysBeforeMonth (isLeapYear (getUTCFullYear t)) (getUTCMonth t) + 1"

definition getUTCDay :: "int \<Rightarrow> int" where
  "getUTCDay t = (t div msPerDay + 4) mod 7"

definition getUTCHours :: "int \<Rightarrow> int" where
  "getUTCHours t = t mod msPerDay div 3600000"

definition getUTCMinutes :: "int \<Rightarrow> int" where
  "getUTCMinutes t = t mod 3600000 div 60000"

definition getUTCSeconds :: "int \<Rightarrow> int" where
  "getUTCSeconds t = t mod 60000 div 1000"

definition getUTCMilliseconds :: "int \<Rightarrow> int" where
  "getUTCMilliseconds t = t mod 1000"

section \<open>Facts about the calendar\<close>

lemma div_Suc_int: "0 < k \<Longrightarrow> (x + 1) div k = x div k + (if (x + 1) mod k = 0 then 1 else 0)" for x k :: int
proof -
  assume k: "0 < k"
  have x: "x = k * (x div k) + x mod k" "0 \<le> x mod k" "x mod k < k" using k by simp_all
  show ?thesis
  proof (cases "x mod k + 1 = k")
    case True
    then have "x + 1 = k * (x div k) + k" using x(1) by linarith
    then have "x + 1 = (x div k + 1) * k" by (simp add: algebra_simps)
    with k show ?thesis by simp
  next
    case False
    then have "(x + 1) div k = x div k" "(x + 1) mod k = x mod k + 1"
      using x by (intro int_div_pos_eq[of _ _ _ "x mod k + 1"] int_mod_pos_eq[of _ _ "x div k"]; simp)+
    with x(2) show ?thesis by simp
  qed
qed

lemma div_bounds: "0 < k \<Longrightarrow> k * (x div k) \<le> x \<and> x < k * (x div k) + k" for x k :: int
  using mult_div_mod_eq[of k x] pos_mod_bound[of k x] pos_mod_sign[of k x] by linarith

lemma dayFromYear_Suc: "dayFromYear (y + 1) = dayFromYear y + daysInYear y"
proof -
  have "y - 1969 + 1 = y + (- 492) * 4" "y - 1901 + 1 = y + (- 19) * 100" "y - 1601 + 1 = y + (- 4) * 400" by simp_all
  then have m: "(y - 1969 + 1) mod 4 = y mod 4" "(y - 1901 + 1) mod 100 = y mod 100" "(y - 1601 + 1) mod 400 = y mod 400"
    by (simp_all only: mod_mult_self1)
  have sub: "y mod 400 = 0 \<Longrightarrow> y mod 100 = 0" "y mod 100 = 0 \<Longrightarrow> y mod 4 = 0"
    using dvd_trans[of 100 400 y] dvd_trans[of 4 100 y] by (simp_all only: dvd_eq_mod_eq_0) simp_all
  define a b c where "a = (y - 1969) div 4" and "b = (y - 1901) div 100" and "c = (y - 1601) div 400"
  have "(y - 1969 + 1) div 4 = a + (if y mod 4 = 0 then 1 else 0)"
    "(y - 1901 + 1) div 100 = b + (if y mod 100 = 0 then 1 else 0)"
    "(y - 1601 + 1) div 400 = c + (if y mod 400 = 0 then 1 else 0)"
    using div_Suc_int[of 4 "y - 1969"] div_Suc_int[of 100 "y - 1901"] div_Suc_int[of 400 "y - 1601"]
    by (simp_all only: m a_def b_def c_def zero_less_numeral simp_thms)
  moreover have "y + 1 - 1969 = y - 1969 + 1" "y + 1 - 1901 = y - 1901 + 1" "y + 1 - 1601 = y - 1601 + 1" by simp_all
  ultimately have "dayFromYear (y + 1) = 365 * (y + 1 - 1970) + (a + (if y mod 4 = 0 then 1 else 0)) -
      (b + (if y mod 100 = 0 then 1 else 0)) + (c + (if y mod 400 = 0 then 1 else 0))"
    by (simp only: dayFromYear_def)
  moreover have "dayFromYear y = 365 * (y - 1970) + a - b + c" by (simp only: dayFromYear_def a_def b_def c_def)
  ultimately show ?thesis
    using sub by (simp add: daysInYear_def isLeapYear_def)
qed

lemma daysInYear_pos: "0 < daysInYear y"
  by (simp add: daysInYear_def)

lemma dayFromYear_less: "x < y \<Longrightarrow> dayFromYear (x + 1) \<le> dayFromYear y"
proof (induction "nat (y - x - 1)" arbitrary: y)
  case 0
  then have "y = x + 1" by simp
  then show ?case by simp
next
  case (Suc n)
  then have "dayFromYear (x + 1) \<le> dayFromYear (y - 1)" by (intro Suc.hyps(1)) auto
  with dayFromYear_Suc[of "y - 1"] daysInYear_pos[of "y - 1"] show ?case by simp
qed

lemma year_unique:
  assumes "dayFromYear x \<le> d" "d < dayFromYear (x + 1)" "dayFromYear y \<le> d" "d < dayFromYear (y + 1)"
  shows "x = y"
  using dayFromYear_less[of x y] dayFromYear_less[of y x] assms by (cases x y rule: linorder_cases) auto

lemma yearOfDay_bounds: "dayFromYear (yearOfDay d) \<le> d \<and> d < dayFromYear (yearOfDay d + 1)"
proof -
  define k where "k = d * 400 div 146097"
  have k: "146097 * k \<le> 400 * d" "400 * d < 146097 * (k + 1)"
    using div_bounds[of 146097 "d * 400"] unfolding k_def[symmetric] by (auto simp: algebra_simps)
  have approx: "400 * dayFromYear (1970 + j) \<le> 146097 * j + 700 \<and> 146097 * j - 700 \<le> 400 * dayFromYear (1970 + j)" for j
  proof -
    define a b c where "a = (1970 + j - 1969) div 4" and "b = (1970 + j - 1901) div 100" and "c = (1970 + j - 1601) div 400"
    have "4 * a \<le> j + 1" "j + 1 < 4 * a + 4" "100 * b \<le> j + 69" "j + 69 < 100 * b + 100"
      "400 * c \<le> j + 369" "j + 369 < 400 * c + 400"
      using div_bounds[of 4 "1970 + j - 1969"] div_bounds[of 100 "1970 + j - 1901"] div_bounds[of 400 "1970 + j - 1601"]
      unfolding a_def[symmetric] b_def[symmetric] c_def[symmetric] by linarith+
    moreover have "dayFromYear (1970 + j) = 365 * (1970 + j - 1970) + a - b + c"
      by (simp only: dayFromYear_def a_def b_def c_def)
    moreover from calculation have "400 * a \<le> 100 * j + 100" "100 * j - 300 \<le> 400 * a"
      "400 * b \<le> 4 * j + 276" "4 * j - 124 \<le> 400 * b" by linarith+
    ultimately have "400 * dayFromYear (1970 + j) = 146000 * j + 400 * a - 400 * b + 400 * c" by simp
    with \<open>400 * a \<le> 100 * j + 100\<close> \<open>100 * j - 300 \<le> 400 * a\<close> \<open>400 * b \<le> 4 * j + 276\<close> \<open>4 * j - 124 \<le> 400 * b\<close>
      \<open>400 * c \<le> j + 369\<close> \<open>j + 369 < 400 * c + 400\<close> show ?thesis by linarith
  qed
  have 1: "dayFromYear (1970 + k - 1) \<le> d" "d < dayFromYear (1970 + k + 1 + 1)"
    using approx[of "k - 1"] approx[of "k + 2"] k by simp_all
  show ?thesis unfolding yearOfDay_def Let_def k_def[symmetric] using 1 by simp
qed

lemma yearOfDay_unique: "dayFromYear y \<le> d \<Longrightarrow> d < dayFromYear (y + 1) \<Longrightarrow> yearOfDay d = y"
  using yearOfDay_bounds[of d] year_unique by blast

text \<open>The fields of a time value are those it was made of.\<close>

definition daysInMonth :: "int \<Rightarrow> int \<Rightarrow> int" where
  "daysInMonth year m =
     (if m = 1 then (if isLeapYear year then 29 else 28) else if m = 3 \<or> m = 5 \<or> m = 8 \<or> m = 10 then 30 else 31)"

lemma month_cases: "0 \<le> m \<Longrightarrow> m \<le> 11 \<Longrightarrow> m \<in> {0, 1, 2, 3, 4, 5, 6, 7, 8, 9, 10, 11 :: int}"
  by simp presburger

definition timeOf :: "int \<Rightarrow> int \<Rightarrow> int \<Rightarrow> int \<Rightarrow> int \<Rightarrow> int \<Rightarrow> int \<Rightarrow> int" where
  "timeOf y m d h mi s ms = makeDay y m d * msPerDay + h * 3600000 + mi * 60000 + s * 1000 + ms"

definition validFields :: "int \<Rightarrow> int \<Rightarrow> int \<Rightarrow> int \<Rightarrow> int \<Rightarrow> int \<Rightarrow> int \<Rightarrow> bool" where
  "validFields y m d h mi s ms \<longleftrightarrow>
     0 \<le> m \<and> m \<le> 11 \<and> 1 \<le> d \<and> d \<le> daysInMonth y m \<and> 0 \<le> h \<and> h \<le> 23 \<and> 0 \<le> mi \<and> mi \<le> 59 \<and>
     0 \<le> s \<and> s \<le> 59 \<and> 0 \<le> ms \<and> ms \<le> 999"

lemma days_fit:
  assumes "0 \<le> m" "m \<le> 11" "1 \<le> d" "d \<le> daysInMonth y m"
  shows "0 \<le> daysBeforeMonth (isLeapYear y) m + d - 1" "daysBeforeMonth (isLeapYear y) m + d - 1 < daysInYear y"
  using month_cases[OF assms(1,2)] assms(3,4)
  by (auto simp: daysBeforeMonth_def daysInMonth_def daysInYear_def Let_def split: if_splits)

lemma monthOfDay_before:
  assumes "0 \<le> m" "m \<le> 11" "1 \<le> d" "d \<le> daysInMonth y m"
  shows "monthOfDay (isLeapYear y) (daysBeforeMonth (isLeapYear y) m + d - 1) = m"
  using month_cases[OF assms(1,2)] assms(3,4)
  by (elim insertE; cases "isLeapYear y") (simp_all add: monthOfDay_def daysBeforeMonth_def daysInMonth_def)

lemma monthOfDay_bounds:
  assumes "0 \<le> d" "d < daysInYear y"
  shows "daysBeforeMonth (isLeapYear y) (monthOfDay (isLeapYear y) d) \<le> d \<and>
    d < daysBeforeMonth (isLeapYear y) (monthOfDay (isLeapYear y) d) + daysInMonth y (monthOfDay (isLeapYear y) d)"
  using assms by (cases "isLeapYear y") (auto simp: monthOfDay_def daysBeforeMonth_def daysInMonth_def daysInYear_def)

lemma makeDay_plain: "0 \<le> m \<Longrightarrow> m \<le> 11 \<Longrightarrow> makeDay y m d = dayFromYear y + daysBeforeMonth (isLeapYear y) m + d - 1"
  by (simp add: makeDay_def Let_def)

lemma time_split:
  assumes "validFields y m d h mi s ms"
  defines "t \<equiv> timeOf y m d h mi s ms"
  shows "t div msPerDay = makeDay y m d" "getUTCHours t = h" "getUTCMinutes t = mi" "getUTCSeconds t = s"
    "getUTCMilliseconds t = ms"
proof -
  have v: "0 \<le> h" "h \<le> 23" "0 \<le> mi" "mi \<le> 59" "0 \<le> s" "s \<le> 59" "0 \<le> ms" "ms \<le> 999"
    using assms(1) by (simp_all add: validFields_def)
  define D where "D = makeDay y m d"
  have t: "t = D * 86400000 + (h * 3600000 + mi * 60000 + s * 1000 + ms)"
    by (simp add: t_def timeOf_def D_def msPerDay_def)
  have sod: "t div 86400000 = D" "t mod 86400000 = h * 3600000 + mi * 60000 + s * 1000 + ms"
    by (rule int_div_pos_eq[where r = "h * 3600000 + mi * 60000 + s * 1000 + ms"]
        int_mod_pos_eq[where q = D]; use v in \<open>simp add: t\<close>)+
  then show "t div msPerDay = makeDay y m d" by (simp add: msPerDay_def D_def)
  have "(h * 3600000 + mi * 60000 + s * 1000 + ms) div 3600000 = h"
    by (rule int_div_pos_eq[where r = "mi * 60000 + s * 1000 + ms"]) (use v in auto)
  with sod(2) show "getUTCHours t = h" by (simp add: getUTCHours_def msPerDay_def)
  have "t mod 3600000 = mi * 60000 + s * 1000 + ms"
    by (rule int_mod_pos_eq[where q = "D * 24 + h"]) (use v in \<open>auto simp: t\<close>)
  moreover have "(mi * 60000 + s * 1000 + ms) div 60000 = mi"
    by (rule int_div_pos_eq[where r = "s * 1000 + ms"]) (use v in auto)
  ultimately show "getUTCMinutes t = mi" by (simp add: getUTCMinutes_def)
  have "t mod 60000 = s * 1000 + ms"
    by (rule int_mod_pos_eq[where q = "D * 1440 + h * 60 + mi"]) (use v in \<open>auto simp: t\<close>)
  moreover have "(s * 1000 + ms) div 1000 = s" by (rule int_div_pos_eq[where r = ms]) (use v in auto)
  ultimately show "getUTCSeconds t = s" by (simp add: getUTCSeconds_def)
  show "getUTCMilliseconds t = ms" unfolding getUTCMilliseconds_def
    by (rule int_mod_pos_eq[where q = "D * 86400 + h * 3600 + mi * 60 + s"]) (use v in \<open>auto simp: t\<close>)
qed

lemma date_split:
  assumes "validFields y m d h mi s ms"
  defines "t \<equiv> timeOf y m d h mi s ms"
  shows "getUTCFullYear t = y" "getUTCMonth t = m" "getUTCDate t = d"
proof -
  have v: "0 \<le> m" "m \<le> 11" "1 \<le> d" "d \<le> daysInMonth y m" using assms(1) by (simp_all add: validFields_def)
  have day: "t div msPerDay = dayFromYear y + daysBeforeMonth (isLeapYear y) m + d - 1"
    using time_split(1)[OF assms(1)] v by (simp add: t_def makeDay_plain)
  have "dayFromYear y \<le> t div msPerDay" "t div msPerDay < dayFromYear (y + 1)"
    using days_fit[OF v] by (simp_all add: day dayFromYear_Suc)
  then show y: "getUTCFullYear t = y" unfolding getUTCFullYear_def by (rule yearOfDay_unique)
  have diy: "dayInYear t = daysBeforeMonth (isLeapYear y) m + d - 1" by (simp add: dayInYear_def y day)
  show m: "getUTCMonth t = m"
    unfolding getUTCMonth_def diy y by (rule monthOfDay_before[OF v])
  show "getUTCDate t = d" unfolding getUTCDate_def diy y m by simp
qed

text \<open>And any time value is made of its fields.\<close>

lemma fields_of_time:
  "validFields (getUTCFullYear t) (getUTCMonth t) (getUTCDate t) (getUTCHours t) (getUTCMinutes t) (getUTCSeconds t)
     (getUTCMilliseconds t)"
  "timeOf (getUTCFullYear t) (getUTCMonth t) (getUTCDate t) (getUTCHours t) (getUTCMinutes t) (getUTCSeconds t)
     (getUTCMilliseconds t) = t"
proof -
  let ?y = "getUTCFullYear t"
  let ?m = "getUTCMonth t"
  have d: "0 \<le> dayInYear t" "dayInYear t < daysInYear ?y"
    using yearOfDay_bounds[of "t div msPerDay"] by (simp_all add: dayInYear_def getUTCFullYear_def dayFromYear_Suc)
  have m: "0 \<le> ?m" "?m \<le> 11" by (simp_all add: getUTCMonth_def monthOfDay_def Let_def)
  have "daysBeforeMonth (isLeapYear ?y) ?m \<le> dayInYear t \<and>
      dayInYear t < daysBeforeMonth (isLeapYear ?y) ?m + daysInMonth ?y ?m"
    using monthOfDay_bounds[OF d] by (simp add: getUTCMonth_def)
  then have date: "1 \<le> getUTCDate t" "getUTCDate t \<le> daysInMonth ?y ?m" by (simp_all add: getUTCDate_def)
  have sod: "t mod 3600000 = t mod msPerDay mod 3600000" "t mod 60000 = t mod 3600000 mod 60000"
    "t mod 1000 = t mod 60000 mod 1000"
    by (simp_all add: msPerDay_def mod_mod_cancel)
  define r where "r = t mod msPerDay"
  have r: "0 \<le> r" "r < 86400000" by (simp_all add: r_def msPerDay_def)
  define u where "u = r mod 3600000"
  define w where "w = u mod 60000"
  have hms: "getUTCHours t = r div 3600000" "getUTCMinutes t = u div 60000" "getUTCSeconds t = w div 1000"
    "getUTCMilliseconds t = w mod 1000"
    by (simp_all add: getUTCHours_def getUTCMinutes_def getUTCSeconds_def getUTCMilliseconds_def sod r_def u_def w_def)
  have u: "0 \<le> u" "u < 3600000" and w: "0 \<le> w" "w < 60000" by (simp_all add: u_def w_def)
  have eqs: "r = 3600000 * (r div 3600000) + u" "u = 60000 * (u div 60000) + w" "w = 1000 * (w div 1000) + w mod 1000"
    by (simp_all add: u_def w_def)
  have "0 \<le> r div 3600000" "r div 3600000 \<le> 23" "0 \<le> u div 60000" "u div 60000 \<le> 59" "0 \<le> w div 1000" "w div 1000 \<le> 59"
    "0 \<le> w mod 1000" "w mod 1000 \<le> 999"
    using r u w div_bounds[of 3600000 r] div_bounds[of 60000 u] div_bounds[of 1000 w] by simp_all
  with m date show "validFields ?y ?m (getUTCDate t) (getUTCHours t) (getUTCMinutes t) (getUTCSeconds t) (getUTCMilliseconds t)"
    by (simp add: validFields_def hms)
  have "makeDay ?y ?m (getUTCDate t) = t div msPerDay"
    using m by (simp add: makeDay_plain getUTCDate_def dayInYear_def)
  moreover have "t = (t div msPerDay) * msPerDay + r" by (simp add: r_def)
  ultimately show "timeOf ?y ?m (getUTCDate t) (getUTCHours t) (getUTCMinutes t) (getUTCSeconds t) (getUTCMilliseconds t) = t"
    using eqs by (simp add: timeOf_def hms)
qed

end
