(* ===== verification/HttpDate.thy ===== *)
theory HttpDate
  imports JsDate
begin

text \<open>
  Dates in header fields: \<open>src/datetime.ts\<close> (RFC 9110 section 5.6.7, RFC 850, RFC 3339). A \<open>Date\<close> is
  its time value, \<open>None\<close> for the invalid date. The regular expressions have fields of fixed width, so
  matching is reading at offsets; the current year, on which the two-digit years of RFC 850 depend, is an
  argument.
\<close>

type_synonym jsDate = "int option"

section \<open>Names and numbers of fixed width\<close>

definition DAY_NAMES :: "jsstr list" where
  "DAY_NAMES = map lit [''Sun'', ''Mon'', ''Tue'', ''Wed'', ''Thu'', ''Fri'', ''Sat'']"

definition FULL_DAY_NAMES :: "jsstr list" where
  "FULL_DAY_NAMES =
     map lit [''Sunday'', ''Monday'', ''Tuesday'', ''Wednesday'', ''Thursday'', ''Friday'', ''Saturday'']"

definition MONTH_NAMES :: "jsstr list" where
  "MONTH_NAMES =
     map lit [''Jan'', ''Feb'', ''Mar'', ''Apr'', ''May'', ''Jun'', ''Jul'', ''Aug'', ''Sep'', ''Oct'', ''Nov'', ''Dec'']"

text \<open>\<open>names.indexOf(s)\<close>, for one of the names.\<close>

fun nameIndex :: "jsstr list \<Rightarrow> jsstr \<Rightarrow> int option" where
  "nameIndex [] s = None"
| "nameIndex (n # ns) s = (if n = s then Some 0 else map_option (\<lambda>i. i + 1) (nameIndex ns s))"

definition padDec :: "nat \<Rightarrow> nat \<Rightarrow> jsstr" where
  "padDec k n = replicate (k - length (showNat n)) 48 @ showNat n"

definition slice :: "nat \<Rightarrow> nat \<Rightarrow> jsstr \<Rightarrow> jsstr" where
  "slice i n s = take n (drop i s)"

text \<open>\<open>(\d{n})\<close> at an offset.\<close>

definition digitsAt :: "nat \<Rightarrow> nat \<Rightarrow> jsstr \<Rightarrow> int option" where
  "digitsAt i n s =
     (let w = slice i n s in if length w = n \<and> list_all isDigit w then Some (int (parseDec w)) else None)"

section \<open>HTTP dates\<close>

definition buildValidatedHTTPDate :: "int \<Rightarrow> int \<Rightarrow> int \<Rightarrow> int \<Rightarrow> int \<Rightarrow> int \<Rightarrow> int \<Rightarrow> int option" where
  "buildValidatedHTTPDate year monthIndex day hours minutes seconds expectedWeekday =
     (if monthIndex < 0 \<or> monthIndex > 11 then None
      else if hours < 0 \<or> hours > 23 then None
      else if minutes < 0 \<or> minutes > 59 then None
      else if seconds < 0 \<or> seconds > 59 then None
      else
        case dateUTC year monthIndex day hours minutes seconds 0 of
          None \<Rightarrow> None
        | Some t \<Rightarrow>
            if getUTCFullYear t \<noteq> year \<or> getUTCMonth t \<noteq> monthIndex \<or> getUTCDate t \<noteq> day \<or>
               getUTCHours t \<noteq> hours \<or> getUTCMinutes t \<noteq> minutes \<or> getUTCSeconds t \<noteq> seconds then None
            else if getUTCDay t \<noteq> expectedWeekday then None
            else Some t)"

definition resolveRFC850Year :: "int \<Rightarrow> int \<Rightarrow> int" where
  "resolveRFC850Year currentYear twoDigitYear =
     (let year = currentYear div 100 * 100 + twoDigitYear
      in if year > currentYear + 50 then year - 100 else year)"

text \<open>The fields of a text: weekday, year, month, day, hours, minutes, seconds.\<close>

type_synonym dateFields = "int \<times> int \<times> int \<times> int \<times> int \<times> int \<times> int"

definition allFields ::
  "int option \<Rightarrow> int option \<Rightarrow> int option \<Rightarrow> int option \<Rightarrow> int option \<Rightarrow> int option \<Rightarrow> int option \<Rightarrow> dateFields option" where
  "allFields wd y mo d h mi s =
     (case (wd, y, mo, d, h, mi, s) of
        (Some wd, Some y, Some mo, Some d, Some h, Some mi, Some s) \<Rightarrow> Some (wd, y, mo, d, h, mi, s)
      | _ \<Rightarrow> None)"

text \<open>\<open>Sun, 06 Nov 1994 08:49:37 GMT\<close>\<close>

definition imfFields :: "jsstr \<Rightarrow> dateFields option" where
  "imfFields s =
     (if length s = 29 \<and> slice 3 2 s = lit '', '' \<and> slice 7 1 s = lit '' '' \<and> slice 11 1 s = lit '' '' \<and>
         slice 16 1 s = lit '' '' \<and> slice 19 1 s = lit '':'' \<and> slice 22 1 s = lit '':'' \<and> slice 25 4 s = lit '' GMT''
      then allFields (nameIndex DAY_NAMES (slice 0 3 s)) (digitsAt 12 4 s) (nameIndex MONTH_NAMES (slice 8 3 s))
        (digitsAt 5 2 s) (digitsAt 17 2 s) (digitsAt 20 2 s) (digitsAt 23 2 s)
      else None)"

text \<open>\<open>Sunday, 06-Nov-94 08:49:37 GMT\<close>, after the weekday; the year has two digits.\<close>

definition rfc850Fields :: "jsstr \<Rightarrow> dateFields option" where
  "rfc850Fields text =
     (let weekday = takeWhile (\<lambda>c. c \<noteq> cu CHR '','') text; s = dropWhile (\<lambda>c. c \<noteq> cu CHR '','') text
      in if length s = 24 \<and> slice 0 2 s = lit '', '' \<and> slice 4 1 s = lit ''-'' \<and> slice 8 1 s = lit ''-'' \<and>
            slice 11 1 s = lit '' '' \<and> slice 14 1 s = lit '':'' \<and> slice 17 1 s = lit '':'' \<and> slice 20 4 s = lit '' GMT''
         then allFields (nameIndex FULL_DAY_NAMES weekday) (digitsAt 9 2 s) (nameIndex MONTH_NAMES (slice 5 3 s))
           (digitsAt 2 2 s) (digitsAt 12 2 s) (digitsAt 15 2 s) (digitsAt 18 2 s)
         else None)"

text \<open>\<open>Sun Nov  6 08:49:37 1994\<close>: the day is two digits, or a space and a digit.\<close>

definition asctimeFields :: "jsstr \<Rightarrow> dateFields option" where
  "asctimeFields s =
     (if length s = 24 \<and> slice 3 1 s = lit '' '' \<and> slice 7 1 s = lit '' '' \<and> slice 10 1 s = lit '' '' \<and>
         slice 13 1 s = lit '':'' \<and> slice 16 1 s = lit '':'' \<and> slice 19 1 s = lit '' ''
      then allFields (nameIndex DAY_NAMES (slice 0 3 s)) (digitsAt 20 4 s) (nameIndex MONTH_NAMES (slice 4 3 s))
        (if slice 8 1 s = lit '' '' then digitsAt 9 1 s else digitsAt 8 2 s)
        (digitsAt 11 2 s) (digitsAt 14 2 s) (digitsAt 17 2 s)
      else None)"

definition parseHTTPDate :: "int \<Rightarrow> jsstr \<Rightarrow> int option" where
  "parseHTTPDate currentYear s =
     (case imfFields s of
        Some (weekday, year, month, day, hours, minutes, seconds) \<Rightarrow>
          buildValidatedHTTPDate year month day hours minutes seconds weekday
      | None \<Rightarrow>
          (case rfc850Fields s of
             Some (weekday, year2digit, month, day, hours, minutes, seconds) \<Rightarrow>
               buildValidatedHTTPDate (resolveRFC850Year currentYear year2digit) month day hours minutes seconds weekday
           | None \<Rightarrow>
               (case asctimeFields s of
                  Some (weekday, year, month, day, hours, minutes, seconds) \<Rightarrow>
                    buildValidatedHTTPDate year month day hours minutes seconds weekday
                | None \<Rightarrow> None)))"

text \<open>\<open>date.toUTCString()\<close>\<close>

definition yearText :: "int \<Rightarrow> jsstr" where
  "yearText y = (if y < 0 then [45] else []) @ padDec 4 (nat \<bar>y\<bar>)"

definition formatHTTPDate :: "jsDate \<Rightarrow> jsstr" where
  "formatHTTPDate date =
     (case date of
        None \<Rightarrow> lit ''Invalid Date''
      | Some t \<Rightarrow>
          DAY_NAMES ! nat (getUTCDay t) @ lit '', '' @ padDec 2 (nat (getUTCDate t)) @ lit '' '' @
          MONTH_NAMES ! nat (getUTCMonth t) @ lit '' '' @ yearText (getUTCFullYear t) @ lit '' '' @
          padDec 2 (nat (getUTCHours t)) @ lit '':'' @ padDec 2 (nat (getUTCMinutes t)) @ lit '':'' @
          padDec 2 (nat (getUTCSeconds t)) @ lit '' GMT'')"

section \<open>RFC 3339 timestamps\<close>

definition getDaysInMonth :: "int \<Rightarrow> int \<Rightarrow> int" where
  "getDaysInMonth year month =
     (if month = 2 then (if isLeapYear year then 29 else 28)
      else if month = 4 \<or> month = 6 \<or> month = 9 \<or> month = 11 then 30
      else 31)"

definition isValidDateParts :: "int \<Rightarrow> int \<Rightarrow> int \<Rightarrow> bool" where
  "isValidDateParts year month day =
     (if year < 0 \<or> year > 9999 then False
      else if month < 1 \<or> month > 12 then False
      else day \<ge> 1 \<and> day \<le> getDaysInMonth year month)"

text \<open>The first three digits of a fraction that is not empty, or as many zeros as are missing.\<close>

definition parseFractionalMilliseconds :: "jsstr \<Rightarrow> int" where
  "parseFractionalMilliseconds fraction =
     (if fraction = [] then 0
      else int (parseDec (if 3 \<le> length fraction then take 3 fraction
                          else fraction @ replicate (3 - length fraction) 48)))"

text \<open>
  The rest of a timestamp after the seconds: an optional fraction, then \<open>Z\<close> or an offset. The offset is
  its sign, hours and minutes.
\<close>

definition zoneOf :: "jsstr \<Rightarrow> (bool \<times> int \<times> int) option option" where
  "zoneOf s =
     (if s = lit ''Z'' \<or> s = lit ''z'' then Some None
      else if length s = 6 \<and> (slice 0 1 s = lit ''+'' \<or> slice 0 1 s = lit ''-'') \<and> slice 3 1 s = lit '':'' then
        (case (digitsAt 1 2 s, digitsAt 4 2 s) of
           (Some h, Some m) \<Rightarrow> Some (Some (slice 0 1 s = lit ''-'', h, m))
         | _ \<Rightarrow> None)
      else None)"

definition fractionZone :: "jsstr \<Rightarrow> (jsstr \<times> (bool \<times> int \<times> int) option) option" where
  "fractionZone s =
     (if slice 0 1 s = lit ''.'' then
        (let f = takeWhile isDigit (drop 1 s)
         in if f = [] then None else map_option (Pair f) (zoneOf (drop (Suc (length f)) s)))
      else map_option (Pair []) (zoneOf s))"

definition parseRFC3339 :: "jsstr \<Rightarrow> jsDate option" where
  "parseRFC3339 s =
     (if slice 4 1 s = lit ''-'' \<and> slice 7 1 s = lit ''-'' \<and>
         (slice 10 1 s = lit ''T'' \<or> slice 10 1 s = lit ''t'' \<or> slice 10 1 s = lit '' '') \<and>
         slice 13 1 s = lit '':'' \<and> slice 16 1 s = lit '':''
      then
        (case (allFields (Some 0) (digitsAt 0 4 s) (digitsAt 5 2 s) (digitsAt 8 2 s) (digitsAt 11 2 s)
                 (digitsAt 14 2 s) (digitsAt 17 2 s), fractionZone (drop 19 s)) of
           (Some (_, year, month, day, hours, minutes, seconds), Some (fraction, offset)) \<Rightarrow>
             if \<not> isValidDateParts year month day then None
             else if hours < 0 \<or> hours > 23 then None
             else if minutes < 0 \<or> minutes > 59 then None
             else if seconds < 0 \<or> seconds > 60 then None
             else if (case offset of
                        Some (neg, h, m) \<Rightarrow> h < 0 \<or> h > 23 \<or> m < 0 \<or> m > 59
                      | None \<Rightarrow> False) then None
             else
               let offsetTotalMinutes =
                     (case offset of Some (neg, h, m) \<Rightarrow> (if neg then - (h * 60 + m) else h * 60 + m) | None \<Rightarrow> 0);
                   milliseconds = parseFractionalMilliseconds fraction;
                   wholeSeconds = (if seconds = 60 then 59 else seconds);
                   leapSecondAdjustment = (if seconds = 60 then 1000 else 0)
               in (case dateUTC year (month - 1) day hours minutes wholeSeconds milliseconds of
                     None \<Rightarrow> None
                   | Some utcMillis \<Rightarrow>
                       let t = utcMillis + leapSecondAdjustment - offsetTotalMinutes * 60000
                       in Some (if \<bar>t\<bar> \<le> 8640000000000000 then Some t else None))
         | _ \<Rightarrow> None)
      else None)"

text \<open>\<open>date.toISOString()\<close>, which throws on the invalid date.\<close>

definition isoYear :: "int \<Rightarrow> jsstr" where
  "isoYear y = (if 0 \<le> y \<and> y \<le> 9999 then padDec 4 (nat y)
                else (if y < 0 then [45] else [43]) @ padDec 6 (nat \<bar>y\<bar>))"

definition toRFC3339 :: "jsDate \<Rightarrow> unit + jsstr" where
  "toRFC3339 date =
     (case date of
        None \<Rightarrow> Inl ()
      | Some t \<Rightarrow>
          Inr (isoYear (getUTCFullYear t) @ lit ''-'' @ padDec 2 (nat (getUTCMonth t + 1)) @ lit ''-'' @
            padDec 2 (nat (getUTCDate t)) @ lit ''T'' @ padDec 2 (nat (getUTCHours t)) @ lit '':'' @
            padDec 2 (nat (getUTCMinutes t)) @ lit '':'' @ padDec 2 (nat (getUTCSeconds t)) @ lit ''.'' @
            padDec 3 (nat (getUTCMilliseconds t)) @ lit ''Z''))"

section \<open>Clocks\<close>

text \<open>The time of \<open>Date.now()\<close> is an argument.\<close>

definition isExpired :: "int \<Rightarrow> jsDate \<Rightarrow> bool" where
  "isExpired now date = (case date of None \<Rightarrow> False | Some t \<Rightarrow> t < now)"

definition secondsUntil :: "int \<Rightarrow> jsDate \<Rightarrow> int" where
  "secondsUntil now date = (case date of None \<Rightarrow> 0 | Some t \<Rightarrow> if t - now > 0 then (t - now) div 1000 else 0)"

end
