(* ===== verification/Conditional.thy ===== *)
theory Conditional
  imports Etag HttpDate
begin

text \<open>
  Conditional requests: \<open>src/conditional.ts\<close> (RFC 9110 section 13). A request is its method and its
  header fields, looked up by lower-case name; a response is its status and headers. \<open>formatETag\<close> throws
  on a tag that is not valid, so evaluation can fail with the value of that tag.
\<close>

record request =
  reqMethod :: jsstr
  reqHeaders :: "jsstr \<Rightarrow> jsstr option"

type_synonym headerRecord = "(jsstr \<times> jsstr) list"

definition headerGet :: "request \<Rightarrow> jsstr \<Rightarrow> jsstr option" where
  "headerGet request name = reqHeaders request (toLower name)"

definition defaultCorsHeaders :: headerRecord where
  "defaultCorsHeaders =
     [(lit ''Access-Control-Allow-Origin'', lit ''*''),
      (lit ''Access-Control-Allow-Methods'', lit ''GET, HEAD, OPTIONS''),
      (lit ''Access-Control-Allow-Headers'', lit ''Content-Type, Accept, If-None-Match, If-Modified-Since''),
      (lit ''Access-Control-Expose-Headers'', lit ''ETag, Last-Modified, Link, X-Total-Count''),
      (lit ''Access-Control-Max-Age'', lit ''86400'')]"

definition isSafeMethod :: "jsstr \<Rightarrow> bool" where
  "isSafeMethod method = (let upper = toUpper method in upper = lit ''GET'' \<or> upper = lit ''HEAD'')"

definition buildConditionalHeaders :: "etag option \<Rightarrow> jsDate option \<Rightarrow> jsstr + headerRecord" where
  "buildConditionalHeaders currentETag lastModified =
     andThen
       (case currentETag of
          None \<Rightarrow> Inr defaultCorsHeaders
        | Some e \<Rightarrow> andThen (formatETag e) (\<lambda>text. Inr (objPut (lit ''ETag'') text defaultCorsHeaders)))
       (\<lambda>headers. Inr (case lastModified of
          None \<Rightarrow> headers
        | Some d \<Rightarrow> objPut (lit ''Last-Modified'') (formatHTTPDate d) headers))"

text \<open>\<open>Math.floor(ms / 1000) * 1000\<close>, undefined on the invalid date, with which no comparison holds.\<close>

definition toWholeSecondPrecision :: "jsDate \<Rightarrow> int option" where
  "toWholeSecondPrecision date = map_option (\<lambda>ms. ms div 1000 * 1000) date"

definition notLater :: "int option \<Rightarrow> int option \<Rightarrow> bool" where
  "notLater a b = (case (a, b) of (Some x, Some y) \<Rightarrow> x \<le> y | _ \<Rightarrow> False)"

section \<open>Lists of entity tags\<close>

datatype tagList = AnyTag | Tags "etag list"

definition tagPrefix :: "jsstr \<Rightarrow> nat option" where
  "tagPrefix s = (if startsWith s (lit ''W/'' @ [34]) then Some 3 else if startsWith s [34] then Some 1 else None)"

text \<open>The loop of \<open>parseIfNoneMatch\<close>, on the rest of the text.\<close>

function tagLoop :: "etag list \<Rightarrow> jsstr \<Rightarrow> etag list" where
  "tagLoop etags s =
     (if s = [] then etags
      else
        case tagPrefix s of
          None \<Rightarrow> []
        | Some k \<Rightarrow>
            (case indexOfUnit 34 (drop k s) of
               None \<Rightarrow> []
             | Some i \<Rightarrow>
                 (case parseETag (take (k + i + 1) s) of
                    None \<Rightarrow> []
                  | Some parsed \<Rightarrow>
                      let s1 = dropWhile isOws (drop (k + i + 1) s)
                      in if s1 = [] then etags @ [parsed]
                         else if hd s1 \<noteq> cu CHR '','' then []
                         else
                           let s2 = dropWhile isOws (tl s1)
                           in if s2 = [] then [] else tagLoop (etags @ [parsed]) s2)))"
  by auto
termination
proof (relation "measure (\<lambda>(etags, s). length s)")
  fix etags :: "etag list" and s k i parsed s1 s2
  assume "s \<noteq> []" and "s1 = dropWhile isOws (drop (k + i + 1) s)" and "s2 = dropWhile isOws (tl s1)" and "s1 \<noteq> []"
  then have "length s2 \<le> length (tl s1)" "length (tl s1) < length s1" "length s1 \<le> length s"
    by (simp_all add: length_dropWhile_le order_trans[OF length_dropWhile_le])
  then show "((etags @ [parsed], s2), (etags, s)) \<in> measure (\<lambda>(etags, s). length s)" by simp
qed simp

declare tagLoop.simps [simp del]

definition parseIfNoneMatch :: "jsstr \<Rightarrow> tagList" where
  "parseIfNoneMatch header =
     (let trimmed = jsTrim header
      in if trimmed = lit ''*'' then AnyTag
         else if trimmed = [] then Tags []
         else Tags (tagLoop [] trimmed))"

definition parseIfMatch :: "jsstr \<Rightarrow> tagList" where
  "parseIfMatch header = parseIfNoneMatch header"

section \<open>The four preconditions\<close>

definition evaluateIfMatch :: "jsstr \<Rightarrow> etag option \<Rightarrow> bool" where
  "evaluateIfMatch header current =
     (case parseIfMatch header of
        AnyTag \<Rightarrow> current \<noteq> None
      | Tags tags \<Rightarrow> (case current of None \<Rightarrow> False | Some c \<Rightarrow> list_ex (\<lambda>e. compareETags e c True) tags))"

definition evaluateIfNoneMatch :: "jsstr \<Rightarrow> etag option \<Rightarrow> bool" where
  "evaluateIfNoneMatch header current =
     (case current of
        None \<Rightarrow> False
      | Some c \<Rightarrow>
          (case parseIfNoneMatch header of
             AnyTag \<Rightarrow> True
           | Tags tags \<Rightarrow> list_ex (\<lambda>e. compareETags e c False) tags))"

definition evaluateIfModifiedSince :: "int \<Rightarrow> jsstr \<Rightarrow> jsDate option \<Rightarrow> bool" where
  "evaluateIfModifiedSince now header lastModified =
     (case lastModified of
        None \<Rightarrow> False
      | Some d \<Rightarrow>
          (case parseHTTPDate now header of
             None \<Rightarrow> False
           | Some since \<Rightarrow> notLater (toWholeSecondPrecision d) (toWholeSecondPrecision (Some since))))"

definition evaluateIfUnmodifiedSince :: "int \<Rightarrow> jsstr \<Rightarrow> jsDate option \<Rightarrow> bool" where
  "evaluateIfUnmodifiedSince now header lastModified =
     (if jsTrim header = [] then True
      else
        case parseHTTPDate now header of
          None \<Rightarrow> True
        | Some since \<Rightarrow>
            (case lastModified of
               None \<Rightarrow> True
             | Some d \<Rightarrow> notLater (toWholeSecondPrecision d) (toWholeSecondPrecision (Some since))))"

section \<open>Precedence\<close>

datatype conditionalResult = Proceed | Answer nat headerRecord

definition evaluatePreconditions ::
  "int \<Rightarrow> request \<Rightarrow> etag option \<Rightarrow> jsDate option \<Rightarrow> jsstr + conditionalResult" where
  "evaluatePreconditions now request currentETag lastModified =
     (let method = reqMethod request;
          ifMatch = headerGet request (lit ''If-Match'');
          ifNoneMatch = headerGet request (lit ''If-None-Match'');
          ifModifiedSince = headerGet request (lit ''If-Modified-Since'');
          ifUnmodifiedSince = headerGet request (lit ''If-Unmodified-Since'');
          answer = (\<lambda>status. andThen (buildConditionalHeaders currentETag lastModified) (\<lambda>h. Inr (Answer status h)))
      in if (case ifMatch of Some h \<Rightarrow> \<not> evaluateIfMatch h currentETag | None \<Rightarrow> False) then answer 412
         else if ifMatch = None \<and>
                 (case ifUnmodifiedSince of Some h \<Rightarrow> \<not> evaluateIfUnmodifiedSince now h lastModified | None \<Rightarrow> False)
         then answer 412
         else if (case ifNoneMatch of Some h \<Rightarrow> evaluateIfNoneMatch h currentETag | None \<Rightarrow> False)
         then (if isSafeMethod method then answer 304 else answer 412)
         else if ifNoneMatch = None \<and>
                 (case ifModifiedSince of
                    Some h \<Rightarrow> isSafeMethod method \<and> evaluateIfModifiedSince now h lastModified
                  | None \<Rightarrow> False)
         then answer 304
         else Inr Proceed)"

record response =
  respStatus :: nat
  respHeaders :: headerRecord

definition handleConditionalRequest :: "int \<Rightarrow> request \<Rightarrow> jsstr \<Rightarrow> jsDate \<Rightarrow> jsstr + response option" where
  "handleConditionalRequest now request etagText lastModified =
     andThen (evaluatePreconditions now request (parseETag etagText) (Some lastModified))
       (\<lambda>result. case result of
          Proceed \<Rightarrow> Inr None
        | Answer status headers \<Rightarrow>
            let h1 = (case objGet (lit ''ETag'') headers of
                        Some v \<Rightarrow> if v = [] then objPut (lit ''ETag'') etagText headers else headers
                      | None \<Rightarrow> objPut (lit ''ETag'') etagText headers);
                h2 = (case objGet (lit ''Last-Modified'') h1 of
                        Some v \<Rightarrow> if v = [] then objPut (lit ''Last-Modified'') (formatHTTPDate lastModified) h1 else h1
                      | None \<Rightarrow> objPut (lit ''Last-Modified'') (formatHTTPDate lastModified) h1)
            in Inr (Some \<lparr>respStatus = status, respHeaders = h2\<rparr>))"

end
