(* ===== verification/Range.thy ===== *)
theory Range
  imports Conditional
begin

text \<open>
  Range requests: \<open>src/range.ts\<close> (RFC 9110 section 14). A range as the header gives it has doubles for its
  bounds, since \<open>parseInt\<close> rounds and an open range ends at infinity; a range within a representation of
  \<open>size\<close> bytes, an integer that is exact as a double, has integers.
\<close>

record 'n byteRange =
  start :: 'n
  stop :: 'n

definition isStrictDigits :: "jsstr \<Rightarrow> bool" where
  "isStrictDigits value \<longleftrightarrow> value \<noteq> [] \<and> list_all isDigit value"

text \<open>\<open>parseInt(s, 10)\<close> on digits.\<close>

definition parseIntDigits :: "jsstr \<Rightarrow> jsnum" where
  "parseIntDigits s = roundDouble (int (parseDec s)) 1"

definition negNum :: "jsnum \<Rightarrow> jsnum" where
  "negNum x = (case x of Fin q \<Rightarrow> Fin (- q) | PosInf \<Rightarrow> NegInf | NegInf \<Rightarrow> PosInf | NaN \<Rightarrow> NaN)"

section \<open>The \<open>Range\<close> field\<close>

definition parseRangePart :: "jsstr \<Rightarrow> jsnum byteRange option" where
  "parseRangePart part =
     (let rangePart = jsTrim part
      in if rangePart = [] then None
         else
           case indexOfUnit (cu CHR ''-'') rangePart of
             None \<Rightarrow> None
           | Some dashIndex \<Rightarrow>
               let startStr = jsTrim (take dashIndex rangePart);
                   endStr = jsTrim (drop (dashIndex + 1) rangePart)
               in if startStr = [] then
                    (if \<not> isStrictDigits endStr then None
                     else
                       let suffixLength = parseIntDigits endStr
                       in if suffixLength \<le> Fin 0 then None
                          else Some \<lparr>start = negNum suffixLength, stop = Fin (- 1)\<rparr>)
                  else if \<not> isStrictDigits startStr then None
                  else
                    let st = parseIntDigits startStr
                    in if st < Fin 0 then None
                       else if endStr = [] then Some \<lparr>start = st, stop = PosInf\<rparr>
                       else if \<not> isStrictDigits endStr then None
                       else
                         let en = parseIntDigits endStr
                         in if en < st then None else Some \<lparr>start = st, stop = en\<rparr>)"

fun parseRangeParts :: "jsstr list \<Rightarrow> jsnum byteRange list option" where
  "parseRangeParts [] = Some []"
| "parseRangeParts (p # ps) =
     (case parseRangePart p of
        None \<Rightarrow> None
      | Some r \<Rightarrow> map_option (\<lambda>rs. r # rs) (parseRangeParts ps))"

definition parseRange :: "jsstr \<Rightarrow> jsnum byteRange list option" where
  "parseRange header =
     (if header = [] \<or> jsTrim header = [] then None
      else
        let trimmed = jsTrim header
        in if toLower (take 6 trimmed) \<noteq> lit ''bytes='' then None
           else
             let value = drop 6 trimmed
             in if value = [] then None
                else
                  case parseRangeParts (splitOn (cu CHR '','') value) of
                    None \<Rightarrow> None
                  | Some rawRanges \<Rightarrow> if rawRanges = [] then None else Some rawRanges)"

section \<open>The \<open>Content-Range\<close> field\<close>

text \<open>A size is \<open>None\<close> for the star; \<open>crRange\<close> is \<open>None\<close> for an unsatisfied range.\<close>

record contentRange =
  crRange :: "jsnum byteRange option"
  crSize :: "jsnum option"

definition parseContentRange :: "jsstr \<Rightarrow> contentRange option" where
  "parseContentRange header =
     (if header = [] \<or> jsTrim header = [] then None
      else
        let trimmed = jsTrim header
        in case indexOfUnit 32 trimmed of
             None \<Rightarrow> None
           | Some firstSpace \<Rightarrow>
               if toLower (jsTrim (take firstSpace trimmed)) \<noteq> lit ''bytes'' then None
               else
                 (case splitOn (cu CHR ''/'') (jsTrim (drop (firstSpace + 1) trimmed)) of
                    rangePart # sizePart # _ \<Rightarrow>
                      if rangePart = [] then None
                      else
                        let sizeToken = jsTrim sizePart
                        in if sizeToken \<noteq> lit ''*'' \<and> \<not> isStrictDigits sizeToken then None
                           else
                             let sz = (if sizeToken = lit ''*'' then None else Some (parseIntDigits sizeToken))
                             in if jsTrim rangePart = lit ''*'' then
                                  (if sz = None then None else Some \<lparr>crRange = None, crSize = sz\<rparr>)
                                else
                                  (case indexOfUnit (cu CHR ''-'') rangePart of
                                     None \<Rightarrow> None
                                   | Some dashIndex \<Rightarrow>
                                       let startToken = jsTrim (take dashIndex rangePart);
                                           endToken = jsTrim (drop (dashIndex + 1) rangePart)
                                       in if \<not> isStrictDigits startToken \<or> \<not> isStrictDigits endToken then None
                                          else
                                            let st = parseIntDigits startToken; en = parseIntDigits endToken
                                            in if st < Fin 0 \<or> en < st then None
                                               else if (case sz of Some n \<Rightarrow> n \<le> en | None \<Rightarrow> False) then None
                                               else Some \<lparr>crRange = Some \<lparr>start = st, stop = en\<rparr>, crSize = sz\<rparr>)
                  | _ \<Rightarrow> None))"

definition formatContentRange :: "int byteRange \<Rightarrow> int option \<Rightarrow> jsstr" where
  "formatContentRange r sz =
     (let total = (case sz of None \<Rightarrow> lit ''*'' | Some n \<Rightarrow> numToString (Fin (of_int n)))
      in lit ''bytes '' @ numToString (Fin (of_int (start r))) @ lit ''-'' @
         numToString (Fin (of_int (stop r))) @ lit ''/'' @ total)"

section \<open>Ranges within a representation\<close>

text \<open>\<open>Math.max(0, size - Math.abs(start))\<close> for a start below zero.\<close>

definition suffixStart :: "int \<Rightarrow> jsnum \<Rightarrow> int" where
  "suffixStart sz st = (case st of Fin q \<Rightarrow> max 0 (sz + \<lfloor>q\<rfloor>) | _ \<Rightarrow> 0)"

text \<open>One turn of the first loop of \<open>normalizeRanges\<close>.\<close>

definition normalizeRange :: "int \<Rightarrow> jsnum byteRange \<Rightarrow> int byteRange option" where
  "normalizeRange sz r =
     (let suffix = start r < Fin 0 \<and> stop r = Fin (- 1);
          st = (if suffix then Fin (of_int (suffixStart sz (start r))) else start r);
          en = (if suffix \<or> stop r = PosInf then Fin (of_int (sz - 1)) else stop r)
      in if Fin (of_int sz) \<le> st \<or> st < Fin 0 then None
         else if en < st then None
         else Some \<lparr>start = intOfNum st, stop = intOfNum (if Fin (of_int sz) \<le> en then Fin (of_int (sz - 1)) else en)\<rparr>)"

text \<open>The second loop, from the range last added.\<close>

fun mergeFrom :: "int byteRange \<Rightarrow> int byteRange list \<Rightarrow> int byteRange list" where
  "mergeFrom prev [] = [prev]"
| "mergeFrom prev (current # rs) =
     (if start current \<le> stop prev + 1 then mergeFrom (prev\<lparr>stop := max (stop prev) (stop current)\<rparr>) rs
      else prev # mergeFrom current rs)"

definition normalizeRanges :: "jsnum byteRange list \<Rightarrow> int \<Rightarrow> int byteRange list" where
  "normalizeRanges rawRanges sz =
     (let normalized = List.map_filter (normalizeRange sz) rawRanges
      in case sort_key start normalized of
           [] \<Rightarrow> []
         | r # rs \<Rightarrow> mergeFrom r rs)"

section \<open>Evaluation\<close>

definition ifRangeMatches :: "int \<Rightarrow> jsstr \<Rightarrow> jsstr option \<Rightarrow> jsDate option \<Rightarrow> bool" where
  "ifRangeMatches now ifRange currentETag lastModified =
     (if jsTrim ifRange = [] then False
      else
        case (parseETag ifRange, currentETag) of
          (Some etag, Some (c # cs)) \<Rightarrow>
            (case parseETag (c # cs) of None \<Rightarrow> False | Some current \<Rightarrow> compareETags etag current True)
        | _ \<Rightarrow>
            (case (parseHTTPDate now ifRange, lastModified) of
               (Some date, Some modified) \<Rightarrow> notLater modified (Some date)
             | _ \<Rightarrow> False))"

datatype rangeDecision =
    NoRange
  | Ignored
  | Unsatisfiable headerRecord
  | Partial "int byteRange list" headerRecord

definition evaluateRange :: "int \<Rightarrow> request \<Rightarrow> int \<Rightarrow> jsstr option \<Rightarrow> jsDate option \<Rightarrow> rangeDecision" where
  "evaluateRange now request sz etag lastModified =
     (let method = toUpper (reqMethod request)
      in case headerGet request (lit ''Range'') of
           None \<Rightarrow> NoRange
         | Some rangeHeader \<Rightarrow>
             if rangeHeader = [] then NoRange
             else if method \<noteq> lit ''GET'' then Ignored
             else
               (case parseRange rangeHeader of
                  None \<Rightarrow> Ignored
                | Some parsed \<Rightarrow>
                    if (case headerGet request (lit ''If-Range'') of
                          None \<Rightarrow> False
                        | Some ifRange \<Rightarrow> ifRange \<noteq> [] \<and> \<not> ifRangeMatches now ifRange etag lastModified)
                    then Ignored
                    else if sz \<le> 0 then
                      Unsatisfiable [(lit ''Content-Range'', lit ''bytes */0''), (lit ''Accept-Ranges'', lit ''bytes'')]
                    else
                      let ranges = normalizeRanges parsed sz
                      in case ranges of
                           [] \<Rightarrow>
                             Unsatisfiable
                               [(lit ''Content-Range'', lit ''bytes */'' @ numToString (Fin (of_int sz))),
                                (lit ''Accept-Ranges'', lit ''bytes'')]
                         | [r] \<Rightarrow>
                             Partial ranges
                               [(lit ''Accept-Ranges'', lit ''bytes''),
                                (lit ''Content-Range'', formatContentRange r (Some sz))]
                         | _ \<Rightarrow> Partial ranges [(lit ''Accept-Ranges'', lit ''bytes'')]))"

end
