(* ===== verification/HttpDateLaws.thy ===== *)
theory HttpDateLaws
  imports HttpDate
begin

text \<open>
  What \<open>src/datetime.ts\<close> promises: the dates of a header field and the timestamps of a document come back
  from their text, and a date that is accepted in one of the three formats is the date its text says.
\<close>

section \<open>Numbers and texts of fixed width\<close>

lemma length_padDec [simp]: "n < 10 ^ k \<Longrightarrow> 0 < k \<Longrightarrow> length (padDec k n) = k"
  using length_showNat[of n k] by (simp add: padDec_def)

lemma parseDec_padDec [simp]: "parseDec (padDec k n) = n"
  using parseDec_showNat[of n] by (simp add: padDec_def parseDec_def readDigits_zeros)

lemma padDec_digits [simp]: "list_all isDigit (padDec k n)"
  by (auto simp: padDec_def list_all_iff isDigit_def dest: showNat_digits)

lemma slice_append [simp]:
  "length a \<le> i \<Longrightarrow> slice i n (a @ b) = slice (i - length a) n b"
  "length a \<le> n \<Longrightarrow> slice 0 n (a @ b) = a @ slice 0 (n - length a) b"
  "length a = n \<Longrightarrow> slice 0 n a = a"
  by (simp_all add: slice_def)

lemma slice_Cons [simp]:
  "0 < i \<Longrightarrow> slice i n (c # s) = slice (i - 1) n s"
  "0 < n \<Longrightarrow> slice 0 n (c # s) = c # slice 0 (n - 1) s"
  "slice 0 0 s = []"
  by (cases i; simp add: slice_def) (cases n; simp add: slice_def)+

lemma digitsAt_slice: "slice i n s = padDec n k \<Longrightarrow> k < 10 ^ n \<Longrightarrow> 0 < n \<Longrightarrow> digitsAt i n s = Some (int k)"
  by (simp add: digitsAt_def)

lemma nameIndex_nth: "distinct ns \<Longrightarrow> i < length ns \<Longrightarrow> nameIndex ns (ns ! i) = Some (int i)"
proof (induction ns arbitrary: i)
  case (Cons n ns)
  then show ?case by (cases i) auto
qed simp

lemma nameIndex_Some: "nameIndex ns s = Some i \<Longrightarrow> 0 \<le> i \<and> nat i < length ns \<and> ns ! nat i = s"
proof (induction ns arbitrary: i)
  case (Cons n ns)
  show ?case
  proof (cases "n = s")
    case False
    with Cons.prems obtain j where "nameIndex ns s = Some j" "i = j + 1" by auto
    with Cons.IH[of j] show ?thesis by (simp add: nat_add_distrib)
  qed (use Cons.prems in auto)
qed simp

lemma names:
  "distinct DAY_NAMES" "distinct MONTH_NAMES" "length DAY_NAMES = 7" "length MONTH_NAMES = 12"
  "length FULL_DAY_NAMES = 7"
  by (simp_all add: DAY_NAMES_def MONTH_NAMES_def FULL_DAY_NAMES_def)

lemma names_length [simp]:
  "i < 7 \<Longrightarrow> length (DAY_NAMES ! i) = 3" "i < 12 \<Longrightarrow> length (MONTH_NAMES ! i) = 3"
  by (simp_all add: DAY_NAMES_def MONTH_NAMES_def less_Suc_eq numeral_eq_Suc) auto

lemma imfFields_text:
  assumes "wd < 7" "mo < 12" "d < 100" "y < 10000" "h < 100" "mi < 100" "s < 100"
  shows "imfFields (DAY_NAMES ! wd @ lit '', '' @ padDec 2 d @ lit '' '' @ MONTH_NAMES ! mo @ lit '' '' @ padDec 4 y @
      lit '' '' @ padDec 2 h @ lit '':'' @ padDec 2 mi @ lit '':'' @ padDec 2 s @ lit '' GMT'') =
    Some (int wd, int y, int mo, int d, int h, int mi, int s)"
  using assms names unfolding imfFields_def
  by (simp add: digitsAt_slice nameIndex_nth allFields_def)

section \<open>Validated dates\<close>

lemma in_time_range:
  assumes "-1000 \<le> y" "y \<le> 12000" "validFields y m d h mi s ms"
  shows "\<bar>timeOf y m d h mi s ms\<bar> \<le> 1000000000000000"
proof -
  have v: "0 \<le> m" "m \<le> 11" "1 \<le> d" "d \<le> daysInMonth y m" and
    w: "0 \<le> h" "h \<le> 23" "0 \<le> mi" "mi \<le> 59" "0 \<le> s" "s \<le> 59" "0 \<le> ms" "ms \<le> 999"
    using assms(3) by (simp_all add: validFields_def)
  have "dayFromYear y \<le> makeDay y m d" "makeDay y m d < dayFromYear (y + 1)"
    using days_fit[OF v] v by (simp_all add: makeDay_plain dayFromYear_Suc)
  moreover have "dayFromYear (-1001 + 1) \<le> dayFromYear y" "dayFromYear (y + 1) \<le> dayFromYear 12001"
    using dayFromYear_less[of "-1001" y] dayFromYear_less[of y 12001] assms by simp_all
  moreover have "- 2000000 \<le> dayFromYear (-1001 + 1)" "dayFromYear 12001 \<le> 4000000" by (simp_all add: dayFromYear_def)
  ultimately show ?thesis using w by (simp add: timeOf_def msPerDay_def)
qed

lemma dateUTC_timeOf:
  assumes "\<not> (0 \<le> y \<and> y \<le> 99)" "-1000 \<le> y" "y \<le> 12000" "validFields y m d h mi s ms"
  shows "dateUTC y m d h mi s ms = Some (timeOf y m d h mi s ms)"
  using in_time_range[OF assms(2-4)] assms(1) by (simp only: dateUTC_def timeOf_def Let_def if_False simp_thms) auto

lemma validated_complete:
  assumes "\<not> (0 \<le> y \<and> y \<le> 99)" "-1000 \<le> y" "y \<le> 12000" "validFields y m d h mi s 0" "wd = getUTCDay (timeOf y m d h mi s 0)"
  shows "buildValidatedHTTPDate y m d h mi s wd = Some (timeOf y m d h mi s 0)"
proof -
  have "0 \<le> m" "m \<le> 11" "0 \<le> h" "h \<le> 23" "0 \<le> mi" "mi \<le> 59" "0 \<le> s" "s \<le> 59"
    using assms(4) by (simp_all add: validFields_def)
  then show ?thesis
    by (simp add: buildValidatedHTTPDate_def dateUTC_timeOf[OF assms(1-4)] date_split[OF assms(4)] time_split[OF assms(4)] assms(5))
qed

lemma validated_sound:
  assumes "buildValidatedHTTPDate y m d h mi s wd = Some t"
  shows "validFields y m d h mi s 0" "t = timeOf y m d h mi s 0" "wd = getUTCDay t" "\<not> (0 \<le> y \<and> y \<le> 99)"
proof -
  from assms have utc: "dateUTC y m d h mi s 0 = Some t" and
    f: "getUTCFullYear t = y" "getUTCMonth t = m" "getUTCDate t = d" "getUTCHours t = h" "getUTCMinutes t = mi"
      "getUTCSeconds t = s" and wd: "getUTCDay t = wd"
    by (auto simp: buildValidatedHTTPDate_def split: if_splits option.splits)
  have ft: "validFields y m d h mi s (getUTCMilliseconds t)" "timeOf y m d h mi s (getUTCMilliseconds t) = t"
    using fields_of_time[of t] f by simp_all
  define y' where "y' = (if 0 \<le> y \<and> y \<le> 99 then 1900 + y else y)"
  have t: "t = makeDay y' m d * msPerDay + h * 3600000 + mi * 60000 + s * 1000"
    using utc by (simp only: dateUTC_def Let_def y'_def[symmetric]) (simp split: if_splits)
  then have "t = (makeDay y' m d * 86400 + h * 3600 + mi * 60 + s) * 1000" by (simp add: msPerDay_def)
  then have ms: "getUTCMilliseconds t = 0" unfolding getUTCMilliseconds_def by simp
  with ft show v: "validFields y m d h mi s 0" "t = timeOf y m d h mi s 0" by simp_all
  show "wd = getUTCDay t" using wd by simp
  show "\<not> (0 \<le> y \<and> y \<le> 99)"
  proof
    assume "0 \<le> y \<and> y \<le> 99"
    then have "t = timeOf (1900 + y) m d h mi s 0" using t by (simp add: y'_def timeOf_def)
    with v(2) have "makeDay y m d = makeDay (1900 + y) m d" by (simp add: timeOf_def msPerDay_def)
    moreover have m: "0 \<le> m" "m \<le> 11" "1 \<le> d" "d \<le> daysInMonth y m" using v(1) by (simp_all add: validFields_def)
    then have "makeDay y m d < dayFromYear (y + 1)" using days_fit[OF m] by (simp add: makeDay_plain dayFromYear_Suc)
    moreover have "dayFromYear (1900 + y) \<le> makeDay (1900 + y) m d"
      using m by (auto simp: makeDay_plain daysBeforeMonth_def Let_def)
    ultimately show False using dayFromYear_less[of y "1900 + y"] by simp
  qed
qed

lemma same_day: "t div 1000 * 1000 div msPerDay = t div msPerDay"
  by (simp add: msPerDay_def zdiv_zmult2_eq[of 86400 t 1000, simplified] zdiv_zmult2_eq[of 86400 "t div 1000 * 1000" 1000, simplified])

text \<open>The fields of a time value, to the second.\<close>

lemma whole_second:
  shows "validFields (getUTCFullYear t) (getUTCMonth t) (getUTCDate t) (getUTCHours t) (getUTCMinutes t) (getUTCSeconds t) 0"
    "timeOf (getUTCFullYear t) (getUTCMonth t) (getUTCDate t) (getUTCHours t) (getUTCMinutes t) (getUTCSeconds t) 0 = t div 1000 * 1000"
proof -
  show "validFields (getUTCFullYear t) (getUTCMonth t) (getUTCDate t) (getUTCHours t) (getUTCMinutes t) (getUTCSeconds t) 0"
    using fields_of_time(1)[of t] by (simp add: validFields_def)
  have "t div 1000 * 1000 = t - getUTCMilliseconds t" by (simp add: getUTCMilliseconds_def minus_mod_eq_div_mult)
  then show "timeOf (getUTCFullYear t) (getUTCMonth t) (getUTCDate t) (getUTCHours t) (getUTCMinutes t) (getUTCSeconds t) 0 = t div 1000 * 1000"
    using fields_of_time(2)[of t] by (simp add: timeOf_def)
qed

lemma fields_small:
  "nat (getUTCDay t) < 7" "nat (getUTCMonth t) < 12" "nat (getUTCMonth t + 1) < 100" "nat (getUTCDate t) < 100"
  "nat (getUTCHours t) < 100" "nat (getUTCMinutes t) < 100" "nat (getUTCSeconds t) < 100" "nat (getUTCMilliseconds t) < 1000"
  "0 \<le> getUTCDay t" "0 \<le> getUTCMonth t" "0 \<le> getUTCDate t" "0 \<le> getUTCHours t" "0 \<le> getUTCMinutes t"
  "0 \<le> getUTCSeconds t" "0 \<le> getUTCMilliseconds t"
  using fields_of_time(1)[of t]
  by (auto simp: validFields_def daysInMonth_def getUTCDay_def nat_less_iff split: if_splits)

lemma field_ints:
  "int (nat (getUTCDay t)) = getUTCDay t" "int (nat (getUTCMonth t)) = getUTCMonth t"
  "int (nat (getUTCMonth t + 1)) - 1 = getUTCMonth t" "int (nat (getUTCDate t)) = getUTCDate t"
  "int (nat (getUTCHours t)) = getUTCHours t" "int (nat (getUTCMinutes t)) = getUTCMinutes t"
  "int (nat (getUTCSeconds t)) = getUTCSeconds t" "int (nat (getUTCMilliseconds t)) = getUTCMilliseconds t"
  using fields_small[of t] by auto

lemma parse_formatted:
  assumes "100 \<le> getUTCFullYear t" "getUTCFullYear t \<le> 9999"
  shows "parseHTTPDate now (formatHTTPDate (Some t)) = Some (t div 1000 * 1000)"
proof -
  have y: "yearText (getUTCFullYear t) = padDec 4 (nat (getUTCFullYear t))" "nat (getUTCFullYear t) < 10000"
    using assms by (simp_all add: yearText_def)
  have day: "getUTCDay (t div 1000 * 1000) = getUTCDay t" by (simp only: getUTCDay_def same_day)
  have "buildValidatedHTTPDate (getUTCFullYear t) (getUTCMonth t) (getUTCDate t) (getUTCHours t) (getUTCMinutes t)
      (getUTCSeconds t) (getUTCDay t) = Some (t div 1000 * 1000)"
    unfolding whole_second(2)[symmetric]
    by (rule validated_complete[OF _ _ _ whole_second(1)]) (use assms day in \<open>simp_all only: whole_second(2)\<close>, simp_all)
  moreover have "imfFields (formatHTTPDate (Some t)) =
      Some (getUTCDay t, getUTCFullYear t, getUTCMonth t, getUTCDate t, getUTCHours t, getUTCMinutes t, getUTCSeconds t)"
  proof -
    have "int (nat (getUTCFullYear t)) = getUTCFullYear t" using assms(1) by simp
    note ints = this field_ints[of t]
    show ?thesis unfolding formatHTTPDate_def option.case y(1)
      imfFields_text[OF fields_small(1,2,4) y(2) fields_small(5-7)] ints ..
  qed
  ultimately show ?thesis by (simp only: parseHTTPDate_def option.case prod.case)
qed

lemma digitsAt_bounds: "digitsAt i n s = Some k \<Longrightarrow> 0 \<le> k \<and> k < 10 ^ n"
proof -
  assume "digitsAt i n s = Some k"
  then have w: "list_all isDigit (slice i n s)" "length (slice i n s) = n" and k: "k = int (parseDec (slice i n s))"
    by (auto simp: digitsAt_def Let_def split: if_splits)
  have "parseDec (slice i n s) < 10 ^ n" using readDigits_bound[OF w(1), of 0] w(2) by (simp add: parseDec_def)
  then show ?thesis unfolding k using of_nat_less_iff[where 'a = int, of "parseDec (slice i n s)" "10 ^ n"] by simp
qed

lemma fields_year:
  "imfFields s = Some (wd, y, f) \<Longrightarrow> 0 \<le> y \<and> y \<le> 9999"
  "asctimeFields s = Some (wd, y, f) \<Longrightarrow> 0 \<le> y \<and> y \<le> 9999"
  "rfc850Fields s = Some (wd, y, f) \<Longrightarrow> 0 \<le> y \<and> y \<le> 99"
  by (auto simp: imfFields_def asctimeFields_def rfc850Fields_def allFields_def Let_def
      dest!: digitsAt_bounds split: option.splits if_splits)

text \<open>The fields a text gives, in whichever format it is: weekday, year, month, day, hours, minutes, seconds.\<close>

definition textFields :: "int \<Rightarrow> jsstr \<Rightarrow> dateFields option" where
  "textFields now s =
     (case imfFields s of
        Some f \<Rightarrow> Some f
      | None \<Rightarrow>
          (case rfc850Fields s of
             Some (wd, y, rest) \<Rightarrow> Some (wd, resolveRFC850Year now y, rest)
           | None \<Rightarrow> asctimeFields s))"

lemma parsed_year:
  assumes "150 \<le> now" "now \<le> 9900" "parseHTTPDate now s = Some t"
  obtains y m d h mi sec wd where "0 \<le> y" "y \<le> 9999" "buildValidatedHTTPDate y m d h mi sec wd = Some t"
    "textFields now s = Some (wd, y, m, d, h, mi, sec)"
proof -
  have "0 \<le> resolveRFC850Year now y \<and> resolveRFC850Year now y \<le> 9999" if "0 \<le> y" "y \<le> 99" for y
    using that assms(1,2) div_bounds[of 100 now] by (simp add: resolveRFC850Year_def Let_def)
  note resolve = this
  show thesis
  proof (cases "imfFields s")
    case None
    show thesis
    proof (cases "rfc850Fields s")
      case (Some f)
      obtain wd y g where f: "f = (wd, y, g)" by (cases f)
      with Some resolve[of y] fields_year(3)[of s wd y g]
      have "0 \<le> resolveRFC850Year now y" "resolveRFC850Year now y \<le> 9999" by simp_all
      with \<open>imfFields s = None\<close> assms(3) Some f show thesis
        by (cases g) (auto simp: parseHTTPDate_def textFields_def intro: that)
    next
      case None
      with \<open>imfFields s = None\<close> assms(3) obtain wd y m d h mi sec
        where f: "asctimeFields s = Some (wd, y, m, d, h, mi, sec)" "buildValidatedHTTPDate y m d h mi sec wd = Some t"
        by (auto simp: parseHTTPDate_def split: option.splits)
      then have "textFields now s = Some (wd, y, m, d, h, mi, sec)"
        using None \<open>imfFields s = None\<close> by (simp add: textFields_def)
      with f(2) fields_year(2)[OF f(1)] show thesis by (blast intro: that)
    qed
  next
    case (Some f)
    with assms(3) obtain wd y m d h mi sec
      where f: "imfFields s = Some (wd, y, m, d, h, mi, sec)" "buildValidatedHTTPDate y m d h mi sec wd = Some t"
      by (auto simp: parseHTTPDate_def split: option.splits prod.splits)
    then have "textFields now s = Some (wd, y, m, d, h, mi, sec)" by (simp add: textFields_def)
    with f(2) fields_year(1)[OF f(1)] show thesis by (blast intro: that)
  qed
qed

section \<open>Properties\<close>

text \<open>A date of the years 100 to 9999, written by \<open>formatHTTPDate\<close>, is read back by
  \<open>parseHTTPDate\<close> to the second, whatever the current year.\<close>

theorem http_date_roundtrip:
  assumes "100 \<le> getUTCFullYear t" "getUTCFullYear t \<le> 9999"
  shows "parseHTTPDate now (formatHTTPDate (Some t)) = Some (t div 1000 * 1000)"
  by (rule parse_formatted[OF assms])

theorem http_date_roundtrip_witness:
  "parseHTTPDate 2025 (formatHTTPDate (Some 784111777123)) = Some 784111777000"
  using http_date_roundtrip[of 784111777123 2025]
  by (simp add: getUTCFullYear_def yearOfDay_def dayFromYear_def msPerDay_def)

text \<open>C9 (http_date_normalizes): a date field in any of the three formats that \<open>parseHTTPDate\<close> accepts gives
  the weekday and the fields of the second it returns, which is one of the years 100 to 9999, and what
  \<open>formatHTTPDate\<close> writes for it is accepted with the same meaning.\<close>

theorem http_date_normalizes:
  assumes "150 \<le> now" "now \<le> 9900" "parseHTTPDate now s = Some t"
  shows "textFields now s = Some (getUTCDay t, getUTCFullYear t, getUTCMonth t, getUTCDate t, getUTCHours t, getUTCMinutes t,
      getUTCSeconds t) \<and>
    100 \<le> getUTCFullYear t \<and> getUTCFullYear t \<le> 9999 \<and> t mod 1000 = 0 \<and>
    parseHTTPDate now' (formatHTTPDate (Some t)) = Some t"
proof -
  obtain y m d h mi sec wd where y: "0 \<le> y" "y \<le> 9999" and b: "buildValidatedHTTPDate y m d h mi sec wd = Some t"
    and f: "textFields now s = Some (wd, y, m, d, h, mi, sec)"
    using assms by (rule parsed_year)
  note v = validated_sound[OF b]
  have fields: "getUTCFullYear t = y" "getUTCMonth t = m" "getUTCDate t = d" "getUTCHours t = h" "getUTCMinutes t = mi"
    "getUTCSeconds t = sec" and ms: "getUTCMilliseconds t = 0"
    using date_split[OF v(1)] time_split[OF v(1)] v(2) by simp_all
  then have "100 \<le> getUTCFullYear t" "getUTCFullYear t \<le> 9999" "t div 1000 * 1000 = t"
    using y v(4) by (simp_all add: getUTCMilliseconds_def minus_mod_eq_div_mult[symmetric])
  with ms f fields v(3) parse_formatted show ?thesis by (simp add: getUTCMilliseconds_def)
qed

theorem http_date_normalizes_witness:
  "100 \<le> getUTCFullYear 784111777000 \<and> parseHTTPDate 2025 (formatHTTPDate (Some 784111777000)) = Some 784111777000"
proof -
  have "parseHTTPDate 2025 (lit ''Sunday, 06-Nov-94 08:49:37 GMT'') = Some 784111777000" by code_simp
  then show ?thesis using http_date_normalizes[of 2025 "lit ''Sunday, 06-Nov-94 08:49:37 GMT''" 784111777000 2025] by simp
qed

section \<open>RFC 3339\<close>

lemma takeWhile_digits: "list_all isDigit f \<Longrightarrow> \<not> isDigit c \<Longrightarrow> takeWhile isDigit (f @ c # r) = f"
  by (induction f) auto

text \<open>The text of a timestamp: its fields, then what follows the seconds.\<close>

definition stamp :: "nat \<Rightarrow> nat \<Rightarrow> nat \<Rightarrow> cu \<Rightarrow> nat \<Rightarrow> nat \<Rightarrow> nat \<Rightarrow> jsstr \<Rightarrow> jsstr" where
  "stamp y mo d sep h mi s rest =
     padDec 4 y @ lit ''-'' @ padDec 2 mo @ lit ''-'' @ padDec 2 d @ [sep] @ padDec 2 h @ lit '':'' @ padDec 2 mi @
     lit '':'' @ padDec 2 s @ rest"

lemma fractionZone_text:
  assumes "list_all isDigit f" "f \<noteq> []" "zone \<noteq> []" "\<not> isDigit (hd zone)"
  shows "fractionZone (lit ''.'' @ f @ zone) = map_option (Pair f) (zoneOf zone)"
proof -
  obtain c r where zone: "zone = c # r" using assms(3) by (cases zone) auto
  with assms show ?thesis by (simp add: fractionZone_def takeWhile_digits)
qed

lemma parse_stamp_utc:
  assumes "y < 10000" "1 \<le> mo" "sep \<in> {84, 116, 32}"
    and utc: "dateUTC (int y) (int mo - 1) (int d) (int h) (int mi) (int s) ms = Some T" and range: "\<bar>T\<bar> \<le> 1000000000000000"
    and v: "validFields (int y) (int mo - 1) (int d) (int h) (int mi) (int s) ms"
    and fz: "fractionZone rest = Some (f, zone)" and ms: "parseFractionalMilliseconds f = ms"
    and zone: "case zone of None \<Rightarrow> off = 0
      | Some (neg, zh, zm) \<Rightarrow> 0 \<le> zh \<and> zh \<le> 23 \<and> 0 \<le> zm \<and> zm \<le> 59 \<and> off = (if neg then - (zh * 60 + zm) else zh * 60 + zm)"
  shows "parseRFC3339 (stamp y mo d sep h mi s rest) =
    Some (Some (T - off * 60000))"
proof -
  have r: "mo \<le> 12" "1 \<le> d" "int d \<le> daysInMonth (int y) (int mo - 1)" "h \<le> 23" "mi \<le> 59" "s \<le> 59" "0 \<le> ms" "ms \<le> 999"
    using v by (auto simp: validFields_def)
  have "daysInMonth (int y) (int mo - 1) \<le> 31" by (simp add: daysInMonth_def)
  with r have d: "d < 100" by linarith
  have "getDaysInMonth (int y) (int mo) = daysInMonth (int y) (int mo - 1)"
    by (auto simp: getDaysInMonth_def daysInMonth_def)
  then have valid: "isValidDateParts (int y) (int mo) (int d)" using r assms(1,2) by (simp add: isValidDateParts_def)
  have offset: "\<bar>off\<bar> \<le> 1440" "(case zone of Some (neg, h, m) \<Rightarrow> h < 0 \<or> h > 23 \<or> m < 0 \<or> m > 59 | None \<Rightarrow> False) = False"
    "(case zone of Some (neg, h, m) \<Rightarrow> (if neg then - (h * 60 + m) else h * 60 + m) | None \<Rightarrow> 0) = off"
    using zone by (auto split: option.splits prod.splits if_splits)
  have fields: "allFields (Some 0) (digitsAt 0 4 (stamp y mo d sep h mi s rest)) (digitsAt 5 2 (stamp y mo d sep h mi s rest))
      (digitsAt 8 2 (stamp y mo d sep h mi s rest)) (digitsAt 11 2 (stamp y mo d sep h mi s rest))
      (digitsAt 14 2 (stamp y mo d sep h mi s rest)) (digitsAt 17 2 (stamp y mo d sep h mi s rest)) =
      Some (0, int y, int mo, int d, int h, int mi, int s)"
    using assms(1) r d by (simp add: stamp_def digitsAt_slice allFields_def)
  have drop: "drop 19 (stamp y mo d sep h mi s rest) = rest" using assms(1) r d by (simp add: stamp_def)
  have seps: "slice 4 1 (stamp y mo d sep h mi s rest) = lit ''-''" "slice 7 1 (stamp y mo d sep h mi s rest) = lit ''-''"
    "slice 10 1 (stamp y mo d sep h mi s rest) = [sep]" "slice 13 1 (stamp y mo d sep h mi s rest) = lit '':''"
    "slice 16 1 (stamp y mo d sep h mi s rest) = lit '':''"
    using assms(1) r d by (simp_all add: stamp_def)
  have "[sep] = lit ''T'' \<or> [sep] = lit ''t'' \<or> [sep] = lit '' ''" using assms(3) by auto
  with r range offset(1) show ?thesis
    unfolding parseRFC3339_def seps drop fz fields option.case prod.case offset ms
    by (simp add: valid utc Let_def) 
qed

text \<open>A timestamp of valid fields denotes the instant of its fields, less its offset.\<close>

lemma parse_stamp:
  assumes "y < 10000" "100 \<le> y" "1 \<le> mo" "sep \<in> {84, 116, 32}"
    and v: "validFields (int y) (int mo - 1) (int d) (int h) (int mi) (int s) ms"
    and fz: "fractionZone rest = Some (f, zone)" and ms: "parseFractionalMilliseconds f = ms"
    and zone: "case zone of None \<Rightarrow> off = 0
      | Some (neg, zh, zm) \<Rightarrow> 0 \<le> zh \<and> zh \<le> 23 \<and> 0 \<le> zm \<and> zm \<le> 59 \<and> off = (if neg then - (zh * 60 + zm) else zh * 60 + zm)"
  shows "parseRFC3339 (stamp y mo d sep h mi s rest) =
    Some (Some (timeOf (int y) (int mo - 1) (int d) (int h) (int mi) (int s) ms - off * 60000))"
proof (rule parse_stamp_utc[OF assms(1,3,4) _ _ v fz ms zone])
  show "dateUTC (int y) (int mo - 1) (int d) (int h) (int mi) (int s) ms =
      Some (timeOf (int y) (int mo - 1) (int d) (int h) (int mi) (int s) ms)"
    by (rule dateUTC_timeOf) (use assms(1,2) v in auto)
  show "\<bar>timeOf (int y) (int mo - 1) (int d) (int h) (int mi) (int s) ms\<bar> \<le> 1000000000000000"
    by (rule in_time_range) (use assms(1,2) v in auto)
qed

lemma padDec_nonempty [simp]: "padDec k n \<noteq> []"
  by (simp add: padDec_def)

lemma fraction_millis: "n < 1000 \<Longrightarrow> parseFractionalMilliseconds (padDec 3 n) = int n"
  using length_padDec[of n 3] by (simp add: parseFractionalMilliseconds_def)

lemma zoneOf_Z: "zoneOf (lit ''Z'') = Some None"
  by (simp add: zoneOf_def)

lemma zoneOf_offset:
  "zh < 100 \<Longrightarrow> zm < 100 \<Longrightarrow> zoneOf ((if neg then lit ''-'' else lit ''+'') @ padDec 2 zh @ lit '':'' @ padDec 2 zm) =
     Some (Some (neg, int zh, int zm))"
  by (simp add: zoneOf_def digitsAt_slice)

text \<open>An instant of the years 100 to 9999, written by \<open>toRFC3339\<close>, is read back
  exactly by \<open>parseRFC3339\<close>.\<close>

theorem rfc3339_roundtrip:
  assumes "100 \<le> getUTCFullYear t" "getUTCFullYear t \<le> 9999"
  shows "\<exists>s. toRFC3339 (Some t) = Inr s \<and> parseRFC3339 s = Some (Some t)"
proof -
  let ?rest = "lit ''.'' @ padDec 3 (nat (getUTCMilliseconds t)) @ lit ''Z''"
  let ?s = "stamp (nat (getUTCFullYear t)) (nat (getUTCMonth t + 1)) (nat (getUTCDate t)) (cu CHR ''T'') (nat (getUTCHours t))
    (nat (getUTCMinutes t)) (nat (getUTCSeconds t)) ?rest"
  have s: "toRFC3339 (Some t) = Inr ?s" using assms by (simp add: toRFC3339_def stamp_def isoYear_def)
  have "fractionZone ?rest = map_option (Pair (padDec 3 (nat (getUTCMilliseconds t)))) (zoneOf (lit ''Z''))"
    by (rule fractionZone_text) (simp_all add: isDigit_def)
  then have fz: "fractionZone ?rest = Some (padDec 3 (nat (getUTCMilliseconds t)), None)" by (simp only: zoneOf_Z option.map)
  have y: "nat (getUTCFullYear t) < 10000" "100 \<le> nat (getUTCFullYear t)" "int (nat (getUTCFullYear t)) = getUTCFullYear t"
    using assms by simp_all
  have mo: "1 \<le> nat (getUTCMonth t + 1)" using fields_small(10)[of t] by simp
  note ints = y(3) field_ints[of t]
  have valid: "validFields (int (nat (getUTCFullYear t))) (int (nat (getUTCMonth t + 1)) - 1) (int (nat (getUTCDate t)))
      (int (nat (getUTCHours t))) (int (nat (getUTCMinutes t))) (int (nat (getUTCSeconds t))) (getUTCMilliseconds t)"
    unfolding ints by (rule fields_of_time(1))
  have ms: "parseFractionalMilliseconds (padDec 3 (nat (getUTCMilliseconds t))) = getUTCMilliseconds t"
    unfolding fraction_millis[OF fields_small(8)] ints ..
  have "parseRFC3339 ?s = Some (Some (timeOf (getUTCFullYear t) (getUTCMonth t) (getUTCDate t) (getUTCHours t) (getUTCMinutes t)
      (getUTCSeconds t) (getUTCMilliseconds t) - 0 * 60000))"
    using parse_stamp[OF y(1,2) mo _ valid fz ms, of "cu CHR ''T''" 0] unfolding ints by simp
  with s show ?thesis by (simp add: fields_of_time(2))
qed

theorem rfc3339_roundtrip_witness:
  "\<exists>s. toRFC3339 (Some 1738413045123) = Inr s \<and> parseRFC3339 s = Some (Some 1738413045123)"
  by (rule rfc3339_roundtrip) (simp_all add: getUTCFullYear_def yearOfDay_def dayFromYear_def msPerDay_def)

text \<open>A timestamp with valid fields and an offset, with any of the three separators of
  the date and any fraction, denotes the instant whose local time the fields give: the fields' own instant,
  later by the offset when it is negative and earlier when it is positive.\<close>

theorem rfc3339_local_time:
  assumes "100 \<le> y" "y < 10000" "1 \<le> mo" "sep \<in> {cu CHR ''T'', cu CHR ''t'', cu CHR '' ''}" "zh \<le> 23" "zm \<le> 59"
    and "list_all isDigit f" "f \<noteq> []"
    and "validFields (int y) (int mo - 1) (int d) (int h) (int mi) (int s) (parseFractionalMilliseconds f)"
  shows "parseRFC3339 (stamp y mo d sep h mi s
      (lit ''.'' @ f @ (if neg then lit ''-'' else lit ''+'') @ padDec 2 zh @ lit '':'' @ padDec 2 zm)) =
    Some (Some (timeOf (int y) (int mo - 1) (int d) (int h) (int mi) (int s) (parseFractionalMilliseconds f) +
      (if neg then 1 else -1) * int (zh * 60 + zm) * 60000))"
proof -
  let ?zone = "(if neg then lit ''-'' else lit ''+'') @ padDec 2 zh @ lit '':'' @ padDec 2 zm"
  have "fractionZone (lit ''.'' @ f @ ?zone) = map_option (Pair f) (zoneOf ?zone)"
    by (rule fractionZone_text[OF assms(7,8)]) (simp_all add: isDigit_def)
  also have "zoneOf ?zone = Some (Some (neg, int zh, int zm))" by (rule zoneOf_offset) (use assms in auto)
  finally have fz: "fractionZone (lit ''.'' @ f @ ?zone) = Some (f, Some (neg, int zh, int zm))" by (simp only: option.map)
  have sep: "sep \<in> {84, 116, 32}" using assms(4) by simp
  show ?thesis
    using parse_stamp[OF assms(2,1,3) sep assms(9) fz refl,
        of "if neg then - (int zh * 60 + int zm) else int zh * 60 + int zm"] assms(5,6)
    by (cases neg) simp_all
qed

theorem rfc3339_local_time_witness:
  "parseRFC3339 (stamp 2025 2 1 32 12 30 45
      (lit ''.'' @ lit ''5'' @ (if False then lit ''-'' else lit ''+'') @ padDec 2 5 @ lit '':'' @ padDec 2 30)) =
    Some (Some (timeOf 2025 1 1 12 30 45 500 + (if False then 1 else -1) * int (5 * 60 + 30) * 60000))"
proof -
  have f: "parseFractionalMilliseconds (lit ''5'') = 500" by code_simp
  have v: "validFields (int 2025) (int 2 - 1) (int 1) (int 12) (int 30) (int 45) (parseFractionalMilliseconds (lit ''5''))"
    unfolding f by (simp add: validFields_def daysInMonth_def)
  show ?thesis
    using rfc3339_local_time[OF _ _ _ _ _ _ _ _ v, where zh = 5 and zm = 30 and sep = 32 and neg = False] unfolding f
    by (simp add: isDigit_def)
qed

text \<open>A timestamp of the years 0 to 99 is accepted and read as one of the twentieth
  century, because \<open>Date.UTC\<close> adds 1900 to such a year.\<close>

theorem rfc3339_early_years:
  assumes "y \<le> 99" "1 \<le> mo" "d \<le> 28"
    and v: "validFields (int y) (int mo - 1) (int d) (int h) (int mi) (int s) 0"
  shows "parseRFC3339 (stamp y mo d (cu CHR ''T'') h mi s (lit ''Z'')) =
    Some (Some (timeOf (1900 + int y) (int mo - 1) (int d) (int h) (int mi) (int s) 0))"
proof -
  have v': "validFields (1900 + int y) (int mo - 1) (int d) (int h) (int mi) (int s) 0"
    using v assms(3) by (simp add: validFields_def daysInMonth_def)
  have range: "\<bar>timeOf (1900 + int y) (int mo - 1) (int d) (int h) (int mi) (int s) 0\<bar> \<le> 1000000000000000"
    by (rule in_time_range[OF _ _ v']) (use assms(1) in auto)
  have utc: "dateUTC (int y) (int mo - 1) (int d) (int h) (int mi) (int s) 0 =
      Some (timeOf (1900 + int y) (int mo - 1) (int d) (int h) (int mi) (int s) 0)"
    using range assms(1) by (simp only: dateUTC_def timeOf_def Let_def) auto
  have "fractionZone (lit ''Z'') = Some ([], None)" by code_simp
  from parse_stamp_utc[OF _ assms(2) _ utc range v this, of "cu CHR ''T''" 0] show ?thesis
    using assms(1) by (simp add: parseFractionalMilliseconds_def)
qed

theorem rfc3339_early_years_witness:
  "parseRFC3339 (stamp 50 1 1 (cu CHR ''T'') 0 0 0 (lit ''Z'')) = Some (Some (timeOf 1950 0 1 0 0 0 0))"
  using rfc3339_early_years[of 50 1 1 0 0 0] by (simp add: validFields_def daysInMonth_def)

end
