(* ===== verification/ConditionalLaws.thy ===== *)
theory ConditionalLaws
  imports Conditional HttpDateLaws
begin

text \<open>
  What \<open>src/conditional.ts\<close> promises: lists of entity tags come back from their text; the evaluation of
  preconditions is the procedure of RFC 9110 section 13.2.2, written as a step relation; a conditional write
  only goes through on the version it names, and goes through when retried with the tag of the answer.
\<close>

section \<open>Lists of entity tags\<close>

lemma tagPrefix_quoted: "tagPrefix (quotedTag w v @ r) = Some (if w then 3 else 1)"
  by (simp add: tagPrefix_def quotedTag_def startsWith_def)

lemma tagLoop_step:
  assumes "isValidETagValue v"
  shows "tagLoop etags (quotedTag w v @ r) =
    (let s1 = dropWhile isOws r
     in if s1 = [] then etags @ [\<lparr>weak = w, tagValue = v\<rparr>]
        else if hd s1 \<noteq> cu CHR '','' then []
        else let s2 = dropWhile isOws (tl s1)
             in if s2 = [] then [] else tagLoop (etags @ [\<lparr>weak = w, tagValue = v\<rparr>]) s2)"
proof -
  let ?k = "if w then 3 else 1 :: nat"
  have drop: "drop ?k (quotedTag w v @ r) = v @ 34 # r" by (simp add: quotedTag_def)
  have ix: "indexOfUnit 34 (v @ 34 # r) = Some (length v)" by (rule indexOfUnit_first[OF valid_no_quote[OF assms]])
  have len: "?k + length v + 1 = length (quotedTag w v)" by (simp add: quotedTag_def)
  have parts: "take (length (quotedTag w v)) (quotedTag w v @ r) = quotedTag w v"
    "drop (length (quotedTag w v)) (quotedTag w v @ r) = r" by simp_all
  have "quotedTag w v @ r \<noteq> []" by (simp add: quotedTag_def)
  then show ?thesis
    by (subst tagLoop.simps)
      (simp only: if_False tagPrefix_quoted option.case drop ix len parts parse_quotedTag[OF assms])
qed

lemma quotedTag_ows [simp]: "dropWhile isOws (quotedTag w v @ r) = quotedTag w v @ r" "dropWhile isOws (quotedTag w v) = quotedTag w v"
  by (simp_all add: quotedTag_def isOws_def)

lemma tagLoop_join:
  assumes "tags \<noteq> []" "\<forall>e\<in>set tags. isValidETagValue (tagValue e)"
  shows "tagLoop acc (joinWith (lit '', '') (map (\<lambda>e. quotedTag (weak e) (tagValue e)) tags)) = acc @ tags"
  using assms
proof (induction tags arbitrary: acc rule: induct_list012)
  case (2 e)
  then show ?case using tagLoop_step[of "tagValue e" acc "weak e" "[]"] by simp
next
  case (3 e e' tags)
  let ?r = "joinWith (lit '', '') (map (\<lambda>e. quotedTag (weak e) (tagValue e)) (e' # tags))"
  obtain r where r: "?r = quotedTag (weak e') (tagValue e') @ r" by (cases tags) auto
  then have "?r \<noteq> []" "dropWhile isOws ?r = ?r" by (simp_all add: quotedTag_ends)
  moreover have "tagLoop (acc @ [e]) ?r = (acc @ [e]) @ e' # tags" using 3 by (intro "3.IH"(2)) auto
  ultimately show ?case
    using tagLoop_step[of "tagValue e" acc "weak e" "lit '', '' @ ?r"] 3 by (simp add: isOws_def)
qed simp

lemma join_ends:
  assumes "tags \<noteq> []"
  defines "s \<equiv> joinWith (lit '', '') (map (\<lambda>e. quotedTag (weak e) (tagValue e)) tags)"
  shows "s \<noteq> []" "hd s \<in> {87, 34}" "last s = 34"
proof -
  have "s \<noteq> [] \<and> hd s \<in> {87, 34} \<and> last s = 34"
    unfolding s_def using assms(1)
  proof (induction tags rule: induct_list012)
    case (3 e e' tags)
    then show ?case by (auto simp: quotedTag_ends)
  qed (auto simp: quotedTag_ends)
  then show "s \<noteq> []" "hd s \<in> {87, 34}" "last s = 34" by blast+
qed

lemma mapR_format: "mapR formatETag tags = Inr texts \<Longrightarrow>
    texts = map (\<lambda>e. quotedTag (weak e) (tagValue e)) tags \<and> (\<forall>e\<in>set tags. isValidETagValue (tagValue e))"
proof (induction tags arbitrary: texts)
  case (Cons e tags)
  then show ?case by (auto simp: formatETag_def split: if_splits sum.splits)
qed simp

lemma parse_tag_list:
  assumes "tags \<noteq> []" "mapR formatETag tags = Inr texts"
  shows "parseIfNoneMatch (joinWith (lit '', '') texts) = Tags tags"
proof -
  let ?s = "joinWith (lit '', '') texts"
  note t = mapR_format[OF assms(2)]
  have ends: "?s \<noteq> []" "hd ?s \<in> {87, 34}" "last ?s = 34" using join_ends[OF assms(1)] t by simp_all
  then have trim: "jsTrim ?s = ?s" by (intro jsTrim_id) (auto simp: isJsSpace_def)
  have "?s \<noteq> lit ''*''" using ends(3) by auto
  with ends(1) trim tagLoop_join[OF assms(1), of "[]"] t show ?thesis
    by (simp add: parseIfNoneMatch_def)
qed

text \<open>A list of entity tags written one after the other, as in an \<open>If-Match\<close> or
  \<open>If-None-Match\<close> field, is read back as the same list; a comma inside a tag does not split it.\<close>

theorem etag_list_roundtrip:
  assumes "tags \<noteq> []" "mapR formatETag tags = Inr texts"
  shows "parseIfNoneMatch (joinWith (lit '', '') texts) = Tags tags"
  using assms by (rule parse_tag_list)

theorem etag_list_roundtrip_witness:
  "parseIfNoneMatch (lit ''\"a,b\", W/\"c\"'') =
     Tags [\<lparr>weak = False, tagValue = lit ''a,b''\<rparr>, \<lparr>weak = True, tagValue = lit ''c''\<rparr>]"
  using etag_list_roundtrip[of "[\<lparr>weak = False, tagValue = lit ''a,b''\<rparr>, \<lparr>weak = True, tagValue = lit ''c''\<rparr>]"
      "[lit ''\"a,b\"'', lit ''W/\"c\"'']"]
  by (simp add: formatETag_def isValidETagValue_iff etagChar_def quotedTag_def)

section \<open>The precedence of RFC 9110\<close>

text \<open>
  The preconditions of a request as the RFC sees them: absent, or true or false. The evaluation stands at one
  of the numbered steps of section 13.2.2, or it has answered.
\<close>

record preconditions =
  cIfMatch :: "bool option"
  cIfUnmodifiedSince :: "bool option"
  cIfNoneMatch :: "bool option"
  cIfModifiedSince :: "bool option"
  cSafe :: bool

datatype outcome = PerformMethod | NotModified | PreconditionFailed
datatype stage = Step1 | Step2 | Step3 | Step4 | Step5 | Respond outcome

inductive precStep :: "preconditions \<Rightarrow> stage \<Rightarrow> stage \<Rightarrow> bool" for c where
  match_true: "cIfMatch c = Some True \<Longrightarrow> precStep c Step1 Step3"
| match_false: "cIfMatch c = Some False \<Longrightarrow> precStep c Step1 (Respond PreconditionFailed)"
| match_absent: "cIfMatch c = None \<Longrightarrow> precStep c Step1 Step2"
| unmodified_true: "cIfUnmodifiedSince c = Some True \<Longrightarrow> precStep c Step2 Step3"
| unmodified_false: "cIfUnmodifiedSince c = Some False \<Longrightarrow> precStep c Step2 (Respond PreconditionFailed)"
| unmodified_absent: "cIfUnmodifiedSince c = None \<Longrightarrow> precStep c Step2 Step3"
| none_true: "cIfNoneMatch c = Some True \<Longrightarrow> precStep c Step3 Step5"
| none_false: "cIfNoneMatch c = Some False \<Longrightarrow> precStep c Step3 (Respond (if cSafe c then NotModified else PreconditionFailed))"
| none_absent: "cIfNoneMatch c = None \<Longrightarrow> precStep c Step3 Step4"
| modified_false: "cSafe c \<Longrightarrow> cIfModifiedSince c = Some False \<Longrightarrow> precStep c Step4 (Respond NotModified)"
| modified_skip: "\<not> (cSafe c \<and> cIfModifiedSince c = Some False) \<Longrightarrow> precStep c Step4 Step5"
| perform: "precStep c Step5 (Respond PerformMethod)"

inductive_cases step1E: "precStep c Step1 s"
inductive_cases step2E: "precStep c Step2 s"
inductive_cases step3E: "precStep c Step3 s"
inductive_cases step4E: "precStep c Step4 s"
inductive_cases step5E: "precStep c Step5 s"
inductive_cases respondE: "precStep c (Respond r) s"

lemma precStep_deterministic: "precStep c s t \<Longrightarrow> precStep c s t' \<Longrightarrow> t = t'"
  by (induction rule: precStep.induct) (auto elim: step1E step2E step3E step4E step5E)

lemma answer_unique:
  "(precStep c)\<^sup>*\<^sup>* s (Respond a) \<Longrightarrow> (precStep c)\<^sup>*\<^sup>* s (Respond b) \<Longrightarrow> a = b"
proof (induction rule: converse_rtranclp_induct)
  case base
  then show ?case by (cases rule: converse_rtranclpE) (auto elim: respondE)
next
  case (step s t)
  from step.prems step.hyps(1) have "(precStep c)\<^sup>*\<^sup>* t (Respond b)"
    by (cases rule: converse_rtranclpE) (auto elim: respondE dest: precStep_deterministic)
  with step.IH show ?case .
qed

text \<open>What a request, with the current tag and date of its resource, is for the RFC.\<close>

definition rfcView :: "int \<Rightarrow> request \<Rightarrow> etag option \<Rightarrow> jsDate option \<Rightarrow> preconditions" where
  "rfcView now request current lastModified =
     \<lparr>cIfMatch = map_option (\<lambda>h. evaluateIfMatch h current) (headerGet request (lit ''If-Match'')),
      cIfUnmodifiedSince =
        map_option (\<lambda>h. evaluateIfUnmodifiedSince now h lastModified) (headerGet request (lit ''If-Unmodified-Since'')),
      cIfNoneMatch = map_option (\<lambda>h. \<not> evaluateIfNoneMatch h current) (headerGet request (lit ''If-None-Match'')),
      cIfModifiedSince =
        map_option (\<lambda>h. \<not> evaluateIfModifiedSince now h lastModified) (headerGet request (lit ''If-Modified-Since'')),
      cSafe = isSafeMethod (reqMethod request)\<rparr>"

fun answerOf :: "outcome \<Rightarrow> headerRecord \<Rightarrow> conditionalResult" where
  "answerOf PerformMethod h = Proceed"
| "answerOf NotModified h = Answer 304 h"
| "answerOf PreconditionFailed h = Answer 412 h"

text \<open>The outcome of the steps, in one expression.\<close>

definition rfcOutcome :: "preconditions \<Rightarrow> outcome" where
  "rfcOutcome c =
     (if cIfMatch c = Some False then PreconditionFailed
      else if cIfMatch c = None \<and> cIfUnmodifiedSince c = Some False then PreconditionFailed
      else if cIfNoneMatch c = Some False then (if cSafe c then NotModified else PreconditionFailed)
      else if cIfNoneMatch c = None \<and> cSafe c \<and> cIfModifiedSince c = Some False then NotModified
      else PerformMethod)"

lemma rfcOutcome_reached: "(precStep c)\<^sup>*\<^sup>* Step1 (Respond (rfcOutcome c))"
proof -
  note go = converse_rtranclp_into_rtranclp[of "precStep c"] and one = r_into_rtranclp[of "precStep c"]
  have 4: "cIfNoneMatch c = None \<Longrightarrow>
      (precStep c)\<^sup>*\<^sup>* Step4 (Respond (if cSafe c \<and> cIfModifiedSince c = Some False then NotModified else PerformMethod))"
    by (auto intro: precStep.intros go[OF modified_skip] one[OF perform]
        one[OF modified_false])
  have 3: "(precStep c)\<^sup>*\<^sup>* Step3 (Respond
      (if cIfNoneMatch c = Some False then (if cSafe c then NotModified else PreconditionFailed)
       else if cIfNoneMatch c = None \<and> cSafe c \<and> cIfModifiedSince c = Some False then NotModified else PerformMethod))"
  proof (cases "cIfNoneMatch c")
    case None
    with 4 show ?thesis using go[OF none_absent] by (auto split: if_splits)
  next
    case (Some b)
    then show ?thesis
      by (cases b) (auto intro: one none_false go[OF none_true] perform
          simp del: if_split dest: none_false)
  qed
  show ?thesis
  proof (cases "cIfMatch c")
    case None
    show ?thesis
    proof (cases "cIfUnmodifiedSince c = Some False")
      case True
      with None show ?thesis
        by (auto simp: rfcOutcome_def intro: go[OF match_absent] one[OF unmodified_false])
    next
      case False
      then have "precStep c Step2 Step3" by (cases "cIfUnmodifiedSince c") (auto intro: precStep.intros)
      then have "(precStep c)\<^sup>*\<^sup>* Step1 (Respond
        (if cIfNoneMatch c = Some False then (if cSafe c then NotModified else PreconditionFailed)
         else if cIfNoneMatch c = None \<and> cSafe c \<and> cIfModifiedSince c = Some False then NotModified else PerformMethod))"
        by (rule go[OF match_absent[OF None] go[OF _ 3]])
      with None False show ?thesis by (simp only: rfcOutcome_def simp_thms if_False option.distinct)
    qed
  next
    case (Some b)
    with 3 show ?thesis
      by (cases b) (auto simp: rfcOutcome_def intro: go[OF match_true] one[OF match_false])
  qed
qed

lemma evaluate_outcome:
  "evaluatePreconditions now request current lastModified =
     (if rfcOutcome (rfcView now request current lastModified) = PerformMethod then Inr Proceed
      else andThen (buildConditionalHeaders current lastModified)
        (\<lambda>h. Inr (answerOf (rfcOutcome (rfcView now request current lastModified)) h)))"
proof -
  define im inm ims ius where defs: "im = headerGet request (lit ''If-Match'')" "inm = headerGet request (lit ''If-None-Match'')"
    "ims = headerGet request (lit ''If-Modified-Since'')" "ius = headerGet request (lit ''If-Unmodified-Since'')"
  show ?thesis
    unfolding evaluatePreconditions_def rfcView_def Let_def defs[symmetric]
    by (cases im; cases inm; cases ims; cases ius) (simp_all add: rfcOutcome_def)
qed

lemma headers_total:
  "(\<And>e. current = Some e \<Longrightarrow> isValidETagValue (tagValue e)) \<Longrightarrow> \<exists>h. buildConditionalHeaders current lastModified = Inr h"
  by (auto simp: buildConditionalHeaders_def formatETag_def split: option.split)


definition putRequest :: "jsstr \<Rightarrow> request" where
  "putRequest tags = \<lparr>reqMethod = lit ''PUT'', reqHeaders = (\<lambda>n. if n = lit ''if-match'' then Some tags else None)\<rparr>"


section \<open>Conditional writes\<close>

lemma if_match_list:
  assumes "tags \<noteq> []" "mapR formatETag tags = Inr texts"
  shows "evaluateIfMatch (joinWith (lit '', '') texts) current \<longleftrightarrow> (\<exists>e\<in>set tags. \<not> weak e \<and> current = Some e)"
proof (cases current)
  case (Some c)
  have "compareETags e c True \<longleftrightarrow> \<not> weak e \<and> c = e" for e by (cases e; cases c) (auto simp: compareETags_def)
  then show ?thesis unfolding evaluateIfMatch_def parseIfMatch_def parse_tag_list[OF assms] Some
    by (simp add: list_ex_iff)
next
  case None
  then show ?thesis unfolding evaluateIfMatch_def parseIfMatch_def parse_tag_list[OF assms] by simp
qed

lemma rejected_list:
  assumes "headerGet request (lit ''If-Match'') = Some (joinWith (lit '', '') texts)" "tags \<noteq> []"
    and "mapR formatETag tags = Inr texts"
    and "\<not> (\<exists>e\<in>set tags. \<not> weak e \<and> current = Some e)" "\<And>e. current = Some e \<Longrightarrow> isValidETagValue (tagValue e)"
  shows "\<exists>h. evaluatePreconditions now request current lastModified = Inr (Answer 412 h)"
proof -
  obtain h where h: "buildConditionalHeaders current lastModified = Inr h" using headers_total[OF assms(5)] by blast
  have "rfcOutcome (rfcView now request current lastModified) = PreconditionFailed"
    using assms(4) if_match_list[OF assms(2,3), of current]
    by (simp only: rfcOutcome_def rfcView_def preconditions.simps assms(1) option.map simp_thms if_True)
  with h show ?thesis by (simp add: evaluate_outcome)
qed



lemma objGet_objPut: "objGet k (objPut k' v ps) = (if k = k' then Some v else objGet k ps)"
  by (simp add: objGet_def map_of_objPut)

lemma built_etag:
  assumes "buildConditionalHeaders (Some c) lastModified = Inr h"
  shows "objGet (lit ''ETag'') h = Some (quotedTag (weak c) (tagValue c))" "isValidETagValue (tagValue c)"
  using assms by (auto simp: buildConditionalHeaders_def formatETag_def objGet_objPut split: if_splits option.splits)

lemma built_date:
  assumes "buildConditionalHeaders current (Some d) = Inr h"
  shows "objGet (lit ''Last-Modified'') h = Some (formatHTTPDate d)"
proof -
  obtain g where "h = objPut (lit ''Last-Modified'') (formatHTTPDate d) g"
    using assms by (auto simp: buildConditionalHeaders_def err_simps)
  then show ?thesis by (simp only: objGet_objPut simp_thms if_True)
qed

lemma answered_headers:
  assumes "evaluatePreconditions now request current lastModified = Inr (Answer status h)"
  shows "buildConditionalHeaders current lastModified = Inr h"
    "status = 412 \<or> (status = 304 \<and> isSafeMethod (reqMethod request))"
proof -
  let ?out = "rfcOutcome (rfcView now request current lastModified)"
  have "?out \<noteq> PerformMethod" using assms by (auto simp: evaluate_outcome)
  with assms have h: "buildConditionalHeaders current lastModified = Inr h" "answerOf ?out h = Answer status h"
    by (cases ?out; auto simp: evaluate_outcome err_simps)+
  then show "buildConditionalHeaders current lastModified = Inr h" by simp
  have "?out = NotModified \<Longrightarrow> isSafeMethod (reqMethod request)"
    by (simp add: rfcOutcome_def rfcView_def split: if_splits)
  with h(2) show "status = 412 \<or> (status = 304 \<and> isSafeMethod (reqMethod request))" by (cases ?out) auto
qed

definition withHeader :: "jsstr \<Rightarrow> jsstr \<Rightarrow> request \<Rightarrow> request" where
  "withHeader name v request = request\<lparr>reqHeaders := (reqHeaders request)(toLower name \<mapsto> v)\<rparr>"

lemma headerGet_withHeader:
  "headerGet (withHeader name v request) n = (if toLower n = toLower name then Some v else headerGet request n)"
  "reqMethod (withHeader name v request) = reqMethod request"
  by (simp_all add: headerGet_def withHeader_def)

lemma field_names:
  "toLower (lit ''If-None-Match'') \<noteq> toLower (lit ''If-Match'')" "toLower (lit ''If-Modified-Since'') \<noteq> toLower (lit ''If-Match'')"
  "toLower (lit ''If-Match'') \<noteq> toLower (lit ''If-None-Match'')"
  "toLower (lit ''If-Unmodified-Since'') \<noteq> toLower (lit ''If-None-Match'')"
  "toLower (lit ''If-Match'') \<noteq> toLower (lit ''If-Modified-Since'')"
  "toLower (lit ''If-Unmodified-Since'') \<noteq> toLower (lit ''If-Modified-Since'')"
  "toLower (lit ''If-None-Match'') \<noteq> toLower (lit ''If-Modified-Since'')"
  by (simp_all add: toLower_def lowerUnit_def)

lemma single_tag: "isValidETagValue (tagValue c) \<Longrightarrow> mapR formatETag [c] = Inr [quotedTag (weak c) (tagValue c)]"
  by (simp add: formatETag_def)



section \<open>Revalidation\<close>

text \<open>A client that sends back, in a \<open>GET\<close> or \<open>HEAD\<close> request, either validator
  of an answer for the current representation, its tag in \<open>If-None-Match\<close> or its date in
  \<open>If-Modified-Since\<close>, is answered 304; the milliseconds of the stored date do not matter.\<close>

theorem revalidation_not_modified:
  assumes "buildConditionalHeaders (Some c) (Some (Some t)) = Inr h" "isSafeMethod (reqMethod request)"
    and "headerGet request (lit ''If-Match'') = None" "headerGet request (lit ''If-Unmodified-Since'') = None"
    and "headerGet request (lit ''If-None-Match'') = None" "100 \<le> getUTCFullYear t" "getUTCFullYear t \<le> 9999"
  shows "\<exists>tag date. objGet (lit ''ETag'') h = Some tag \<and> objGet (lit ''Last-Modified'') h = Some date \<and>
    evaluatePreconditions now (withHeader (lit ''If-None-Match'') tag request) (Some c) (Some (Some t)) = Inr (Answer 304 h) \<and>
    evaluatePreconditions now (withHeader (lit ''If-Modified-Since'') date request) (Some c) (Some (Some t)) = Inr (Answer 304 h)"
proof -
  let ?tag = "quotedTag (weak c) (tagValue c)"
  let ?date = "formatHTTPDate (Some t)"
  note e = built_etag[OF assms(1)] and d = built_date[OF assms(1)]
  have "parseIfNoneMatch ?tag = Tags [c]" using parse_tag_list[OF _ single_tag[OF e(2)]] by simp
  then have "evaluateIfNoneMatch ?tag (Some c)" by (simp add: evaluateIfNoneMatch_def compareETags_def)
  then have 1: "rfcOutcome (rfcView now (withHeader (lit ''If-None-Match'') ?tag request) (Some c) (Some (Some t))) = NotModified"
    using assms(2-4) by (simp only: rfcOutcome_def rfcView_def headerGet_withHeader field_names preconditions.simps option.map
        simp_thms if_True if_False option.inject option.distinct)
  have "evaluateIfModifiedSince now ?date (Some (Some t))"
    by (simp add: evaluateIfModifiedSince_def parse_formatted[OF assms(6,7)] toWholeSecondPrecision_def notLater_def)
  then have 2: "rfcOutcome (rfcView now (withHeader (lit ''If-Modified-Since'') ?date request) (Some c) (Some (Some t))) = NotModified"
    using assms(2-5) by (simp only: rfcOutcome_def rfcView_def headerGet_withHeader field_names preconditions.simps option.map
        simp_thms if_True if_False option.inject option.distinct)
  have "evaluatePreconditions now (withHeader (lit ''If-None-Match'') ?tag request) (Some c) (Some (Some t)) = Inr (Answer 304 h)"
    by (simp only: evaluate_outcome 1 assms(1)) simp
  moreover have "evaluatePreconditions now (withHeader (lit ''If-Modified-Since'') ?date request) (Some c) (Some (Some t)) = Inr (Answer 304 h)"
    by (simp only: evaluate_outcome 2 assms(1)) simp
  ultimately show ?thesis using e(1) d by blast
qed

theorem revalidation_not_modified_witness:
  "\<exists>h tag. evaluatePreconditions 2025 (withHeader (lit ''If-None-Match'') tag \<lparr>reqMethod = lit ''GET'', reqHeaders = (\<lambda>n. None)\<rparr>)
     (Some \<lparr>weak = True, tagValue = lit ''v2''\<rparr>) (Some (Some 784111777123)) = Inr (Answer 304 h)"
proof -
  let ?c = "\<lparr>weak = True, tagValue = lit ''v2''\<rparr>"
  let ?r = "\<lparr>reqMethod = lit ''GET'', reqHeaders = (\<lambda>n. None)\<rparr>"
  have v: "isValidETagValue (tagValue ?c)" by (simp add: isValidETagValue_iff etagChar_def)
  obtain h where h: "buildConditionalHeaders (Some ?c) (Some (Some 784111777123)) = Inr h"
    using headers_total[of "Some ?c"] v by auto
  have r: "isSafeMethod (reqMethod ?r)" "headerGet ?r n = None" for n
    by (simp_all add: isSafeMethod_def toUpper_def upperUnit_def headerGet_def)
  have y: "100 \<le> getUTCFullYear 784111777123" "getUTCFullYear 784111777123 \<le> 9999"
    by (simp_all add: getUTCFullYear_def yearOfDay_def dayFromYear_def msPerDay_def)
  show ?thesis using revalidation_not_modified[OF h r(1) r(2) r(2) r(2) y, of 2025] by blast
qed

section \<open>Responses\<close>

text \<open>The response \<open>handleConditionalRequest\<close> answers with is a 412, or a 304 to a
  \<open>GET\<close> or \<open>HEAD\<close> request, and carries both validators: the date, and the tag as \<open>formatETag\<close> writes it,
  or as it was given when it is no tag at all.\<close>

theorem conditional_response:
  assumes "handleConditionalRequest now request etagText lastModified = Inr (Some r)"
  shows "(respStatus r = 412 \<or> (respStatus r = 304 \<and> isSafeMethod (reqMethod request))) \<and>
    objGet (lit ''Last-Modified'') (respHeaders r) = Some (formatHTTPDate lastModified) \<and>
    objGet (lit ''ETag'') (respHeaders r) =
      Some (case parseETag etagText of Some e \<Rightarrow> quotedTag (weak e) (tagValue e) | None \<Rightarrow> etagText)"
proof -
  obtain status h where h: "evaluatePreconditions now request (parseETag etagText) (Some lastModified) = Inr (Answer status h)"
  proof -
    obtain x where x: "evaluatePreconditions now request (parseETag etagText) (Some lastModified) = Inr x"
      using assms by (cases "evaluatePreconditions now request (parseETag etagText) (Some lastModified)")
        (simp_all add: handleConditionalRequest_def)
    then show thesis using assms that by (cases x) (simp_all add: handleConditionalRequest_def)
  qed
  note b = answered_headers[OF h]
  have lm: "objGet (lit ''Last-Modified'') h = Some (formatHTTPDate lastModified)" by (rule built_date[OF b(1)])
  have date: "formatHTTPDate lastModified \<noteq> []" by (simp add: formatHTTPDate_def split: option.split)
  have names: "lit ''ETag'' \<noteq> lit ''Last-Modified''" "lit ''Last-Modified'' \<noteq> lit ''ETag''" by simp_all
  define h1 where "h1 = (case objGet (lit ''ETag'') h of
    Some v \<Rightarrow> if v = [] then objPut (lit ''ETag'') etagText h else h | None \<Rightarrow> objPut (lit ''ETag'') etagText h)"
  have h1: "objGet (lit ''Last-Modified'') h1 = Some (formatHTTPDate lastModified)"
    by (simp only: h1_def objGet_objPut lm names if_False split: option.split if_split) simp
  have r: "r = \<lparr>respStatus = status, respHeaders = h1\<rparr>"
    using assms h1 date unfolding handleConditionalRequest_def h andThen_simps conditionalResult.case Let_def h1_def[symmetric]
    by simp
  have "objGet (lit ''ETag'') h1 =
      Some (case parseETag etagText of Some e \<Rightarrow> quotedTag (weak e) (tagValue e) | None \<Rightarrow> etagText)"
  proof (cases "parseETag etagText")
    case None
    with b(1) have "h = objPut (lit ''Last-Modified'') (formatHTTPDate lastModified) defaultCorsHeaders"
      by (simp only: buildConditionalHeaders_def option.case andThen_simps sum.inject)
    moreover have "objGet (lit ''ETag'') defaultCorsHeaders = None" by (simp add: objGet_def defaultCorsHeaders_def)
    ultimately have "objGet (lit ''ETag'') h = None" by (simp only: objGet_objPut names if_False)
    with None show ?thesis by (simp only: h1_def option.case objGet_objPut simp_thms if_True)
  next
    case (Some e)
    with built_etag(1) b(1) have "objGet (lit ''ETag'') h = Some (quotedTag (weak e) (tagValue e))" by simp
    with Some show ?thesis by (simp only: h1_def option.case quotedTag_ends(1) if_False)
  qed
  with h1 b(2) show ?thesis by (simp only: r response.simps simp_thms)
qed

theorem conditional_response_witness:
  "\<exists>r. handleConditionalRequest 2025 (putRequest (lit ''\"v1\"'')) (lit ''\"v2\"'') (Some 784111777123) = Inr (Some r) \<and>
     objGet (lit ''ETag'') (respHeaders r) = Some (lit ''\"v2\"'')"
proof -
  let ?c = "\<lparr>weak = False, tagValue = lit ''v2''\<rparr>"
  let ?r = "putRequest (lit ''\"v1\"'')"
  have one: "mapR formatETag [\<lparr>weak = False, tagValue = lit ''v1''\<rparr>] = Inr [lit ''\"v1\"'']"
    by (simp add: formatETag_def isValidETagValue_iff etagChar_def quotedTag_def)
  have v: "isValidETagValue (lit ''v2'')" by (simp add: isValidETagValue_iff etagChar_def)
  have tag: "lit ''\"v2\"'' = quotedTag False (lit ''v2'')" by (simp add: quotedTag_def)
  have p: "parseETag (lit ''\"v2\"'') = Some ?c" unfolding tag by (rule parse_quotedTag[OF v])
  have "headerGet ?r (lit ''If-Match'') = Some (joinWith (lit '', '') [lit ''\"v1\"''])"
    by (simp add: headerGet_def putRequest_def toLower_def lowerUnit_def)
  then obtain h where h: "evaluatePreconditions 2025 ?r (Some ?c) (Some (Some 784111777123)) = Inr (Answer 412 h)"
    using rejected_list[OF _ _ one, of ?r "Some ?c"] v by auto
  obtain r where r: "handleConditionalRequest 2025 ?r (lit ''\"v2\"'') (Some 784111777123) = Inr (Some r)"
    unfolding handleConditionalRequest_def p h Let_def by auto
  from conditional_response[OF r] have "objGet (lit ''ETag'') (respHeaders r) =
      Some (case parseETag (lit ''\"v2\"'') of Some e \<Rightarrow> quotedTag (weak e) (tagValue e) | None \<Rightarrow> lit ''\"v2\"'')"
    by blast
  also have "\<dots> = Some (lit ''\"v2\"'')" unfolding p by (simp only: option.case etag.simps tag)
  finally show ?thesis using r by blast
qed

end
