(* ===== verification/RangeLaws.thy ===== *)
theory RangeLaws
  imports Range ConditionalLaws
begin

text \<open>
  What \<open>src/range.ts\<close> promises: the ranges of a partial answer are apart, in order and within the
  representation, and cover exactly the bytes asked for; a \<open>Content-Range\<close> field comes back from its text.
\<close>

section \<open>The bounds \<open>parseRange\<close> reads\<close>

definition isCount :: "jsnum \<Rightarrow> bool" where
  "isCount x \<longleftrightarrow> x = PosInf \<or> (\<exists>n. 0 \<le> n \<and> x = Fin (of_int n))"

lemma num_less_eq [simp]:
  "Fin a \<le> Fin b \<longleftrightarrow> a \<le> b" "Fin a \<le> PosInf" "\<not> PosInf \<le> Fin b" "NegInf \<le> Fin b" "\<not> Fin a \<le> NegInf" "PosInf \<le> PosInf"
  by (auto simp: less_eq_jsnum_def)

lemma roundDouble_count: "isCount (roundDouble (int n) 1)"
proof (cases "n = 0")
  case False
  define e where "e = ulpExp (int n) 1"
  show ?thesis
  proof (cases "0 \<le> e")
    case True
    let ?m = "roundHalfEven (int n) (2 ^ nat e)"
    have "0 \<le> int n div 2 ^ nat e" by (simp add: pos_imp_zdiv_nonneg_iff)
    then have m: "0 \<le> ?m" by (auto simp: roundHalfEven_def Let_def)
    have fin: "Fin (of_int ?m * 2 ^ nat e) = Fin (of_int (?m * 2 ^ nat e))" by simp
    show ?thesis
    proof (cases "2 ^ 1024 \<le> ?m * 2 ^ nat e")
      case False
      then have "roundDouble (int n) 1 = Fin (of_int (?m * 2 ^ nat e))"
        using True \<open>n \<noteq> 0\<close> by (simp add: roundDouble_def e_def[symmetric] Let_def)
      with m show ?thesis unfolding isCount_def by (intro disjI2 exI[of _ "?m * 2 ^ nat e"]) simp
    next
      case big: True
      then have "roundDouble (int n) 1 = PosInf"
        using True \<open>n \<noteq> 0\<close> by (simp add: roundDouble_def e_def[symmetric] Let_def)
      then show ?thesis by (simp add: isCount_def)
    qed
  next
    case e: False
    have "roundHalfEven (int n * 2 ^ nat (- e)) 1 = int n * 2 ^ nat (- e)"
      using roundHalfEven_exact[of 1] by simp
    with e False have "roundDouble (int n) 1 = Fin (of_int (int n))"
      by (simp add: roundDouble_def e_def[symmetric] Let_def)
    then show ?thesis unfolding isCount_def by (intro disjI2 exI[of _ "int n"]) simp
  qed
qed (auto simp: roundDouble_def isCount_def intro: exI[of _ 0])

lemma parseIntDigits_count: "isCount (parseIntDigits s)"
  by (simp add: parseIntDigits_def roundDouble_count)

text \<open>A range of the last bytes, or from one byte to another or to the end.\<close>

definition wfRaw :: "jsnum byteRange \<Rightarrow> bool" where
  "wfRaw r \<longleftrightarrow>
     (stop r = Fin (- 1) \<and> (start r = NegInf \<or> (\<exists>n>0. start r = Fin (- of_int n)))) \<or>
     (isCount (start r) \<and> isCount (stop r) \<and> start r \<le> stop r)"

lemma wfRaw_shapes:
  "\<not> n \<le> Fin 0 \<Longrightarrow> isCount n \<Longrightarrow> wfRaw \<lparr>start = negNum n, stop = Fin (- 1)\<rparr>"
  "isCount a \<Longrightarrow> wfRaw \<lparr>start = a, stop = PosInf\<rparr>"
  "isCount a \<Longrightarrow> isCount b \<Longrightarrow> \<not> b < a \<Longrightarrow> wfRaw \<lparr>start = a, stop = b\<rparr>"
  by (auto simp: wfRaw_def isCount_def negNum_def)

lemma parseRangePart_wf: "parseRangePart p = Some r \<Longrightarrow> wfRaw r"
  by (auto simp: parseRangePart_def Let_def parseIntDigits_count split: if_splits option.splits intro: wfRaw_shapes)

lemma parseRangeParts_wf: "parseRangeParts ps = Some rs \<Longrightarrow> list_all wfRaw rs"
  by (induction ps arbitrary: rs) (auto split: option.splits dest: parseRangePart_wf)

lemma parseRange_wf: "parseRange h = Some rs \<Longrightarrow> list_all wfRaw rs \<and> rs \<noteq> []"
  by (auto simp: parseRange_def Let_def split: if_splits option.splits dest: parseRangeParts_wf)

section \<open>One range within a representation\<close>

text \<open>The bytes of a representation a range asks for: the last ones, or those from its start to its end.\<close>

definition wantsByte :: "int \<Rightarrow> jsnum byteRange \<Rightarrow> int \<Rightarrow> bool" where
  "wantsByte sz r i \<longleftrightarrow>
     (if start r < Fin 0 then start r \<le> Fin (of_int (i - sz)) else start r \<le> Fin (of_int i) \<and> Fin (of_int i) \<le> stop r)"

definition covers :: "int byteRange \<Rightarrow> int \<Rightarrow> bool" where
  "covers q i \<longleftrightarrow> start q \<le> i \<and> i \<le> stop q"

lemma normalizeRange_covers:
  assumes "wfRaw r" "0 < sz"
  shows "(\<exists>q. normalizeRange sz r = Some q \<and> covers q i) \<longleftrightarrow> 0 \<le> i \<and> i < sz \<and> wantsByte sz r i"
    and "normalizeRange sz r = Some q \<Longrightarrow> 0 \<le> start q \<and> start q \<le> stop q \<and> stop q < sz"
proof -
  note defs = normalizeRange_def wantsByte_def covers_def suffixStart_def Let_def intOfNum_of_int[of 0, simplified]
  from assms(1) consider (all) "start r = NegInf" "stop r = Fin (- 1)"
    | (suffix) n where "start r = Fin (of_int (- n))" "stop r = Fin (of_int (- 1))" "0 < n"
    | (beyond) "start r = PosInf" "stop r = PosInf"
    | (unended) a where "start r = Fin (of_int a)" "stop r = PosInf" "0 \<le> a"
    | (closed) a b where "start r = Fin (of_int a)" "stop r = Fin (of_int b)" "0 \<le> a" "a \<le> b"
    by (auto simp: wfRaw_def isCount_def)
  note cases = this
  show "(\<exists>q. normalizeRange sz r = Some q \<and> covers q i) \<longleftrightarrow> 0 \<le> i \<and> i < sz \<and> wantsByte sz r i"
    by (cases rule: cases) (use assms(2) in \<open>auto simp: defs simp del: of_int_minus of_int_diff\<close>)
  show "normalizeRange sz r = Some q \<Longrightarrow> 0 \<le> start q \<and> start q \<le> stop q \<and> stop q < sz"
    by (cases rule: cases) (use assms(2) in \<open>auto simp: defs simp del: of_int_minus of_int_diff split: if_splits\<close>)
qed

section \<open>Merging\<close>

abbreviation apart :: "int byteRange list \<Rightarrow> bool" where
  "apart rs \<equiv> sorted_wrt (\<lambda>a b. stop a + 1 < start b) rs"

lemma mergeFrom_spec:
  assumes "sorted (map start (prev # rs))" "\<forall>r\<in>set (prev # rs). 0 \<le> start r \<and> start r \<le> stop r \<and> stop r < sz"
  shows "((\<exists>q\<in>set (mergeFrom prev rs). covers q i) \<longleftrightarrow> (\<exists>q\<in>set (prev # rs). covers q i)) \<and>
    apart (mergeFrom prev rs) \<and>
    (\<forall>q\<in>set (mergeFrom prev rs). start prev \<le> start q \<and> start q \<le> stop q \<and> stop q < sz)"
  using assms
proof (induction prev rs rule: mergeFrom.induct)
  case (2 prev current rs)
  show ?case
  proof (cases "start current \<le> stop prev + 1")
    case True
    let ?p = "prev\<lparr>stop := max (stop prev) (stop current)\<rparr>"
    have wf: "sorted (map start (?p # rs))" "\<forall>r\<in>set (?p # rs). 0 \<le> start r \<and> start r \<le> stop r \<and> stop r < sz"
      using "2.prems" by auto
    have "covers ?p i \<longleftrightarrow> covers prev i \<or> covers current i" using "2.prems" True by (auto simp: covers_def)
    with "2.IH"(1)[OF True wf] True show ?thesis by simp
  next
    case False
    have wf: "sorted (map start (current # rs))" "\<forall>r\<in>set (current # rs). 0 \<le> start r \<and> start r \<le> stop r \<and> stop r < sz"
      using "2.prems" by auto
    note IH = "2.IH"(2)[OF False wf]
    have "\<forall>q\<in>set (mergeFrom current rs). stop prev + 1 < start q \<and> start prev \<le> start q"
      using IH False "2.prems" by fastforce
    with IH False "2.prems" show ?thesis by simp
  qed
qed (auto simp: covers_def)

lemma normalizeRanges_spec:
  assumes "list_all wfRaw raw" "0 < sz"
  shows "((\<exists>q\<in>set (normalizeRanges raw sz). covers q i) \<longleftrightarrow> 0 \<le> i \<and> i < sz \<and> (\<exists>r\<in>set raw. wantsByte sz r i)) \<and>
    apart (normalizeRanges raw sz) \<and>
    (\<forall>q\<in>set (normalizeRanges raw sz). 0 \<le> start q \<and> start q \<le> stop q \<and> stop q < sz)"
proof -
  define ns where "ns = sort_key start (List.map_filter (normalizeRange sz) raw)"
  have set: "set ns = {q. \<exists>r\<in>set raw. normalizeRange sz r = Some q}"
    by (force simp: ns_def List.map_filter_def)
  have wf: "r \<in> set raw \<Longrightarrow> wfRaw r" for r using assms(1) by (simp add: list_all_iff)
  have 1: "(\<exists>q\<in>set ns. covers q i) \<longleftrightarrow> 0 \<le> i \<and> i < sz \<and> (\<exists>r\<in>set raw. wantsByte sz r i)"
    unfolding set using normalizeRange_covers(1)[OF wf assms(2), of _ i] by blast
  have 2: "\<forall>q\<in>set ns. 0 \<le> start q \<and> start q \<le> stop q \<and> stop q < sz"
    unfolding set using normalizeRange_covers(2)[OF wf assms(2)] by blast
  show ?thesis
  proof (cases ns)
    case Nil
    then have "normalizeRanges raw sz = []" by (simp add: normalizeRanges_def ns_def[symmetric])
    with 1 Nil show ?thesis by simp
  next
    case (Cons r rs)
    then have eq: "normalizeRanges raw sz = mergeFrom r rs" by (simp add: normalizeRanges_def ns_def[symmetric])
    have "sorted (map start (r # rs))" using Cons sorted_sort_key[of start] by (metis ns_def)
    note m = mergeFrom_spec[OF this 2[unfolded Cons], of i]
    have "0 \<le> start r" using 2 Cons by simp
    with m have "\<forall>q\<in>set (mergeFrom r rs). 0 \<le> start q \<and> start q \<le> stop q \<and> stop q < sz" by force
    with m 1[unfolded Cons] show ?thesis unfolding eq by (simp only: simp_thms)
  qed
qed

lemma partial_ranges:
  assumes "evaluateRange now request sz etag lastModified = Partial rs h"
  obtains header raw where "headerGet request (lit ''Range'') = Some header" "parseRange header = Some raw" "0 < sz"
    "rs = normalizeRanges raw sz" "rs \<noteq> []"
    "\<And>r. rs = [r] \<Longrightarrow> objGet (lit ''Content-Range'') h = Some (formatContentRange r (Some sz))"
proof -
  obtain header where h: "headerGet request (lit ''Range'') = Some header"
    using assms by (cases "headerGet request (lit ''Range'')") (simp_all add: evaluateRange_def Let_def)
  obtain raw where raw: "parseRange header = Some raw"
    using assms unfolding evaluateRange_def Let_def h option.case
    by (cases "parseRange header") (simp_all split: if_splits)
  have sz: "0 < sz" and out: "(case normalizeRanges raw sz of [] \<Rightarrow> Unsatisfiable
            [(lit ''Content-Range'', lit ''bytes */'' @ numToString (Fin (of_int sz))), (lit ''Accept-Ranges'', lit ''bytes'')]
        | [r] \<Rightarrow> Partial (normalizeRanges raw sz)
            [(lit ''Accept-Ranges'', lit ''bytes''), (lit ''Content-Range'', formatContentRange r (Some sz))]
        | _ \<Rightarrow> Partial (normalizeRanges raw sz) [(lit ''Accept-Ranges'', lit ''bytes'')]) = Partial rs h"
    using assms unfolding evaluateRange_def Let_def h raw option.case by (simp_all split: if_splits)
  show thesis
  proof (cases "normalizeRanges raw sz")
    case Nil
    with out show thesis by simp
  next
    case (Cons r rs')
    show thesis
    proof (rule that[OF h raw sz])
      show "rs = normalizeRanges raw sz" using out Cons by (simp split: list.splits)
      show "rs \<noteq> []" using out Cons by (auto split: list.splits)
      show "objGet (lit ''Content-Range'') h = Some (formatContentRange q (Some sz))" if "rs = [q]" for q
        using out Cons that by (auto simp: objGet_def split: list.splits)
    qed
  qed
qed

text \<open>C8 (ranges_cover_request): the ranges of a partial answer hold a byte exactly when the byte is one of the
  representation and one of the ranges the \<open>Range\<close> field lists asks for it.\<close>

theorem ranges_cover_request:
  assumes "parseRange h = Some raw" "0 < sz"
  shows "(\<exists>q\<in>set (normalizeRanges raw sz). start q \<le> i \<and> i \<le> stop q) \<longleftrightarrow>
    0 \<le> i \<and> i < sz \<and> (\<exists>r\<in>set raw. wantsByte sz r i)"
  using normalizeRanges_spec[of raw sz i] parseRange_wf[OF assms(1)] assms(2) by (simp add: covers_def)

text \<open>C35 (ranges_normal_form): whatever the \<open>Range\<close> field asks for, the ranges of a partial answer are not
  empty, lie within the representation, come in order, and leave a gap between one and the next, so no byte is
  sent twice.\<close>

theorem ranges_normal_form:
  assumes "evaluateRange now request sz etag lastModified = Partial rs h"
  shows "rs \<noteq> [] \<and> sorted_wrt (\<lambda>a b. stop a + 1 < start b) rs \<and>
    (\<forall>q\<in>set rs. 0 \<le> start q \<and> start q \<le> stop q \<and> stop q < sz)"
proof -
  obtain header raw where "parseRange header = Some raw" "0 < sz" "rs = normalizeRanges raw sz" "rs \<noteq> []"
    using assms by (rule partial_ranges)
  with normalizeRanges_spec[of raw sz] parseRange_wf show ?thesis by blast
qed

lemma parseIntDigits_small: "parseDec s < 2 ^ 53 \<Longrightarrow> parseIntDigits s = Fin (of_int (int (parseDec s)))"
  unfolding parseIntDigits_def
proof (rule roundDouble_int)
  assume "parseDec s < 2 ^ 53"
  then show "\<bar>int (parseDec s)\<bar> < 2 ^ 53" using of_nat_less_iff[where 'a = int, of "parseDec s" "2 ^ 53"] by simp
qed

lemma small_range:
  "parseRange (lit ''bytes=3-9,0-4'') =
     Some [\<lparr>start = Fin (of_int 3), stop = Fin (of_int 9)\<rparr>, \<lparr>start = Fin (of_int 0), stop = Fin (of_int 4)\<rparr>]"
  by (simp add: parseRange_def parseRangePart_def jsTrim_def isJsSpace_def indexOfUnit_def toLower_def lowerUnit_def
      isStrictDigits_def isDigit_def parseIntDigits_small parseDec_def digitVal_def Let_def)

definition rangeRequest :: "jsstr \<Rightarrow> request" where
  "rangeRequest v = \<lparr>reqMethod = lit ''GET'', reqHeaders = (\<lambda>n. if n = lit ''range'' then Some v else None)\<rparr>"

theorem ranges_cover_request_witness:
  "\<exists>q\<in>set (normalizeRanges [\<lparr>start = Fin (of_int 3), stop = Fin (of_int 9)\<rparr>, \<lparr>start = Fin (of_int 0), stop = Fin (of_int 4)\<rparr>] 100).
     start q \<le> 5 \<and> 5 \<le> stop q"
  using ranges_cover_request[OF small_range, of 100 5] by (simp add: wantsByte_def)

theorem ranges_normal_form_witness:
  "\<exists>rs h. evaluateRange 2025 (rangeRequest (lit ''bytes=3-9,0-4'')) 100 None None = Partial rs h \<and> rs \<noteq> []"
proof -
  let ?raw = "[\<lparr>start = Fin (of_int 3), stop = Fin (of_int 9)\<rparr>, \<lparr>start = Fin (of_int 0), stop = Fin (of_int 4)\<rparr>]"
  have get: "headerGet (rangeRequest v) (lit ''Range'') = Some v" "headerGet (rangeRequest v) (lit ''If-Range'') = None"
    "toUpper (reqMethod (rangeRequest v)) = lit ''GET''" for v
    by (simp_all add: headerGet_def rangeRequest_def toLower_def lowerUnit_def toUpper_def upperUnit_def)
  have "normalizeRanges ?raw 100 \<noteq> []"
    using normalizeRanges_spec[of ?raw 100 5] parseRange_wf[OF small_range] by (auto simp: wantsByte_def)
  then obtain r rs' where n: "normalizeRanges ?raw 100 = r # rs'" by (cases "normalizeRanges ?raw 100") auto
  obtain rs h where e: "evaluateRange 2025 (rangeRequest (lit ''bytes=3-9,0-4'')) 100 None None = Partial rs h"
    unfolding evaluateRange_def Let_def get option.case small_range n list.case by (cases rs') auto
  from ranges_normal_form[OF e] e show ?thesis by blast
qed

section \<open>The \<open>Content-Range\<close> field\<close>

lemma numText: "0 \<le> n \<Longrightarrow> n < 10 ^ 15 \<Longrightarrow> numToString (Fin (of_int n)) = showNat (nat n)"
  using numToString_int[of n] by (simp add: intText_def)

lemma showNat_token: "isStrictDigits (showNat n)" "jsTrim (showNat n) = showNat n"
  using showNat_digits[of _ n] by (auto simp: isStrictDigits_def list_all_iff intro: digits_trim)

lemma readNum: "0 \<le> n \<Longrightarrow> n < 10 ^ 15 \<Longrightarrow> parseIntDigits (showNat (nat n)) = Fin (of_int n)"
  using parseIntDigits_small[of "showNat (nat n)"] by (simp add: nat_less_iff)

lemma showNat_plain: "c \<in> set (showNat n) \<Longrightarrow> 48 \<le> c \<and> c \<le> 57"
  using showNat_digits[of c n] by (simp add: isDigit_def)

text \<open>The \<open>Content-Range\<close> field of a range within a representation, of known
  or unknown size, is read back as the same range and size.\<close>

theorem content_range_roundtrip:
  assumes "0 \<le> start r" "start r \<le> stop r" "stop r < 10 ^ 15"
    and "sz = None \<or> (\<exists>n. sz = Some n \<and> stop r < n \<and> n < 10 ^ 15)"
  shows "parseContentRange (formatContentRange r sz) =
    Some \<lparr>crRange = Some \<lparr>start = Fin (of_int (start r)), stop = Fin (of_int (stop r))\<rparr>, crSize = map_option (\<lambda>n. Fin (of_int n)) sz\<rparr>"
proof -
  let ?a = "showNat (nat (start r))"
  let ?b = "showNat (nat (stop r))"
  define total where "total = (case sz of None \<Rightarrow> lit ''*'' | Some n \<Rightarrow> showNat (nat n))"
  have total: "total \<noteq> []" "jsTrim total = total" "47 \<notin> set total" "\<not> isJsSpace (last total)"
    "total = lit ''*'' \<longleftrightarrow> sz = None" "sz \<noteq> None \<longrightarrow> isStrictDigits total"
    "sz = Some n \<Longrightarrow> parseIntDigits total = Fin (of_int n)" for n
  proof -
    show "total \<noteq> []" by (simp add: total_def split: option.split)
    show "47 \<notin> set total" using showNat_plain[of 47] by (auto simp: total_def split: option.split)
    show "total = lit ''*'' \<longleftrightarrow> sz = None" proof (cases sz)
      case (Some n)
      have "showNat (nat n) \<noteq> [42]" using showNat_plain[of 42 "nat n"] by auto
      with Some show ?thesis by (simp add: total_def)
    qed (simp add: total_def)
    show "sz \<noteq> None \<longrightarrow> isStrictDigits total" using showNat_token(1) by (auto simp: total_def)
    show "jsTrim total = total" "\<not> isJsSpace (last total)"
      using showNat_token(2) digit_not_space showNat_digits[OF last_in_set[OF showNat_nonempty]]
      by (auto simp: total_def jsTrim_def isJsSpace_def split: option.split)
    show "sz = Some n \<Longrightarrow> parseIntDigits total = Fin (of_int n)" using assms readNum[of n] by (simp add: total_def)
  qed
  have text': "formatContentRange r sz = lit ''bytes '' @ (?a @ lit ''-'' @ ?b) @ lit ''/'' @ total"
    using assms numText by (auto simp: formatContentRange_def total_def split: option.split)
  let ?r = "?a @ lit ''-'' @ ?b"
  have ab: "\<not> isJsSpace (hd ?a)" "\<not> isJsSpace (last ?b)" "45 \<notin> set ?a" "47 \<notin> set ?r"
    using showNat_digits[OF hd_in_set[OF showNat_nonempty]] showNat_digits[OF last_in_set[OF showNat_nonempty]]
      digit_not_space showNat_plain by fastforce+
  have trim: "jsTrim (formatContentRange r sz) = formatContentRange r sz"
    unfolding text' by (rule jsTrim_id) (use total in \<open>simp add: isJsSpace_def\<close>)
  have space: "indexOfUnit 32 (formatContentRange r sz) = Some 5"
    unfolding text' using indexOfUnit_first[of 32 "lit ''bytes''"] by simp
  have parts: "take 5 (formatContentRange r sz) = lit ''bytes''" "drop (5 + 1) (formatContentRange r sz) = ?r @ lit ''/'' @ total"
    unfolding text' by simp_all
  have bytes: "toLower (jsTrim (lit ''bytes'')) = lit ''bytes''" by (simp add: jsTrim_def isJsSpace_def toLower_def lowerUnit_def)
  have trim2: "jsTrim (?r @ lit ''/'' @ total) = ?r @ lit ''/'' @ total" by (rule jsTrim_id) (use ab(1) total in simp)
  have split: "splitOn (cu CHR ''/'') (?r @ lit ''/'' @ total) = [?r, total]"
    using splitOn_append_sep[of 47 ?r total] splitOn_no_sep[OF total(3)] ab(4) by simp
  have trim3: "jsTrim ?r = ?r" by (rule jsTrim_id) (use ab(1,2) in simp)
  have star: "?r \<noteq> lit ''*''" by (cases ?a) (auto dest: showNat_plain)
  have dash: "indexOfUnit (cu CHR ''-'') ?r = Some (length ?a)" using indexOfUnit_first[OF ab(3)] by simp
  have ends: "take (length ?a) ?r = ?a" "drop (length ?a + 1) ?r = ?b" by simp_all
  have nums: "parseIntDigits ?a = Fin (of_int (start r))" "parseIntDigits ?b = Fin (of_int (stop r))"
    using readNum assms(1-3) by simp_all
  have ne: "formatContentRange r sz \<noteq> []" "?r \<noteq> []" unfolding text' by simp_all
  show ?thesis
    unfolding parseContentRange_def trim Let_def space option.case parts bytes trim2 split list.case trim3 dash ends nums
      showNat_token(2) total(2)
    using ne star showNat_token(1) total(5,6,7) assms by (cases sz) auto
qed

theorem content_range_roundtrip_witness:
  "parseContentRange (formatContentRange \<lparr>start = 0, stop = 499\<rparr> (Some 1234)) =
     Some \<lparr>crRange = Some \<lparr>start = Fin (of_int 0), stop = Fin (of_int 499)\<rparr>, crSize = Some (Fin (of_int 1234))\<rparr>"
  using content_range_roundtrip[of "\<lparr>start = 0, stop = 499\<rparr>" "Some 1234"] by simp

section \<open>The \<open>If-Range\<close> field\<close>

lemma day_name: "i < 7 \<Longrightarrow> \<exists>x y z. DAY_NAMES ! i = [x, y, z] \<and> x \<noteq> 34 \<and> \<not> isJsSpace x \<and> y \<noteq> 47"
proof -
  assume "i < 7"
  then have "i \<in> {0, 1, 2, 3, 4, 5, 6}" by auto
  then show ?thesis by (elim insertE emptyE) (simp_all add: DAY_NAMES_def isJsSpace_def)
qed

text \<open>A client that sends back the date of the representation in \<open>If-Range\<close> gets its
  ranges only when the stored date is a whole second: the comparison keeps the milliseconds, which the field
  cannot carry.\<close>

theorem if_range_own_date:
  assumes "100 \<le> getUTCFullYear t" "getUTCFullYear t \<le> 9999"
  shows "ifRangeMatches now (formatHTTPDate (Some t)) etag (Some (Some t)) \<longleftrightarrow> t mod 1000 = 0"
proof -
  let ?s = "formatHTTPDate (Some t)"
  obtain x y z where day: "DAY_NAMES ! nat (getUTCDay t) = [x, y, z]" "x \<noteq> 34" "\<not> isJsSpace x" "y \<noteq> 47"
    using day_name[OF fields_small(1)] by blast
  then obtain w where s: "?s = [x, y, z] @ w @ lit '' GMT''" by (simp add: formatHTTPDate_def)
  have trim: "jsTrim ?s = ?s" "?s \<noteq> []" unfolding s using day(3) isJsSpace_def[of 84] by (simp_all add: jsTrim_id)
  have "\<not> startsWith ?s (lit ''W/'')" "\<not> startsWith ?s [34]" unfolding s using day by (simp_all add: startsWith_def)
  then have "parseETag ?s = None" unfolding parseETag_def trim(1) Let_def using trim(2) by simp
  then have "ifRangeMatches now ?s etag (Some (Some t)) \<longleftrightarrow> notLater (Some t) (Some (t div 1000 * 1000))"
    unfolding ifRangeMatches_def trim(1) parse_formatted[OF assms] using trim(2) by (simp split: option.split)
  also have "\<dots> \<longleftrightarrow> t mod 1000 = 0"
    using mult_div_mod_eq[of 1000 t] pos_mod_sign[of 1000 t] unfolding notLater_def by (simp only: prod.case option.case) linarith
  finally show ?thesis .
qed

theorem if_range_own_date_witness:
  "\<not> ifRangeMatches 2025 (formatHTTPDate (Some 784111777123)) None (Some (Some 784111777123))"
  using if_range_own_date[of 784111777123 2025 None]
  by (simp add: getUTCFullYear_def yearOfDay_def dayFromYear_def msPerDay_def)

end
