(* ===== verification/HeaderUtils.thy ===== *)
theory HeaderUtils
  imports Conditional JsNumberText
begin

text \<open>
  The scanners and formatters header modules share: \<open>src/header-utils.ts\<close> and
  \<open>src/internal-parameterized-members.ts\<close> (RFC 9110 sections 5.6 and 12.4.2). Header values are ASCII as far
  as letter case goes; \<open>undefined\<close> is \<open>None\<close>. An \<open>Error\<close> that is thrown is the text it complains of.
\<close>

section \<open>Characters\<close>

definition TOKEN_CHAR :: "cu \<Rightarrow> bool" where
  "TOKEN_CHAR c \<longleftrightarrow>
     (65 \<le> c \<and> c \<le> 90) \<or> (97 \<le> c \<and> c \<le> 122) \<or> (48 \<le> c \<and> c \<le> 57) \<or> c \<in> set (lit ''!#$%&*+-.^_`|~'') \<or> c = 39"

definition TOKEN_CHARS :: "jsstr \<Rightarrow> bool" where
  "TOKEN_CHARS s \<longleftrightarrow> s \<noteq> [] \<and> list_all TOKEN_CHAR s"

definition isCtl :: "cu \<Rightarrow> bool" where
  "isCtl c \<longleftrightarrow> c \<le> 8 \<or> (10 \<le> c \<and> c \<le> 31) \<or> c = 127"

definition assertNoCtl :: "jsstr \<Rightarrow> jsstr + unit" where
  "assertNoCtl value = guardR (\<not> list_ex isCtl value) value"

definition assertHeaderToken :: "jsstr \<Rightarrow> jsstr + unit" where
  "assertHeaderToken value = andThen (assertNoCtl value) (\<lambda>_. guardR (TOKEN_CHARS value) value)"

definition isEmptyHeader :: "jsstr option \<Rightarrow> bool" where
  "isEmptyHeader header = (case header of None \<Rightarrow> True | Some h \<Rightarrow> h = [] \<or> jsTrim h = [])"

section \<open>Splitting\<close>

text \<open>The loop of \<open>splitQuotedValue\<close>: \<open>inQuotes\<close>, \<open>escaped\<close> and \<open>current\<close>.\<close>

fun splitLoop :: "cu \<Rightarrow> bool \<Rightarrow> bool \<Rightarrow> jsstr \<Rightarrow> jsstr \<Rightarrow> jsstr list" where
  "splitLoop d inQuotes escaped current [] = [current]"
| "splitLoop d inQuotes escaped current (c # cs) =
     (if escaped then splitLoop d inQuotes False (current @ [c]) cs
      else if c = 92 \<and> inQuotes then splitLoop d inQuotes True (current @ [c]) cs
      else if c = 34 then splitLoop d (\<not> inQuotes) False (current @ [c]) cs
      else if c = d \<and> \<not> inQuotes then current # splitLoop d inQuotes False [] cs
      else splitLoop d inQuotes False (current @ [c]) cs)"

definition splitQuotedValue :: "jsstr \<Rightarrow> cu \<Rightarrow> jsstr list" where
  "splitQuotedValue value delimiter = splitLoop delimiter False False [] value"

definition splitListValue :: "jsstr \<Rightarrow> jsstr list" where
  "splitListValue value = filter (\<lambda>p. p \<noteq> []) (map jsTrim (splitOn (cu CHR '','') value))"

section \<open>Parameters\<close>

record keyValueSegment =
  segKey :: jsstr
  segValue :: "jsstr option"
  hasEquals :: bool

definition parseParameterizedSegment :: "jsstr \<Rightarrow> keyValueSegment option" where
  "parseParameterizedSegment segment =
     (let trimmed = jsTrim segment
      in if trimmed = [] then None
         else
           case indexOfUnit (cu CHR ''='') trimmed of
             None \<Rightarrow> Some \<lparr>segKey = trimmed, segValue = None, hasEquals = False\<rparr>
           | Some eqIndex \<Rightarrow>
               Some \<lparr>segKey = jsTrim (take eqIndex trimmed), segValue = Some (jsTrim (drop (eqIndex + 1) trimmed)),
                 hasEquals = True\<rparr>)"

definition splitAndParseParameterizedSegments :: "jsstr \<Rightarrow> cu \<Rightarrow> keyValueSegment list" where
  "splitAndParseParameterizedSegments value delimiter =
     List.map_filter parseParameterizedSegment (splitQuotedValue value delimiter)"

record parameterizedMember =
  memberRaw :: jsstr
  memberBase :: "keyValueSegment option"
  memberParameters :: "keyValueSegment list"

record memberOptions =
  parameterDelimiter :: cu
  hasBaseSegment :: bool
  baseFromFirstSegment :: bool

definition parseParameterizedMember :: "memberOptions \<Rightarrow> jsstr \<Rightarrow> parameterizedMember" where
  "parseParameterizedMember options member =
     (let segments = splitAndParseParameterizedSegments member (parameterDelimiter options);
          raw = jsTrim member
      in if \<not> hasBaseSegment options then \<lparr>memberRaw = raw, memberBase = None, memberParameters = segments\<rparr>
         else if baseFromFirstSegment options then
           (let rawSegments = splitQuotedValue member (parameterDelimiter options)
            in \<lparr>memberRaw = raw, memberBase = parseParameterizedSegment (hd rawSegments),
                 memberParameters = List.map_filter parseParameterizedSegment (tl rawSegments)\<rparr>)
         else
           (case segments of
              [] \<Rightarrow> \<lparr>memberRaw = raw, memberBase = None, memberParameters = []\<rparr>
            | base # parameters \<Rightarrow> \<lparr>memberRaw = raw, memberBase = Some base, memberParameters = parameters\<rparr>))"

definition parseParameterizedMembers :: "memberOptions \<Rightarrow> cu \<Rightarrow> jsstr list \<Rightarrow> parameterizedMember list" where
  "parseParameterizedMembers options memberDelimiter values =
     concat (map (\<lambda>rawValue.
       map (parseParameterizedMember options)
         (filter (\<lambda>m. m \<noteq> []) (map jsTrim (splitQuotedValue rawValue memberDelimiter)))) values)"

definition formatParameterizedMember :: "jsstr \<Rightarrow> jsstr list \<Rightarrow> jsstr \<Rightarrow> bool \<Rightarrow> jsstr" where
  "formatParameterizedMember base parameters delimiter spaceAfter =
     (if parameters = [] then base
      else
        let separator = (if spaceAfter then delimiter @ [32] else delimiter)
        in base @ delimiter @ (if spaceAfter then [32] else []) @ joinWith separator parameters)"

definition parseKeyValueSegment :: "jsstr \<Rightarrow> keyValueSegment option" where
  "parseKeyValueSegment segment = parseParameterizedSegment segment"

definition splitAndParseKeyValueSegments :: "jsstr \<Rightarrow> cu \<Rightarrow> keyValueSegment list" where
  "splitAndParseKeyValueSegments value delimiter = splitAndParseParameterizedSegments value delimiter"

section \<open>Quoted strings\<close>

fun unescapeLenient :: "jsstr \<Rightarrow> jsstr" where
  "unescapeLenient [] = []"
| "unescapeLenient [c] = [c]"
| "unescapeLenient (c # d # cs) = (if c = 92 then d # unescapeLenient cs else c # unescapeLenient (d # cs))"

definition isQuoted :: "jsstr \<Rightarrow> bool" where
  "isQuoted s \<longleftrightarrow> startsWith s [34] \<and> endsWithUnit s 34 \<and> 2 \<le> length s"

definition unquoteLenient :: "jsstr \<Rightarrow> jsstr" where
  "unquoteLenient value =
     (let trimmed = jsTrim value
      in if \<not> isQuoted trimmed then trimmed else unescapeLenient (butlast (tl trimmed)))"

definition unquote :: "jsstr \<Rightarrow> jsstr" where
  "unquote value = unquoteLenient value"

text \<open>The loop of \<open>parseQuotedStringStrict\<close>, with its flag \<open>escaped\<close>.\<close>

fun strictLoop :: "bool \<Rightarrow> jsstr \<Rightarrow> jsstr \<Rightarrow> jsstr option" where
  "strictLoop escaped result [] = (if escaped then None else Some result)"
| "strictLoop escaped result (c # cs) =
     (if escaped then strictLoop False (result @ [c]) cs
      else if c = 92 then strictLoop True result cs
      else if c = 34 then None
      else strictLoop False (result @ [c]) cs)"

definition parseQuotedStringStrict :: "jsstr \<Rightarrow> jsstr option" where
  "parseQuotedStringStrict value =
     (let trimmed = jsTrim value
      in if \<not> isQuoted trimmed then None else strictLoop False [] (butlast (tl trimmed)))"

definition escapeQuotedString :: "jsstr \<Rightarrow> jsstr + jsstr" where
  "escapeQuotedString value =
     andThen (assertNoCtl value) (\<lambda>_. Inr (replaceUnit 34 [92, 34] (replaceUnit 92 [92, 92] value)))"

definition quoteString :: "jsstr \<Rightarrow> jsstr + jsstr" where
  "quoteString value = andThen (escapeQuotedString value) (\<lambda>v. Inr ([34] @ v @ [34]))"

definition quoteIfNeeded :: "jsstr \<Rightarrow> jsstr + jsstr" where
  "quoteIfNeeded value =
     andThen (assertNoCtl value) (\<lambda>_.
       if value = [] then quoteString []
       else if TOKEN_CHARS value then Inr value
       else quoteString value)"

section \<open>Numbers\<close>

text \<open>\<open>/^(?:0(?:\.\d{0,3})?|1(?:\.0{0,3})?)$/\<close>\<close>

definition QVALUE_REGEX :: "jsstr \<Rightarrow> bool" where
  "QVALUE_REGEX s \<longleftrightarrow>
     (case s of
        [] \<Rightarrow> False
      | c # cs \<Rightarrow>
          (c = 48 \<and> (cs = [] \<or> (hd cs = 46 \<and> length (tl cs) \<le> 3 \<and> list_all isDigit (tl cs)))) \<or>
          (c = 49 \<and> (cs = [] \<or> (hd cs = 46 \<and> length (tl cs) \<le> 3 \<and> list_all (\<lambda>d. d = 48) (tl cs)))))"

definition parseQValue :: "jsstr \<Rightarrow> jsnum option" where
  "parseQValue value =
     (let trimmed = jsTrim value
      in if \<not> QVALUE_REGEX trimmed then None
         else Some (numberOfParts False [hd trimmed] (drop 2 trimmed) 0))"

text \<open>The value of a segment that is a \<open>q\<close> parameter.\<close>

datatype qParameter = NotQ | InvalidQ | QValue jsnum

definition parseQParameter :: "jsstr \<Rightarrow> qParameter" where
  "parseQParameter segment =
     (case indexOfUnit (cu CHR ''='') segment of
        None \<Rightarrow> NotQ
      | Some eqIndex \<Rightarrow>
          if toLower (jsTrim (take eqIndex segment)) \<noteq> lit ''q'' then NotQ
          else
            case parseQValue (jsTrim (drop (eqIndex + 1) segment)) of
              None \<Rightarrow> InvalidQ
            | Some q \<Rightarrow> QValue q)"

record qSegments =
  qOf :: jsnum
  invalidQ :: bool
  firstQIndex :: "nat option"

text \<open>The loop of \<open>parseQSegments\<close>, at index \<open>i\<close>.\<close>

fun qLoop :: "nat \<Rightarrow> jsnum \<Rightarrow> nat option \<Rightarrow> jsstr list \<Rightarrow> qSegments" where
  "qLoop i q first [] = \<lparr>qOf = q, invalidQ = False, firstQIndex = first\<rparr>"
| "qLoop i q first (segment # segments) =
     (if segment = [] then qLoop (Suc i) q first segments
      else
        case parseQParameter segment of
          NotQ \<Rightarrow> qLoop (Suc i) q first segments
        | InvalidQ \<Rightarrow> \<lparr>qOf = q, invalidQ = True, firstQIndex = first\<rparr>
        | QValue v \<Rightarrow> qLoop (Suc i) v (if first = None then Some i else first) segments)"

definition parseQSegments :: "jsstr list \<Rightarrow> nat \<Rightarrow> qSegments" where
  "parseQSegments segments startIndex = qLoop startIndex (Fin 1) None (drop startIndex segments)"

record unsignedOptions =
  clampMode :: bool
  maxValue :: "jsnum option"
  requireSafeInteger :: bool

definition isSafeInteger :: "jsnum \<Rightarrow> bool" where
  "isSafeInteger x \<longleftrightarrow> isIntegerNum x \<and> \<bar>intOfNum x\<bar> < 2 ^ 53"

definition parseUnsignedInteger :: "unsignedOptions \<Rightarrow> jsstr option \<Rightarrow> jsnum option" where
  "parseUnsignedInteger options value =
     (case value of
        None \<Rightarrow> None
      | Some v \<Rightarrow>
          let trimmed = jsTrim v
          in if trimmed = [] \<or> \<not> list_all isDigit trimmed then None
             else
               case (if clampMode options then maxValue options else None) of
                 Some m \<Rightarrow>
                   (let maxString = numToString m
                    in if length maxString < length trimmed then Some m
                       else if length trimmed = length maxString \<and> maxString < trimmed then Some m
                       else
                         let parsed = roundDouble (int (parseDec trimmed)) 1
                         in if \<not> isFiniteNum parsed \<or> parsed < Fin 0 \<or> \<not> isIntegerNum parsed then None
                            else if requireSafeInteger options \<and> \<not> isSafeInteger parsed then Some m
                            else if m < parsed then Some m
                            else Some parsed)
               | None \<Rightarrow>
                   (let parsed = roundDouble (int (parseDec trimmed)) 1
                    in if \<not> isFiniteNum parsed \<or> parsed < Fin 0 \<or> \<not> isIntegerNum parsed then None
                       else if requireSafeInteger options \<and> \<not> isSafeInteger parsed then None
                       else if (case maxValue options of Some m \<Rightarrow> m < parsed | None \<Rightarrow> False) then None
                       else Some parsed))"

definition parseDeltaSeconds :: "unsignedOptions \<Rightarrow> jsstr option \<Rightarrow> jsnum option" where
  "parseDeltaSeconds options value = parseUnsignedInteger options value"

section \<open>Weighted lists\<close>

record weightedToken =
  wtToken :: jsstr
  wtQ :: jsnum

record weightedEntry = weightedToken +
  weSpecificity :: int
  weIndex :: nat

datatype weightedSort = QOnly | QThenSpecificity | Unsorted

record weightedOptions =
  tokenNormalizer :: "jsstr \<Rightarrow> jsstr"
  startSegmentIndex :: nat
  sortOrder :: weightedSort
  specificityOf :: "jsstr \<Rightarrow> int"

definition weightedEntryOf :: "weightedOptions \<Rightarrow> nat \<Rightarrow> jsstr \<Rightarrow> weightedEntry option" where
  "weightedEntryOf options i part =
     (let segments = map jsTrim (splitOn (cu CHR '';'') part); baseToken = hd segments
      in if baseToken = [] then None
         else
           let token = tokenNormalizer options baseToken
           in if token = [] then None
              else
                let qParts = parseQSegments segments (startSegmentIndex options)
                in if invalidQ qParts then None
                   else Some \<lparr>wtToken = token, wtQ = qOf qParts, weSpecificity = specificityOf options token, weIndex = i\<rparr>)"

text \<open>The comparison of the sort: whether \<open>a\<close> goes before \<open>b\<close>.\<close>

definition weightedBefore :: "weightedSort \<Rightarrow> weightedEntry \<Rightarrow> weightedEntry \<Rightarrow> bool" where
  "weightedBefore order a b =
     (if wtQ a \<noteq> wtQ b then wtQ b < wtQ a
      else if order = QThenSpecificity \<and> weSpecificity a \<noteq> weSpecificity b then weSpecificity b < weSpecificity a
      else weIndex a < weIndex b)"

text \<open>A stable sort by a comparison: \<open>Array.prototype.sort\<close>.\<close>

fun insertBy :: "('a \<Rightarrow> 'a \<Rightarrow> bool) \<Rightarrow> 'a \<Rightarrow> 'a list \<Rightarrow> 'a list" where
  "insertBy goesBefore x [] = [x]"
| "insertBy goesBefore x (y # ys) = (if goesBefore y x then y # insertBy goesBefore x ys else x # y # ys)"

definition stableSort :: "('a \<Rightarrow> 'a \<Rightarrow> bool) \<Rightarrow> 'a list \<Rightarrow> 'a list" where
  "stableSort goesBefore xs = foldr (insertBy goesBefore) xs []"

definition parseWeightedTokenList :: "weightedOptions \<Rightarrow> jsstr \<Rightarrow> weightedToken list" where
  "parseWeightedTokenList options header =
     (if isEmptyHeader (Some header) then []
      else
        let parsed = List.map_filter (\<lambda>(i, part). weightedEntryOf options i part)
                       (enumerate 0 (splitListValue header));
            sorted = (if sortOrder options = Unsorted then parsed
                      else stableSort (weightedBefore (sortOrder options)) parsed)
        in map (\<lambda>e. \<lparr>wtToken = wtToken e, wtQ = wtQ e\<rparr>) sorted)"

section \<open>Header lookup\<close>

text \<open>A record of headers has strings, \<open>null\<close> (\<open>Inr None\<close>) or anything else (\<open>Inl\<close>) as its values.\<close>

fun recordHeaderValue :: "(jsstr \<times> (unit + jsstr option)) list \<Rightarrow> jsstr \<Rightarrow> jsstr option" where
  "recordHeaderValue [] expected = None"
| "recordHeaderValue ((key, value) # rest) expected =
     (if toLower key \<noteq> expected then recordHeaderValue rest expected
      else case value of Inr v \<Rightarrow> v | Inl _ \<Rightarrow> None)"

datatype headerInput = RequestInput request | RecordInput "(jsstr \<times> (unit + jsstr option)) list"

fun getHeaderValue :: "headerInput \<Rightarrow> jsstr \<Rightarrow> jsstr option" where
  "getHeaderValue (RequestInput request) name = headerGet request name"
| "getHeaderValue (RecordInput r) name = recordHeaderValue r (toLower name)"

section \<open>Media types\<close>

definition parseTypeAndSubtype :: "bool \<Rightarrow> jsstr option \<Rightarrow> (jsstr \<times> jsstr) option" where
  "parseTypeAndSubtype allowWildcard mediaType =
     (case mediaType of
        None \<Rightarrow> None
      | Some m \<Rightarrow>
          let typeSubtype = jsTrim m
          in if typeSubtype = [] then None
             else
               case indexOfUnit (cu CHR ''/'') typeSubtype of
                 None \<Rightarrow> None
               | Some slashIndex \<Rightarrow>
                   if cu CHR ''/'' \<in> set (drop (slashIndex + 1) typeSubtype) then None
                   else
                     let type = toLower (jsTrim (take slashIndex typeSubtype));
                         subtype = toLower (jsTrim (drop (slashIndex + 1) typeSubtype));
                         star = lit ''*'';
                         validType = (if allowWildcard \<and> type = star then True else TOKEN_CHARS type);
                         validSubtype = (if allowWildcard \<and> subtype = star then True else TOKEN_CHARS subtype)
                     in if type = [] \<or> subtype = [] then None
                        else if \<not> validType \<or> \<not> validSubtype then None
                        else if allowWildcard \<and> type = star \<and> subtype \<noteq> star then None
                        else Some (type, subtype))"

record mediaType =
  mtType :: jsstr
  mtSubtype :: jsstr
  mtParameters :: "(jsstr \<times> jsstr) list"

definition parseMediaParameter :: "jsstr \<Rightarrow> (jsstr \<times> jsstr) option" where
  "parseMediaParameter part =
     (case parseKeyValueSegment part of
        None \<Rightarrow> None
      | Some segment \<Rightarrow>
          (case segValue segment of
             None \<Rightarrow> None
           | Some value \<Rightarrow>
               if segKey segment = [] \<or> value = [] then None
               else
                 let name = toLower (jsTrim (segKey segment))
                 in if \<not> TOKEN_CHARS name then None
                    else
                      let rawValue = jsTrim value
                      in if startsWith rawValue [34] then map_option (Pair name) (parseQuotedStringStrict rawValue)
                         else if \<not> TOKEN_CHARS rawValue then None
                         else Some (name, rawValue)))"

fun parseMediaParameters :: "jsstr list \<Rightarrow> (jsstr \<times> jsstr) list option" where
  "parseMediaParameters [] = Some []"
| "parseMediaParameters (p # ps) =
     (case parseMediaParameter p of
        None \<Rightarrow> None
      | Some kv \<Rightarrow> map_option (Cons kv) (parseMediaParameters ps))"

definition parseMediaType :: "bool \<Rightarrow> jsstr \<Rightarrow> mediaType option" where
  "parseMediaType allowWildcard value =
     (let parts = map jsTrim (splitQuotedValue value (cu CHR '';''))
      in case parseTypeAndSubtype allowWildcard (Some (hd parts)) of
           None \<Rightarrow> None
         | Some (type, subtype) \<Rightarrow>
             map_option (\<lambda>ps. \<lparr>mtType = type, mtSubtype = subtype, mtParameters = ps\<rparr>) (parseMediaParameters (tl parts)))"

definition formatMediaParameter :: "jsstr \<times> jsstr \<Rightarrow> jsstr + jsstr" where
  "formatMediaParameter p =
     (let normalizedName = toLower (jsTrim (fst p))
      in if \<not> TOKEN_CHARS normalizedName then Inl (fst p)
         else andThen (quoteIfNeeded (snd p)) (\<lambda>v. Inr (normalizedName @ lit ''='' @ v)))"

definition formatMediaType :: "jsstr \<Rightarrow> jsstr \<Rightarrow> (jsstr \<times> jsstr) list \<Rightarrow> jsstr + jsstr" where
  "formatMediaType type subtype parameters =
     (let normalizedType = toLower (jsTrim type); normalizedSubtype = toLower (jsTrim subtype);
          base = normalizedType @ lit ''/'' @ normalizedSubtype
      in if \<not> TOKEN_CHARS normalizedType \<or> \<not> TOKEN_CHARS normalizedSubtype then Inl base
         else andThen (mapR formatMediaParameter parameters) (\<lambda>serialized.
           if serialized = [] then Inr base
           else Inr (base @ lit '';'' @ joinWith (lit '';'') serialized)))"

end
