(* ===== verification/CacheControl.thy ===== *)
theory CacheControl
  imports HeaderUtils StructuredFields
begin

text \<open>
  \<open>Cache-Control\<close> and its targeted variants: \<open>src/internal-cache-control-schema.ts\<close>, \<open>src/cache.ts\<close>,
  \<open>src/targeted-cache-control.ts\<close> and the lookups of \<open>src/structured-field-helpers.ts\<close> (RFC 9111 section 5.2,
  RFC 9213). The options are read and written through a table of directives, so they are functions on the
  properties the table names: a flag that is \<open>undefined\<close> or \<open>false\<close> is \<open>False\<close>.
\<close>

section \<open>The table of directives\<close>

datatype flagProperty = Public | Private | NoCache | NoStore | MustRevalidate | ProxyRevalidate | Immutable
datatype deltaProperty = MaxAge | SMaxAge | StaleWhileRevalidate | StaleIfError
datatype listProperty = PrivateFields | NoCacheFields

datatype directiveKind = FlagDirective flagProperty | FieldListDirective flagProperty listProperty | DeltaDirective deltaProperty

record directiveDescriptor =
  wireKey :: jsstr
  kind :: directiveKind
  allowInClassic :: bool
  allowInTargeted :: bool

definition CACHE_DIRECTIVE_DESCRIPTORS :: "directiveDescriptor list" where
  "CACHE_DIRECTIVE_DESCRIPTORS =
     map (\<lambda>(k, d). \<lparr>wireKey = lit k, kind = d, allowInClassic = True, allowInTargeted = True\<rparr>)
       [(''public'', FlagDirective Public),
        (''private'', FieldListDirective Private PrivateFields),
        (''no-cache'', FieldListDirective NoCache NoCacheFields),
        (''no-store'', FlagDirective NoStore),
        (''max-age'', DeltaDirective MaxAge),
        (''s-maxage'', DeltaDirective SMaxAge),
        (''must-revalidate'', FlagDirective MustRevalidate),
        (''proxy-revalidate'', FlagDirective ProxyRevalidate),
        (''immutable'', FlagDirective Immutable),
        (''stale-while-revalidate'', DeltaDirective StaleWhileRevalidate),
        (''stale-if-error'', DeltaDirective StaleIfError)]"

definition DESCRIPTOR_BY_WIRE_KEY :: "jsstr \<Rightarrow> directiveDescriptor option" where
  "DESCRIPTOR_BY_WIRE_KEY key = map_of (map (\<lambda>d. (wireKey d, d)) CACHE_DIRECTIVE_DESCRIPTORS) key"

definition TARGETED_DIRECTIVE_KEYS :: "jsstr list" where
  "TARGETED_DIRECTIVE_KEYS = map wireKey (filter allowInTargeted CACHE_DIRECTIVE_DESCRIPTORS)"

definition MAX_DELTA_SECONDS :: jsnum where "MAX_DELTA_SECONDS = Fin 2147483648"

record cacheOptions =
  flags :: "flagProperty \<Rightarrow> bool"
  fieldLists :: "listProperty \<Rightarrow> jsstr list option"
  deltas :: "deltaProperty \<Rightarrow> jsnum option"

definition noOptions :: cacheOptions where
  "noOptions = \<lparr>flags = (\<lambda>_. False), fieldLists = (\<lambda>_. None), deltas = (\<lambda>_. None)\<rparr>"

section \<open>\<open>Cache-Control\<close>\<close>

definition parseFieldNameList :: "jsstr \<Rightarrow> jsstr list" where
  "parseFieldNameList value =
     map toLower (filter (\<lambda>i. i \<noteq> []) (map jsTrim (splitQuotedValue value (cu CHR '',''))))"

text \<open>\<open>Math.floor(value)\<close>\<close>

definition floorNum :: "jsnum \<Rightarrow> jsnum" where
  "floorNum x = (case x of Fin q \<Rightarrow> Fin (of_int \<lfloor>q\<rfloor>) | _ \<Rightarrow> x)"

definition hasFields :: "cacheOptions \<Rightarrow> listProperty \<Rightarrow> bool" where
  "hasFields options l = (case fieldLists options l of Some fs \<Rightarrow> fs \<noteq> [] | None \<Rightarrow> False)"

text \<open>What one descriptor adds to the directives.\<close>

definition formatDirective :: "cacheOptions \<Rightarrow> directiveDescriptor \<Rightarrow> jsstr list" where
  "formatDirective options descriptor =
     (if \<not> allowInClassic descriptor then []
      else
        case kind descriptor of
          FlagDirective p \<Rightarrow>
            (if p = Public \<and> (flags options Private \<or> hasFields options PrivateFields) then []
             else if flags options p then [wireKey descriptor]
             else [])
        | FieldListDirective p l \<Rightarrow>
            (if \<not> (flags options p \<or> hasFields options l) then []
             else if hasFields options l then
               [wireKey descriptor @ lit ''='' @ [34] @ joinWith (lit '', '') (the (fieldLists options l)) @ [34]]
             else [wireKey descriptor])
        | DeltaDirective p \<Rightarrow>
            (case deltas options p of
               Some value \<Rightarrow>
                 if Fin 0 \<le> value then [wireKey descriptor @ lit ''='' @ numToString (floorNum value)] else []
             | None \<Rightarrow> []))"

definition formatClassicCacheDirectives :: "cacheOptions \<Rightarrow> jsstr" where
  "formatClassicCacheDirectives options =
     joinWith (lit '', '') (concat (map (formatDirective options) CACHE_DIRECTIVE_DESCRIPTORS))"

definition setFlag :: "flagProperty \<Rightarrow> cacheOptions \<Rightarrow> cacheOptions" where
  "setFlag p options = options\<lparr>flags := (flags options)(p := True)\<rparr>"

definition deltaOptions :: unsignedOptions where
  "deltaOptions = \<lparr>clampMode = True, maxValue = Some MAX_DELTA_SECONDS, requireSafeInteger = True\<rparr>"

text \<open>One turn of the loop of \<open>parseClassicCacheDirectives\<close>.\<close>

definition parseDirective :: "cacheOptions \<Rightarrow> jsstr \<Rightarrow> cacheOptions" where
  "parseDirective options directive =
     (case parseKeyValueSegment directive of
        None \<Rightarrow> options
      | Some parsed \<Rightarrow>
          (case DESCRIPTOR_BY_WIRE_KEY (toLower (jsTrim (segKey parsed))) of
             None \<Rightarrow> options
           | Some descriptor \<Rightarrow>
               if \<not> allowInClassic descriptor then options
               else
                 let value = (if hasEquals parsed then map_option unquote (segValue parsed) else None)
                 in case kind descriptor of
                      FlagDirective p \<Rightarrow> setFlag p options
                    | FieldListDirective p l \<Rightarrow>
                        (let options' = setFlag p options
                         in case value of
                              None \<Rightarrow> options'
                            | Some v \<Rightarrow>
                                let fields = parseFieldNameList v
                                in if v \<noteq> [] \<and> fields \<noteq> []
                                   then options'\<lparr>fieldLists := (fieldLists options')(l := Some fields)\<rparr>
                                   else options')
                    | DeltaDirective p \<Rightarrow>
                        (case parseDeltaSeconds deltaOptions value of
                           Some parsed \<Rightarrow> options\<lparr>deltas := (deltas options)(p := Some parsed)\<rparr>
                         | None \<Rightarrow> options)))"

definition parseClassicCacheDirectives :: "jsstr \<Rightarrow> cacheOptions" where
  "parseClassicCacheDirectives header =
     foldl parseDirective noOptions (filter (\<lambda>d. d \<noteq> []) (map jsTrim (splitQuotedValue header (cu CHR '',''))))"

definition cacheControl :: "cacheOptions \<Rightarrow> jsstr" where
  "cacheControl options = formatClassicCacheDirectives options"

definition parseCacheControl :: "jsstr \<Rightarrow> cacheOptions" where
  "parseCacheControl header = parseClassicCacheDirectives header"

definition getCacheHeaders :: "jsstr \<Rightarrow> jsDate \<Rightarrow> cacheOptions option \<Rightarrow> headerRecord" where
  "getCacheHeaders etag lastModified options =
     (let cacheOptions = (case options of
            Some o' \<Rightarrow> o'
          | None \<Rightarrow> \<lparr>flags = (\<lambda>p. p = Public \<or> p = MustRevalidate), fieldLists = (\<lambda>_. None),
                     deltas = (\<lambda>p. if p = MaxAge then Some (Fin 0) else None)\<rparr>)
      in [(lit ''Cache-Control'', cacheControl cacheOptions), (lit ''ETag'', etag),
          (lit ''Last-Modified'', formatHTTPDate lastModified)])"

section \<open>Targeted cache control\<close>

record targetedCacheControl =
  tFlags :: "flagProperty \<Rightarrow> bool"
  tDeltas :: "deltaProperty \<Rightarrow> jsnum option"
  tExtensions :: "sfDictionary option"

definition noTargeted :: targetedCacheControl where
  "noTargeted = \<lparr>tFlags = (\<lambda>_. False), tDeltas = (\<lambda>_. None), tExtensions = None\<rparr>"

definition isValidNonNegativeInteger :: "jsnum \<Rightarrow> bool" where
  "isValidNonNegativeInteger value \<longleftrightarrow> isIntegerNum value \<and> isFiniteNum value \<and> Fin 0 \<le> value"

definition parseTargetedMember :: "directiveKind \<Rightarrow> sfBareItem \<Rightarrow> targetedCacheControl \<Rightarrow> targetedCacheControl" where
  "parseTargetedMember k value parsed =
     (case k of
        DeltaDirective p \<Rightarrow>
          (case value of
             SfNumber n \<Rightarrow> if isValidNonNegativeInteger n then parsed\<lparr>tDeltas := (tDeltas parsed)(p := Some n)\<rparr> else parsed
           | _ \<Rightarrow> parsed)
      | FlagDirective p \<Rightarrow> if value = SfBoolean True then parsed\<lparr>tFlags := (tFlags parsed)(p := True)\<rparr> else parsed
      | FieldListDirective p l \<Rightarrow>
          if value = SfBoolean True then parsed\<lparr>tFlags := (tFlags parsed)(p := True)\<rparr> else parsed)"

text \<open>The loop of \<open>parseTargetedCacheDirectives\<close>: what is parsed, and the extensions.\<close>

fun parseTargetedLoop :: "targetedCacheControl \<Rightarrow> sfDictionary \<Rightarrow> sfDictionary \<Rightarrow> targetedCacheControl \<times> sfDictionary" where
  "parseTargetedLoop parsed extensions [] = (parsed, extensions)"
| "parseTargetedLoop parsed extensions ((key, member) # dict) =
     (case DESCRIPTOR_BY_WIRE_KEY key of
        None \<Rightarrow> parseTargetedLoop parsed (objPut key member extensions) dict
      | Some descriptor \<Rightarrow>
          if \<not> allowInTargeted descriptor then parseTargetedLoop parsed (objPut key member extensions) dict
          else
            case member of
              ListMember _ \<Rightarrow> parseTargetedLoop parsed extensions dict
            | ItemMember item \<Rightarrow>
                parseTargetedLoop (parseTargetedMember (kind descriptor) (itemValue item) parsed) extensions dict)"

definition parseTargetedCacheDirectives :: "sfDictionary \<Rightarrow> targetedCacheControl" where
  "parseTargetedCacheDirectives dict =
     (case parseTargetedLoop noTargeted [] dict of
        (parsed, extensions) \<Rightarrow> if extensions = [] then parsed else parsed\<lparr>tExtensions := Some extensions\<rparr>)"

definition plainItem :: "sfBareItem \<Rightarrow> sfMember" where
  "plainItem v = ItemMember \<lparr>itemValue = v, itemParams = None\<rparr>"

text \<open>The error of \<open>appendTargetedCacheDirectives\<close> names the directive.\<close>

datatype targetedError = InvalidDelta jsstr | NotSerializable sfError

definition appendTargeted :: "targetedCacheControl \<Rightarrow> sfDictionary \<Rightarrow> directiveDescriptor \<Rightarrow> targetedError + sfDictionary" where
  "appendTargeted input dict descriptor =
     (if \<not> allowInTargeted descriptor then Inr dict
      else
        case kind descriptor of
          DeltaDirective p \<Rightarrow>
            (case tDeltas input p of
               None \<Rightarrow> Inr dict
             | Some value \<Rightarrow>
                 if \<not> isValidNonNegativeInteger value then Inl (InvalidDelta (wireKey descriptor))
                 else Inr (objPut (wireKey descriptor) (plainItem (SfNumber value)) dict))
        | FlagDirective p \<Rightarrow>
            Inr (if tFlags input p then objPut (wireKey descriptor) (plainItem (SfBoolean True)) dict else dict)
        | FieldListDirective p l \<Rightarrow>
            Inr (if tFlags input p then objPut (wireKey descriptor) (plainItem (SfBoolean True)) dict else dict))"

definition appendTargetedCacheDirectives :: "sfDictionary \<Rightarrow> targetedCacheControl \<Rightarrow> targetedError + sfDictionary" where
  "appendTargetedCacheDirectives dict input = foldR (appendTargeted input) dict CACHE_DIRECTIVE_DESCRIPTORS"

definition isKnownTargetedCacheDirective :: "jsstr \<Rightarrow> bool" where
  "isKnownTargetedCacheDirective key \<longleftrightarrow> key \<in> set TARGETED_DIRECTIVE_KEYS"

definition normalizeOptionalHeaderValue :: "jsstr option \<Rightarrow> jsstr option" where
  "normalizeOptionalHeaderValue value =
     (case value of None \<Rightarrow> None | Some v \<Rightarrow> let trimmed = jsTrim v in if trimmed \<noteq> [] then Some trimmed else None)"

definition getNormalizedHeaderValue :: "headerInput \<Rightarrow> jsstr \<Rightarrow> jsstr option" where
  "getNormalizedHeaderValue headers fieldName = normalizeOptionalHeaderValue (getHeaderValue headers fieldName)"

definition isEmptyTargeted :: "targetedCacheControl \<Rightarrow> bool" where
  "isEmptyTargeted t \<longleftrightarrow>
     list_all (\<lambda>p. \<not> tFlags t p) [Public, Private, NoCache, NoStore, MustRevalidate, ProxyRevalidate, Immutable] \<and>
     list_all (\<lambda>p. tDeltas t p = None) [MaxAge, SMaxAge, StaleWhileRevalidate, StaleIfError] \<and> tExtensions t = None"

definition parseTargetedCacheControl :: "jsstr \<Rightarrow> targetedCacheControl option" where
  "parseTargetedCacheControl header =
     (case normalizeOptionalHeaderValue (Some header) of
        None \<Rightarrow> None
      | Some normalized \<Rightarrow>
          (case parseSfDict normalized of
             None \<Rightarrow> None
           | Some dict \<Rightarrow>
               let parsed = parseTargetedCacheDirectives dict
               in if isEmptyTargeted parsed then None else Some parsed))"

definition formatTargetedCacheControl :: "targetedCacheControl \<Rightarrow> targetedError + jsstr" where
  "formatTargetedCacheControl input =
     andThen (appendTargetedCacheDirectives [] input) (\<lambda>dict.
       let dict' = (case tExtensions input of
             None \<Rightarrow> dict
           | Some ext \<Rightarrow> foldl (\<lambda>d (k, v). if isKnownTargetedCacheDirective k then d else objPut k v d) dict ext)
       in case serializeSfDict dict' of Inl e \<Rightarrow> Inl (NotSerializable e) | Inr t \<Rightarrow> Inr t)"

definition parseCdnCacheControl :: "jsstr \<Rightarrow> targetedCacheControl option" where
  "parseCdnCacheControl header = parseTargetedCacheControl header"

definition formatCdnCacheControl :: "targetedCacheControl \<Rightarrow> targetedError + jsstr" where
  "formatCdnCacheControl input = formatTargetedCacheControl input"

datatype targetedSelection = Targeted jsstr targetedCacheControl | Fallback jsstr | NoSelection

fun selectLoop :: "headerInput \<Rightarrow> jsstr list \<Rightarrow> (jsstr \<times> targetedCacheControl) option" where
  "selectLoop headers [] = None"
| "selectLoop headers (fieldName # rest) =
     (case getNormalizedHeaderValue headers fieldName of
        None \<Rightarrow> selectLoop headers rest
      | Some value \<Rightarrow>
          (case parseTargetedCacheControl value of
             None \<Rightarrow> selectLoop headers rest
           | Some parsed \<Rightarrow> Some (fieldName, parsed)))"

definition selectTargetedCacheControl :: "jsstr list \<Rightarrow> headerInput \<Rightarrow> jsstr option \<Rightarrow> targetedSelection" where
  "selectTargetedCacheControl targetList headers fallbackCacheControl =
     (case selectLoop headers targetList of
        Some (fieldName, parsed) \<Rightarrow> Targeted fieldName parsed
      | None \<Rightarrow>
          (case normalizeOptionalHeaderValue
                  (case fallbackCacheControl of
                     Some f \<Rightarrow> Some f
                   | None \<Rightarrow> getNormalizedHeaderValue headers (lit ''cache-control'')) of
             Some resolved \<Rightarrow> Fallback resolved
           | None \<Rightarrow> NoSelection))"

end
