(* ===== verification/HeaderUtilsLaws.thy ===== *)
theory HeaderUtilsLaws
  imports HeaderUtils
begin

text \<open>
  What the shared scanners promise: a quoted string comes back from its text and no delimiter inside it splits
  a header value; media types come back from their text; unsigned integers are read and clamped.
\<close>

section \<open>Text that holds no delimiter of its own\<close>

definition neutral :: "cu \<Rightarrow> jsstr \<Rightarrow> bool" where
  "neutral d p \<longleftrightarrow> (\<forall>cur rest. splitLoop d False False cur (p @ rest) = splitLoop d False False (cur @ p) rest)"

lemma neutral_Nil [simp]: "neutral d []"
  by (simp add: neutral_def)

lemma neutral_append: "neutral d p \<Longrightarrow> neutral d q \<Longrightarrow> neutral d (p @ q)"
  by (simp add: neutral_def)

lemma neutral_plain: "d \<notin> set p \<Longrightarrow> 34 \<notin> set p \<Longrightarrow> neutral d p"
  unfolding neutral_def by (induction p) auto

definition escapeText :: "jsstr \<Rightarrow> jsstr" where
  "escapeText v = replaceUnit 34 [92, 34] (replaceUnit 92 [92, 92] v)"

lemma escapeText_simps [simp]:
  "escapeText [] = []"
  "escapeText (c # cs) = (if c = 92 then [92, 92] else if c = 34 then [92, 34] else [c]) @ escapeText cs"
  by (simp_all add: escapeText_def replaceUnit_append)

lemma splitLoop_escaped:
  "splitLoop d True False cur (escapeText v @ rest) = splitLoop d True False (cur @ escapeText v) rest"
  by (induction v arbitrary: cur) auto

lemma neutral_quoted: "d \<noteq> 34 \<Longrightarrow> neutral d ([34] @ escapeText v @ [34])"
  using splitLoop_escaped[of d] by (auto simp: neutral_def)

lemma split_neutral:
  assumes "ps \<noteq> []" "\<forall>p\<in>set ps. neutral d p" "d \<noteq> 34"
  shows "splitQuotedValue (joinWith [d] ps) d = ps"
proof -
  have "splitLoop d False False cur (joinWith [d] ps) = (cur @ hd ps) # tl ps" for cur
    using assms
  proof (induction ps arbitrary: cur rule: induct_list012)
    case (2 p)
    then have "neutral d p" by simp
    from this[unfolded neutral_def, rule_format, of cur "[]"] show ?case by simp
  next
    case (3 p q ps)
    then have "splitLoop d False False cur (p @ [d] @ joinWith [d] (q # ps)) =
        splitLoop d False False (cur @ p) ([d] @ joinWith [d] (q # ps))" by (simp only: neutral_def) simp
    also have "\<dots> = (cur @ p) # splitLoop d False False [] (joinWith [d] (q # ps))" using 3 by simp
    finally show ?case using 3 by simp
  qed simp
  from this[of "[]"] show ?thesis using assms(1) by (simp add: splitQuotedValue_def)
qed

lemma split_single: "neutral d p \<Longrightarrow> d \<noteq> 34 \<Longrightarrow> splitQuotedValue p d = [p]"
  using split_neutral[of "[p]" d] by simp

section \<open>Quoted strings\<close>

lemma quote_text: "quoteString v = Inr q \<longleftrightarrow> \<not> list_ex isCtl v \<and> q = [34] @ escapeText v @ [34]"
  by (auto simp: quoteString_def escapeQuotedString_def assertNoCtl_def guardR_def escapeText_def)

lemma quoted_trim: "jsTrim ([34] @ v @ [34]) = [34] @ v @ [34]"
  by (rule jsTrim_id) (simp add: isJsSpace_def)

lemma quoted_inner: "isQuoted ([34] @ v @ [34])" "butlast (tl ([34] @ v @ [34])) = v"
  by (simp_all add: isQuoted_def startsWith_def endsWithUnit_def)

lemma strictLoop_escape: "strictLoop False result (escapeText v) = Some (result @ v)"
  by (induction v arbitrary: result) auto

lemma unescape_escape: "unescapeLenient (escapeText v) = v"
proof (induction v)
  case (Cons c v)
  show ?case
  proof (cases "c = 92 \<or> c = 34")
    case False
    then show ?thesis using Cons by (cases "escapeText v") auto
  qed (use Cons in auto)
qed simp

lemma strict_quoted: "parseQuotedStringStrict ([34] @ escapeText v @ [34]) = Some v"
  unfolding parseQuotedStringStrict_def quoted_trim Let_def quoted_inner(2) using quoted_inner(1) strictLoop_escape[of "[]"]
  by simp

lemma lenient_quoted: "unquote ([34] @ escapeText v @ [34]) = v"
  unfolding unquote_def unquoteLenient_def quoted_trim Let_def quoted_inner(2) using quoted_inner(1) unescape_escape by simp

text \<open>C21 (quoted_string_roundtrip): The quoted string \<open>quoteString\<close> writes is read back, strictly and
  leniently, as the value it was made of, and no comma, semicolon or other delimiter inside it splits a header
  value.\<close>

theorem quoted_string_roundtrip:
  assumes "quoteString v = Inr q" "d \<noteq> 34"
  shows "parseQuotedStringStrict q = Some v \<and> unquote q = v \<and> splitQuotedValue q d = [q]"
proof -
  have q: "q = [34] @ escapeText v @ [34]" using assms(1) quote_text by blast
  have "d \<noteq> 34" by (rule assms(2))
  then have "splitQuotedValue q d = [q]" unfolding q by (intro split_single neutral_quoted)
  with q show ?thesis by (simp only: strict_quoted lenient_quoted simp_thms)
qed

theorem quoted_string_roundtrip_witness:
  "parseQuotedStringStrict ([34] @ lit ''a;'' @ [92, 34] @ lit ''b'' @ [34]) = Some (lit ''a;'' @ [34] @ lit ''b'')"
  using quoted_string_roundtrip[of "lit ''a;'' @ [34] @ lit ''b''" "[34] @ lit ''a;'' @ [92, 34] @ lit ''b'' @ [34]" "cu CHR '';''"]
  by (simp add: quote_text isCtl_def)

section \<open>Media types\<close>

lemma token_char: "TOKEN_CHAR c \<Longrightarrow> c \<noteq> 34 \<and> c \<noteq> 44 \<and> c \<noteq> 47 \<and> c \<noteq> 59 \<and> c \<noteq> 61 \<and> \<not> isJsSpace c"
  by (auto simp: TOKEN_CHAR_def isJsSpace_def)

lemma token_plain: "TOKEN_CHARS s \<Longrightarrow> s \<noteq> [] \<and> 34 \<notin> set s \<and> 44 \<notin> set s \<and> 47 \<notin> set s \<and> 59 \<notin> set s \<and> 61 \<notin> set s"
  using token_char by (auto simp: TOKEN_CHARS_def list_all_iff)

lemma token_ends: "TOKEN_CHARS s \<Longrightarrow> \<not> isJsSpace (hd s) \<and> \<not> isJsSpace (last s)"
  using token_char by (auto simp: TOKEN_CHARS_def list_all_iff)

lemma token_trim: "TOKEN_CHARS s \<Longrightarrow> jsTrim s = s"
  using token_ends by (blast intro: jsTrim_id)

lemma token_neutral: "TOKEN_CHARS s \<Longrightarrow> neutral 59 s" "TOKEN_CHARS s \<Longrightarrow> neutral 44 s"
  using token_plain by (blast intro: neutral_plain)+

lemma lower_idem: "toLower (toLower s) = toLower s"
  by (auto simp: toLower_def lowerUnit_def)

text \<open>The text of a value: a token, or a quoted string.\<close>

lemma quoteIfNeeded_cases:
  assumes "quoteIfNeeded v = Inr t"
  shows "(TOKEN_CHARS v \<and> t = v) \<or> t = [34] @ escapeText v @ [34]"
  using assms quote_text[of v t] quote_text[of "[]" t]
  by (auto simp: quoteIfNeeded_def assertNoCtl_def guardR_def split: if_splits)

lemma value_text:
  assumes "quoteIfNeeded v = Inr t"
  shows "t \<noteq> []" "jsTrim t = t" "\<not> isJsSpace (last t)" "neutral 59 t"
    "if startsWith t [34] then parseQuotedStringStrict t = Some v else TOKEN_CHARS t \<and> t = v"
proof -
  from quoteIfNeeded_cases[OF assms] have "t \<noteq> [] \<and> jsTrim t = t \<and> \<not> isJsSpace (last t) \<and> neutral 59 t \<and>
    (if startsWith t [34] then parseQuotedStringStrict t = Some v else TOKEN_CHARS t \<and> t = v)"
  proof
    assume t: "TOKEN_CHARS v \<and> t = v"
    then have "\<not> startsWith t [34]" using token_plain[of v] by (cases v) (auto simp: startsWith_def)
    with t show ?thesis using token_plain token_ends token_trim token_neutral(1) by simp
  next
    assume t: "t = [34] @ escapeText v @ [34]"
    have "startsWith t [34]" by (simp add: t startsWith_def)
    moreover have "neutral 59 t" "parseQuotedStringStrict t = Some v" "jsTrim t = t"
      unfolding t by (simp_all only: strict_quoted quoted_trim) (rule neutral_quoted, simp)
    moreover have "t \<noteq> []" "\<not> isJsSpace (last t)" by (simp_all add: t isJsSpace_def)
    ultimately show ?thesis by simp
  qed
  then show "t \<noteq> []" "jsTrim t = t" "\<not> isJsSpace (last t)" "neutral 59 t"
    "if startsWith t [34] then parseQuotedStringStrict t = Some v else TOKEN_CHARS t \<and> t = v" by blast+
qed

lemma parse_parameter:
  assumes "formatMediaParameter (name, v) = Inr p"
  shows "parseMediaParameter p = Some (toLower (jsTrim name), v)" "neutral 59 p" "jsTrim p = p"
proof -
  let ?n = "toLower (jsTrim name)"
  obtain t where n: "TOKEN_CHARS ?n" and t: "quoteIfNeeded v = Inr t" and p: "p = ?n @ [61] @ t"
    using assms by (auto simp: formatMediaParameter_def Let_def err_simps split: if_splits)
  note vt = value_text[OF t] and tok = token_plain[OF n] token_ends[OF n] token_trim[OF n]
  show trim: "jsTrim p = p" unfolding p by (rule jsTrim_id) (use vt tok in simp)
  show "neutral 59 p" unfolding p by (intro neutral_append token_neutral(1) n vt(4) neutral_plain) simp_all
  have "p \<noteq> []" using tok p by simp
  moreover have "indexOfUnit (cu CHR ''='') p = Some (length ?n)" using indexOfUnit_first[of 61 ?n t] tok p by simp
  ultimately have "parseKeyValueSegment p = Some \<lparr>segKey = ?n, segValue = Some t, hasEquals = True\<rparr>"
    using tok vt(2) unfolding parseKeyValueSegment_def parseParameterizedSegment_def trim by (simp add: p)
  note seg = this
  show "parseMediaParameter p = Some (?n, v)"
  proof (cases "startsWith t [34]")
    case True
    with seg tok n vt show ?thesis by (simp add: parseMediaParameter_def lower_idem)
  next
    case False
    have "TOKEN_CHARS t \<and> t = v" using vt(5) unfolding if_not_P[OF False] .
    then have "v = t" "TOKEN_CHARS t" by blast+
    with False seg tok n vt(1,2) show ?thesis by (simp add: parseMediaParameter_def lower_idem)
  qed
qed

lemma parse_parameters:
  "mapR formatMediaParameter ps = Inr ts \<Longrightarrow>
     parseMediaParameters ts = Some (map (\<lambda>(n, v). (toLower (jsTrim n), v)) ps) \<and> (\<forall>t\<in>set ts. neutral 59 t \<and> jsTrim t = t)"
  by (induction ps arbitrary: ts) (auto split: sum.splits dest: parse_parameter)

text \<open>C17 (media_type_roundtrip): A media type that \<open>formatMediaType\<close> writes is read back by
  \<open>parseMediaType\<close>, with type, subtype and parameter names in lower case and the values as they were.\<close>

theorem media_type_roundtrip:
  assumes "formatMediaType type subtype ps = Inr s"
  shows "parseMediaType False s = Some \<lparr>mtType = toLower (jsTrim type), mtSubtype = toLower (jsTrim subtype),
    mtParameters = map (\<lambda>(n, v). (toLower (jsTrim n), v)) ps\<rparr>"
proof -
  let ?t = "toLower (jsTrim type)"
  let ?u = "toLower (jsTrim subtype)"
  let ?b = "?t @ lit ''/'' @ ?u"
  obtain ts where tok: "TOKEN_CHARS ?t" "TOKEN_CHARS ?u" and ts: "mapR formatMediaParameter ps = Inr ts"
    and s: "s = joinWith [59] (?b # ts)"
    using assms unfolding formatMediaType_def Let_def
    by (auto simp: err_simps joinWith_Cons split: if_splits)
  note pt = parse_parameters[OF ts] and t = token_plain[OF tok(1)] token_ends[OF tok(1)] token_trim[OF tok(1)]
    and u = token_plain[OF tok(2)] token_ends[OF tok(2)] token_trim[OF tok(2)]
  have bn: "neutral 59 ?b" by (intro neutral_append token_neutral(1) tok neutral_plain) simp_all
  have bt: "jsTrim ?b = ?b" by (rule jsTrim_id) (use t u in simp)
  have "splitQuotedValue s 59 = ?b # ts" unfolding s by (rule split_neutral) (use bn pt in auto)
  then have parts: "map jsTrim (splitQuotedValue s (cu CHR '';'')) = ?b # ts" using bt pt by (simp add: map_idI)
  have slash: "indexOfUnit (cu CHR ''/'') ?b = Some (length ?t)" using indexOfUnit_first[of 47 ?t ?u] t by simp
  have "parseTypeAndSubtype False (Some ?b) = Some (?t, ?u)"
    unfolding parseTypeAndSubtype_def option.case bt Let_def slash using t u tok by (simp add: lower_idem)
  then show ?thesis unfolding parseMediaType_def parts Let_def using pt by simp
qed

theorem media_type_roundtrip_witness:
  "parseMediaType False (lit ''text/html;charset=utf-8;title=\"a;b\"'') =
     Some \<lparr>mtType = lit ''text'', mtSubtype = lit ''html'',
       mtParameters = [(lit ''charset'', lit ''utf-8''), (lit ''title'', lit ''a;b'')]\<rparr>"
proof -
  have trims: "jsTrim (lit ''Text'') = lit ''Text''" "jsTrim (lit ''HTML'') = lit ''HTML''"
    "jsTrim (lit ''charset'') = lit ''charset''" "jsTrim (lit ''title'') = lit ''title''"
    by (simp_all add: jsTrim_id isJsSpace_def)
  have quoted: "quoteString [97, 59, 98] = Inr [34, 97, 59, 98, 34]" by (simp add: quote_text isCtl_def)
  have "formatMediaType (lit ''Text'') (lit ''HTML'') [(lit ''charset'', lit ''utf-8''), (lit ''title'', lit ''a;b'')] =
      Inr (lit ''text/html;charset=utf-8;title=\"a;b\"'')"
    unfolding formatMediaType_def Let_def trims mapR.simps formatMediaParameter_def fst_conv snd_conv
    by (simp add: toLower_def lowerUnit_def TOKEN_CHARS_def TOKEN_CHAR_def quoteIfNeeded_def assertNoCtl_def isCtl_def quoted)
  from media_type_roundtrip[OF this] show ?thesis unfolding trims list.map prod.case
    by (simp add: trims[unfolded lit_simps] toLower_def lowerUnit_def)
qed

end
