(* ===== verification/CacheControlLaws.thy ===== *)
theory CacheControlLaws
  imports CacheControl HeaderUtilsLaws StructuredFieldsLaws
begin

text \<open>
  What the cache control modules promise: the directives \<open>cacheControl\<close> writes are read back, normalized;
  numbers of seconds are clamped; targeted fields round trip through structured fields, and the first valid
  one of the target list is selected.
\<close>

section \<open>Numbers of seconds\<close>

lemma maxString: "numToString (Fin 2147483648) = showNat 2147483648"
  using numToString_int[of 2147483648] by (simp add: intText_def)

lemma delta_digits:
  assumes "list_all isDigit s" "s \<noteq> []" "parseDec s < 2 ^ 53"
  shows "parseDeltaSeconds deltaOptions (Some s) =
    Some (if 10 < length s then MAX_DELTA_SECONDS else Fin (of_nat (min (parseDec s) 2147483648)))"
proof -
  let ?n = "parseDec s"
  have len: "length (showNat 2147483648) = 10" by (simp add: showNat.simps)
  have num: "roundDouble (int ?n) 1 = Fin (of_int (int ?n))"
    using assms(3) of_nat_less_iff[where 'a = int, of ?n "2 ^ 53"] by (intro roundDouble_int) simp
  have max: "\<not> 10 < length s \<Longrightarrow> length s = length (showNat 2147483648) \<Longrightarrow> showNat 2147483648 < s \<longleftrightarrow> 2147483648 < ?n"
    using digits_lex[of "showNat 2147483648" s 0] assms(1) showNat_digits[of _ 2147483648] parseDec_showNat[of 2147483648]
    by (simp add: parseDec_def list_all_iff)
  have safe: "isFiniteNum (Fin (of_int (int ?n)))" "isIntegerNum (Fin (of_int (int ?n)))" "isSafeInteger (Fin (of_int (int ?n)))"
    "\<not> Fin (of_int (int ?n)) < Fin 0" "Fin 2147483648 < Fin (of_int (int ?n)) \<longleftrightarrow> 2147483648 < ?n"
    using assms(3) of_nat_less_iff[where 'a = int, of ?n "2 ^ 53"] of_nat_less_iff[where 'a = rat, of 2147483648 ?n]
    by (simp_all add: isSafeInteger_def del: of_int_of_nat_eq)
  have m: "MAX_DELTA_SECONDS = Fin 2147483648" by (rule MAX_DELTA_SECONDS_def)
  have opts: "clampMode deltaOptions" "maxValue deltaOptions = Some MAX_DELTA_SECONDS" "requireSafeInteger deltaOptions"
    by (simp_all add: deltaOptions_def)
  have c: "(if clampMode deltaOptions then maxValue deltaOptions else None) = Some (Fin 2147483648)" by (simp add: opts m)
  show ?thesis
    unfolding parseDeltaSeconds_def parseUnsignedInteger_def option.case digits_trim[OF assms(1)] Let_def c num m maxString
    using assms(1,2) max opts(1,3) safe by (auto simp: len min_def)
qed

lemma delta_showNat:
  assumes "n < 10 ^ 15"
  shows "parseDeltaSeconds deltaOptions (Some (showNat n)) = Some (Fin (of_nat (min n 2147483648)))"
proof -
  have "list_all isDigit (showNat n)" using showNat_digits by (auto simp: list_all_iff)
  moreover have "2147483648 < n" if "10 < length (showNat n)"
  proof -
    have "0 < n" using that by (cases n) auto
    then have "10 ^ (length (showNat n) - 1) \<le> n" using showNat_ge by blast
    moreover have "(10::nat) ^ 10 \<le> 10 ^ (length (showNat n) - 1)" by (rule power_increasing) (use that in auto)
    ultimately show ?thesis by simp
  qed
  ultimately show ?thesis using delta_digits[of "showNat n"] assms by (auto simp: MAX_DELTA_SECONDS_def min_def)
qed

section \<open>Directives\<close>

lemma segment_plain: "TOKEN_CHARS k \<Longrightarrow> parseKeyValueSegment k = Some \<lparr>segKey = k, segValue = None, hasEquals = False\<rparr>"
  using token_plain[of k] token_trim[of k] indexOfUnit_none[of 61 k]
  by (simp add: parseKeyValueSegment_def parseParameterizedSegment_def)

lemma segment_value:
  assumes "TOKEN_CHARS k" "t \<noteq> []" "jsTrim t = t" "\<not> isJsSpace (last t)"
  shows "parseKeyValueSegment (k @ [61] @ t) = Some \<lparr>segKey = k, segValue = Some t, hasEquals = True\<rparr>"
    "jsTrim (k @ [61] @ t) = k @ [61] @ t"
proof -
  note k = token_plain[OF assms(1)] token_ends[OF assms(1)] token_trim[OF assms(1)]
  show trim: "jsTrim (k @ [61] @ t) = k @ [61] @ t" by (rule jsTrim_id) (use k assms in simp)
  have "indexOfUnit (cu CHR ''='') (k @ [61] @ t) = Some (length k)" using indexOfUnit_first[of 61 k t] k by simp
  then show "parseKeyValueSegment (k @ [61] @ t) = Some \<lparr>segKey = k, segValue = Some t, hasEquals = True\<rparr>"
    using k assms(3) unfolding parseKeyValueSegment_def parseParameterizedSegment_def trim by simp
qed

lemma joinWith_space: "joinWith (lit '', '') (w # ws) = joinWith [44] (w # map (Cons 32) ws)"
  by (induction ws arbitrary: w) (auto simp: joinWith_head)

lemma jsTrim_space: "jsTrim (32 # s) = jsTrim s"
  by (simp add: jsTrim_def isJsSpace_def)

lemma neutral_space: "neutral 44 w \<Longrightarrow> neutral 44 (32 # w)"
  using neutral_append[OF neutral_plain[of 44 "[32]"]] by simp

lemma split_list:
  assumes "\<forall>w\<in>set ws. neutral 44 w \<and> jsTrim w = w \<and> w \<noteq> []"
  shows "filter (\<lambda>d. d \<noteq> []) (map jsTrim (splitQuotedValue (joinWith (lit '', '') ws) 44)) = ws"
proof (cases ws)
  case Nil
  then show ?thesis by (simp add: splitQuotedValue_def jsTrim_def)
next
  case (Cons w ws')
  have "splitQuotedValue (joinWith [44] (w # map (Cons 32) ws')) 44 = w # map (Cons 32) ws'"
    by (rule split_neutral) (use assms Cons neutral_space in auto)
  moreover have "map jsTrim (w # map (Cons 32) ws') = w # ws'" using assms Cons by (simp add: jsTrim_space map_idI)
  moreover have "filter (\<lambda>d. d \<noteq> []) (w # ws') = w # ws'" using assms Cons by (auto simp: filter_id_conv)
  ultimately show ?thesis by (simp only: Cons joinWith_space)
qed

lemma escapeText_plain: "92 \<notin> set v \<Longrightarrow> 34 \<notin> set v \<Longrightarrow> escapeText v = v"
  by (induction v) auto

lemma token_no_backslash: "TOKEN_CHARS s \<Longrightarrow> 92 \<notin> set s"
  by (auto simp: TOKEN_CHARS_def TOKEN_CHAR_def list_all_iff)

lemma joined_names: "\<forall>f\<in>set fs. TOKEN_CHARS f \<Longrightarrow> 92 \<notin> set (joinWith (lit '', '') fs) \<and> 34 \<notin> set (joinWith (lit '', '') fs)"
  by (induction "lit '', ''" fs rule: joinWith.induct) (auto dest: token_no_backslash token_plain)

lemma parse_names: "\<forall>f\<in>set fs. TOKEN_CHARS f \<Longrightarrow> parseFieldNameList (joinWith (lit '', '') fs) = map toLower fs"
  using split_list[of fs] token_neutral(2) token_trim token_plain by (simp add: parseFieldNameList_def)

text \<open>Options whose field names are tokens and whose numbers are not too large to be written in digits.\<close>

definition cleanOptions :: "cacheOptions \<Rightarrow> bool" where
  "cleanOptions o' \<longleftrightarrow>
     (\<forall>l fs. fieldLists o' l = Some fs \<longrightarrow> (\<forall>f\<in>set fs. TOKEN_CHARS f)) \<and>
     (\<forall>p v. deltas o' p = Some v \<longrightarrow> (\<exists>q. v = Fin q \<and> q < 10 ^ 15))"

text \<open>The number of seconds that is read back.\<close>

definition clampedDelta :: "jsnum \<Rightarrow> jsnum" where
  "clampedDelta v = (case v of Fin q \<Rightarrow> Fin (of_int (min \<lfloor>q\<rfloor> 2147483648)) | _ \<Rightarrow> v)"

definition applyDirective :: "cacheOptions \<Rightarrow> directiveKind \<Rightarrow> cacheOptions \<Rightarrow> cacheOptions" where
  "applyDirective o' k acc =
     (case k of
        FlagDirective p \<Rightarrow> setFlag p acc
      | FieldListDirective p l \<Rightarrow>
          (if hasFields o' l then (setFlag p acc)\<lparr>fieldLists := (fieldLists acc)(l := map_option (map toLower) (fieldLists o' l))\<rparr>
           else setFlag p acc)
      | DeltaDirective p \<Rightarrow> acc\<lparr>deltas := (deltas acc)(p := map_option clampedDelta (deltas o' p))\<rparr>)"

lemma table_keys:
  assumes "D \<in> set CACHE_DIRECTIVE_DESCRIPTORS"
  shows "TOKEN_CHARS (wireKey D)" "toLower (wireKey D) = wireKey D" "DESCRIPTOR_BY_WIRE_KEY (wireKey D) = Some D"
    "allowInClassic D" "allowInTargeted D"
proof -
  have "list_all (\<lambda>D. TOKEN_CHARS (wireKey D) \<and> toLower (wireKey D) = wireKey D \<and>
      DESCRIPTOR_BY_WIRE_KEY (wireKey D) = Some D \<and> allowInClassic D \<and> allowInTargeted D) CACHE_DIRECTIVE_DESCRIPTORS"
    by code_simp
  with assms show "TOKEN_CHARS (wireKey D)" "toLower (wireKey D) = wireKey D" "DESCRIPTOR_BY_WIRE_KEY (wireKey D) = Some D"
    "allowInClassic D" "allowInTargeted D" by (simp_all add: list_all_iff)
qed

lemma flag_text:
  assumes "D \<in> set CACHE_DIRECTIVE_DESCRIPTORS"
  shows "neutral 44 (wireKey D)" "jsTrim (wireKey D) = wireKey D" "wireKey D \<noteq> []"
    "kind D = FlagDirective p \<Longrightarrow> parseDirective acc (wireKey D) = setFlag p acc"
    "kind D = FieldListDirective p l \<Longrightarrow> parseDirective acc (wireKey D) = setFlag p acc"
  using table_keys[OF assms] token_plain[of "wireKey D"] token_neutral(2)[of "wireKey D"] token_trim[of "wireKey D"]
    segment_plain[of "wireKey D"]
  by (simp_all add: parseDirective_def Let_def)

lemma value_text':
  assumes "D \<in> set CACHE_DIRECTIVE_DESCRIPTORS" "neutral 44 t" "t \<noteq> []" "jsTrim t = t" "\<not> isJsSpace (last t)"
  shows "neutral 44 (wireKey D @ [61] @ t)" "jsTrim (wireKey D @ [61] @ t) = wireKey D @ [61] @ t"
    "parseDirective acc (wireKey D @ [61] @ t) =
      (case kind D of
         FlagDirective p \<Rightarrow> setFlag p acc
       | FieldListDirective p l \<Rightarrow>
           (let fields = parseFieldNameList (unquote t)
            in if unquote t \<noteq> [] \<and> fields \<noteq> [] then (setFlag p acc)\<lparr>fieldLists := (fieldLists (setFlag p acc))(l := Some fields)\<rparr>
               else setFlag p acc)
       | DeltaDirective p \<Rightarrow>
           (case parseDeltaSeconds deltaOptions (Some (unquote t)) of
              Some v \<Rightarrow> acc\<lparr>deltas := (deltas acc)(p := Some v)\<rparr> | None \<Rightarrow> acc))"
proof -
  note k = table_keys[OF assms(1)]
  show "neutral 44 (wireKey D @ [61] @ t)"
    by (intro neutral_append token_neutral(2) k(1) assms(2) neutral_plain) simp_all
  note s = segment_value[OF k(1) assms(3-5)]
  show "jsTrim (wireKey D @ [61] @ t) = wireKey D @ [61] @ t" by (rule s(2))
  show "parseDirective acc (wireKey D @ [61] @ t) =
      (case kind D of
         FlagDirective p \<Rightarrow> setFlag p acc
       | FieldListDirective p l \<Rightarrow>
           (let fields = parseFieldNameList (unquote t)
            in if unquote t \<noteq> [] \<and> fields \<noteq> [] then (setFlag p acc)\<lparr>fieldLists := (fieldLists (setFlag p acc))(l := Some fields)\<rparr>
               else setFlag p acc)
       | DeltaDirective p \<Rightarrow>
           (case parseDeltaSeconds deltaOptions (Some (unquote t)) of
              Some v \<Rightarrow> acc\<lparr>deltas := (deltas acc)(p := Some v)\<rparr> | None \<Rightarrow> acc))"
    unfolding parseDirective_def s(1) using token_trim[OF k(1)] k by (simp add: Let_def split: directiveKind.split)
qed

lemma directive_text:
  assumes "cleanOptions o'" "D \<in> set CACHE_DIRECTIVE_DESCRIPTORS" "t \<in> set (formatDirective o' D)"
  shows "neutral 44 t \<and> jsTrim t = t \<and> t \<noteq> [] \<and> parseDirective acc t = applyDirective o' (kind D) acc"
proof (cases "kind D")
  case (FlagDirective p)
  then have "t = wireKey D" using assms(3) table_keys[OF assms(2)] by (simp add: formatDirective_def split: if_splits)
  with FlagDirective show ?thesis using flag_text[OF assms(2)] by (simp add: applyDirective_def)
next
  case (FieldListDirective p l)
  show ?thesis
  proof (cases "hasFields o' l")
    case False
    then have "t = wireKey D" using assms(3) table_keys[OF assms(2)] FieldListDirective
      by (simp add: formatDirective_def split: if_splits)
    with FieldListDirective False show ?thesis using flag_text[OF assms(2)] by (simp add: applyDirective_def)
  next
    case True
    then obtain fs where fs: "fieldLists o' l = Some fs" "fs \<noteq> []" by (auto simp: hasFields_def split: option.splits)
    let ?v = "joinWith (lit '', '') fs"
    let ?q = "[34] @ ?v @ [34]"
    have tok: "\<forall>f\<in>set fs. TOKEN_CHARS f" using assms(1) fs(1) by (auto simp: cleanOptions_def)
    have t: "t = wireKey D @ [61] @ ?q"
      using assms(3) table_keys[OF assms(2)] FieldListDirective True fs by (simp add: formatDirective_def)
    have esc: "escapeText ?v = ?v" using joined_names[OF tok] escapeText_plain by blast
    have n: "neutral 44 ?q" using neutral_quoted[of 44 ?v] esc by simp
    have u: "unquote ?q = ?v" using lenient_quoted[of ?v] esc by simp
    have ne: "?v \<noteq> []" using fs(2) tok token_plain by (cases fs; cases "tl fs") auto
    have "jsTrim ?q = ?q" "?q \<noteq> []" "\<not> isJsSpace (last ?q)" using quoted_trim[of ?v] by (simp_all add: isJsSpace_def)
    with value_text'[OF assms(2) n] FieldListDirective True fs parse_names[OF tok] u ne show ?thesis
      unfolding t by (simp add: applyDirective_def setFlag_def)
  qed
next
  case (DeltaDirective p)
  then obtain v where v: "deltas o' p = Some v" "Fin 0 \<le> v" and t: "t = wireKey D @ [61] @ numToString (floorNum v)"
    using assms(3) table_keys[OF assms(2)] by (cases "deltas o' p") (auto simp: formatDirective_def split: if_splits)
  obtain q where q: "v = Fin q" "q < 10 ^ 15" using assms(1) v(1) unfolding cleanOptions_def by blast
  have "0 \<le> q" using v(2) q(1) by (auto simp: less_eq_jsnum_def)
  then have f: "0 \<le> \<lfloor>q\<rfloor>" "\<lfloor>q\<rfloor> < 10 ^ 15" using q(2) by (simp_all add: floor_less_iff)
  then have text': "numToString (floorNum v) = showNat (nat \<lfloor>q\<rfloor>)"
    using numToString_int[of "\<lfloor>q\<rfloor>"] by (simp add: q(1) floorNum_def intText_def)
  let ?s = "showNat (nat \<lfloor>q\<rfloor>)"
  have digits: "list_all isDigit ?s" using showNat_digits by (auto simp: list_all_iff)
  have n: "neutral 44 ?s" using digits by (intro neutral_plain) (auto simp: list_all_iff isDigit_def)
  have "?s \<noteq> []" "jsTrim ?s = ?s" "\<not> isJsSpace (last ?s)"
    using digits_trim[OF digits] showNat_digits[OF last_in_set[OF showNat_nonempty]] digit_not_space by simp_all
  note vt = value_text'[OF assms(2) n this]
  have u: "unquote ?s = ?s"
  proof -
    have "\<not> startsWith ?s [34]" using digits by (cases ?s) (auto simp: startsWith_def isDigit_def)
    then show ?thesis using digits_trim[OF digits] by (simp add: unquote_def unquoteLenient_def isQuoted_def)
  qed
  have "parseDeltaSeconds deltaOptions (Some ?s) = Some (clampedDelta v)"
  proof -
    obtain k where k: "\<lfloor>q\<rfloor> = int k" using f(1) by (rule nonneg_int_cases)
    then have "k < 10 ^ 15" using f(2) by simp
    then show ?thesis using delta_showNat[of k] unfolding q(1) clampedDelta_def jsnum.case k nat_int by (auto simp: min_def)
  qed
  with vt DeltaDirective u v(1) show ?thesis unfolding t text' by (simp add: applyDirective_def)
qed

section \<open>All directives\<close>

definition normalizedOptions :: "cacheOptions \<Rightarrow> cacheOptions" where
  "normalizedOptions o' =
     \<lparr>flags = (\<lambda>p. case p of
          Public \<Rightarrow> flags o' Public \<and> \<not> (flags o' Private \<or> hasFields o' PrivateFields)
        | Private \<Rightarrow> flags o' Private \<or> hasFields o' PrivateFields
        | NoCache \<Rightarrow> flags o' NoCache \<or> hasFields o' NoCacheFields
        | _ \<Rightarrow> flags o' p),
      fieldLists = (\<lambda>l. if hasFields o' l then map_option (map toLower) (fieldLists o' l) else None),
      deltas = (\<lambda>p. case deltas o' p of
          Some v \<Rightarrow> if Fin 0 \<le> v then Some (clampedDelta v) else None
        | None \<Rightarrow> None)\<rparr>"

lemma foldl_directives:
  assumes "cleanOptions o'" "set Ds \<subseteq> set CACHE_DIRECTIVE_DESCRIPTORS"
  shows "foldl parseDirective acc (concat (map (formatDirective o') Ds)) =
    foldl (\<lambda>acc D. if formatDirective o' D = [] then acc else applyDirective o' (kind D) acc) acc Ds"
  using assms(2)
proof (induction Ds arbitrary: acc)
  case (Cons D Ds)
  have "formatDirective o' D = [] \<or> (\<exists>t. formatDirective o' D = [t])"
    by (auto simp: formatDirective_def split: directiveKind.split option.split)
  with Cons directive_text[OF assms(1), of D] show ?case by fastforce
qed simp

abbreviation applied :: "cacheOptions \<Rightarrow> cacheOptions \<Rightarrow> directiveDescriptor list \<Rightarrow> cacheOptions" where
  "applied o' \<equiv> foldl (\<lambda>acc D. if formatDirective o' D = [] then acc else applyDirective o' (kind D) acc)"

lemma applied_flags:
  "flags (applied o' acc Ds) p \<longleftrightarrow> flags acc p \<or>
     (\<exists>D\<in>set Ds. formatDirective o' D \<noteq> [] \<and> (kind D = FlagDirective p \<or> (\<exists>l. kind D = FieldListDirective p l)))"
  by (induction Ds arbitrary: acc) (auto simp: applyDirective_def setFlag_def split: directiveKind.splits if_splits)

lemma applied_lists:
  "fieldLists (applied o' acc Ds) l =
     (if \<exists>D\<in>set Ds. formatDirective o' D \<noteq> [] \<and> hasFields o' l \<and> (\<exists>p. kind D = FieldListDirective p l)
      then map_option (map toLower) (fieldLists o' l) else fieldLists acc l)"
  by (induction Ds arbitrary: acc) (auto simp: applyDirective_def setFlag_def split: directiveKind.splits if_splits)

lemma applied_deltas:
  "deltas (applied o' acc Ds) p =
     (if \<exists>D\<in>set Ds. formatDirective o' D \<noteq> [] \<and> kind D = DeltaDirective p
      then map_option clampedDelta (deltas o' p) else deltas acc p)"
  by (induction Ds arbitrary: acc) (auto simp: applyDirective_def setFlag_def split: directiveKind.splits if_splits)

lemma table_set:
  "set CACHE_DIRECTIVE_DESCRIPTORS = (\<lambda>(k, d). \<lparr>wireKey = lit k, kind = d, allowInClassic = True, allowInTargeted = True\<rparr>) `
     {(''public'', FlagDirective Public), (''private'', FieldListDirective Private PrivateFields),
      (''no-cache'', FieldListDirective NoCache NoCacheFields), (''no-store'', FlagDirective NoStore),
      (''max-age'', DeltaDirective MaxAge), (''s-maxage'', DeltaDirective SMaxAge),
      (''must-revalidate'', FlagDirective MustRevalidate), (''proxy-revalidate'', FlagDirective ProxyRevalidate),
      (''immutable'', FlagDirective Immutable), (''stale-while-revalidate'', DeltaDirective StaleWhileRevalidate),
      (''stale-if-error'', DeltaDirective StaleIfError)}"
  by (simp only: CACHE_DIRECTIVE_DESCRIPTORS_def set_map list.set)

lemma applied_all: "applied o' noOptions CACHE_DIRECTIVE_DESCRIPTORS = normalizedOptions o'"
proof (rule cacheOptions.equality)
  show "flags (applied o' noOptions CACHE_DIRECTIVE_DESCRIPTORS) = flags (normalizedOptions o')"
    by (rule ext, rename_tac p, case_tac p)
      (simp_all only: applied_flags, simp_all add: table_set formatDirective_def noOptions_def normalizedOptions_def)
  show "fieldLists (applied o' noOptions CACHE_DIRECTIVE_DESCRIPTORS) = fieldLists (normalizedOptions o')"
    by (rule ext, rename_tac l, case_tac l)
      (simp_all only: applied_lists, simp_all add: table_set formatDirective_def noOptions_def normalizedOptions_def)
  show "deltas (applied o' noOptions CACHE_DIRECTIVE_DESCRIPTORS) = deltas (normalizedOptions o')"
    by (rule ext, rename_tac p, case_tac p)
      (simp_all only: applied_deltas, simp_all add: table_set formatDirective_def noOptions_def normalizedOptions_def split: option.split)
qed simp



text \<open>Leading zeros make a number of seconds the largest one.\<close>

lemma leading_zeros_clamped:
  assumes "n < 10 ^ 15"
  shows "parseDeltaSeconds deltaOptions (Some (replicate 10 48 @ showNat n)) = Some MAX_DELTA_SECONDS"
proof -
  let ?s = "replicate 10 48 @ showNat n"
  have p: "parseDec ?s = n" using parseDec_showNat[of n] by (simp only: parseDec_def readDigits_zeros)
  have d: "list_all isDigit ?s" using showNat_digits[of _ n] by (auto simp: list_all_iff isDigit_def)
  have "showNat n \<noteq> []" by simp
  then have "10 < length ?s" by simp
  with delta_digits[OF d] p assms show ?thesis by simp
qed

section \<open>Targeted fields\<close>

definition endsVisible :: "jsstr \<Rightarrow> bool" where
  "endsVisible t \<longleftrightarrow> t \<noteq> [] \<and> \<not> isJsSpace (hd t) \<and> \<not> isJsSpace (last t)"

lemma endsVisible_trim: "endsVisible t \<Longrightarrow> jsTrim t = t"
  by (rule jsTrim_id) (simp add: endsVisible_def)

lemma endsVisible_append: "endsVisible a \<Longrightarrow> b = [] \<or> \<not> isJsSpace (last b) \<Longrightarrow> endsVisible (a @ b)"
  by (auto simp: endsVisible_def last_append)

lemma endsVisible_join: "ts \<noteq> [] \<Longrightarrow> \<forall>t\<in>set ts. endsVisible t \<Longrightarrow> endsVisible (joinWith (lit '', '') ts)"
proof (induction ts rule: induct_list012)
  case (3 t u ts)
  then have "endsVisible (joinWith (lit '', '') (u # ts))" "endsVisible t" by auto
  then have "endsVisible (t @ lit '', '' @ joinWith (lit '', '') (u # ts))" by (auto simp: endsVisible_def)
  then show ?case by simp
qed auto

lemma params_last: "paramsOk p \<Longrightarrow> serializeParams p = Inr w \<Longrightarrow> w = [] \<or> \<not> isJsSpace (last w)"
  using paramList_last by (auto simp: paramsAll_def serializeParams_def split: option.splits)

lemma key_visible: "sfKeyText k \<Longrightarrow> endsVisible k"
proof -
  assume "sfKeyText k"
  then have "k \<noteq> []" "\<forall>c\<in>set k. \<not> isJsSpace c"
    by (auto simp: sfKeyText_def isKeyStart_def isKeyChar_def isJsSpace_def list_all_iff split: list.splits)
  then show ?thesis by (simp add: endsVisible_def)
qed

lemma item_last: "itemOk item \<Longrightarrow> serializeItem item = Inr t \<Longrightarrow> t \<noteq> [] \<and> \<not> isJsSpace (last t)"
proof -
  assume a: "itemOk item" "serializeItem item = Inr t"
  then obtain u w where u: "serializeBareItem (itemValue item) = Inr u" "serializeParams (itemParams item) = Inr w" "t = u @ w"
    by (auto simp: serializeItem_def err_simps)
  have "u \<noteq> [] \<and> \<not> isJsSpace (last u)" by (rule bare_last[OF _ u(1)]) (use a in \<open>simp add: itemAll_def\<close>)
  moreover have "w = [] \<or> \<not> isJsSpace (last w)" by (rule params_last[OF _ u(2)]) (use a in \<open>simp add: itemAll_def\<close>)
  ultimately show ?thesis by (auto simp: u(3) last_append)
qed

lemma inner_last: "innerAll bareOk l \<Longrightarrow> serializeInnerList l = Inr t \<Longrightarrow> t \<noteq> [] \<and> \<not> isJsSpace (last t)"
proof -
  assume a: "innerAll bareOk l" "serializeInnerList l = Inr t"
  then obtain u w where "serializeParams (innerParams l) = Inr w" "t = (u @ lit '')'') @ w"
    by (auto simp: serializeInnerList_def err_simps)
  moreover have "w = [] \<or> \<not> isJsSpace (last w)" by (rule params_last[OF _ calculation(1)]) (use a in \<open>simp add: innerAll_def\<close>)
  ultimately show ?thesis by (auto simp: last_append isJsSpace_def)
qed

lemma dictMember_visible:
  assumes "sfKeyText k" "memberOk m" "serializeDictMember (k, m) = Inr t"
  shows "endsVisible t"
proof (cases m)
  case (ItemMember item)
  have ok: "itemOk item" using assms(2) by (simp add: ItemMember memberAll_def)
  show ?thesis
  proof (cases "itemValue item = SfBoolean True")
    case True
    then obtain w where w: "serializeParams (itemParams item) = Inr w" "t = k @ w"
      using assms(1,3) by (auto simp: ItemMember serializeDictMember_def err_simps)
    have "w = [] \<or> \<not> isJsSpace (last w)" by (rule params_last[OF _ w(1)]) (use ok in \<open>simp add: itemAll_def\<close>)
    then show ?thesis unfolding w(2) by (rule endsVisible_append[OF key_visible[OF assms(1)]])
  next
    case False
    then obtain u where "serializeItem item = Inr u" "t = k @ (61 # u)"
      using assms(1,3) by (auto simp: ItemMember serializeDictMember_def err_simps)
    with item_last[OF ok] show ?thesis using endsVisible_append[OF key_visible[OF assms(1)]] by simp
  qed
next
  case (ListMember l)
  then obtain u where "serializeInnerList l = Inr u" "t = k @ (61 # u)"
    using assms(1,3) by (auto simp: serializeDictMember_def err_simps)
  with inner_last[of l u] assms(2) show ?thesis
    using endsVisible_append[OF key_visible[OF assms(1)]] by (simp add: ListMember memberAll_def)
qed

lemma dict_visible:
  assumes "dictOk dict" "dict \<noteq> []" "serializeSfDict dict = Inr t"
  shows "endsVisible t"
proof -
  obtain ts where ts: "mapR serializeDictMember dict = Inr ts" "t = joinWith (lit '', '') ts"
    using assms(3) by (auto simp: serializeSfDict_def err_simps)
  have "ts \<noteq> []" using mapR_length[OF ts(1)] assms(2) by auto
  moreover have "\<forall>t\<in>set ts. endsVisible t"
  proof
    fix u assume "u \<in> set ts"
    then obtain i where "i < length ts" "u = ts ! i" by (auto simp: in_set_conv_nth)
    then have "dict ! i \<in> set dict" "serializeDictMember (dict ! i) = Inr u"
      using ts(1) unfolding mapR_eq_Inr by (simp_all add: list_all2_conv_all_nth)
    then obtain kv where "kv \<in> set dict" "serializeDictMember kv = Inr u" by blast
    with assms(1) show "endsVisible u" by (cases kv) (auto simp: dictAll_def list_all_iff intro: dictMember_visible)
  qed
  ultimately show ?thesis unfolding ts(2) by (rule endsVisible_join)
qed

text \<open>Targeted options the field carries: seconds of at most fifteen digits, extensions that are no known
  directive and that a structured field dictionary carries.\<close>

definition carriedTargeted :: "targetedCacheControl \<Rightarrow> bool" where
  "carriedTargeted t \<longleftrightarrow>
     (\<forall>p v. tDeltas t p = Some v \<longrightarrow> (\<exists>n. v = Fin (of_int n) \<and> 0 \<le> n \<and> n \<le> 999999999999999)) \<and>
     (\<forall>ext. tExtensions t = Some ext \<longrightarrow> ext \<noteq> [] \<and> dictOk ext \<and> (\<forall>k\<in>fst ` set ext. \<not> isKnownTargetedCacheDirective k)) \<and>
     \<not> isEmptyTargeted t"

definition targetedEntry :: "targetedCacheControl \<Rightarrow> directiveDescriptor \<Rightarrow> sfDictionary" where
  "targetedEntry t D =
     (case kind D of
        DeltaDirective p \<Rightarrow>
          (case tDeltas t p of None \<Rightarrow> [] | Some v \<Rightarrow> [(wireKey D, plainItem (SfNumber v))])
      | FlagDirective p \<Rightarrow> if tFlags t p then [(wireKey D, plainItem (SfBoolean True))] else []
      | FieldListDirective p l \<Rightarrow> if tFlags t p then [(wireKey D, plainItem (SfBoolean True))] else [])"

lemma table_wire: "distinct (map wireKey CACHE_DIRECTIVE_DESCRIPTORS)" "D \<in> set CACHE_DIRECTIVE_DESCRIPTORS \<Longrightarrow> sfKeyText (wireKey D)"
proof -
  show "distinct (map wireKey CACHE_DIRECTIVE_DESCRIPTORS)" by code_simp
  have "list_all (\<lambda>D. sfKeyText (wireKey D)) CACHE_DIRECTIVE_DESCRIPTORS" by code_simp
  then show "D \<in> set CACHE_DIRECTIVE_DESCRIPTORS \<Longrightarrow> sfKeyText (wireKey D)" by (simp add: list_all_iff)
qed

lemma appended:
  assumes "carriedTargeted t" "set Ds \<subseteq> set CACHE_DIRECTIVE_DESCRIPTORS" "distinct (map wireKey Ds)"
    "\<forall>D\<in>set Ds. wireKey D \<notin> fst ` set dict"
  shows "foldR (appendTargeted t) dict Ds = Inr (dict @ concat (map (targetedEntry t) Ds))"
  using assms(2-4)
proof (induction Ds arbitrary: dict)
  case (Cons D Ds)
  then have D: "sfKeyText (wireKey D)" "wireKey D \<notin> fst ` set dict" "allowInTargeted D" using table_wire(2) table_keys(5) by auto
  have "tDeltas t p = Some v \<Longrightarrow> isValidNonNegativeInteger v" for p v
    using assms(1) unfolding carriedTargeted_def isValidNonNegativeInteger_def by (force simp: less_eq_jsnum_def)
  with D have "appendTargeted t dict D = Inr (dict @ targetedEntry t D)"
    by (auto simp: appendTargeted_def targetedEntry_def objPut_new split: directiveKind.split option.split)
  moreover have "\<forall>E\<in>set Ds. wireKey E \<noteq> wireKey D" using Cons.prems(2) by simp (metis image_eqI)
  then have "\<forall>E\<in>set Ds. wireKey E \<notin> fst ` set (dict @ targetedEntry t D)"
    using Cons.prems(3) by (auto simp: targetedEntry_def split: directiveKind.splits option.splits if_splits)
  ultimately show ?case using Cons.IH[of "dict @ targetedEntry t D"] Cons.prems by simp
qed simp

lemma known_iff: "isKnownTargetedCacheDirective k \<longleftrightarrow> k \<in> wireKey ` set CACHE_DIRECTIVE_DESCRIPTORS"
  using table_keys(5) by (auto simp: isKnownTargetedCacheDirective_def TARGETED_DIRECTIVE_KEYS_def)

lemma unknown_key: "k \<notin> wireKey ` set CACHE_DIRECTIVE_DESCRIPTORS \<Longrightarrow> DESCRIPTOR_BY_WIRE_KEY k = None"
  by (auto simp: DESCRIPTOR_BY_WIRE_KEY_def map_of_eq_None_iff)

lemma extensions_put:
  assumes "\<forall>(k, m)\<in>set ext. sfKeyText k \<and> \<not> isKnownTargetedCacheDirective k" "distinct (map fst (dict @ ext))"
  shows "foldl (\<lambda>d (k, v). if isKnownTargetedCacheDirective k then d else objPut k v d) dict ext = dict @ ext"
  using assms
proof (induction ext arbitrary: dict)
  case (Cons kv ext)
  obtain k v where kv: "kv = (k, v)" by force
  have "objPut k v dict = dict @ [(k, v)]" using Cons.prems by (intro objPut_new) (auto simp: kv)
  then show ?case using Cons.IH[of "dict @ [kv]"] Cons.prems by (simp add: kv)
qed simp

text \<open>Reading the entries of the directives, then the extensions.\<close>

definition readEntry :: "targetedCacheControl \<Rightarrow> targetedCacheControl \<Rightarrow> directiveDescriptor \<Rightarrow> targetedCacheControl" where
  "readEntry t acc D =
     (case kind D of
        DeltaDirective p \<Rightarrow> (case tDeltas t p of None \<Rightarrow> acc | Some v \<Rightarrow> acc\<lparr>tDeltas := (tDeltas acc)(p := Some v)\<rparr>)
      | FlagDirective p \<Rightarrow> if tFlags t p then acc\<lparr>tFlags := (tFlags acc)(p := True)\<rparr> else acc
      | FieldListDirective p l \<Rightarrow> if tFlags t p then acc\<lparr>tFlags := (tFlags acc)(p := True)\<rparr> else acc)"

lemma read_entries:
  assumes "carriedTargeted t" "set Ds \<subseteq> set CACHE_DIRECTIVE_DESCRIPTORS"
  shows "parseTargetedLoop acc ext (concat (map (targetedEntry t) Ds) @ rest) = parseTargetedLoop (foldl (readEntry t) acc Ds) ext rest"
  using assms(2)
proof (induction Ds arbitrary: acc)
  case (Cons D Ds)
  then have D: "DESCRIPTOR_BY_WIRE_KEY (wireKey D) = Some D" "allowInTargeted D" using table_keys(3,5) by auto
  have "tDeltas t p = Some v \<Longrightarrow> isValidNonNegativeInteger v" for p v
    using assms(1) unfolding carriedTargeted_def isValidNonNegativeInteger_def by (force simp: less_eq_jsnum_def)
  with D have "parseTargetedLoop acc ext (targetedEntry t D @ rest') = parseTargetedLoop (readEntry t acc D) ext rest'" for rest'
    by (auto simp: targetedEntry_def readEntry_def plainItem_def parseTargetedMember_def split: directiveKind.split option.split)
  with Cons show ?case by simp
qed simp

lemma read_extensions:
  assumes "\<forall>(k, m)\<in>set es. sfKeyText k \<and> \<not> isKnownTargetedCacheDirective k" "distinct (map fst (ext @ es))"
  shows "parseTargetedLoop acc ext es = (acc, ext @ es)"
  using assms
proof (induction es arbitrary: ext)
  case (Cons kv es)
  obtain k m where kv: "kv = (k, m)" by force
  have "objPut k m ext = ext @ [(k, m)]" using Cons.prems by (intro objPut_new) (auto simp: kv)
  moreover have "DESCRIPTOR_BY_WIRE_KEY k = None" using Cons.prems known_iff unknown_key by (simp add: kv)
  ultimately show ?case using Cons.IH[of "ext @ [kv]"] Cons.prems by (simp add: kv)
qed simp

lemma read_flags: "tFlags (foldl (readEntry t) acc Ds) p \<longleftrightarrow> tFlags acc p \<or>
    (\<exists>D\<in>set Ds. tFlags t p \<and> (kind D = FlagDirective p \<or> (\<exists>l. kind D = FieldListDirective p l)))"
  by (induction Ds arbitrary: acc) (auto simp: readEntry_def split: directiveKind.splits option.splits if_splits)

lemma read_deltas: "tDeltas (foldl (readEntry t) acc Ds) p =
    (if tDeltas t p \<noteq> None \<and> (\<exists>D\<in>set Ds. kind D = DeltaDirective p) then tDeltas t p else tDeltas acc p)"
  by (induction Ds arbitrary: acc) (auto simp: readEntry_def split: directiveKind.splits option.splits if_splits)

lemma read_other: "tExtensions (foldl (readEntry t) acc Ds) = tExtensions acc"
  by (induction Ds arbitrary: acc) (auto simp: readEntry_def split: directiveKind.splits option.splits if_splits)

lemma read_all: "foldl (readEntry t) noTargeted CACHE_DIRECTIVE_DESCRIPTORS = t\<lparr>tExtensions := None\<rparr>"
proof (rule targetedCacheControl.equality)
  show "tFlags (foldl (readEntry t) noTargeted CACHE_DIRECTIVE_DESCRIPTORS) = tFlags (t\<lparr>tExtensions := None\<rparr>)"
    by (rule ext, rename_tac p, case_tac p) (simp_all only: read_flags, simp_all add: table_set noTargeted_def)
  show "tDeltas (foldl (readEntry t) noTargeted CACHE_DIRECTIVE_DESCRIPTORS) = tDeltas (t\<lparr>tExtensions := None\<rparr>)"
    by (rule ext, rename_tac p, case_tac p) (simp_all only: read_deltas, simp_all add: table_set noTargeted_def)
qed (simp_all add: read_other noTargeted_def)

lemma entries_ok:
  assumes "carriedTargeted t"
  shows "dictOk (concat (map (targetedEntry t) CACHE_DIRECTIVE_DESCRIPTORS))"
    and "fst ` set (concat (map (targetedEntry t) CACHE_DIRECTIVE_DESCRIPTORS)) \<subseteq> wireKey ` set CACHE_DIRECTIVE_DESCRIPTORS"
proof -
  have one: "targetedEntry t D = [] \<or> (\<exists>m. targetedEntry t D = [(wireKey D, m)])" for D
    by (auto simp: targetedEntry_def split: directiveKind.split option.split)
  have "distinct (map wireKey Ds) \<Longrightarrow> distinct (map fst (concat (map (targetedEntry t) Ds))) \<and>
      fst ` set (concat (map (targetedEntry t) Ds)) \<subseteq> wireKey ` set Ds" for Ds
  proof (induction Ds)
    case (Cons D Ds)
    then have IH: "distinct (map fst (concat (map (targetedEntry t) Ds)))"
      "fst ` set (concat (map (targetedEntry t) Ds)) \<subseteq> wireKey ` set Ds" "wireKey D \<notin> wireKey ` set Ds" by simp_all
    from one[of D] show ?case
    proof
      assume "targetedEntry t D = []"
      with IH show ?thesis by auto
    next
      assume "\<exists>m. targetedEntry t D = [(wireKey D, m)]"
      then obtain m where m: "concat (map (targetedEntry t) (D # Ds)) = (wireKey D, m) # concat (map (targetedEntry t) Ds)" by auto
      have "wireKey D \<notin> fst ` set (concat (map (targetedEntry t) Ds))" using IH(2,3) by blast
      with IH(1,2) show ?thesis unfolding m by auto
    qed
  qed simp
  note d = this[OF table_wire(1)]
  show "fst ` set (concat (map (targetedEntry t) CACHE_DIRECTIVE_DESCRIPTORS)) \<subseteq> wireKey ` set CACHE_DIRECTIVE_DESCRIPTORS"
    using d by blast
  have "bareOk (SfNumber v)" if "tDeltas t p = Some v" for p v
  proof -
    from that assms obtain n where n: "v = Fin (of_int n)" "0 \<le> n" "n \<le> 999999999999999"
      unfolding carriedTargeted_def by blast
    then show ?thesis using numberExact_int[of n] by simp
  qed
  then have "sfKeyText k \<and> memberOk m" if "(k, m) \<in> set (targetedEntry t D)" "D \<in> set CACHE_DIRECTIVE_DESCRIPTORS" for k m D
    using that table_wire(2)
    by (auto simp: targetedEntry_def plainItem_def memberAll_def itemAll_def paramsAll_def split: directiveKind.splits option.splits if_splits)
  then have "\<forall>km\<in>set (concat (map (targetedEntry t) CACHE_DIRECTIVE_DESCRIPTORS)). sfKeyText (fst km) \<and> memberOk (snd km)"
    by auto
  with d show "dictOk (concat (map (targetedEntry t) CACHE_DIRECTIVE_DESCRIPTORS))"
    unfolding dictAll_def list_all_iff case_prod_unfold by blast
qed

text \<open>A targeted cache control field, \<open>CDN-Cache-Control\<close> for one, is written as a
  structured field and read back the same: flags, seconds and extensions.\<close>

theorem targeted_roundtrip:
  assumes "carriedTargeted t"
  shows "\<exists>s. formatTargetedCacheControl t = Inr s \<and> parseTargetedCacheControl s = Some t"
proof -
  let ?es = "concat (map (targetedEntry t) CACHE_DIRECTIVE_DESCRIPTORS)"
  define ext where "ext = (case tExtensions t of None \<Rightarrow> [] | Some e \<Rightarrow> e)"
  let ?d = "?es @ ext"
  have ext: "\<forall>(k, m)\<in>set ext. sfKeyText k \<and> \<not> isKnownTargetedCacheDirective k" "dictOk ext" "ext = [] \<longleftrightarrow> tExtensions t = None"
    "tExtensions t = (if ext = [] then None else Some ext)"
  proof -
    consider "tExtensions t = None" "ext = []"
      | e where "tExtensions t = Some e" "ext = e" "e \<noteq> []" "dictOk e" "\<forall>k\<in>fst ` set e. \<not> isKnownTargetedCacheDirective k"
      using assms by (cases "tExtensions t") (simp_all add: carriedTargeted_def ext_def)
    note cases = this
    show "\<forall>(k, m)\<in>set ext. sfKeyText k \<and> \<not> isKnownTargetedCacheDirective k"
      by (cases rule: cases) (simp, simp only: dictAll_def list_all_iff case_prod_unfold, blast)
    show "dictOk ext" by (cases rule: cases) (simp add: dictAll_def, simp only:)
    show "ext = [] \<longleftrightarrow> tExtensions t = None" "tExtensions t = (if ext = [] then None else Some ext)"
      by (cases rule: cases; simp)+
  qed
  note es = entries_ok[OF assms]
  have "fst ` set ?es \<inter> fst ` set ext = {}"
  proof (intro equals0I)
    fix k assume k: "k \<in> fst ` set ?es \<inter> fst ` set ext"
    then have "k \<in> wireKey ` set CACHE_DIRECTIVE_DESCRIPTORS" using es(2) by blast
    then have "isKnownTargetedCacheDirective k" by (simp only: known_iff)
    moreover obtain m where "(k, m) \<in> set ext" using k by force
    ultimately show False using ext(1) by blast
  qed
  then have ok: "dictOk ?d" using es(1) ext(2) by (auto simp: dictAll_def)
  have dist: "distinct (map fst ?d)" "distinct (map fst ([] @ ext))" using ok ext(2) by (simp_all add: dictAll_def)
  have app: "appendTargetedCacheDirectives [] t = Inr ?es"
    using appended[OF assms order.refl table_wire(1), of "[]"] by (simp add: appendTargetedCacheDirectives_def)
  obtain s where s: "serializeSfDict ?d = Inr s" "parseSfDict s = Some ?d" using dictText[OF ok] by blast
  have "(case tExtensions t of None \<Rightarrow> ?es
      | Some e \<Rightarrow> foldl (\<lambda>d (k, v). if isKnownTargetedCacheDirective k then d else objPut k v d) ?es e) = ?d"
    using extensions_put[OF ext(1) dist(1)] by (cases "tExtensions t") (simp_all add: ext_def)
  then have format: "formatTargetedCacheControl t = Inr s"
    unfolding formatTargetedCacheControl_def app andThen_simps Let_def using s(1) by simp
  have loop: "parseTargetedLoop noTargeted [] ?d = (t\<lparr>tExtensions := None\<rparr>, ext)"
    using read_entries[OF assms order.refl] read_all read_extensions[OF ext(1) dist(2)] by simp
  have parsed: "parseTargetedCacheDirectives ?d = t"
    unfolding parseTargetedCacheDirectives_def loop using ext(4) by simp
  have "?d \<noteq> []"
  proof
    assume "?d = []"
    with parsed have "t = noTargeted" by (simp add: parseTargetedCacheDirectives_def)
    moreover have "isEmptyTargeted noTargeted" by (simp add: isEmptyTargeted_def noTargeted_def)
    ultimately show False using assms by (simp add: carriedTargeted_def)
  qed
  with dict_visible[OF ok _ s(1)] have "endsVisible s" by blast
  then have "normalizeOptionalHeaderValue (Some s) = Some s"
    using endsVisible_trim by (simp add: normalizeOptionalHeaderValue_def endsVisible_def)
  then have "parseTargetedCacheControl s = Some t"
    using s(2) parsed assms by (simp add: parseTargetedCacheControl_def carriedTargeted_def)
  with format show ?thesis by blast
qed

theorem targeted_roundtrip_witness:
  "\<exists>s. formatTargetedCacheControl (noTargeted\<lparr>tFlags := (\<lambda>p. p = NoStore)\<rparr>) = Inr s \<and>
     parseTargetedCacheControl s = Some (noTargeted\<lparr>tFlags := (\<lambda>p. p = NoStore)\<rparr>)"
  by (rule targeted_roundtrip) (simp add: carriedTargeted_def noTargeted_def isEmptyTargeted_def)

end
