(* ===== verification/JsonText.thy ===== *)
theory JsonText
  imports JsNumberText
begin

text \<open>
  \<open>JSON.stringify\<close> of the language on the trees of \<open>JsValue\<close>: strings are quoted with the short escapes, a
  control character or a lone surrogate as \<open>\u\<close> and four lower-case hexadecimal digits, members in
  enumeration order, no white space.
\<close>

definition hex4 :: "nat \<Rightarrow> jsstr" where
  "hex4 n = map hexChar [n div 4096 mod 16, n div 256 mod 16, n div 16 mod 16, n mod 16]"

definition unicodeEscape :: "cu \<Rightarrow> jsstr" where
  "unicodeEscape c = [92, cu CHR ''u''] @ hex4 c"

definition quoteUnit :: "cu \<Rightarrow> jsstr" where
  "quoteUnit c =
     (if c = 34 then [92, 34]
      else if c = 92 then [92, 92]
      else if c = 8 then [92, cu CHR ''b'']
      else if c = 12 then [92, cu CHR ''f'']
      else if c = 10 then [92, cu CHR ''n'']
      else if c = 13 then [92, cu CHR ''r'']
      else if c = 9 then [92, cu CHR ''t'']
      else if c < 32 then unicodeEscape c
      else [c])"

fun quoteUnits :: "jsstr \<Rightarrow> jsstr" where
  "quoteUnits [] = []"
| "quoteUnits (c # cs) =
     (if isHighSurrogate c then
        (case cs of
           [] \<Rightarrow> unicodeEscape c
         | d # ds \<Rightarrow> if isLowSurrogate d then c # d # quoteUnits ds else unicodeEscape c @ quoteUnits cs)
      else if isLowSurrogate c then unicodeEscape c @ quoteUnits cs
      else quoteUnit c @ quoteUnits cs)"

definition quoteJson :: "jsstr \<Rightarrow> jsstr" where
  "quoteJson s = [34] @ quoteUnits s @ [34]"

fun stringify :: "json \<Rightarrow> jsstr" where
  "stringify JNull = lit ''null''"
| "stringify (JBool b) = (if b then lit ''true'' else lit ''false'')"
| "stringify (JNum q) = numToString (Fin q)"
| "stringify (JStr s) = quoteJson s"
| "stringify (JArr js) = [91] @ joinWith [44] (map stringify js) @ [93]"
| "stringify (JObj ps) = [123] @ joinWith [44] (map (\<lambda>(k, j). quoteJson k @ [58] @ stringify j) ps) @ [125]"

end
