(* ===== verification/Negotiate.thy ===== *)
theory Negotiate
  imports HeaderUtils JsonText "HOL-Library.AList"
begin

text \<open>
  Content negotiation (RFC 9110 section 12): \<open>src/negotiate.ts\<close>, \<open>src/language.ts\<close> and
  \<open>src/encoding.ts\<close>. A \<open>Map\<close> is its list of entries in insertion order, set by \<open>AList.update\<close>. The
  module-level cache of parsed MIME types is a state that the negotiation threads.
\<close>

section \<open>Media ranges\<close>

datatype MediaType = JsonFormat | CsvFormat | HtmlFormat | TextFormat | XmlFormat

definition MEDIA_TYPES :: "(MediaType \<times> jsstr) list" where
  "MEDIA_TYPES =
     [(JsonFormat, lit ''application/json''), (CsvFormat, lit ''text/csv''), (HtmlFormat, lit ''text/html''),
      (TextFormat, lit ''text/plain''), (XmlFormat, lit ''application/xml'')]"

definition MIME_TO_FORMAT :: "(jsstr \<times> MediaType) list" where
  "MIME_TO_FORMAT = map (\<lambda>(format, mime). (mime, format)) MEDIA_TYPES"

record AcceptEntry =
  aeType :: jsstr
  aeSubtype :: jsstr
  aeQ :: jsnum
  aeParams :: "(jsstr \<times> jsstr) list"

record ParsedMimeType =
  pmType :: jsstr
  pmSubtype :: jsstr
  pmParams :: "(jsstr \<times> jsstr) list"

text \<open>The key and the value of one parameter segment, shared by both parameter loops.\<close>

definition parameterOf :: "jsstr \<Rightarrow> (jsstr \<times> jsstr) option" where
  "parameterOf part =
     (case parseKeyValueSegment part of
        None \<Rightarrow> None
      | Some param \<Rightarrow>
          if \<not> hasEquals param then None
          else
            let key = toLower (jsTrim (segKey param));
                rawValue = (case segValue param of None \<Rightarrow> [] | Some v \<Rightarrow> v);
                trimmedValue = jsTrim rawValue
            in Some (key, if 2 \<le> length trimmedValue \<and> hd trimmedValue = 34 then unquote trimmedValue
                          else trimmedValue))"

fun rangeParams :: "(jsstr \<times> jsstr) list \<Rightarrow> jsstr list \<Rightarrow> (jsstr \<times> jsstr) list" where
  "rangeParams params [] = params"
| "rangeParams params (part # parts) =
     (case parameterOf part of
        None \<Rightarrow> rangeParams params parts
      | Some (key, v) \<Rightarrow> rangeParams (AList.update key v params) parts)"

fun mimeParams :: "(jsstr \<times> jsstr) list \<Rightarrow> jsstr list \<Rightarrow> (jsstr \<times> jsstr) list" where
  "mimeParams params [] = params"
| "mimeParams params (part # parts) =
     (case parameterOf part of
        None \<Rightarrow> mimeParams params parts
      | Some (key, v) \<Rightarrow> mimeParams (if key \<noteq> [] then AList.update key v params else params) parts)"

definition parseMediaRange :: "jsstr \<Rightarrow> AcceptEntry option" where
  "parseMediaRange r =
     (let parts = splitQuotedValue r (cu CHR '';'')
      in case parseTypeAndSubtype True (Some (jsTrim (hd parts))) of
           None \<Rightarrow> None
         | Some (type, subtype) \<Rightarrow>
             let qParts = parseQSegments parts 1
             in if invalidQ qParts then None
                else
                  let paramsEnd = (case firstQIndex qParts of None \<Rightarrow> length parts | Some i \<Rightarrow> i)
                  in Some \<lparr>aeType = toLower type, aeSubtype = toLower subtype, aeQ = qOf qParts,
                       aeParams = rangeParams [] (drop 1 (take paramsEnd parts))\<rparr>)"

definition parseMimeTypeWithParams :: "jsstr \<Rightarrow> ParsedMimeType option" where
  "parseMimeTypeWithParams mimeType =
     (let parts = splitQuotedValue mimeType (cu CHR '';'')
      in case parseTypeAndSubtype True (Some (jsTrim (hd parts))) of
           None \<Rightarrow> None
         | Some (type, subtype) \<Rightarrow>
             Some \<lparr>pmType = type, pmSubtype = subtype, pmParams = mimeParams [] (drop 1 parts)\<rparr>)"

definition getSpecificity :: "AcceptEntry \<Rightarrow> nat" where
  "getSpecificity entry =
     (if aeType entry = lit ''*'' \<and> aeSubtype entry = lit ''*'' then 1
      else if aeSubtype entry = lit ''*'' then 2
      else if aeParams entry \<noteq> [] then 4 else 3)"

text \<open>The comparison of the sort: whether \<open>a\<close> goes strictly before \<open>b\<close>.\<close>

definition acceptBefore :: "AcceptEntry \<Rightarrow> AcceptEntry \<Rightarrow> bool" where
  "acceptBefore a b =
     (if aeQ a \<noteq> aeQ b then aeQ b < aeQ a
      else if getSpecificity a \<noteq> getSpecificity b then getSpecificity b < getSpecificity a
      else length (aeParams b) < length (aeParams a))"

definition parseAcceptEntries :: "jsstr \<Rightarrow> bool \<Rightarrow> AcceptEntry list" where
  "parseAcceptEntries header sortByPreference =
     (if isEmptyHeader (Some header) then []
      else
        let parts = filter (\<lambda>t. t \<noteq> []) (map jsTrim (splitQuotedValue header (cu CHR '','')));
            entries = List.map_filter parseMediaRange parts
        in if sortByPreference then stableSort acceptBefore entries else entries)"

definition parseAccept :: "jsstr \<Rightarrow> AcceptEntry list" where
  "parseAccept header = parseAcceptEntries header True"

section \<open>Matching\<close>

definition paramsMatch :: "(jsstr \<times> jsstr) list \<Rightarrow> (jsstr \<times> jsstr) list \<Rightarrow> bool" where
  "paramsMatch required candidate \<longleftrightarrow> list_all (\<lambda>(key, v). map_of candidate key = Some v) required"

definition matchesParsedMimeType :: "AcceptEntry \<Rightarrow> ParsedMimeType \<Rightarrow> nat" where
  "matchesParsedMimeType entry parsed =
     (if \<not> paramsMatch (aeParams entry) (pmParams parsed) then 0
      else if aeType entry = lit ''*'' \<and> aeSubtype entry = lit ''*'' then 1
      else if aeType entry = pmType parsed \<and> aeSubtype entry = lit ''*'' then 2
      else if aeType entry = pmType parsed \<and> aeSubtype entry = pmSubtype parsed then
        (if aeParams entry \<noteq> [] then 4 else 3)
      else 0)"

text \<open>\<open>PARSED_MIME_TYPE_CACHE\<close>: a hit returns what was stored, a miss parses and stores.\<close>

type_synonym mimeCache = "jsstr \<Rightarrow> ParsedMimeType option option"

definition getParsedMimeTypeCached :: "jsstr \<Rightarrow> mimeCache \<Rightarrow> ParsedMimeType option \<times> mimeCache" where
  "getParsedMimeTypeCached mimeType cache =
     (case cache mimeType of
        Some parsed \<Rightarrow> (parsed, cache)
      | None \<Rightarrow> let parsed = parseMimeTypeWithParams mimeType in (parsed, cache(mimeType \<mapsto> parsed)))"

definition matchesMimeType :: "AcceptEntry \<Rightarrow> jsstr \<Rightarrow> mimeCache \<Rightarrow> nat \<times> mimeCache" where
  "matchesMimeType entry mimeType cache =
     (let (parsed, cache') = getParsedMimeTypeCached mimeType cache
      in (case parsed of None \<Rightarrow> 0 | Some p \<Rightarrow> matchesParsedMimeType entry p, cache'))"

definition matchesMediaType :: "AcceptEntry \<Rightarrow> MediaType \<Rightarrow> mimeCache \<Rightarrow> nat \<times> mimeCache" where
  "matchesMediaType entry mediaType cache =
     matchesMimeType entry (the (map_of MEDIA_TYPES mediaType)) cache"

section \<open>Selection\<close>

text \<open>The inner loop: the precedence and the quality of one candidate, \<open>-1\<close> while nothing matched.\<close>

fun candidateLoop :: "ParsedMimeType \<Rightarrow> int \<Rightarrow> jsnum \<Rightarrow> AcceptEntry list \<Rightarrow> int \<times> jsnum" where
  "candidateLoop parsed spec q [] = (spec, q)"
| "candidateLoop parsed spec q (entry # entries) =
     (let specificity = int (matchesParsedMimeType entry parsed)
      in if specificity = 0 then candidateLoop parsed spec q entries
         else if spec < specificity \<or> (specificity = spec \<and> q < aeQ entry) then
           candidateLoop parsed specificity (aeQ entry) entries
         else candidateLoop parsed spec q entries)"

record bestSoFar =
  bestMatch :: "jsstr option"
  bestSpecificity :: int
  bestQ :: jsnum

fun supportedLoop :: "AcceptEntry list \<Rightarrow> bestSoFar \<Rightarrow> jsstr list \<Rightarrow> mimeCache \<Rightarrow> jsstr option \<times> mimeCache" where
  "supportedLoop entries best [] cache = (bestMatch best, cache)"
| "supportedLoop entries best (mimeType # supported) cache =
     (let (parsed, cache') = getParsedMimeTypeCached mimeType cache
      in case parsed of
           None \<Rightarrow> supportedLoop entries best supported cache'
         | Some p \<Rightarrow>
             let (spec, q) = candidateLoop p (- 1) (Fin 0) entries
             in if spec < 0 \<or> numEq q (Fin 0) then supportedLoop entries best supported cache'
                else if bestQ best < q \<or> (numEq q (bestQ best) \<and> bestSpecificity best < spec) then
                  supportedLoop entries \<lparr>bestMatch = Some mimeType, bestSpecificity = spec, bestQ = q\<rparr> supported cache'
                else supportedLoop entries best supported cache')"

definition negotiateWithEntries :: "AcceptEntry list \<Rightarrow> jsstr list \<Rightarrow> mimeCache \<Rightarrow> jsstr option \<times> mimeCache" where
  "negotiateWithEntries entries supported cache =
     supportedLoop entries \<lparr>bestMatch = None, bestSpecificity = 0, bestQ = Fin 0\<rparr> supported cache"

datatype acceptInput = AcceptRequest request | AcceptText jsstr | AcceptNothing

definition acceptHeaderOf :: "acceptInput \<Rightarrow> jsstr option" where
  "acceptHeaderOf input =
     (case input of
        AcceptRequest request \<Rightarrow> getHeaderValue (RequestInput request) (lit ''Accept'')
      | AcceptText s \<Rightarrow> Some s
      | AcceptNothing \<Rightarrow> None)"

definition firstOf :: "'a list \<Rightarrow> 'a option" where
  "firstOf xs = (case xs of [] \<Rightarrow> None | x # _ \<Rightarrow> Some x)"

definition negotiate :: "acceptInput \<Rightarrow> jsstr list \<Rightarrow> mimeCache \<Rightarrow> jsstr option \<times> mimeCache" where
  "negotiate input supported cache =
     (if supported = [] then (None, cache)
      else
        case acceptHeaderOf input of
          None \<Rightarrow> (firstOf supported, cache)
        | Some header \<Rightarrow>
            if header = [] \<or> jsTrim header = [] then (firstOf supported, cache)
            else
              let entries = parseAcceptEntries header False
              in if entries = [] then (firstOf supported, cache)
                 else negotiateWithEntries entries supported cache)"

definition getResponseFormat :: "acceptInput \<Rightarrow> mimeCache \<Rightarrow> MediaType option \<times> mimeCache" where
  "getResponseFormat input cache =
     (case acceptHeaderOf input of
        None \<Rightarrow> (Some JsonFormat, cache)
      | Some header \<Rightarrow>
          if header = [] then (Some JsonFormat, cache)
          else if jsTrim header = [] then (Some JsonFormat, cache)
          else
            let entries = parseAcceptEntries header False
            in if entries = [] then (Some JsonFormat, cache)
               else
                 let (best, cache') = negotiateWithEntries entries [lit ''application/json'', lit ''text/csv''] cache
                 in (case best of
                       None \<Rightarrow> None
                     | Some b \<Rightarrow> if b = lit ''text/csv'' then Some CsvFormat else Some JsonFormat, cache'))"

section \<open>Comma separated values\<close>

text \<open>A cell: \<open>undefined\<close>, a number that may be infinite or \<open>NaN\<close>, or a tree of plain values.\<close>

datatype cell = CellUndefined | CellNumber jsnum | CellJson json

fun cellText :: "cell \<Rightarrow> jsstr" where
  "cellText CellUndefined = []"
| "cellText (CellNumber x) = numToString x"
| "cellText (CellJson j) = (case j of JNull \<Rightarrow> [] | JStr s \<Rightarrow> s | _ \<Rightarrow> stringify j)"

definition escapeCSVText :: "jsstr \<Rightarrow> jsstr" where
  "escapeCSVText s = (if set s \<inter> {44, 34, 10, 13} \<noteq> {} then [34] @ replaceUnit 34 [34, 34] s @ [34] else s)"

definition escapeCSVValue :: "cell \<Rightarrow> jsstr" where
  "escapeCSVValue v = escapeCSVText (cellText v)"

definition toCSV :: "(jsstr \<times> cell) list list \<Rightarrow> jsstr" where
  "toCSV data =
     (if data = [] then []
      else
        let headers = map fst (hd data);
            headerRow = joinWith [44] (map (\<lambda>h. escapeCSVValue (CellJson (JStr h))) headers);
            dataRows = map (\<lambda>row. joinWith [44] (map (\<lambda>header. escapeCSVValue
                         (case map_of row header of None \<Rightarrow> CellUndefined | Some v \<Rightarrow> v)) headers)) data
        in joinWith [10] (headerRow # dataRows))"

section \<open>Languages\<close>

definition isAlphaUnit :: "cu \<Rightarrow> bool" where
  "isAlphaUnit c \<longleftrightarrow> (65 \<le> c \<and> c \<le> 90) \<or> (97 \<le> c \<and> c \<le> 122)"

definition BASIC_LANGUAGE_RANGE_REGEX :: "jsstr \<Rightarrow> bool" where
  "BASIC_LANGUAGE_RANGE_REGEX token =
     (let subtags = splitOn 45 token
      in list_all (\<lambda>t. 1 \<le> length t \<and> length t \<le> 8) subtags \<and> list_all isAlphaUnit (hd subtags) \<and>
         list_all (list_all (\<lambda>c. isAlphaUnit c \<or> isDigit c)) (tl subtags))"

definition normalizeLanguageRange :: "jsstr \<Rightarrow> jsstr" where
  "normalizeLanguageRange token =
     (if token = lit ''*'' then token else if \<not> BASIC_LANGUAGE_RANGE_REGEX token then [] else toLower token)"

definition languageSpecificity :: "jsstr \<Rightarrow> int" where
  "languageSpecificity tag = (if tag = lit ''*'' then 0 else 1 + int (length (filter (\<lambda>c. c = 45) tag)))"

record LanguageRange =
  lrTag :: jsstr
  lrQ :: jsnum

definition parseAcceptLanguage :: "jsstr \<Rightarrow> LanguageRange list" where
  "parseAcceptLanguage header =
     map (\<lambda>r. \<lparr>lrTag = wtToken r, lrQ = wtQ r\<rparr>)
       (parseWeightedTokenList
          \<lparr>tokenNormalizer = normalizeLanguageRange, startSegmentIndex = 1, sortOrder = QThenSpecificity,
           specificityOf = languageSpecificity\<rparr> header)"

definition basicMatch :: "jsstr \<Rightarrow> jsstr \<Rightarrow> bool" where
  "basicMatch r tag \<longleftrightarrow> r = lit ''*'' \<or> r = tag \<or> startsWith tag (r @ lit ''-'')"

definition negotiateLanguage :: "LanguageRange list \<Rightarrow> jsstr list \<Rightarrow> jsstr option" where
  "negotiateLanguage ranges supported =
     (if supported = [] then None
      else if ranges = [] then firstOf supported
      else
        firstSome (\<lambda>r. if numEq (lrQ r) (Fin 0) then None
                       else List.find (\<lambda>tag. basicMatch (lrTag r) (toLower tag)) supported) ranges)"

section \<open>Content codings\<close>

definition normalizeEncodingToken :: "jsstr \<Rightarrow> jsstr" where
  "normalizeEncodingToken token =
     (let normalized = toLower token in if \<not> TOKEN_CHARS normalized then [] else normalized)"

record EncodingRange =
  erEncoding :: jsstr
  erQ :: jsnum

definition parseAcceptEncoding :: "jsstr \<Rightarrow> EncodingRange list" where
  "parseAcceptEncoding header =
     map (\<lambda>r. \<lparr>erEncoding = wtToken r, erQ = wtQ r\<rparr>)
       (parseWeightedTokenList
          \<lparr>tokenNormalizer = normalizeEncodingToken, startSegmentIndex = 1, sortOrder = QOnly,
           specificityOf = (\<lambda>_. 0)\<rparr> header)"

definition buildQMap :: "EncodingRange list \<Rightarrow> (jsstr \<times> jsnum) list" where
  "buildQMap ranges =
     foldl (\<lambda>qMap r. if map_of qMap (erEncoding r) = None then qMap @ [(erEncoding r, erQ r)] else qMap) [] ranges"

definition encodingQ :: "(jsstr \<times> jsnum) list \<Rightarrow> jsstr \<Rightarrow> jsnum" where
  "encodingQ qMap encoding =
     (let normalized = toLower encoding; wildcardQ = map_of qMap (lit ''*'')
      in case map_of qMap normalized of
           Some explicitQ \<Rightarrow> explicitQ
         | None \<Rightarrow>
             case wildcardQ of
               Some w \<Rightarrow> w
             | None \<Rightarrow> if normalized = lit ''identity'' then Fin 1 else Fin 0)"

fun encodingLoop :: "(jsstr \<times> jsnum) list \<Rightarrow> jsstr option \<Rightarrow> jsnum \<Rightarrow> jsstr list \<Rightarrow> jsstr option \<times> jsnum" where
  "encodingLoop qMap best bestq [] = (best, bestq)"
| "encodingLoop qMap best bestq (encoding # supported) =
     (let q = encodingQ qMap encoding
      in if bestq < q then encodingLoop qMap (Some encoding) q supported
         else encodingLoop qMap best bestq supported)"

definition negotiateEncoding :: "EncodingRange list \<Rightarrow> jsstr list \<Rightarrow> jsstr option" where
  "negotiateEncoding ranges supported =
     (if supported = [] then None
      else if ranges = [] then firstOf supported
      else
        let (best, bestq) = encodingLoop (buildQMap ranges) None (Fin 0) supported
        in if numEq bestq (Fin 0) then None else best)"

end
