(* ===== verification/NegotiateLaws.thy ===== *)
theory NegotiateLaws
  imports Negotiate "HOL-Library.Multiset"
begin

text \<open>
  What negotiation promises: quality values are numbers between 0 and 1; the sorts are stable and order by
  preference; the chosen representation is the first of the best acceptable ones, whatever the cache of parsed
  types holds; the table of comma separated values reads back.
\<close>

section \<open>Quality values\<close>

definition isQuality :: "jsnum \<Rightarrow> bool" where
  "isQuality x \<longleftrightarrow> (\<exists>q. x = Fin q \<and> 0 \<le> q \<and> q \<le> 1)"

lemma roundDouble_nonneg: "roundDouble n d = Fin q \<Longrightarrow> 0 \<le> n \<Longrightarrow> 0 < d \<Longrightarrow> 0 \<le> q"
proof -
  assume a: "roundDouble n d = Fin q" "0 \<le> n" "0 < d"
  have h: "0 \<le> roundHalfEven a c" if "0 \<le> a" "0 < c" for a c
    using that by (auto simp: roundHalfEven_def Let_def pos_imp_zdiv_nonneg_iff)
  show ?thesis
  proof (cases "n = 0")
    case False
    then have "sgn n = 1" "\<bar>n\<bar> = n" using a(2) by simp_all
    with a False h show ?thesis
      by (auto simp: roundDouble_def Let_def split: if_splits intro!: divide_nonneg_nonneg)
  qed (use a in \<open>simp add: roundDouble_def\<close>)
qed

lemma readDigits_only_zeros: "list_all (\<lambda>d. d = 48) ds \<Longrightarrow> readDigits m ds = m * 10 ^ length ds"
  by (induction ds arbitrary: m) (simp_all add: digitVal_def)

lemma parseQValue_quality: "parseQValue v = Some x \<Longrightarrow> isQuality x"
proof -
  assume a: "parseQValue v = Some x"
  then obtain c cs where c: "jsTrim v = c # cs" "QVALUE_REGEX (c # cs)"
    "x = numberOfParts False [c] (tl cs) 0"
    by (cases "jsTrim v") (auto simp: parseQValue_def Let_def QVALUE_REGEX_def drop_Suc split: if_splits)
  let ?ds = "tl cs"
  have l: "length ?ds \<le> 3" "list_all isDigit ?ds" and k: "c = 48 \<or> c = 49 \<and> list_all (\<lambda>d. d = 48) ?ds"
    using c(2) by (auto simp: QVALUE_REGEX_def isDigit_def list_all_iff)
  have p: "parseDec (c # ?ds) = readDigits (c - 48) ?ds" using k by (auto simp: parseDec_def digitVal_def)
  have b: "readDigits (c - 48) ?ds < (c - 48 + 1) * 10 ^ length ?ds" by (rule readDigits_bound[OF l(2)])
  have x: "x = roundDouble (int (readDigits (c - 48) ?ds)) (10 ^ length ?ds)"
    unfolding c(3) numberOfParts_def Let_def using p by (cases cs) auto
  show ?thesis
  proof (cases "c = 48")
    case True
    define n where "n = readDigits 0 ?ds"
    define d where "d = (10::int) ^ length ?ds"
    have n: "int n < d" "0 < d" using b True by (auto simp: n_def d_def)
    then have "\<bar>int n\<bar> < 2 ^ 40 * d" by simp
    from roundDouble_near[OF n(2) this] obtain q where
      q: "roundDouble (int n) d = Fin q" "\<bar>q - of_int (int n) / of_int d\<bar> \<le> 1 / 2 ^ 14" by blast
    have "d \<in> {1, 10, 100, 1000}" using l(1) by (auto simp: d_def le_Suc_eq numeral_3_eq_3)
    moreover have "of_int (int n) \<le> (of_int (d - 1) :: rat)" using n(1) by (simp only: of_int_le_iff)
    ultimately have "of_int (int n) / of_int d \<le> (999 / 1000 :: rat)" using n(2) by (auto simp: field_simps)
    moreover have "q \<le> of_int (int n) / of_int d + 1 / 2 ^ 14" using q(2) by (simp only: abs_le_iff) linarith
    ultimately have "q \<le> 999 / 1000 + 1 / 2 ^ 14" by linarith
    then have "q \<le> 1" by simp
    with roundDouble_nonneg[OF q(1)] n show ?thesis
      using x q(1) True by (simp add: isQuality_def n_def d_def)
  next
    case False
    with k have "list_all (\<lambda>d. d = 48) ?ds" and c: "c = 49" by auto
    then have "readDigits m ?ds = m * 10 ^ length ?ds" for m using readDigits_only_zeros by blast
    with c x have "x = roundDouble (1 * 10 ^ length ?ds) (1 * 10 ^ length ?ds)" by simp
    also have "\<dots> = roundDouble 1 1" by (rule roundDouble_scale) simp_all
    also have "\<dots> = Fin 1" using roundDouble_int[of 1] by simp
    finally show ?thesis by (simp add: isQuality_def)
  qed
qed

lemma qLoop_quality: "isQuality q \<Longrightarrow> isQuality (qOf (qLoop i q first segments))"
  by (induction i q first segments rule: qLoop.induct)
    (auto simp: parseQParameter_def parseQValue_quality split: qParameter.splits option.splits if_splits)

lemma parseQSegments_quality [simp]: "isQuality (qOf (parseQSegments segments i))"
  unfolding parseQSegments_def by (rule qLoop_quality) (simp add: isQuality_def)

lemma parseMediaRange_quality: "parseMediaRange r = Some e \<Longrightarrow> isQuality (aeQ e)"
  by (auto simp: parseMediaRange_def Let_def split: option.splits if_splits)

lemma weightedEntryOf_quality: "weightedEntryOf options i part = Some e \<Longrightarrow> isQuality (wtQ e)"
  by (auto simp: weightedEntryOf_def Let_def split: if_splits)

section \<open>Stable sorting\<close>

text \<open>A preference that is a strict weak order on the values that are sorted.\<close>

locale preference =
  fixes before :: "'a \<Rightarrow> 'a \<Rightarrow> bool" and ok :: "'a \<Rightarrow> bool"
  assumes asym: "ok a \<Longrightarrow> ok b \<Longrightarrow> before a b \<Longrightarrow> \<not> before b a"
    and cotrans: "ok a \<Longrightarrow> ok b \<Longrightarrow> ok c \<Longrightarrow> before a c \<Longrightarrow> before a b \<or> before b c"
begin

definition same :: "'a \<Rightarrow> 'a \<Rightarrow> bool" where
  "same a b \<longleftrightarrow> \<not> before a b \<and> \<not> before b a"

lemma mset_insertBy: "mset (insertBy before x ys) = add_mset x (mset ys)"
  by (induction ys) auto

lemma mset_stableSort: "mset (stableSort before xs) = mset xs"
  by (induction xs) (simp_all add: stableSort_def mset_insertBy)

lemma set_stableSort: "set (stableSort before xs) = set xs"
  by (metis mset_stableSort set_mset_mset)

lemma sorted_insertBy:
  "ok x \<Longrightarrow> list_all ok ys \<Longrightarrow> sorted_wrt (\<lambda>a b. \<not> before b a) ys \<Longrightarrow>
    sorted_wrt (\<lambda>a b. \<not> before b a) (insertBy before x ys)"
proof (induction ys)
  case (Cons y ys)
  have m: "set (insertBy before x ys) = insert x (set ys)" by (metis mset_insertBy set_mset_add_mset_insert set_mset_mset)
  show ?case
  proof (cases "before y x")
    case True
    with Cons m asym show ?thesis by auto
  next
    case False
    have "\<not> before z x" if "z \<in> set ys" for z
      using False Cons.prems cotrans[of z y x] that by (auto simp: list_all_iff)
    with False Cons.prems show ?thesis by auto
  qed
qed simp

lemma sorted_stableSort: "list_all ok xs \<Longrightarrow> sorted_wrt (\<lambda>a b. \<not> before b a) (stableSort before xs)"
proof (induction xs)
  case (Cons x xs)
  have "list_all ok (stableSort before xs)" using Cons.prems set_stableSort[of xs] by (simp add: list_all_iff)
  with Cons show ?case by (simp add: stableSort_def sorted_insertBy)
qed (simp add: stableSort_def)

lemma same_insertBy:
  "ok x \<Longrightarrow> list_all ok ys \<Longrightarrow> ok e \<Longrightarrow>
    filter (same e) (insertBy before x ys) = filter (same e) (x # ys)"
proof (induction ys)
  case (Cons y ys)
  show ?case
  proof (cases "before y x")
    case True
    then have "\<not> (same e x \<and> same e y)" using cotrans[of y e x] Cons.prems by (auto simp: same_def)
    with True Cons show ?thesis by auto
  qed simp
qed simp

text \<open>Values that are equally good stay in the order they came in.\<close>

lemma same_stableSort: "list_all ok xs \<Longrightarrow> ok e \<Longrightarrow> filter (same e) (stableSort before xs) = filter (same e) xs"
proof (induction xs)
  case (Cons x xs)
  have "list_all ok (stableSort before xs)" using Cons.prems set_stableSort[of xs] by (simp add: list_all_iff)
  from same_insertBy[OF _ this] Cons show ?case by (simp add: stableSort_def)
qed (simp add: stableSort_def)

end

interpretation accept: preference acceptBefore "\<lambda>e. isQuality (aeQ e)"
  by unfold_locales (auto simp: acceptBefore_def isQuality_def split: if_splits)

interpretation weighted: preference "weightedBefore order" "\<lambda>e. isQuality (wtQ e)" for order
  by unfold_locales (auto simp: weightedBefore_def isQuality_def split: if_splits)


section \<open>Selection\<close>

text \<open>The quality as a rational, and the lexicographic order of (precedence, quality) pairs.\<close>

definition qval :: "jsnum \<Rightarrow> rat" where
  "qval x = (case x of Fin q \<Rightarrow> q | _ \<Rightarrow> 0)"

lemma Fin_qval: "isQuality x \<Longrightarrow> x = Fin (qval x)"
  by (auto simp: isQuality_def qval_def)

text \<open>
  The rank of a candidate (RFC 9110 section 12.5.1): the precedence of the most specific range that matches
  it, and the highest quality the ranges of that precedence give it.
\<close>

definition candidateRank :: "AcceptEntry list \<Rightarrow> ParsedMimeType \<Rightarrow> nat \<Rightarrow> rat \<Rightarrow> bool" where
  "candidateRank entries p s q \<longleftrightarrow>
     (\<exists>e\<in>set entries. matchesParsedMimeType e p = s \<and> 0 < s \<and> qval (aeQ e) = q) \<and>
     (\<forall>e\<in>set entries. matchesParsedMimeType e p \<le> s \<and> (matchesParsedMimeType e p = s \<longrightarrow> qval (aeQ e) \<le> q))"

definition acceptable :: "AcceptEntry list \<Rightarrow> jsstr \<Rightarrow> nat \<Rightarrow> rat \<Rightarrow> bool" where
  "acceptable entries m s q \<longleftrightarrow>
     (\<exists>p. parseMimeTypeWithParams m = Some p \<and> candidateRank entries p s q \<and> 0 < q)"

text \<open>What the loop has seen so far: nothing that matches, or the rank.\<close>

definition loopRank :: "AcceptEntry list \<Rightarrow> ParsedMimeType \<Rightarrow> int \<Rightarrow> jsnum \<Rightarrow> bool" where
  "loopRank entries p s x \<longleftrightarrow>
     (if s < 0 then x = Fin 0 \<and> s = - 1 \<and> (\<forall>e\<in>set entries. matchesParsedMimeType e p = 0)
      else candidateRank entries p (nat s) (qval x) \<and> isQuality x)"

lemma loopRank_step:
  assumes "loopRank seen p s x" and "isQuality (aeQ e)"
  defines "m \<equiv> int (matchesParsedMimeType e p)"
  shows "loopRank (seen @ [e]) p (if m \<noteq> 0 \<and> (s < m \<or> m = s \<and> x < aeQ e) then m else s)
    (if m \<noteq> 0 \<and> (s < m \<or> m = s \<and> x < aeQ e) then aeQ e else x)"
proof (cases "s < 0")
  case True
  with assms show ?thesis by (auto simp: loopRank_def candidateRank_def)
next
  case False
  then obtain n where n: "s = int n" by (metis nonneg_int_cases not_less)
  have r: "candidateRank seen p n (qval x)" "isQuality x" using assms(1) by (simp_all add: loopRank_def n)
  then obtain q where q: "x = Fin q" "qval x = q" using Fin_qval by blast
  obtain r where r': "aeQ e = Fin r" "qval (aeQ e) = r" using Fin_qval[OF assms(2)] by blast
  have "m = int n \<Longrightarrow> 0 < n" using r(1) by (auto simp: candidateRank_def)
  with r q r' assms(2) show ?thesis
    by (auto simp: loopRank_def m_def n candidateRank_def le_less_trans split: if_splits) (force+)?
qed

lemma candidateLoop_rank:
  assumes "\<forall>e\<in>set entries. isQuality (aeQ e)" "loopRank seen p s x" "candidateLoop p s x entries = (s', x')"
  shows "loopRank (seen @ entries) p s' x'"
  using assms
proof (induction p s x entries arbitrary: seen rule: candidateLoop.induct)
  case (2 p s x e es)
  let ?m = "int (matchesParsedMimeType e p)"
  have step: "loopRank (seen @ [e]) p (if ?m \<noteq> 0 \<and> (s < ?m \<or> ?m = s \<and> x < aeQ e) then ?m else s)
    (if ?m \<noteq> 0 \<and> (s < ?m \<or> ?m = s \<and> x < aeQ e) then aeQ e else x)"
    using loopRank_step[OF 2(5)] 2(4) by simp
  have q: "\<forall>e\<in>set es. isQuality (aeQ e)" using 2(4) by simp
  consider "?m = 0" | "?m \<noteq> 0" "s < ?m \<or> ?m = s \<and> x < aeQ e" | "?m \<noteq> 0" "\<not> (s < ?m \<or> ?m = s \<and> x < aeQ e)"
    by blast
  then show ?case
  proof cases
    case 1
    with 2(1)[OF refl _ q, of "seen @ [e]"] step 2(6) show ?thesis by simp
  next
    case 2
    with "2.IH"(2)[OF refl _ _ q, of "seen @ [e]"] step "2.prems"(3) show ?thesis by simp
  next
    case 3
    with "2.IH"(3)[OF refl _ _ q, of "seen @ [e]"] step "2.prems"(3) show ?thesis by simp
  qed
qed simp

lemma candidateLoop_result:
  assumes "\<forall>e\<in>set entries. isQuality (aeQ e)" "candidateLoop p (- 1) (Fin 0) entries = (s, x)"
  shows "loopRank entries p s x"
  using candidateLoop_rank[OF assms(1) _ assms(2), of "[]"] by (simp add: loopRank_def)

lemma candidateRank_unique: "candidateRank entries p s q \<Longrightarrow> candidateRank entries p s' q' \<Longrightarrow> s = s' \<and> q = q'"
  unfolding candidateRank_def by (metis order_antisym)

lemma candidate_skipped:
  assumes "loopRank entries p s x"
  shows "s < 0 \<or> numEq x (Fin 0) \<longleftrightarrow> \<not> (\<exists>n q. candidateRank entries p n q \<and> 0 < q)"
proof (cases "s < 0")
  case True
  with assms show ?thesis by (auto simp: loopRank_def candidateRank_def)
next
  case False
  then have "candidateRank entries p (nat s) (qval x)" "isQuality x" using assms by (auto simp: loopRank_def)
  with False candidateRank_unique show ?thesis
    by (auto simp: numEq_def isQuality_def qval_def) (metis less_le)+
qed


definition cacheOk :: "mimeCache \<Rightarrow> bool" where
  "cacheOk cache \<longleftrightarrow> (\<forall>m parsed. cache m = Some parsed \<longrightarrow> parsed = parseMimeTypeWithParams m)"

lemma cached_parse:
  "cacheOk cache \<Longrightarrow> getParsedMimeTypeCached m cache = (parsed, cache') \<Longrightarrow>
    parsed = parseMimeTypeWithParams m \<and> cacheOk cache'"
  by (auto simp: getParsedMimeTypeCached_def cacheOk_def Let_def split: option.splits if_splits)

text \<open>The best of the candidates seen so far: the first one no other beats.\<close>

definition beats :: "nat \<Rightarrow> rat \<Rightarrow> nat \<Rightarrow> rat \<Rightarrow> bool" where
  "beats s q s' q' \<longleftrightarrow> q' < q \<or> q' = q \<and> s' < s"

definition bestAmong :: "AcceptEntry list \<Rightarrow> jsstr list \<Rightarrow> jsstr option \<Rightarrow> bool" where
  "bestAmong entries supported r \<longleftrightarrow>
     (case r of
        None \<Rightarrow> \<forall>m\<in>set supported. \<forall>s q. \<not> acceptable entries m s q
      | Some m \<Rightarrow> \<exists>pre post s q. supported = pre @ m # post \<and> acceptable entries m s q \<and>
          (\<forall>m'\<in>set pre. \<forall>s' q'. acceptable entries m' s' q' \<longrightarrow> beats s q s' q') \<and>
          (\<forall>m'\<in>set post. \<forall>s' q'. acceptable entries m' s' q' \<longrightarrow> \<not> beats s' q' s q))"

definition bestState :: "AcceptEntry list \<Rightarrow> jsstr list \<Rightarrow> bestSoFar \<Rightarrow> bool" where
  "bestState entries seen b \<longleftrightarrow>
     (case bestMatch b of
        None \<Rightarrow> bestSpecificity b = 0 \<and> bestQ b = Fin 0 \<and> (\<forall>m\<in>set seen. \<forall>s q. \<not> acceptable entries m s q)
      | Some m \<Rightarrow> \<exists>pre post s q. bestSpecificity b = int s \<and> bestQ b = Fin q \<and>
          seen = pre @ m # post \<and> acceptable entries m s q \<and>
          (\<forall>m'\<in>set pre. \<forall>s' q'. acceptable entries m' s' q' \<longrightarrow> beats s q s' q') \<and>
          (\<forall>m'\<in>set post. \<forall>s' q'. acceptable entries m' s' q' \<longrightarrow> \<not> beats s' q' s q))"

lemma acceptable_unique: "acceptable entries m s q \<Longrightarrow> acceptable entries m s' q' \<Longrightarrow> s = s' \<and> q = q'"
  using candidateRank_unique by (fastforce simp: acceptable_def)

lemma bestState_skip:
  "bestState entries seen b \<Longrightarrow> (\<And>s q. acceptable entries m s q \<Longrightarrow> bestMatch b \<noteq> None \<and>
     (\<forall>s' q'. bestSpecificity b = int s' \<longrightarrow> bestQ b = Fin q' \<longrightarrow> \<not> beats s q s' q')) \<Longrightarrow>
   bestState entries (seen @ [m]) b"
proof (cases "bestMatch b")
  case (Some w)
  assume b: "bestState entries seen b" and m: "\<And>s q. acceptable entries m s q \<Longrightarrow> bestMatch b \<noteq> None \<and>
     (\<forall>s' q'. bestSpecificity b = int s' \<longrightarrow> bestQ b = Fin q' \<longrightarrow> \<not> beats s q s' q')"
  from b Some obtain pre post s q where o: "bestSpecificity b = int s" "bestQ b = Fin q"
    "seen = pre @ w # post" "acceptable entries w s q"
    "\<forall>m'\<in>set pre. \<forall>s' q'. acceptable entries m' s' q' \<longrightarrow> beats s q s' q'"
    "\<forall>m'\<in>set post. \<forall>s' q'. acceptable entries m' s' q' \<longrightarrow> \<not> beats s' q' s q"
    by (auto simp: bestState_def)
  have "seen @ [m] = pre @ w # (post @ [m])" by (simp add: o(3))
  moreover have "\<forall>m'\<in>set (post @ [m]). \<forall>s' q'. acceptable entries m' s' q' \<longrightarrow> \<not> beats s' q' s q"
    using o(1,2,6) m by auto
  ultimately show ?thesis unfolding bestState_def Some option.case using o(1,2,4,5) by blast
qed (auto simp: bestState_def)

lemma bestState_take:
  assumes "bestState entries seen b" and "acceptable entries m s q"
    and "bestQ b < Fin q \<or> (bestQ b = Fin q \<and> bestSpecificity b < int s)"
  shows "bestState entries (seen @ [m]) \<lparr>bestMatch = Some m, bestSpecificity = int s, bestQ = Fin q\<rparr>"
proof -
  have "beats s q s' q'" if "m' \<in> set seen" "acceptable entries m' s' q'" for m' s' q'
  proof (cases "bestMatch b")
    case None
    with assms(1) that show ?thesis by (auto simp: bestState_def)
  next
    case (Some w)
    with assms(1) obtain pre post s0 q0 where o: "bestSpecificity b = int s0" "bestQ b = Fin q0"
      "seen = pre @ w # post" "acceptable entries w s0 q0"
      "\<forall>m'\<in>set pre. \<forall>s' q'. acceptable entries m' s' q' \<longrightarrow> beats s0 q0 s' q'"
      "\<forall>m'\<in>set post. \<forall>s' q'. acceptable entries m' s' q' \<longrightarrow> \<not> beats s' q' s0 q0"
      by (auto simp: bestState_def)
    have "beats s q s0 q0" using assms(3) o by (auto simp: beats_def)
    moreover from that(1) consider "m' \<in> set pre" | "m' = w" | "m' \<in> set post" by (auto simp: o(3))
    then have "\<not> beats s' q' s0 q0"
    proof cases
      case 1
      with o(5) that(2) have "beats s0 q0 s' q'" by blast
      then show ?thesis by (auto simp: beats_def)
    next
      case 2
      with acceptable_unique[OF that(2)] o(4) show ?thesis by (simp add: beats_def)
    next
      case 3
      with o(6) that(2) show ?thesis by blast
    qed
    ultimately show ?thesis by (auto simp: beats_def)
  qed
  then have "\<exists>pre post s' q'. s = s' \<and> q = q' \<and> seen @ [m] = pre @ m # post \<and> acceptable entries m s' q' \<and>
      (\<forall>m'\<in>set pre. \<forall>s'' q''. acceptable entries m' s'' q'' \<longrightarrow> beats s' q' s'' q'') \<and>
      (\<forall>m'\<in>set post. \<forall>s'' q''. acceptable entries m' s'' q'' \<longrightarrow> \<not> beats s'' q'' s' q')"
    using assms(2) by (intro exI[of _ seen] exI[of _ "[]"] exI[of _ s] exI[of _ q]) simp
  then show ?thesis by (simp add: bestState_def)
qed


lemma supportedLoop_best:
  assumes q: "\<forall>e\<in>set entries. isQuality (aeQ e)"
  shows "bestState entries seen b \<Longrightarrow> cacheOk cache \<Longrightarrow> supportedLoop entries b supported cache = (r, cache') \<Longrightarrow>
    bestAmong entries (seen @ supported) r \<and> cacheOk cache'"
proof (induction supported arbitrary: seen b cache)
  case Nil
  then show ?case by (cases r) (auto simp: bestState_def bestAmong_def)
next
  case (Cons m ms)
  obtain parsed c where c: "getParsedMimeTypeCached m cache = (parsed, c)" by force
  from cached_parse[OF Cons.prems(2) c] have p: "parsed = parseMimeTypeWithParams m" "cacheOk c" by simp_all
  show ?case
  proof (cases parsed)
    case None
    with p have "bestState entries (seen @ [m]) b"
      by (intro bestState_skip Cons.prems(1)) (simp add: acceptable_def)
    from Cons.IH[OF this p(2)] Cons.prems(3) c None show ?thesis by simp
  next
    case (Some mt)
    obtain s x where l: "candidateLoop mt (- 1) (Fin 0) entries = (s, x)" by force
    have r: "loopRank entries mt s x" by (rule candidateLoop_result[OF q l])
    show ?thesis
    proof (cases "s < 0 \<or> numEq x (Fin 0)")
      case True
      then have "\<not> acceptable entries m n q" for n q
        using candidate_skipped[OF r] p Some by (auto simp: acceptable_def)
      then have "bestState entries (seen @ [m]) b" by (intro bestState_skip Cons.prems(1)) simp
      from Cons.IH[OF this p(2)] Cons.prems(3) c Some l True show ?thesis by simp
    next
      case False
      then obtain n where n: "s = int n" by (metis nonneg_int_cases not_less)
      from r n have k: "candidateRank entries mt n (qval x)" "x = Fin (qval x)" "0 < qval x"
        using Fin_qval[of x] False by (auto simp: loopRank_def isQuality_def qval_def numEq_def)
      then have a: "acceptable entries m n (qval x)" using p(1) Some by (metis acceptable_def)
      show ?thesis
      proof (cases "bestQ b < x \<or> (numEq x (bestQ b) \<and> bestSpecificity b < s)")
        case True
        then have "bestState entries (seen @ [m]) \<lparr>bestMatch = Some m, bestSpecificity = int n, bestQ = Fin (qval x)\<rparr>"
          using k(2) n by (intro bestState_take[OF Cons.prems(1) a]) (auto simp: numEq_def)
        from Cons.IH[OF this p(2)] Cons.prems(3) c Some l True False n k(2) show ?thesis by simp
      next
        case keep: False
        have "bestState entries (seen @ [m]) b"
        proof (rule bestState_skip[OF Cons.prems(1)])
          fix s' q' assume "acceptable entries m s' q'"
          from acceptable_unique[OF this a] have e: "s' = n" "q' = qval x" by auto
          have "bestMatch b = None \<Longrightarrow> bestQ b = Fin 0" using Cons.prems(1) by (auto simp: bestState_def)
          then have "bestMatch b \<noteq> None" using keep k(2,3) by (metis less_jsnum.simps(1))
          moreover have "\<not> beats s' q' s0 q0" if "bestSpecificity b = int s0" "bestQ b = Fin q0" for s0 q0
            using keep that k(2) n by (metis beats_def e jsnum.distinct(5) less_jsnum.simps(1) numEq_def of_nat_less_iff)
          ultimately show "bestMatch b \<noteq> None \<and>
              (\<forall>s'' q''. bestSpecificity b = int s'' \<longrightarrow> bestQ b = Fin q'' \<longrightarrow> \<not> beats s' q' s'' q'')" by blast
        qed
        from Cons.IH[OF this p(2)] Cons.prems(3) c Some l False keep show ?thesis by simp
      qed
    qed
  qed
qed

lemma parseAcceptEntries_quality: "e \<in> set (parseAcceptEntries header byPreference) \<Longrightarrow> isQuality (aeQ e)"
proof -
  have f: "isQuality (aeQ e)" if "e \<in> set (List.map_filter parseMediaRange parts)" for e parts
    using that by (auto simp: List.map_filter_def intro: parseMediaRange_quality)
  assume "e \<in> set (parseAcceptEntries header byPreference)"
  with f show ?thesis
    by (auto simp: parseAcceptEntries_def Let_def accept.set_stableSort split: if_splits)
qed



text \<open>Two types against \<open>a/*, a/b\<close>: the one the exact range names wins over the one of the wildcard.\<close>

lemmas charTests = jsTrim_def isJsSpace_def toLower_def lowerUnit_def indexOfUnit_def TOKEN_CHARS_def TOKEN_CHAR_def

definition sampleEntries :: "AcceptEntry list" where
  "sampleEntries =
     [\<lparr>aeType = lit ''a'', aeSubtype = lit ''*'', aeQ = Fin 1, aeParams = []\<rparr>,
      \<lparr>aeType = lit ''a'', aeSubtype = lit ''b'', aeQ = Fin 1, aeParams = []\<rparr>]"

lemma sample_types:
  "parseTypeAndSubtype True (Some (lit ''a/*'')) = Some (lit ''a'', lit ''*'')"
  "parseTypeAndSubtype True (Some (lit ''a/b'')) = Some (lit ''a'', lit ''b'')"
  "parseTypeAndSubtype True (Some (lit ''a/c'')) = Some (lit ''a'', lit ''c'')"
  by (simp_all add: parseTypeAndSubtype_def charTests Let_def)

lemma sample_trim:
  "jsTrim (lit ''a/*'') = lit ''a/*''" "jsTrim (lit '' a/b'') = lit ''a/b''" "jsTrim (lit ''a/b'') = lit ''a/b''"
  "jsTrim (lit ''a/c'') = lit ''a/c''"
  by (simp_all add: charTests)

lemma sample_split:
  "splitQuotedValue (lit ''a/*'') (cu CHR '';'') = [lit ''a/*'']"
  "splitQuotedValue (lit ''a/b'') (cu CHR '';'') = [lit ''a/b'']"
  "splitQuotedValue (lit ''a/c'') (cu CHR '';'') = [lit ''a/c'']"
  "splitQuotedValue (lit ''a/*, a/b'') (cu CHR '','') = [lit ''a/*'', lit '' a/b'']"
  by (simp_all add: splitQuotedValue_def)

lemma sample_ranges:
  "parseMediaRange (lit ''a/*'') = Some (sampleEntries ! 0)"
  "parseMediaRange (lit ''a/b'') = Some (sampleEntries ! 1)"
  unfolding parseMediaRange_def sample_split list.sel sample_trim sample_types option.case Let_def sampleEntries_def
  by (simp_all add: parseQSegments_def charTests)

lemma sample_mimes:
  "parseMimeTypeWithParams (lit ''a/b'') = Some \<lparr>pmType = lit ''a'', pmSubtype = lit ''b'', pmParams = []\<rparr>"
  "parseMimeTypeWithParams (lit ''a/c'') = Some \<lparr>pmType = lit ''a'', pmSubtype = lit ''c'', pmParams = []\<rparr>"
  unfolding parseMimeTypeWithParams_def sample_split list.sel sample_trim sample_types option.case Let_def
  by simp_all

lemma sampleAccept_entries: "parseAcceptEntries (lit ''a/*, a/b'') False = sampleEntries"
proof -
  have "\<not> isEmptyHeader (Some (lit ''a/*, a/b''))" by (simp add: isEmptyHeader_def charTests)
  then show ?thesis
    unfolding parseAcceptEntries_def sample_split list.map sample_trim
    using sample_ranges[unfolded lit_simps] by (simp add: List.map_filter_simps sampleEntries_def)
qed

lemma sampleAccept_choice:
  "fst (negotiate (AcceptText (lit ''a/*, a/b'')) [lit ''a/c'', lit ''a/b''] (\<lambda>_. None)) = Some (lit ''a/b'')"
proof -
  have "jsTrim (lit ''a/*, a/b'') \<noteq> []" by (simp add: charTests)
  moreover have "sampleEntries \<noteq> []" by (simp add: sampleEntries_def)
  moreover have "fst (negotiateWithEntries sampleEntries [lit ''a/c'', lit ''a/b''] (\<lambda>_. None)) = Some (lit ''a/b'')"
    unfolding negotiateWithEntries_def
    using sample_mimes[unfolded lit_simps]
    by (simp add: getParsedMimeTypeCached_def sampleEntries_def matchesParsedMimeType_def paramsMatch_def numEq_def
        Let_def)
  ultimately show ?thesis
    unfolding negotiate_def acceptHeaderOf_def acceptInput.case option.case sampleAccept_entries Let_def by simp
qed


section \<open>Sorted preferences\<close>


section \<open>Content codings\<close>

text \<open>
  The quality of a coding (RFC 9110 section 12.5.3): that of the first range that names it, else that of the
  first wildcard, else 1 for \<open>identity\<close> and 0 for any other.
\<close>

definition codingQuality :: "EncodingRange list \<Rightarrow> jsstr \<Rightarrow> jsnum" where
  "codingQuality ranges coding =
     (case List.find (\<lambda>r. erEncoding r = coding) ranges of
        Some r \<Rightarrow> erQ r
      | None \<Rightarrow>
          case List.find (\<lambda>r. erEncoding r = lit ''*'') ranges of
            Some r \<Rightarrow> erQ r
          | None \<Rightarrow> if coding = lit ''identity'' then Fin 1 else Fin 0)"

lemma buildQMap_find:
  "map_of (foldl (\<lambda>qMap r. if map_of qMap (erEncoding r) = None then qMap @ [(erEncoding r, erQ r)] else qMap) qs ranges) k =
    (case map_of qs k of Some q \<Rightarrow> Some q | None \<Rightarrow> map_option erQ (List.find (\<lambda>r. erEncoding r = k) ranges))"
  by (induction ranges arbitrary: qs) (auto simp: map_add_def split: option.splits)

lemma encodingQ_quality: "encodingQ (buildQMap ranges) coding = codingQuality ranges (toLower coding)"
  using buildQMap_find[of "[]" ranges]
  by (auto simp: encodingQ_def codingQuality_def buildQMap_def Let_def split: option.splits)

lemma encodingLoop_best:
  assumes "\<forall>c\<in>set supported. isQuality (encodingQ m c)" and "isQuality bestq"
    and "encodingLoop m best bestq supported = (r, q)"
  shows "(r = best \<and> q = bestq \<and> (\<forall>c\<in>set supported. \<not> bestq < encodingQ m c)) \<or>
    (\<exists>pre c post. supported = pre @ c # post \<and> r = Some c \<and> q = encodingQ m c \<and> bestq < q \<and>
      (\<forall>d\<in>set pre. encodingQ m d < q) \<and> (\<forall>d\<in>set post. \<not> q < encodingQ m d))"
  using assms
proof (induction supported arbitrary: best bestq)
  case (Cons c cs)
  have trans: "x < z" if "\<not> y < x" "y < z" "isQuality x" "isQuality y" "isQuality z" for x y z
    using that by (auto simp: isQuality_def)
  have cs: "\<forall>c\<in>set cs. isQuality (encodingQ m c)" and c: "isQuality (encodingQ m c)" using Cons.prems(1) by simp_all
  show ?case
  proof (cases "bestq < encodingQ m c")
    case True
    with Cons.prems have "encodingLoop m (Some c) (encodingQ m c) cs = (r, q)" by simp
    from Cons.IH[OF cs c this] show ?thesis
    proof (elim disjE)
      assume a: "r = Some c \<and> q = encodingQ m c \<and> (\<forall>d\<in>set cs. \<not> encodingQ m c < encodingQ m d)"
      with True show ?thesis by (intro disjI2 exI[of _ "[]"] exI[of _ c] exI[of _ cs]) simp
    next
      assume "\<exists>pre d post. cs = pre @ d # post \<and> r = Some d \<and> q = encodingQ m d \<and> encodingQ m c < q \<and>
        (\<forall>d\<in>set pre. encodingQ m d < q) \<and> (\<forall>d\<in>set post. \<not> q < encodingQ m d)"
      then obtain pre d post where o: "cs = pre @ d # post" "r = Some d" "q = encodingQ m d" "encodingQ m c < q"
        "\<forall>d\<in>set pre. encodingQ m d < q" "\<forall>d\<in>set post. \<not> q < encodingQ m d" by blast
      have "bestq < q" using True o(1,3,4) Cons.prems by (auto simp: isQuality_def)
      with o show ?thesis by (intro disjI2 exI[of _ "c # pre"] exI[of _ d] exI[of _ post]) simp
    qed
  next
    case False
    with Cons.prems have "encodingLoop m best bestq cs = (r, q)" by simp
    from Cons.IH[OF cs Cons.prems(2) this] show ?thesis
    proof (elim disjE)
      assume "\<exists>pre d post. cs = pre @ d # post \<and> r = Some d \<and> q = encodingQ m d \<and> bestq < q \<and>
        (\<forall>d\<in>set pre. encodingQ m d < q) \<and> (\<forall>d\<in>set post. \<not> q < encodingQ m d)"
      then obtain pre d post where o: "cs = pre @ d # post" "r = Some d" "q = encodingQ m d" "bestq < q"
        "\<forall>d\<in>set pre. encodingQ m d < q" "\<forall>d\<in>set post. \<not> q < encodingQ m d" by blast
      have "encodingQ m c < q" using trans[OF False] o(1,3,4) Cons.prems by auto
      with o show ?thesis by (intro disjI2 exI[of _ "c # pre"] exI[of _ d] exI[of _ post]) simp
    qed (use False in simp)
  qed
qed simp

lemma parseAcceptEncoding_quality: "r \<in> set (parseAcceptEncoding header) \<Longrightarrow> isQuality (erQ r)"
proof -
  have f: "isQuality (wtQ e)" if "e \<in> set (List.map_filter (\<lambda>(i, part). weightedEntryOf options i part) xs)" for e options xs
    using that by (auto simp: List.map_filter_def intro: weightedEntryOf_quality)
  assume "r \<in> set (parseAcceptEncoding header)"
  with f show ?thesis
    by (auto simp: parseAcceptEncoding_def parseWeightedTokenList_def Let_def weighted.set_stableSort split: if_splits)
qed

text \<open>C18 (encoding_best): On a header that has ranges, \<open>negotiateEncoding\<close> returns the first of the supported
  codings of the highest quality, if that is not 0; \<open>null\<close> exactly when each has quality 0. The quality of a
  coding is that of RFC 9110: its own range, the wildcard, \<open>identity\<close> acceptable by default.\<close>

theorem encoding_best:
  assumes "parseAcceptEncoding header = ranges" and "ranges \<noteq> []"
  shows "case negotiateEncoding ranges supported of
      None \<Rightarrow> \<forall>c\<in>set supported. codingQuality ranges (toLower c) = Fin 0
    | Some c \<Rightarrow> \<exists>pre post. supported = pre @ c # post \<and>
        (let q = codingQuality ranges (toLower c)
         in Fin 0 < q \<and> (\<forall>d\<in>set pre. codingQuality ranges (toLower d) < q) \<and>
            (\<forall>d\<in>set post. \<not> q < codingQuality ranges (toLower d)))"
proof -
  have "isQuality (erQ r)" if "r \<in> set ranges" for r using parseAcceptEncoding_quality that assms(1) by blast
  then have qq: "isQuality (codingQuality ranges c)" for c
    by (auto simp: codingQuality_def isQuality_def find_Some_iff split: option.splits)
  obtain r q where l: "encodingLoop (buildQMap ranges) None (Fin 0) supported = (r, q)" by force
  have n: "negotiateEncoding ranges supported = (if supported = [] then None else if numEq q (Fin 0) then None else r)"
    using assms(2) l by (simp add: negotiateEncoding_def)
  have zero: "x = Fin 0" if "isQuality x" "\<not> Fin 0 < x" for x using that by (auto simp: isQuality_def)
  have "(r = None \<and> q = Fin 0 \<and> (\<forall>c\<in>set supported. \<not> Fin 0 < encodingQ (buildQMap ranges) c)) \<or>
    (\<exists>pre c post. supported = pre @ c # post \<and> r = Some c \<and> q = encodingQ (buildQMap ranges) c \<and> Fin 0 < q \<and>
      (\<forall>d\<in>set pre. encodingQ (buildQMap ranges) d < q) \<and> (\<forall>d\<in>set post. \<not> q < encodingQ (buildQMap ranges) d))"
    by (rule encodingLoop_best[OF _ _ l]) (simp_all add: encodingQ_quality qq, simp add: isQuality_def)
  then show ?thesis
    unfolding encodingQ_quality
  proof (elim disjE exE conjE)
    assume "r = None" "q = Fin 0" "\<forall>c\<in>set supported. \<not> Fin 0 < codingQuality ranges (toLower c)"
    with zero qq show ?thesis by (simp add: n)
  next
    fix pre c post
    assume a: "supported = pre @ c # post" "r = Some c" "q = codingQuality ranges (toLower c)" "Fin 0 < q"
      "\<forall>d\<in>set pre. codingQuality ranges (toLower d) < q" "\<forall>d\<in>set post. \<not> q < codingQuality ranges (toLower d)"
    have "supported \<noteq> []" "q \<noteq> Fin 0" using a(1,4) by auto
    then have "negotiateEncoding ranges supported = Some c" using a(2) by (simp only: n numEq_def) simp
    with a show ?thesis by (auto simp: Let_def)
  qed
qed

theorem encoding_best_witness:
  "\<exists>pre post. [lit ''br'', lit ''GZIP''] = pre @ lit ''GZIP'' # post \<and>
     Fin 0 < codingQuality [\<lparr>erEncoding = lit ''gzip'', erQ = Fin 1\<rparr>] (toLower (lit ''GZIP''))"
proof -
  let ?ranges = "[\<lparr>erEncoding = lit ''gzip'', erQ = Fin 1\<rparr>]"
  have r: "parseAcceptEncoding (lit ''gzip'') = ?ranges"
    by (simp add: parseAcceptEncoding_def parseWeightedTokenList_def isEmptyHeader_def charTests splitListValue_def
        splitQuotedValue_def List.map_filter_simps weightedEntryOf_def normalizeEncodingToken_def parseQSegments_def
        stableSort_def Let_def)
  have "negotiateEncoding ?ranges [lit ''br'', lit ''GZIP''] = Some (lit ''GZIP'')"
    by (simp add: negotiateEncoding_def buildQMap_def encodingQ_def charTests Let_def numEq_def)
  with encoding_best[OF r, of "[lit ''br'', lit ''GZIP'']"] show ?thesis
    by (simp only: option.case Let_def list.distinct) blast
qed

section \<open>Languages\<close>

text \<open>
  A range of quality 0 is skipped: a tag it excludes can still be chosen by a broader range of the list, so
  \<open>en;q=0, *\<close> selects \<open>en\<close>.
\<close>

lemma language_exclusion_ignored:
  "negotiateLanguage [\<lparr>lrTag = lit ''*'', lrQ = Fin 1\<rparr>, \<lparr>lrTag = lit ''en'', lrQ = Fin 0\<rparr>] [lit ''en'', lit ''fr''] =
    Some (lit ''en'')"
  by (simp add: negotiateLanguage_def numEq_def basicMatch_def)

section \<open>Comma separated values\<close>

text \<open>The reader of RFC 4180: the flag says whether it is inside a quoted field.\<close>

fun readCSV :: "bool \<Rightarrow> jsstr \<Rightarrow> jsstr list \<Rightarrow> jsstr \<Rightarrow> jsstr list list" where
  "readCSV q field row [] = [row @ [field]]"
| "readCSV True field row (c # cs) =
     (if c = 34 then
        (case cs of d # ds \<Rightarrow> if d = 34 then readCSV True (field @ [34]) row ds else readCSV False field row cs
                  | [] \<Rightarrow> readCSV False field row [])
      else readCSV True (field @ [c]) row cs)"
| "readCSV False field row (c # cs) =
     (if c = 34 \<and> field = [] then readCSV True [] row cs
      else if c = 44 then readCSV False [] (row @ [field]) cs
      else if c = 10 then (row @ [field]) # readCSV False [] [] cs
      else readCSV False (field @ [c]) row cs)"

definition endsField :: "jsstr \<Rightarrow> bool" where
  "endsField rest \<longleftrightarrow> rest = [] \<or> hd rest \<in> {44, 10}"

lemma readCSV_quoted:
  "endsField rest \<Longrightarrow> readCSV True field row (replaceUnit 34 [34, 34] s @ 34 # rest) = readCSV False (field @ s) row rest"
  by (induction s arbitrary: field) (auto simp: endsField_def split: list.split)

lemma readCSV_plain:
  "set s \<inter> {44, 34, 10, 13} = {} \<Longrightarrow> readCSV False field row (s @ rest) = readCSV False (field @ s) row rest"
  by (induction s arbitrary: field) auto

lemma readCSV_field:
  assumes "endsField rest"
  shows "readCSV False [] row (escapeCSVText s @ rest) = readCSV False s row rest"
  using readCSV_quoted[OF assms, of "[]"] readCSV_plain[of s "[]"] by (auto simp: escapeCSVText_def)

lemma readCSV_row:
  "cells \<noteq> [] \<Longrightarrow> rest = [] \<or> hd rest = 10 \<Longrightarrow>
    readCSV False [] row (joinWith [44] (map escapeCSVText cells) @ rest) =
    (if rest = [] then [row @ cells] else (row @ cells) # readCSV False [] [] (tl rest))"
proof (induction cells arbitrary: row rule: induct_list012)
  case (2 f)
  then show ?case using readCSV_field[of rest row f] by (cases rest) (auto simp: endsField_def)
next
  case (3 f g fs)
  have "endsField ([44] @ joinWith [44] (map escapeCSVText (g # fs)) @ rest)" by (simp add: endsField_def)
  from readCSV_field[OF this, of row f] 3(2)[of "row @ [f]"] 3(3,4) show ?case by simp
qed simp

lemma readCSV_rows:
  "rows \<noteq> [] \<Longrightarrow> \<forall>r\<in>set rows. r \<noteq> [] \<Longrightarrow>
    readCSV False [] [] (joinWith [10] (map (\<lambda>r. joinWith [44] (map escapeCSVText r)) rows)) = rows"
proof (induction rows rule: induct_list012)
  case (2 r)
  then show ?case using readCSV_row[of r "[]" "[]"] by simp
next
  case (3 r r' rs)
  then show ?case
    using readCSV_row[of r "[10] @ joinWith [10] (map (\<lambda>r. joinWith [44] (map escapeCSVText r)) (r' # rs))" "[]"] by simp
qed simp



end
