(* ===== verification/SfHeaders.thy ===== *)
theory SfHeaders
  imports StructuredFields CacheControl
begin

text \<open>
  Header fields that are structured fields: \<open>src/structured-field-helpers.ts\<close>,
  \<open>src/structured-field-params.ts\<close>, \<open>src/structured-field-schema.ts\<close>, and on them \<open>src/priority.ts\<close>
  (RFC 9218), \<open>src/client-hints.ts\<close> (RFC 8942), \<open>src/cache-groups.ts\<close> (RFC 9875), \<open>src/cache-status.ts\<close>
  (RFC 9211), \<open>src/proxy-status.ts\<close> (RFC 9209), \<open>src/deprecation.ts\<close> (RFC 9745) and \<open>src/headers.ts\<close>.
  A parameter object is the list of its properties; the mapping of schemas to look-up tables, a memo of a
  pure function of the schema, is computed each time.
\<close>

datatype sfHeaderError =
    SfSerialize sfError
  | InvalidUrgency jsnum
  | InvalidHint jsstr
  | InvalidKeyToken jsstr
  | InvalidIntegerParam jsnum
  | InvalidParamType
  | InvalidLatin1 nat nat         \<comment> \<open>the code and the index\<close>
  | VaryEmpty nat
  | VaryName nat jsstr
  | VaryStar
  | RetryNotFinite jsnum
  | RetryNotInteger jsnum
  | RetryNegative jsnum

definition serialized :: "sfError + 'a \<Rightarrow> sfHeaderError + 'a" where
  "serialized r = (case r of Inl e \<Rightarrow> Inl (SfSerialize e) | Inr v \<Rightarrow> Inr v)"

lemma serialized_simps [simp]: "serialized (Inl e) = Inl (SfSerialize e)" "serialized (Inr v) = Inr v"
  by (simp_all add: serialized_def)

section \<open>Helpers\<close>

definition isSfItem :: "sfMember \<Rightarrow> bool" where
  "isSfItem member = (case member of ItemMember _ \<Rightarrow> True | ListMember _ \<Rightarrow> False)"

definition isSfTokenText :: "jsstr \<Rightarrow> bool" where "isSfTokenText v = sfTokenText v"
definition isSfKeyText :: "jsstr \<Rightarrow> bool" where "isSfKeyText v = sfKeyText v"

definition expectSfItem :: "sfMember \<Rightarrow> sfItem option" where
  "expectSfItem member = (case member of ItemMember item \<Rightarrow> Some item | ListMember _ \<Rightarrow> None)"

definition hasNoSfParams :: "sfItem \<Rightarrow> bool" where
  "hasNoSfParams item = (case itemParams item of None \<Rightarrow> True | Some ps \<Rightarrow> ps = [])"

definition isSfInteger :: "jsnum \<Rightarrow> bool" where
  "isSfInteger v \<longleftrightarrow> isIntegerNum v \<and> isFiniteNum v"

text \<open>\<open>key in object\<close> is true of the members of \<open>Object.prototype\<close> too.\<close>

definition prototypeKeys :: "jsstr list" where
  "prototypeKeys =
     map lit [''constructor'', ''hasOwnProperty'', ''isPrototypeOf'', ''propertyIsEnumerable'', ''toLocaleString'',
       ''toString'', ''valueOf'', ''__proto__'', ''__defineGetter__'', ''__defineSetter__'', ''__lookupGetter__'',
       ''__lookupSetter__'']"

definition keyIn :: "jsstr \<Rightarrow> (jsstr \<times> 'v) list \<Rightarrow> bool" where
  "keyIn key object \<longleftrightarrow> hasOwnKey object key \<or> key \<in> set prototypeKeys"

definition mergeSfExtensions :: "sfParams \<Rightarrow> sfParams option \<Rightarrow> sfParams" where
  "mergeSfExtensions target extensions =
     (case extensions of
        None \<Rightarrow> target
      | Some es \<Rightarrow> foldl (\<lambda>t (key, v). if \<not> keyIn key t then objPut key v t else t) target es)"

section \<open>Parameters by schema\<close>

text \<open>
  The properties a schema maps are booleans, texts or numbers; \<open>parse\<close> gives \<open>undefined\<close> for a bare item of
  the wrong type. The result is the object of the mapped properties with the remaining parameters.
\<close>

datatype paramValue = PBool bool | PText jsstr | PNum jsnum

record schemaEntry =
  seKey :: jsstr
  seProperty :: jsstr
  seParse :: "sfBareItem \<Rightarrow> paramValue option"
  seFormat :: "paramValue \<Rightarrow> sfHeaderError + sfBareItem"

record mappedParams =
  mpProperties :: "(jsstr \<times> paramValue) list"
  mpExtensions :: "sfParams option"

definition schemaLookup :: "schemaEntry list \<Rightarrow> jsstr \<Rightarrow> schemaEntry option" where
  "schemaLookup schema key = List.find (\<lambda>e. seKey e = key) (rev schema)"

definition parseSfParam :: "schemaEntry list \<Rightarrow> mappedParams \<Rightarrow> jsstr \<times> sfBareItem \<Rightarrow> mappedParams" where
  "parseSfParam schema r p =
     (case schemaLookup schema (fst p) of
        None \<Rightarrow>
          r\<lparr>mpExtensions := Some (objPut (fst p) (snd p) (case mpExtensions r of None \<Rightarrow> [] | Some es \<Rightarrow> es))\<rparr>
      | Some entry \<Rightarrow>
          case seParse entry (snd p) of
            None \<Rightarrow> r
          | Some v \<Rightarrow> r\<lparr>mpProperties := objPut (seProperty entry) v (mpProperties r)\<rparr>)"

definition parseSfParamsBySchema :: "sfParams option \<Rightarrow> schemaEntry list \<Rightarrow> mappedParams" where
  "parseSfParamsBySchema params schema =
     foldl (parseSfParam schema) \<lparr>mpProperties = [], mpExtensions = None\<rparr> (case params of None \<Rightarrow> [] | Some ps \<Rightarrow> ps)"

datatype knownKeyProtection = MappedOnly | MappedAndUnset

definition buildEntry :: "mappedParams \<Rightarrow> sfParams \<Rightarrow> schemaEntry \<Rightarrow> sfHeaderError + sfParams" where
  "buildEntry params result entry =
     (case map_of (mpProperties params) (seProperty entry) of
        None \<Rightarrow> Inr result
      | Some v \<Rightarrow> andThen (seFormat entry v) (\<lambda>b. Inr (objPut (seKey entry) b result)))"

definition addExtension :: "schemaEntry list \<Rightarrow> knownKeyProtection \<Rightarrow> sfParams \<Rightarrow> jsstr \<times> sfBareItem \<Rightarrow> sfParams" where
  "addExtension schema protection result p =
     (if protection = MappedAndUnset \<and> fst p \<in> seKey ` set schema then result
      else if keyIn (fst p) result then result
      else objPut (fst p) (snd p) result)"

text \<open>An object that is not created because nothing was stored is \<open>undefined\<close>; one created and left empty is
  serialized alike.\<close>

definition buildSfParamsBySchema ::
  "mappedParams \<Rightarrow> schemaEntry list \<Rightarrow> knownKeyProtection \<Rightarrow> sfHeaderError + sfParams option"
where
  "buildSfParamsBySchema params schema protection =
     andThen (foldR (buildEntry params) [] schema) (\<lambda>result.
       let es = (case mpExtensions params of None \<Rightarrow> [] | Some es \<Rightarrow> es);
           full = foldl (addExtension schema protection) result es
       in Inr (if full = [] \<and> list_all (\<lambda>p. protection = MappedAndUnset \<and> fst p \<in> seKey ` set schema) es
               then None else Some full))"

section \<open>Cache-Status and Proxy-Status\<close>

definition plainFormat :: "paramValue \<Rightarrow> sfHeaderError + sfBareItem" where
  "plainFormat v = Inr (case v of PBool b \<Rightarrow> SfBoolean b | PText t \<Rightarrow> SfString t | PNum n \<Rightarrow> SfNumber n)"

definition boolParam :: "jsstr \<Rightarrow> schemaEntry" where
  "boolParam key =
     \<lparr>seKey = key, seProperty = key,
      seParse = (\<lambda>v. case v of SfBoolean b \<Rightarrow> Some (PBool b) | _ \<Rightarrow> None),
      seFormat = plainFormat\<rparr>"

definition integerParam :: "jsstr \<Rightarrow> jsstr \<Rightarrow> schemaEntry" where
  "integerParam key property =
     \<lparr>seKey = key, seProperty = property,
      seParse = (\<lambda>v. case v of SfNumber n \<Rightarrow> if isSfInteger n then Some (PNum n) else None | _ \<Rightarrow> None),
      seFormat = (\<lambda>v. case v of
         PNum n \<Rightarrow> if \<not> isSfInteger n then Inl (InvalidIntegerParam n) else Inr (SfNumber n)
       | _ \<Rightarrow> Inl InvalidParamType)\<rparr>"

definition textParse :: "sfBareItem \<Rightarrow> paramValue option" where
  "textParse v = (case v of SfString t \<Rightarrow> Some (PText t) | _ \<Rightarrow> None)"

definition textOrTokenParse :: "sfBareItem \<Rightarrow> paramValue option" where
  "textOrTokenParse v = (case v of SfString t \<Rightarrow> Some (PText t) | SfToken t \<Rightarrow> Some (PText t) | _ \<Rightarrow> None)"

definition tokenParse :: "sfBareItem \<Rightarrow> paramValue option" where
  "tokenParse v = (case v of SfToken t \<Rightarrow> Some (PText t) | _ \<Rightarrow> None)"

definition CACHE_STATUS_PARAM_SCHEMA :: "schemaEntry list" where
  "CACHE_STATUS_PARAM_SCHEMA =
     [boolParam (lit ''hit''),
      \<lparr>seKey = lit ''fwd'', seProperty = lit ''fwd'', seParse = tokenParse,
       seFormat = (\<lambda>v. case v of
          PText t \<Rightarrow> if \<not> isSfKeyText t then Inl (InvalidKeyToken t) else Inr (SfToken t)
        | _ \<Rightarrow> Inl InvalidParamType)\<rparr>,
      integerParam (lit ''fwd-status'') (lit ''fwdStatus''),
      integerParam (lit ''ttl'') (lit ''ttl''),
      boolParam (lit ''stored''),
      boolParam (lit ''collapsed''),
      \<lparr>seKey = lit ''key'', seProperty = lit ''key'', seParse = textParse, seFormat = plainFormat\<rparr>,
      \<lparr>seKey = lit ''detail'', seProperty = lit ''detail'', seParse = textOrTokenParse, seFormat = plainFormat\<rparr>]"

definition latin1Text :: "byte list \<Rightarrow> jsstr" where
  "latin1Text bs = map unat bs"

definition encodeProxyStatusBinaryValue :: "jsstr \<Rightarrow> sfHeaderError + byte list" where
  "encodeProxyStatusBinaryValue value =
     (case List.find (\<lambda>(c, i). 0xFF < c) (zip value [0..<length value]) of
        Some (c, i) \<Rightarrow> Inl (InvalidLatin1 c i)
      | None \<Rightarrow> Inr (map word_of_nat value))"

definition asTokenFormat :: "paramValue \<Rightarrow> sfHeaderError + sfBareItem" where
  "asTokenFormat v = (case v of PText t \<Rightarrow> Inr (SfToken t) | _ \<Rightarrow> Inl InvalidParamType)"

definition PROXY_STATUS_PARAM_SCHEMA :: "schemaEntry list" where
  "PROXY_STATUS_PARAM_SCHEMA =
     [\<lparr>seKey = lit ''error'', seProperty = lit ''error'', seParse = tokenParse, seFormat = asTokenFormat\<rparr>,
      \<lparr>seKey = lit ''next-hop'', seProperty = lit ''nextHop'', seParse = textOrTokenParse,
       seFormat = (\<lambda>v. case v of
          PText t \<Rightarrow> Inr (if isSfTokenText t then SfToken t else SfString t) | _ \<Rightarrow> plainFormat v)\<rparr>,
      \<lparr>seKey = lit ''next-protocol'', seProperty = lit ''nextProtocol'',
       seParse = (\<lambda>v. case v of SfToken t \<Rightarrow> Some (PText t) | SfBytes bs \<Rightarrow> Some (PText (latin1Text bs)) | _ \<Rightarrow> None),
       seFormat = (\<lambda>v. case v of
          PText t \<Rightarrow> if isSfTokenText t then Inr (SfToken t)
                     else andThen (encodeProxyStatusBinaryValue t) (\<lambda>bs. Inr (SfBytes bs))
        | _ \<Rightarrow> Inl InvalidParamType)\<rparr>,
      integerParam (lit ''received-status'') (lit ''receivedStatus''),
      \<lparr>seKey = lit ''details'', seProperty = lit ''details'', seParse = textParse,
       seFormat = (\<lambda>v. case v of PText t \<Rightarrow> Inr (SfString t) | _ \<Rightarrow> Inl InvalidParamType)\<rparr>,
      \<lparr>seKey = lit ''rcode'', seProperty = lit ''rcode'', seParse = tokenParse, seFormat = asTokenFormat\<rparr>,
      integerParam (lit ''info-code'') (lit ''infoCode''),
      integerParam (lit ''alert-id'') (lit ''alertId''),
      \<lparr>seKey = lit ''alert-message'', seProperty = lit ''alertMessage'', seParse = textOrTokenParse,
       seFormat = plainFormat\<rparr>]"

definition PROXY_ERROR_TYPES :: "jsstr list" where
  "PROXY_ERROR_TYPES =
     map lit [''dns_timeout'', ''dns_error'', ''destination_not_found'', ''destination_unavailable'',
       ''destination_ip_prohibited'', ''destination_ip_unroutable'', ''connection_refused'',
       ''connection_terminated'', ''connection_timeout'', ''connection_read_timeout'',
       ''connection_write_timeout'', ''connection_limit_reached'', ''tls_protocol_error'',
       ''tls_certificate_error'', ''tls_alert_received'', ''http_request_error'', ''http_request_denied'',
       ''http_response_incomplete'', ''http_response_header_section_size'', ''http_response_header_size'',
       ''http_response_body_size'', ''http_response_trailer_section_size'', ''http_response_trailer_size'',
       ''http_response_transfer_coding'', ''http_response_content_coding'', ''http_response_timeout'',
       ''http_upgrade_failed'', ''http_protocol_error'', ''proxy_internal_response'', ''proxy_internal_error'',
       ''proxy_configuration_error'', ''proxy_loop_detected'']"

definition isProxyErrorType :: "jsstr \<Rightarrow> bool" where
  "isProxyErrorType value \<longleftrightarrow> value \<in> set PROXY_ERROR_TYPES"

text \<open>One entry of either field: the name of the intermediary and its parameters.\<close>

record statusEntry =
  seName :: jsstr
  seParams :: mappedParams

definition parseStatusMember :: "schemaEntry list \<Rightarrow> sfMember \<Rightarrow> statusEntry option" where
  "parseStatusMember schema member =
     (case expectSfItem member of
        None \<Rightarrow> None
      | Some item \<Rightarrow>
          case itemValue item of
            SfString t \<Rightarrow> Some \<lparr>seName = t, seParams = parseSfParamsBySchema (itemParams item) schema\<rparr>
          | SfToken t \<Rightarrow> Some \<lparr>seName = t, seParams = parseSfParamsBySchema (itemParams item) schema\<rparr>
          | _ \<Rightarrow> None)"

fun mapO :: "('a \<Rightarrow> 'b option) \<Rightarrow> 'a list \<Rightarrow> 'b list option" where
  "mapO f [] = Some []"
| "mapO f (x # xs) = (case f x of None \<Rightarrow> None | Some y \<Rightarrow> map_option (Cons y) (mapO f xs))"

definition parseCacheStatus :: "jsstr \<Rightarrow> statusEntry list option" where
  "parseCacheStatus header =
     (if isEmptyHeader (Some header) then Some []
      else case parseSfList header of
             None \<Rightarrow> None
           | Some list \<Rightarrow> mapO (parseStatusMember CACHE_STATUS_PARAM_SCHEMA) list)"

definition parseProxyStatus :: "jsstr \<Rightarrow> statusEntry list option" where
  "parseProxyStatus header =
     (if isEmptyHeader (Some header) then Some []
      else case parseSfList header of
             None \<Rightarrow> None
           | Some list \<Rightarrow> mapO (parseStatusMember PROXY_STATUS_PARAM_SCHEMA) list)"

definition buildStatusMember :: "schemaEntry list \<Rightarrow> knownKeyProtection \<Rightarrow> statusEntry \<Rightarrow> sfHeaderError + sfMember" where
  "buildStatusMember schema protection entry =
     andThen (buildSfParamsBySchema (seParams entry) schema protection) (\<lambda>params.
       Inr (ItemMember \<lparr>itemValue = SfToken (seName entry), itemParams = params\<rparr>))"

definition formatCacheStatus :: "statusEntry list \<Rightarrow> sfHeaderError + jsstr" where
  "formatCacheStatus entries =
     andThen (mapR (buildStatusMember CACHE_STATUS_PARAM_SCHEMA MappedAndUnset) entries) (\<lambda>list.
       serialized (serializeSfList list))"

definition formatProxyStatus :: "statusEntry list \<Rightarrow> sfHeaderError + jsstr" where
  "formatProxyStatus entries =
     andThen (mapR (buildStatusMember PROXY_STATUS_PARAM_SCHEMA MappedOnly) entries) (\<lambda>list.
       serialized (serializeSfList list))"

section \<open>Priority\<close>

record PriorityField =
  urgency :: "jsnum option"
  incremental :: "bool option"

record RequiredPriority =
  requiredUrgency :: jsnum
  requiredIncremental :: bool

definition isValidUrgency :: "jsnum \<Rightarrow> bool" where
  "isValidUrgency v \<longleftrightarrow> isIntegerNum v \<and> Fin 0 \<le> v \<and> v \<le> Fin 7"

definition parsePriority :: "jsstr \<Rightarrow> PriorityField option" where
  "parsePriority header =
     (if header = [] \<or> jsTrim header = [] then None
      else
        case parseSfDict (jsTrim header) of
          None \<Rightarrow> None
        | Some dict \<Rightarrow>
            Some \<lparr>urgency = (case map_of dict (lit ''u'') of
                     Some (ItemMember item) \<Rightarrow>
                       (case itemValue item of SfNumber n \<Rightarrow> if isValidUrgency n then Some n else None | _ \<Rightarrow> None)
                   | _ \<Rightarrow> None),
                  incremental = (case map_of dict (lit ''i'') of
                     Some (ItemMember item) \<Rightarrow> (case itemValue item of SfBoolean b \<Rightarrow> Some b | _ \<Rightarrow> None)
                   | _ \<Rightarrow> None)\<rparr>)"

definition overlayPriority :: "RequiredPriority \<Rightarrow> PriorityField option \<Rightarrow> RequiredPriority" where
  "overlayPriority merged priority =
     (case priority of
        None \<Rightarrow> merged
      | Some p \<Rightarrow>
          \<lparr>requiredUrgency = (case urgency p of
               Some u \<Rightarrow> if isValidUrgency u then u else requiredUrgency merged | None \<Rightarrow> requiredUrgency merged),
           requiredIncremental = (case incremental p of Some i \<Rightarrow> i | None \<Rightarrow> requiredIncremental merged)\<rparr>)"

definition applyPriorityDefaults :: "PriorityField option \<Rightarrow> RequiredPriority" where
  "applyPriorityDefaults priority =
     overlayPriority \<lparr>requiredUrgency = Fin 3, requiredIncremental = False\<rparr> priority"

definition mergePriority :: "PriorityField option \<Rightarrow> PriorityField option \<Rightarrow> RequiredPriority" where
  "mergePriority clientPriority serverPriority =
     overlayPriority (applyPriorityDefaults clientPriority) serverPriority"

definition formatPriority :: "PriorityField \<Rightarrow> sfHeaderError + jsstr" where
  "formatPriority priority =
     andThen
       (case urgency priority of
          None \<Rightarrow> Inr []
        | Some u \<Rightarrow> if \<not> isValidUrgency u then Inl (InvalidUrgency u) else Inr [(lit ''u'', plainItem (SfNumber u))])
       (\<lambda>dict.
         let full = (case incremental priority of
                       None \<Rightarrow> dict | Some i \<Rightarrow> dict @ [(lit ''i'', plainItem (SfBoolean i))])
         in serialized (serializeSfDict full))"

section \<open>Vary, Retry-After and Sunset\<close>

definition parseVaryFieldName :: "nat \<times> jsstr \<Rightarrow> sfHeaderError + jsstr" where
  "parseVaryFieldName raw =
     (let v = jsTrim (snd raw)
      in if v = [] then Inl (VaryEmpty (fst raw))
         else if v \<noteq> lit ''*'' \<and> \<not> TOKEN_CHARS v then Inl (VaryName (fst raw) (snd raw))
         else Inr v)"

definition parseVaryFieldNames :: "jsstr list \<Rightarrow> sfHeaderError + jsstr list" where
  "parseVaryFieldNames rawValues =
     andThen (mapR parseVaryFieldName (enumerate 0 rawValues)) (\<lambda>values.
       if lit ''*'' \<in> set values \<and> 1 < length values then Inl VaryStar else Inr values)"

datatype varyInput = VaryText jsstr | VaryNames "jsstr list"

fun varyRaw :: "varyInput \<Rightarrow> jsstr list" where
  "varyRaw (VaryText t) = splitOn 44 t"
| "varyRaw (VaryNames ns) = ns"

text \<open>One of the two loops: the set of lower-case keys seen and the names kept.\<close>

fun varyLoop :: "jsstr set \<Rightarrow> jsstr list \<Rightarrow> jsstr list \<Rightarrow> jsstr set \<times> jsstr list" where
  "varyLoop seen combined [] = (seen, combined)"
| "varyLoop seen combined (v # vs) =
     (let key = toLower v
      in if key \<notin> seen then varyLoop (insert key seen) (combined @ [v]) vs else varyLoop seen combined vs)"

definition mergeVary :: "jsstr option \<Rightarrow> varyInput \<Rightarrow> sfHeaderError + jsstr" where
  "mergeVary existing add =
     andThen (case existing of None \<Rightarrow> Inr [] | Some e \<Rightarrow> parseVaryFieldNames (splitOn 44 e)) (\<lambda>existingValues.
     andThen (parseVaryFieldNames (varyRaw add)) (\<lambda>addValues.
       if lit ''*'' \<in> set existingValues \<or> lit ''*'' \<in> set addValues then Inr (lit ''*'')
       else
         let (seen, combined) = varyLoop {} [] existingValues;
             (seen', all) = varyLoop seen combined addValues
         in Inr (joinWith (lit '', '') all)))"

datatype retryAfter = DelaySeconds jsnum | RetryDate int

definition parseRetryAfter :: "int \<Rightarrow> jsstr \<Rightarrow> retryAfter option" where
  "parseRetryAfter currentYear value =
     (if value = [] \<or> jsTrim value = [] then None
      else
        let trimmed = jsTrim value
        in if list_all isDigit trimmed then
             let seconds = numberOfParts False trimmed [] 0
             in Some (DelaySeconds (if seconds < Fin 0 then Fin 0 else seconds))
           else map_option RetryDate (parseHTTPDate currentYear trimmed))"

datatype retryInput = RetrySeconds jsnum | RetryAt jsDate

fun formatRetryAfter :: "retryInput \<Rightarrow> sfHeaderError + jsstr" where
  "formatRetryAfter (RetrySeconds v) =
     (if \<not> isFiniteNum v then Inl (RetryNotFinite v)
      else if \<not> isIntegerNum v then Inl (RetryNotInteger v)
      else if v < Fin 0 then Inl (RetryNegative v)
      else Inr (numToString v))"
| "formatRetryAfter (RetryAt d) = Inr (formatHTTPDate d)"

definition parseSunset :: "int \<Rightarrow> jsstr \<Rightarrow> int option" where
  "parseSunset currentYear value =
     (if value = [] \<or> jsTrim value = [] then None else parseHTTPDate currentYear (jsTrim value))"

definition formatSunset :: "jsDate \<Rightarrow> jsstr" where
  "formatSunset date = formatHTTPDate date"

text \<open>The current time, of \<open>Date.now()\<close>, is an argument; no comparison holds of the invalid date.\<close>

definition isSunsetImminent :: "int \<Rightarrow> jsDate option \<Rightarrow> int \<Rightarrow> bool" where
  "isSunsetImminent now sunset thresholdMs =
     (case sunset of None \<Rightarrow> False | Some d \<Rightarrow> (case d of None \<Rightarrow> False | Some t \<Rightarrow> t \<le> now + thresholdMs))"

section \<open>Deprecation\<close>

text \<open>\<open>new Date(seconds * 1000)\<close>: a time value beyond \<open>8.64e15\<close> is the invalid date.\<close>

definition dateOfSeconds :: "int \<Rightarrow> jsDate" where
  "dateOfSeconds s = (if \<bar>s * 1000\<bar> \<le> 8640000000000000 then Some (s * 1000) else None)"

definition parseDeprecation :: "jsstr \<Rightarrow> jsDate option" where
  "parseDeprecation value =
     (if value = [] \<or> jsTrim value = [] then None
      else
        case parseSfItem (jsTrim value) of
          None \<Rightarrow> None
        | Some item \<Rightarrow>
            case itemValue item of SfDate ts \<Rightarrow> Some (dateOfSeconds (intOfNum ts)) | _ \<Rightarrow> None)"

text \<open>\<open>SfDate.fromDate\<close> throws on the invalid date (\<open>Inl\<close> of no serializer error).\<close>

definition formatDeprecation :: "jsDate \<Rightarrow> sfHeaderError + jsstr" where
  "formatDeprecation date =
     (case date of
        None \<Rightarrow> Inl (InvalidIntegerParam NaN)
      | Some t \<Rightarrow>
          serialized (serializeSfItem \<lparr>itemValue = SfDate (Fin (of_int (t div 1000))), itemParams = None\<rparr>))"

definition isDeprecated :: "int \<Rightarrow> jsDate option \<Rightarrow> bool" where
  "isDeprecated now deprecation =
     (case deprecation of None \<Rightarrow> False | Some d \<Rightarrow> (case d of None \<Rightarrow> False | Some t \<Rightarrow> t \<le> now))"

definition validateDeprecationSunsetOrder :: "jsDate \<Rightarrow> jsDate \<Rightarrow> bool" where
  "validateDeprecationSunsetOrder deprecation sunset = notLater deprecation sunset"

definition buildDeprecationHeaders :: "jsDate \<Rightarrow> jsDate option \<Rightarrow> sfHeaderError + (jsstr \<times> jsstr) list" where
  "buildDeprecationHeaders deprecation sunset =
     andThen (formatDeprecation deprecation) (\<lambda>text.
       Inr ((lit ''Deprecation'', text) #
         (case sunset of None \<Rightarrow> [] | Some d \<Rightarrow> [(lit ''Sunset'', formatHTTPDate d)])))"

section \<open>Client hints\<close>

definition hintOf :: "sfMember \<Rightarrow> jsstr option" where
  "hintOf member =
     (case expectSfItem member of
        None \<Rightarrow> None
      | Some item \<Rightarrow>
          if \<not> hasNoSfParams item then None
          else
            case itemValue item of
              SfToken t \<Rightarrow> if \<not> isSfKeyText t then None else Some (toLower t)
            | _ \<Rightarrow> None)"

definition hintsOf :: "jsstr \<Rightarrow> jsstr list option" where
  "hintsOf header =
     (if header = [] \<or> jsTrim header = [] then None
      else case parseSfList header of None \<Rightarrow> None | Some list \<Rightarrow> mapO hintOf list)"

fun uniqueHints :: "jsstr set \<Rightarrow> jsstr list \<Rightarrow> jsstr list" where
  "uniqueHints seen [] = []"
| "uniqueHints seen (h # hs) = (if h \<notin> seen then h # uniqueHints (insert h seen) hs else uniqueHints seen hs)"

definition parseAcceptCH :: "jsstr list \<Rightarrow> jsstr list option" where
  "parseAcceptCH headers = map_option (\<lambda>hss. uniqueHints {} (concat hss)) (mapO hintsOf headers)"

definition formatAcceptCH :: "jsstr list \<Rightarrow> sfHeaderError + jsstr" where
  "formatAcceptCH hints =
     andThen
       (mapR (\<lambda>hint. let token = toLower hint
                      in if \<not> isSfKeyText token then Inl (InvalidHint hint) else Inr (plainItem (SfToken token))) hints)
       (\<lambda>list. serialized (serializeSfList list))"

definition filterClientHints :: "jsstr list \<Rightarrow> jsstr list \<Rightarrow> jsstr list" where
  "filterClientHints hints supported = filter (\<lambda>h. h \<in> set (map toLower supported)) (map toLower hints)"

definition mergeClientHintsVary :: "jsstr option \<Rightarrow> varyInput \<Rightarrow> sfHeaderError + jsstr" where
  "mergeClientHintsVary existing hints = mergeVary existing hints"

section \<open>Cache groups\<close>

text \<open>The origin of a URL (\<open>None\<close> when the text is no URL) is the platform's: an argument.\<close>

definition isSafeGroupMethod :: "jsstr \<Rightarrow> bool" where
  "isSafeGroupMethod method \<longleftrightarrow> toUpper (jsTrim method) \<in> set (map lit [''GET'', ''HEAD'', ''OPTIONS'', ''TRACE''])"

definition groupOf :: "sfMember \<Rightarrow> jsstr option" where
  "groupOf member =
     (case expectSfItem member of
        None \<Rightarrow> None
      | Some item \<Rightarrow> (case itemValue item of SfString t \<Rightarrow> Some t | _ \<Rightarrow> None))"

definition parseCacheGroupList :: "jsstr \<Rightarrow> jsstr list option" where
  "parseCacheGroupList value = (case parseSfList value of None \<Rightarrow> None | Some list \<Rightarrow> mapO groupOf list)"

definition formatCacheGroupList :: "jsstr list \<Rightarrow> sfHeaderError + jsstr" where
  "formatCacheGroupList groups = serialized (serializeSfList (map (\<lambda>g. plainItem (SfString g)) groups))"

definition parseCacheGroups :: "jsstr \<Rightarrow> jsstr list option" where
  "parseCacheGroups value = parseCacheGroupList value"

definition formatCacheGroups :: "jsstr list \<Rightarrow> sfHeaderError + jsstr" where
  "formatCacheGroups groups = formatCacheGroupList groups"

definition parseCacheGroupInvalidation :: "jsstr \<Rightarrow> jsstr option \<Rightarrow> jsstr list option" where
  "parseCacheGroupInvalidation value requestMethod =
     (case requestMethod of
        Some m \<Rightarrow> if isSafeGroupMethod m then Some [] else parseCacheGroupList value
      | None \<Rightarrow> parseCacheGroupList value)"

definition formatCacheGroupInvalidation :: "jsstr list \<Rightarrow> sfHeaderError + jsstr" where
  "formatCacheGroupInvalidation groups = formatCacheGroupList groups"

datatype originInput = OriginText jsstr | OriginUrl jsstr

fun toOriginString :: "(jsstr \<Rightarrow> jsstr option) \<Rightarrow> originInput \<Rightarrow> jsstr option" where
  "toOriginString urlOrigin (OriginUrl origin) = Some origin"
| "toOriginString urlOrigin (OriginText t) = urlOrigin t"

definition sharesCacheGroup ::
  "(jsstr \<Rightarrow> jsstr option) \<Rightarrow> jsstr list \<Rightarrow> originInput \<Rightarrow> jsstr list \<Rightarrow> originInput \<Rightarrow> bool"
where
  "sharesCacheGroup urlOrigin leftGroups leftOrigin rightGroups rightOrigin =
     (case (toOriginString urlOrigin leftOrigin, toOriginString urlOrigin rightOrigin) of
        (Some l, Some r) \<Rightarrow>
          if l = [] \<or> r = [] then False
          else if l \<noteq> r then False
          else list_ex (\<lambda>g. g \<in> set rightGroups) leftGroups
      | _ \<Rightarrow> False)"

end
