(* ===== verification/SfHeadersLaws.thy ===== *)
theory SfHeadersLaws
  imports SfHeaders CacheControlLaws
begin

text \<open>
  What the structured headers promise: parameters written by a schema are read back by it, so that
  Cache-Status and Proxy-Status survive a round trip; a priority is read back; Vary is merged as a set.
\<close>

section \<open>Schemas\<close>

lemma key_not_index: "sfKeyText k \<Longrightarrow> \<not> isIndexKey k"
  by (cases k) (auto simp: sfKeyText_def isIndexKey_def isKeyStart_def isDigit_def)

lemma objPut_fresh: "\<not> isIndexKey k \<Longrightarrow> k \<notin> fst ` set ps \<Longrightarrow> objPut k v ps = ps @ [(k, v)]"
  by (simp add: objPut_def hasOwnKey_def insertKey_last keyBefore_def)

text \<open>The mapped properties in the order of a schema.\<close>

definition presentIn :: "mappedParams \<Rightarrow> schemaEntry list \<Rightarrow> (jsstr \<times> paramValue) list" where
  "presentIn params es =
     List.map_filter (\<lambda>e. map_option (Pair (seProperty e)) (map_of (mpProperties params) (seProperty e))) es"

text \<open>Parameters that are written and read back: values of the domain in the order of the schema, and
  extensions under keys that neither the schema nor every object has.\<close>

definition carriedBy :: "schemaEntry list \<Rightarrow> (jsstr \<Rightarrow> paramValue \<Rightarrow> bool) \<Rightarrow> mappedParams \<Rightarrow> bool" where
  "carriedBy schema valueOk params \<longleftrightarrow>
     mpProperties params = presentIn params schema \<and> (\<forall>(p, v)\<in>set (mpProperties params). valueOk p v) \<and>
     (case mpExtensions params of
        None \<Rightarrow> True
      | Some es \<Rightarrow> es \<noteq> [] \<and> distinct (map fst es) \<and>
          (\<forall>(k, b)\<in>set es. sfKeyText k \<and> bareOk b \<and> k \<notin> seKey ` set schema \<and> k \<notin> set prototypeKeys))"

text \<open>
  The contract of a schema: distinct keys and properties, and every value of the domain is formatted as a
  bare item the format carries, which parses back.
\<close>

locale param_schema =
  fixes schema :: "schemaEntry list" and valueOk :: "jsstr \<Rightarrow> paramValue \<Rightarrow> bool"
  assumes keys: "distinct (map seKey schema)" "e \<in> set schema \<Longrightarrow> sfKeyText (seKey e)"
    and properties: "distinct (map seProperty schema)" "e \<in> set schema \<Longrightarrow> \<not> isIndexKey (seProperty e)"
    and format: "e \<in> set schema \<Longrightarrow> valueOk (seProperty e) v \<Longrightarrow>
      \<exists>b. seFormat e v = Inr b \<and> seParse e b = Some v \<and> bareOk b"
begin

lemma lookup: "e \<in> set schema \<Longrightarrow> schemaLookup schema (seKey e) = Some e"
proof -
  assume e: "e \<in> set schema"
  have d: "distinct (map seKey (rev schema))" using keys(1) by (simp add: rev_map[symmetric])
  have "e \<in> set xs \<Longrightarrow> distinct (map seKey xs) \<Longrightarrow> List.find (\<lambda>e'. seKey e' = seKey e) xs = Some e" for xs
    by (induction xs) (auto simp: rev_image_eqI)
  from this[OF _ d] e show ?thesis by (simp add: schemaLookup_def)
qed

lemma lookup_None: "k \<notin> seKey ` set schema \<Longrightarrow> schemaLookup schema k = None"
  by (auto simp: schemaLookup_def find_None_iff)

text \<open>The mapped part: what is built for the rest of the schema, and what reading it adds.\<close>

lemma build_entries:
  assumes "\<forall>(p, v)\<in>set (mpProperties params). valueOk p v"
  shows "set es \<subseteq> set schema \<Longrightarrow> distinct (map seKey es) \<Longrightarrow> distinct (map seProperty es) \<Longrightarrow>
    fst ` set acc \<inter> seKey ` set es = {} \<Longrightarrow>
    \<exists>built. foldR (buildEntry params) acc es = Inr (acc @ built) \<and> fst ` set built \<subseteq> seKey ` set es \<and>
      distinct (map fst built) \<and> list_all (\<lambda>(k, b). sfKeyText k \<and> bareOk b) built \<and>
      (\<forall>r. fst ` set (mpProperties r) \<inter> seProperty ` set es = {} \<longrightarrow>
         foldl (parseSfParam schema) r built = r\<lparr>mpProperties := mpProperties r @ presentIn params es\<rparr>)"
proof (induction es arbitrary: acc)
  case Nil
  show ?case by (intro exI[of _ "[]"]) (simp add: presentIn_def List.map_filter_simps)
next
  case (Cons e es)
  have e: "e \<in> set schema" "set es \<subseteq> set schema" "distinct (map seKey es)" "distinct (map seProperty es)"
    "seKey e \<notin> seKey ` set es" "seProperty e \<notin> seProperty ` set es" "seKey e \<notin> fst ` set acc"
    "fst ` set acc \<inter> seKey ` set es = {}"
    using Cons.prems by auto
  show ?case
  proof (cases "map_of (mpProperties params) (seProperty e)")
    case None
    from Cons.IH[OF e(2-4,8)] obtain built where b:
      "foldR (buildEntry params) acc es = Inr (acc @ built)" "fst ` set built \<subseteq> seKey ` set es"
      "distinct (map fst built)" "list_all (\<lambda>(k, b). sfKeyText k \<and> bareOk b) built"
      "\<forall>r. fst ` set (mpProperties r) \<inter> seProperty ` set es = {} \<longrightarrow>
         foldl (parseSfParam schema) r built = r\<lparr>mpProperties := mpProperties r @ presentIn params es\<rparr>" by blast
    have "presentIn params (e # es) = presentIn params es" using None by (simp add: presentIn_def List.map_filter_simps)
    moreover have "buildEntry params acc e = Inr acc" using None by (simp add: buildEntry_def)
    ultimately show ?thesis using b by (intro exI[of _ built]) auto
  next
    case (Some v)
    then have "valueOk (seProperty e) v" using assms by (auto dest: map_of_SomeD)
    from format[OF e(1) this] obtain b where f: "seFormat e v = Inr b" "seParse e b = Some v" "bareOk b" by blast
    have put: "objPut (seKey e) b acc = acc @ [(seKey e, b)]"
      by (rule objPut_fresh[OF key_not_index[OF keys(2)[OF e(1)]] e(7)])
    have "fst ` set (acc @ [(seKey e, b)]) \<inter> seKey ` set es = {}" using e(5,8) by auto
    from Cons.IH[OF e(2-4) this] obtain built where b:
      "foldR (buildEntry params) (acc @ [(seKey e, b)]) es = Inr ((acc @ [(seKey e, b)]) @ built)"
      "fst ` set built \<subseteq> seKey ` set es" "distinct (map fst built)"
      "list_all (\<lambda>(k, b). sfKeyText k \<and> bareOk b) built"
      "\<And>r. fst ` set (mpProperties r) \<inter> seProperty ` set es = {} \<Longrightarrow>
         foldl (parseSfParam schema) r built = r\<lparr>mpProperties := mpProperties r @ presentIn params es\<rparr>" by blast
    have read: "foldl (parseSfParam schema) r ((seKey e, b) # built) =
        r\<lparr>mpProperties := mpProperties r @ presentIn params (e # es)\<rparr>"
      if r: "fst ` set (mpProperties r) \<inter> seProperty ` set (e # es) = {}" for r
    proof -
      have "seProperty e \<notin> fst ` set (mpProperties r)" using r by auto
      from objPut_fresh[OF properties(2)[OF e(1)] this, of v]
      have step: "parseSfParam schema r (seKey e, b) = r\<lparr>mpProperties := mpProperties r @ [(seProperty e, v)]\<rparr>"
        by (simp add: parseSfParam_def lookup[OF e(1)] f(2))
      have "fst ` set (mpProperties (r\<lparr>mpProperties := mpProperties r @ [(seProperty e, v)]\<rparr>)) \<inter> seProperty ` set es = {}"
        using r e(6) by auto
      from b(5)[OF this] Some show ?thesis by (simp add: step presentIn_def List.map_filter_simps)
    qed
    have "foldR (buildEntry params) acc (e # es) = Inr (acc @ ((seKey e, b) # built))"
      using b(1) Some f(1) put by (simp add: buildEntry_def)
    with b(2-4) read f(3) e(5) keys(2)[OF e(1)] show ?thesis
      by (intro exI[of _ "(seKey e, b) # built"]) auto
  qed
qed

lemma add_extensions:
  "\<forall>k\<in>fst ` set es. sfKeyText k \<and> k \<notin> seKey ` set schema \<and> k \<notin> set prototypeKeys \<Longrightarrow>
    distinct (map fst es) \<Longrightarrow> fst ` set acc \<inter> fst ` set es = {} \<Longrightarrow>
    foldl (addExtension schema protection) acc es = acc @ es"
proof (induction es arbitrary: acc)
  case (Cons e es)
  then have "addExtension schema protection acc e = acc @ [e]"
    using objPut_fresh[OF key_not_index, of "fst e" acc "snd e"]
    by (auto simp: addExtension_def keyIn_def hasOwnKey_def image_iff)
  with Cons.IH[of "acc @ [e]"] Cons.prems show ?case by auto
qed simp

lemma read_entry_extensions:
  "\<forall>k\<in>fst ` set es. sfKeyText k \<and> k \<notin> seKey ` set schema \<Longrightarrow> distinct (map fst es) \<Longrightarrow>
    fst ` set (case mpExtensions r of None \<Rightarrow> [] | Some xs \<Rightarrow> xs) \<inter> fst ` set es = {} \<Longrightarrow> es \<noteq> [] \<Longrightarrow>
    foldl (parseSfParam schema) r es =
      r\<lparr>mpExtensions := Some ((case mpExtensions r of None \<Rightarrow> [] | Some xs \<Rightarrow> xs) @ es)\<rparr>"
proof (induction es arbitrary: r)
  case (Cons e es)
  have k: "sfKeyText (fst e)" "schemaLookup schema (fst e) = None" using Cons.prems(1) lookup_None by auto
  let ?xs = "case mpExtensions r of None \<Rightarrow> [] | Some xs \<Rightarrow> xs"
  have "fst e \<notin> fst ` set ?xs" using Cons.prems(3) by auto
  from objPut_fresh[OF key_not_index[OF k(1)] this]
  have s: "parseSfParam schema r e = r\<lparr>mpExtensions := Some (?xs @ [e])\<rparr>" by (simp add: parseSfParam_def k(2))
  show ?case
  proof (cases "es = []")
    case False
    have "foldl (parseSfParam schema) (r\<lparr>mpExtensions := Some (?xs @ [e])\<rparr>) es =
        r\<lparr>mpExtensions := Some ((?xs @ [e]) @ es)\<rparr>"
      using Cons.IH[of "r\<lparr>mpExtensions := Some (?xs @ [e])\<rparr>"] Cons.prems False by auto
    then show ?thesis by (simp add: s)
  qed (simp add: s)
qed simp

text \<open>The two directions of the schema are inverse to each other.\<close>

lemma schema_roundtrip:
  assumes "carriedBy schema valueOk params"
  shows "\<exists>ps. buildSfParamsBySchema params schema protection = Inr ps \<and> paramsOk ps \<and>
    parseSfParamsBySchema ps schema = params"
proof -
  have v: "\<forall>(p, v)\<in>set (mpProperties params). valueOk p v" and m: "mpProperties params = presentIn params schema"
    using assms by (simp_all add: carriedBy_def)
  let ?r = "\<lparr>mpProperties = [], mpExtensions = None\<rparr> :: mappedParams"
  from build_entries[OF v order_refl keys(1) properties(1), of "[]"] obtain built where b:
    "foldR (buildEntry params) [] schema = Inr built" "fst ` set built \<subseteq> seKey ` set schema"
    "distinct (map fst built)" "list_all (\<lambda>(k, b). sfKeyText k \<and> bareOk b) built"
    "foldl (parseSfParam schema) ?r built = ?r\<lparr>mpProperties := presentIn params schema\<rparr>" by fastforce
  show ?thesis
  proof (cases "mpExtensions params")
    case None
    then have "params = ?r\<lparr>mpProperties := presentIn params schema\<rparr>" using m by (cases params) simp
    with b None show ?thesis
      by (cases "built = []")
        (auto simp: buildSfParamsBySchema_def Let_def parseSfParamsBySchema_def paramsAll_def)
  next
    case (Some es)
    then have es: "es \<noteq> []" "distinct (map fst es)" "\<forall>(k, b)\<in>set es. sfKeyText k \<and> bareOk b"
      "\<forall>k\<in>fst ` set es. sfKeyText k \<and> k \<notin> seKey ` set schema \<and> k \<notin> set prototypeKeys"
      using assms by (auto simp: carriedBy_def)
    have dis: "fst ` set built \<inter> fst ` set es = {}" using b(2) es(4) by blast
    have "buildSfParamsBySchema params schema protection = Inr (Some (built @ es))"
      using b(1) Some es(1) add_extensions[OF es(4,2) dis] by (simp add: buildSfParamsBySchema_def Let_def)
    moreover have "paramsOk (Some (built @ es))"
      using b(3,4) es dis by (auto simp: paramsAll_def list_all_iff)
    moreover have "parseSfParamsBySchema (Some (built @ es)) schema = params"
      using b(5) es(2,4) read_entry_extensions[of es "?r\<lparr>mpProperties := presentIn params schema\<rparr>"] es(1) Some m
      by (cases params) (auto simp: parseSfParamsBySchema_def)
    ultimately show ?thesis by blast
  qed
qed

end


section \<open>Cache-Status and Proxy-Status\<close>

definition integerParamOk :: "paramValue \<Rightarrow> bool" where
  "integerParamOk v \<longleftrightarrow> (\<exists>n. v = PNum (Fin (of_int n)) \<and> \<bar>n\<bar> < 10 ^ 15)"

definition textParamOk :: "paramValue \<Rightarrow> bool" where
  "textParamOk v \<longleftrightarrow> (\<exists>t. v = PText t \<and> list_all visible t)"

definition cacheParamOk :: "jsstr \<Rightarrow> paramValue \<Rightarrow> bool" where
  "cacheParamOk property v \<longleftrightarrow>
     (if property \<in> {lit ''hit'', lit ''stored'', lit ''collapsed''} then (\<exists>b. v = PBool b)
      else if property = lit ''fwd'' then (\<exists>t. v = PText t \<and> sfKeyText t)
      else if property \<in> {lit ''fwdStatus'', lit ''ttl''} then integerParamOk v
      else property \<in> {lit ''key'', lit ''detail''} \<and> textParamOk v)"

definition proxyParamOk :: "jsstr \<Rightarrow> paramValue \<Rightarrow> bool" where
  "proxyParamOk property v \<longleftrightarrow>
     (if property \<in> {lit ''error'', lit ''rcode''} then (\<exists>t. v = PText t \<and> sfTokenText t)
      else if property = lit ''nextProtocol'' then (\<exists>t. v = PText t \<and> list_all (\<lambda>c. c < 256) t)
      else if property \<in> {lit ''receivedStatus'', lit ''infoCode'', lit ''alertId''} then integerParamOk v
      else property \<in> {lit ''nextHop'', lit ''details'', lit ''alertMessage''} \<and> textParamOk v)"

lemma keyText_token: "sfKeyText t \<Longrightarrow> sfTokenText t"
  by (cases t) (auto simp: sfKeyText_def sfTokenText_def isKeyStart_def isTokenStart_def list_all_iff
      intro: isKeyChar_token)

lemma integer_format:
  assumes "integerParamOk v"
  shows "\<exists>b. seFormat (integerParam k p) v = Inr b \<and> seParse (integerParam k p) b = Some v \<and> bareOk b"
  using assms by (auto simp: integerParamOk_def integerParam_def isSfInteger_def numberExact_def)

lemma bool_format: "\<exists>b. seFormat (boolParam k) (PBool x) = Inr b \<and> seParse (boolParam k) b = Some (PBool x) \<and> bareOk b"
  by (simp add: boolParam_def plainFormat_def)

lemma text_format:
  assumes "textParamOk v"
  shows "\<exists>b. plainFormat v = Inr b \<and> textParse b = Some v \<and> bareOk b"
    and "\<exists>b. plainFormat v = Inr b \<and> textOrTokenParse b = Some v \<and> bareOk b"
  using assms by (auto simp: textParamOk_def plainFormat_def textParse_def textOrTokenParse_def)

lemma param_names [simp]:
  "seKey (boolParam k) = k" "seProperty (boolParam k) = k"
  "seKey (integerParam k p) = k" "seProperty (integerParam k p) = p"
  by (simp_all add: boolParam_def integerParam_def)

interpretation cacheStatus: param_schema CACHE_STATUS_PARAM_SCHEMA cacheParamOk
proof
  show "distinct (map seKey CACHE_STATUS_PARAM_SCHEMA)" "distinct (map seProperty CACHE_STATUS_PARAM_SCHEMA)"
    by (simp_all add: CACHE_STATUS_PARAM_SCHEMA_def)
  show "sfKeyText (seKey e)" "\<not> isIndexKey (seProperty e)" if "e \<in> set CACHE_STATUS_PARAM_SCHEMA" for e
    using that by (auto simp: CACHE_STATUS_PARAM_SCHEMA_def sfKeyText_def isKeyStart_def isKeyChar_def
        isIndexKey_def isDigit_def)
  fix e v assume e: "e \<in> set CACHE_STATUS_PARAM_SCHEMA" and v: "cacheParamOk (seProperty e) v"
  from e consider (bool) k where "e = boolParam k" "k \<in> {lit ''hit'', lit ''stored'', lit ''collapsed''}"
    | (int) k p where "e = integerParam k p" "p \<in> {lit ''fwdStatus'', lit ''ttl''}"
    | (fwd) "e = CACHE_STATUS_PARAM_SCHEMA ! 1"
    | (key) "e = CACHE_STATUS_PARAM_SCHEMA ! 6"
    | (detail) "e = CACHE_STATUS_PARAM_SCHEMA ! 7"
    by (auto simp: CACHE_STATUS_PARAM_SCHEMA_def)
  then show "\<exists>b. seFormat e v = Inr b \<and> seParse e b = Some v \<and> bareOk b"
  proof cases
    case bool
    with v bool_format show ?thesis by (auto simp: cacheParamOk_def)
  next
    case int
    with v have "integerParamOk v" by (auto simp: cacheParamOk_def)
    with integer_format int show ?thesis by simp
  next
    case fwd
    with v keyText_token show ?thesis
      by (auto simp: cacheParamOk_def CACHE_STATUS_PARAM_SCHEMA_def isSfKeyText_def tokenParse_def)
  next
    case key
    with v text_format show ?thesis by (auto simp: cacheParamOk_def CACHE_STATUS_PARAM_SCHEMA_def)
  next
    case detail
    with v text_format show ?thesis by (auto simp: cacheParamOk_def CACHE_STATUS_PARAM_SCHEMA_def)
  qed
qed

lemma latin1_format:
  "list_all (\<lambda>c. c < 256) t \<Longrightarrow>
    encodeProxyStatusBinaryValue t = Inr (map word_of_nat t) \<and> latin1Text (map word_of_nat t) = t"
proof
  assume t: "list_all (\<lambda>c. c < 256) t"
  then have "List.find (\<lambda>(c, i). 0xFF < c) (zip t [0..<length t]) = None"
    by (force simp: find_None_iff list_all_iff dest: set_zip_leftD)
  then show "encodeProxyStatusBinaryValue t = Inr (map word_of_nat t)" by (simp add: encodeProxyStatusBinaryValue_def)
  show "latin1Text (map word_of_nat t) = t"
    unfolding latin1Text_def map_map by (rule map_idI) (use t in \<open>auto simp: list_all_iff unat_of_nat\<close>)
qed

lemma proxy_keys:
  "list_all (\<lambda>e. sfKeyText (seKey e) \<and> \<not> isIndexKey (seProperty e)) PROXY_STATUS_PARAM_SCHEMA"
  by (simp add: PROXY_STATUS_PARAM_SCHEMA_def sfKeyText_def isKeyStart_def isKeyChar_def isIndexKey_def isDigit_def)

lemma proxy_formats:
  "list_all (\<lambda>e. \<forall>v. proxyParamOk (seProperty e) v \<longrightarrow>
     (\<exists>b. seFormat e v = Inr b \<and> seParse e b = Some v \<and> bareOk b)) PROXY_STATUS_PARAM_SCHEMA"
proof -
  have ints: "proxyParamOk p v \<longrightarrow> (\<exists>b. seFormat (integerParam k p) v = Inr b \<and> seParse (integerParam k p) b = Some v \<and> bareOk b)"
    if "p \<in> {lit ''receivedStatus'', lit ''infoCode'', lit ''alertId''}" for k p v
  proof
    assume "proxyParamOk p v"
    with that have "integerParamOk v" by (auto simp: proxyParamOk_def)
    then show "\<exists>b. seFormat (integerParam k p) v = Inr b \<and> seParse (integerParam k p) b = Some v \<and> bareOk b"
      by (rule integer_format)
  qed
  note kinds = proxyParamOk_def tokenParse_def textParse_def textOrTokenParse_def asTokenFormat_def textParamOk_def
    isSfTokenText_def plainFormat_def
  show ?thesis
    unfolding PROXY_STATUS_PARAM_SCHEMA_def list.pred_inject param_names schemaEntry.simps
    by (intro conjI allI) (rule ints, simp | (insert latin1_format, auto simp: kinds)[1])+
qed

interpretation proxyStatus: param_schema PROXY_STATUS_PARAM_SCHEMA proxyParamOk
  by unfold_locales
    (use proxy_keys proxy_formats in \<open>auto simp: list_all_iff\<close>, simp_all add: PROXY_STATUS_PARAM_SCHEMA_def)

text \<open>The text of a field whose members are items with a token is not blank.\<close>

lemma statusText:
  assumes "members \<noteq> []" "list_all memberOk members"
    and "\<forall>m\<in>set members. \<exists>n ps. m = ItemMember \<lparr>itemValue = SfToken n, itemParams = ps\<rparr>"
  shows "\<exists>t. serializeSfList members = Inr t \<and> parseSfList t = Some members \<and> \<not> isEmptyHeader (Some t)"
proof -
  from listText[OF assms(2)] obtain t where t: "serializeSfList members = Inr t" "parseSfList t = Some members" by blast
  obtain n ps ms where m: "members = ItemMember \<lparr>itemValue = SfToken n, itemParams = ps\<rparr> # ms"
    using assms(1,3) by (cases members) auto
  from assms(2) m have "sfTokenText n" by (simp add: memberAll_def itemAll_def)
  then obtain c cs where n: "n = c # cs" "isTokenStart c" by (cases n) (auto simp: sfTokenText_def)
  obtain u where u: "mapR serializeMember members = Inr u" "t = joinWith (lit '', '') u"
    using t(1) by (auto simp: serializeSfList_def err_simps)
  then obtain w ws where w: "u = w # ws" "serializeMember (hd members) = Inr w"
    using m by (cases u) (auto split: sum.splits)
  then obtain r where "w = n @ r"
    using m n(2) n(1) by (auto simp: serializeMember_def serializeItem_def err_simps split: if_splits)
  with w(1) u(2) n obtain r' where "t = c # r'" by (cases ws) auto
  moreover have "\<not> isJsSpace c" using n(2) by (auto simp: isTokenStart_def isJsSpace_def)
  ultimately have "jsTrim t \<noteq> []" by (auto simp: jsTrim_def dropWhile_eq_Nil_conv)
  then have "\<not> isEmptyHeader (Some t)" by (auto simp: isEmptyHeader_def jsTrim_def)
  with t show ?thesis by blast
qed

lemma mapO_map: "(\<And>x. x \<in> set xs \<Longrightarrow> f (g x) = Some x) \<Longrightarrow> mapO f (map g xs) = Some xs"
  by (induction xs) auto

lemma status_members:
  assumes "\<And>e. e \<in> set entries \<Longrightarrow> \<exists>ps. buildSfParamsBySchema (seParams e) schema protection = Inr ps \<and>
      paramsOk ps \<and> parseSfParamsBySchema ps schema = seParams e"
    and "\<forall>e\<in>set entries. sfTokenText (seName e)" and "entries \<noteq> []"
  shows "\<exists>members t. mapR (buildStatusMember schema protection) entries = Inr members \<and>
    serializeSfList members = Inr t \<and> parseSfList t = Some members \<and> \<not> isEmptyHeader (Some t) \<and>
    mapO (parseStatusMember schema) members = Some entries"
proof -
  obtain ps where ps: "\<And>e. e \<in> set entries \<Longrightarrow> buildSfParamsBySchema (seParams e) schema protection = Inr (ps e) \<and>
      paramsOk (ps e) \<and> parseSfParamsBySchema (ps e) schema = seParams e"
    using assms(1) by metis
  let ?m = "\<lambda>e. ItemMember \<lparr>itemValue = SfToken (seName e), itemParams = ps e\<rparr>"
  have "mapR (buildStatusMember schema protection) entries = Inr (map ?m entries)"
    by (rule mapR_total) (simp add: buildStatusMember_def ps)
  moreover have "list_all memberOk (map ?m entries)"
    using ps assms(2) by (auto simp: list_all_iff memberAll_def itemAll_def)
  moreover have "mapO (parseStatusMember schema) (map ?m entries) = Some entries"
    by (rule mapO_map) (simp add: parseStatusMember_def expectSfItem_def ps)
  ultimately show ?thesis using statusText[of "map ?m entries"] assms(3) by auto
qed

text \<open>C22 (cache_status_roundtrip): Cache-Status entries named by tokens, with parameters of their types and
  extensions under other keys, are formatted to a field that parses to the same entries, parameters and
  extensions in order.\<close>

theorem cache_status_roundtrip:
  assumes "entries \<noteq> []" and "\<forall>e\<in>set entries. sfTokenText (seName e) \<and> carriedBy CACHE_STATUS_PARAM_SCHEMA cacheParamOk (seParams e)"
  shows "\<exists>t. formatCacheStatus entries = Inr t \<and> parseCacheStatus t = Some entries"
  using status_members[of entries CACHE_STATUS_PARAM_SCHEMA MappedAndUnset] cacheStatus.schema_roundtrip assms
  by (fastforce simp: formatCacheStatus_def parseCacheStatus_def)

lemma sampleStatus_carried:
  "carriedBy CACHE_STATUS_PARAM_SCHEMA cacheParamOk \<lparr>mpProperties = [(lit ''hit'', PBool True)], mpExtensions = Some [(lit ''x'', SfToken (lit ''y''))]\<rparr>"
  unfolding carriedBy_def presentIn_def
  by (simp add: CACHE_STATUS_PARAM_SCHEMA_def List.map_filter_simps
      cacheParamOk_def sfKeyText_def sfTokenText_def isKeyStart_def isTokenStart_def prototypeKeys_def) auto

theorem cache_status_roundtrip_witness:
  "\<exists>t. formatCacheStatus [\<lparr>seName = lit ''a'', seParams = \<lparr>mpProperties = [(lit ''hit'', PBool True)],
      mpExtensions = Some [(lit ''x'', SfToken (lit ''y''))]\<rparr>\<rparr>] = Inr t \<and>
    parseCacheStatus t = Some [\<lparr>seName = lit ''a'', seParams = \<lparr>mpProperties = [(lit ''hit'', PBool True)],
      mpExtensions = Some [(lit ''x'', SfToken (lit ''y''))]\<rparr>\<rparr>]"
  by (rule cache_status_roundtrip) (use sampleStatus_carried in \<open>simp_all add: sfTokenText_def isTokenStart_def\<close>)

text \<open>The same for Proxy-Status, whose next protocol is written as a token or as the
  bytes of its Latin-1 text, and whose next hop as a token or a string.\<close>

theorem proxy_status_roundtrip:
  assumes "entries \<noteq> []" and "\<forall>e\<in>set entries. sfTokenText (seName e) \<and> carriedBy PROXY_STATUS_PARAM_SCHEMA proxyParamOk (seParams e)"
  shows "\<exists>t. formatProxyStatus entries = Inr t \<and> parseProxyStatus t = Some entries"
  using status_members[of entries PROXY_STATUS_PARAM_SCHEMA MappedOnly] proxyStatus.schema_roundtrip assms
  by (fastforce simp: formatProxyStatus_def parseProxyStatus_def)

lemma sampleProxy_carried:
  "carriedBy PROXY_STATUS_PARAM_SCHEMA proxyParamOk \<lparr>mpProperties = [(lit ''nextProtocol'', PText [255, 32])], mpExtensions = None\<rparr>"
  unfolding carriedBy_def presentIn_def
  by (simp add: PROXY_STATUS_PARAM_SCHEMA_def List.map_filter_simps
      proxyParamOk_def)

theorem proxy_status_roundtrip_witness:
  "\<exists>t. formatProxyStatus [\<lparr>seName = lit ''p'', seParams = \<lparr>mpProperties = [(lit ''nextProtocol'', PText [255, 32])],
      mpExtensions = None\<rparr>\<rparr>] = Inr t \<and>
    parseProxyStatus t = Some [\<lparr>seName = lit ''p'', seParams = \<lparr>mpProperties = [(lit ''nextProtocol'', PText [255, 32])],
      mpExtensions = None\<rparr>\<rparr>]"
  by (rule proxy_status_roundtrip) (use sampleProxy_carried in \<open>simp_all add: sfTokenText_def isTokenStart_def\<close>)

text \<open>
  Two entries that are read and not written back: a name read from a string that is no token makes the
  serializer fail, and an extension under the name of a member of \<open>Object.prototype\<close> is dropped.
\<close>

lemma status_name_rejected:
  "parseStatusMember CACHE_STATUS_PARAM_SCHEMA (plainItem (SfString (lit ''a b''))) =
     Some \<lparr>seName = lit ''a b'', seParams = \<lparr>mpProperties = [], mpExtensions = None\<rparr>\<rparr>"
  "formatCacheStatus [\<lparr>seName = lit ''a b'', seParams = \<lparr>mpProperties = [], mpExtensions = None\<rparr>\<rparr>] =
     Inl (SfSerialize (SfInvalidToken (lit ''a b'')))"
  by (simp_all add: parseStatusMember_def plainItem_def expectSfItem_def parseSfParamsBySchema_def formatCacheStatus_def
      buildStatusMember_def buildSfParamsBySchema_def CACHE_STATUS_PARAM_SCHEMA_def buildEntry_def serializeSfList_def
      serializeMember_def serializeItem_def sfTokenText_def isTokenStart_def isTokenChar_def Let_def)

lemma status_extension_dropped:
  "parseSfParamsBySchema (Some [(lit ''constructor'', SfNumber (Fin 1))]) CACHE_STATUS_PARAM_SCHEMA =
     \<lparr>mpProperties = [], mpExtensions = Some [(lit ''constructor'', SfNumber (Fin 1))]\<rparr>"
  "buildSfParamsBySchema \<lparr>mpProperties = [], mpExtensions = Some [(lit ''constructor'', SfNumber (Fin 1))]\<rparr>
     CACHE_STATUS_PARAM_SCHEMA MappedAndUnset = Inr (Some [])"
  by (simp_all add: parseSfParamsBySchema_def parseSfParam_def schemaLookup_def CACHE_STATUS_PARAM_SCHEMA_def
      objPut_def hasOwnKey_def buildSfParamsBySchema_def buildEntry_def addExtension_def keyIn_def prototypeKeys_def
      Let_def)


section \<open>Vary\<close>

lemma varyLoop_names:
  "varyLoop (set (map toLower kept)) kept vs = (seen', kept') \<Longrightarrow> distinct (map toLower kept) \<Longrightarrow>
    seen' = set (map toLower kept') \<and> distinct (map toLower kept') \<and>
    set (map toLower kept') = set (map toLower (kept @ vs)) \<and> (\<exists>new. kept' = kept @ new \<and> set new \<subseteq> set vs)"
proof (induction vs arbitrary: kept)
  case (Cons v vs)
  show ?case
  proof (cases "toLower v \<in> set (map toLower kept)")
    case True
    with Cons show ?thesis by fastforce
  next
    case False
    then have "varyLoop (set (map toLower (kept @ [v]))) (kept @ [v]) vs = (seen', kept')"
      "distinct (map toLower (kept @ [v]))"
      using Cons.prems by simp_all
    from Cons.IH[OF this] show ?thesis by auto
  qed
qed simp

lemma varyLoop_known: "toLower ` set vs \<subseteq> seen \<Longrightarrow> varyLoop seen kept vs = (seen, kept)"
  by (induction vs) auto

lemma varyLoop_fresh:
  "distinct (map toLower vs) \<Longrightarrow> seen \<inter> toLower ` set vs = {} \<Longrightarrow>
    varyLoop seen kept vs = (seen \<union> toLower ` set vs, kept @ vs)"
  by (induction vs arbitrary: seen kept) auto

lemma parseVary_name:
  "parseVaryFieldName raw = Inr v \<longleftrightarrow> v = jsTrim (snd raw) \<and> v \<noteq> [] \<and> (v = lit ''*'' \<or> TOKEN_CHARS v)"
  by (auto simp: parseVaryFieldName_def Let_def)

lemma parseVary_names:
  assumes "parseVaryFieldNames raws = Inr vs" "lit ''*'' \<notin> set vs"
  shows "\<forall>v\<in>set vs. TOKEN_CHARS v" and "length vs = length raws"
proof -
  from assms have m: "mapR parseVaryFieldName (enumerate 0 raws) = Inr vs"
    by (auto simp: parseVaryFieldNames_def err_simps split: if_splits)
  from mapR_length[OF m] show "length vs = length raws" by simp
  from m have "list_all2 (\<lambda>r v. parseVaryFieldName r = Inr v) (enumerate 0 raws) vs" by (simp only: mapR_eq_Inr)
  then have "v = lit ''*'' \<or> TOKEN_CHARS v" if "v \<in> set vs" for v
    using that by (auto simp: list_all2_conv_all_nth in_set_conv_nth parseVary_name simp del: lit_simps)
  with assms(2) show "\<forall>v\<in>set vs. TOKEN_CHARS v" by blast
qed

lemma vary_text:
  assumes "names \<noteq> []" "\<forall>v\<in>set names. TOKEN_CHARS v" "lit ''*'' \<notin> set names"
  shows "parseVaryFieldNames (splitOn 44 (joinWith (lit '', '') names)) = Inr names"
proof -
  obtain n ns where n: "names = n # ns" using assms(1) by (cases names) auto
  let ?raws = "n # map (Cons 32) ns"
  have "joinWith (lit '', '') (n # ns) = joinWith [44] ?raws"
    by (induction ns arbitrary: n) (auto simp: joinWith_head)
  moreover have "splitOn 44 \<dots> = ?raws"
    using assms(2) token_plain by (intro splitOn_joinWith) (auto simp: n)
  ultimately have split: "splitOn 44 (joinWith (lit '', '') names) = ?raws" by (simp add: n)
  have trim: "map jsTrim ?raws = names"
    using assms(2) token_trim by (auto simp: n jsTrim_space intro!: map_idI)
  have "TOKEN_CHARS (jsTrim r)" "jsTrim r \<noteq> []" if "r \<in> set ?raws" for r
  proof -
    from that trim have "jsTrim r \<in> set names" by (metis image_eqI list.set_map)
    with assms(2) show "TOKEN_CHARS (jsTrim r)" "jsTrim r \<noteq> []" by (auto simp: TOKEN_CHARS_def)
  qed
  then have "mapR parseVaryFieldName (enumerate 0 ?raws) = Inr (map (\<lambda>r. jsTrim (snd r)) (enumerate 0 ?raws))"
  proof (intro mapR_total)
    fix x assume tc: "\<And>r. r \<in> set ?raws \<Longrightarrow> TOKEN_CHARS (jsTrim r)" "\<And>r. r \<in> set ?raws \<Longrightarrow> jsTrim r \<noteq> []"
      and "x \<in> set (enumerate 0 ?raws)"
    then have "snd x \<in> set ?raws" by (metis image_eqI list.set_map map_snd_enumerate)
    from tc[OF this] show "parseVaryFieldName x = Inr (jsTrim (snd x))" by (simp add: parseVary_name)
  qed
  also have "map (\<lambda>r. jsTrim (snd r)) (enumerate 0 ?raws) = map jsTrim (map snd (enumerate 0 ?raws))"
    by (simp only: map_map comp_def)
  finally have "mapR parseVaryFieldName (enumerate 0 ?raws) = Inr names" by (simp only: map_snd_enumerate trim)
  then show ?thesis unfolding split parseVaryFieldNames_def using assms(3) by simp
qed

text \<open>C23 (vary_merge): Merging field names into a Vary field gives the names of both, each once whatever its
  case, the existing ones first; the result parses to those names, and merging the same names again changes
  nothing.\<close>

theorem vary_merge:
  assumes "parseVaryFieldNames (splitOn 44 existing) = Inr xs" and "parseVaryFieldNames (varyRaw add) = Inr ys"
    and "lit ''*'' \<notin> set (xs @ ys)"
  shows "\<exists>names. mergeVary (Some existing) add = Inr (joinWith (lit '', '') names) \<and>
    distinct (map toLower names) \<and> set (map toLower names) = set (map toLower (xs @ ys)) \<and>
    parseVaryFieldNames (splitOn 44 (joinWith (lit '', '') names)) = Inr names \<and>
    mergeVary (Some (joinWith (lit '', '') names)) add = Inr (joinWith (lit '', '') names)"
proof -
  note star = assms(3)[unfolded set_append Un_iff de_Morgan_disj]
  note x = parseVary_names[OF assms(1) conjunct1[OF star]] and y = parseVary_names[OF assms(2) conjunct2[OF star]]
  obtain seen1 kept1 where l1: "varyLoop {} [] xs = (seen1, kept1)" by force
  with varyLoop_names[of "[]" xs seen1 kept1] have k1: "seen1 = set (map toLower kept1)" "distinct (map toLower kept1)"
    "set (map toLower kept1) = set (map toLower xs)" "set kept1 \<subseteq> set xs"
    by auto
  obtain seen2 names where l2: "varyLoop seen1 kept1 ys = (seen2, names)" by force
  with varyLoop_names[of kept1 ys seen2 names] k1 have k2: "distinct (map toLower names)"
    "set (map toLower names) = set (map toLower (kept1 @ ys))" "set names \<subseteq> set xs \<union> set ys" by auto
  have low: "set (map toLower names) = set (map toLower (xs @ ys))" using k1(3) k2(2) by auto
  have "xs \<noteq> []" using x(2) by auto
  with low have ne: "names \<noteq> []" by auto
  have tok: "\<forall>v\<in>set names. TOKEN_CHARS v" "lit ''*'' \<notin> set names" using k2(3) x(1) y(1) star by blast+
  note written = vary_text[OF ne tok]
  have m1: "mergeVary (Some existing) add = Inr (joinWith (lit '', '') names)"
    unfolding mergeVary_def option.case assms(1,2) andThen_simps l1 prod.case Let_def l2 using star by simp
  have "varyLoop {} [] names = (set (map toLower names), names)"
    using varyLoop_fresh[OF k2(1), of "{}" "[]"] by simp
  moreover have "varyLoop (set (map toLower names)) names ys = (set (map toLower names), names)"
    by (rule varyLoop_known) (simp add: low[unfolded set_map] image_Un)
  ultimately have m2: "mergeVary (Some (joinWith (lit '', '') names)) add = Inr (joinWith (lit '', '') names)"
    unfolding mergeVary_def option.case written assms(2) andThen_simps prod.case Let_def using star tok(2) by simp
  from m1 m2 k2(1) low written show ?thesis by blast
qed

theorem vary_merge_witness:
  "\<exists>names. mergeVary (Some (lit ''Accept'')) (VaryText (lit ''accept'')) = Inr (joinWith (lit '', '') names) \<and>
    set (map toLower names) = {lit ''accept''}"
proof -
  have p: "parseVaryFieldNames (splitOn 44 (lit ''Accept'')) = Inr [lit ''Accept'']"
    "parseVaryFieldNames (varyRaw (VaryText (lit ''accept''))) = Inr [lit ''accept'']"
    by (simp_all add: parseVaryFieldNames_def parseVaryFieldName_def jsTrim_def isJsSpace_def TOKEN_CHARS_def TOKEN_CHAR_def Let_def)
  have l: "toLower (lit ''Accept'') = lit ''accept''" "toLower (lit ''accept'') = lit ''accept''"
    by (simp_all add: toLower_def lowerUnit_def)
  have "lit ''*'' \<notin> set ([lit ''Accept''] @ [lit ''accept''])" by simp
  from vary_merge[OF p this] show ?thesis using l by (auto simp del: lit_simps)
qed

end
