(* ===== verification/Uri.thy ===== *)
theory Uri
  imports JsonPointer HeaderUtils
begin

text \<open>
  Percent encoding and URIs (RFC 3986): \<open>src/internal-percent-encoding.ts\<close>,
  \<open>src/internal-uri-encoding.ts\<close>, \<open>src/uri.ts\<close>, and the fragment form of JSON Pointers of
  \<open>src/json-pointer.ts\<close>. Bytes are numbers below 256; the lists of parts the code joins are the joined
  text. The URL parser of the platform is an argument.
\<close>

section \<open>Bytes and escapes\<close>

definition HEX_UPPER :: jsstr where
  "HEX_UPPER = lit ''0123456789ABCDEF''"

definition isHexDigitByte :: "nat \<Rightarrow> bool" where
  "isHexDigitByte b \<longleftrightarrow> (0x30 \<le> b \<and> b \<le> 0x39) \<or> (0x41 \<le> b \<and> b \<le> 0x46) \<or> (0x61 \<le> b \<and> b \<le> 0x66)"

definition isHexDigitChar :: "jsstr \<Rightarrow> bool" where
  "isHexDigitChar char = (case char of [c] \<Rightarrow> isHexDigitByte c | _ \<Rightarrow> False)"

definition toUpperHexChar :: "nat \<Rightarrow> cu" where
  "toUpperHexChar b = (if 0x61 \<le> b \<and> b \<le> 0x66 then b - 0x20 else b)"

definition formatPercentEncodedByte :: "nat \<Rightarrow> jsstr" where
  "formatPercentEncodedByte b = [cu CHR ''%'', HEX_UPPER ! (b div 16 mod 16), HEX_UPPER ! (b mod 16)]"

definition pushPercentEncodedByte :: "jsstr \<Rightarrow> nat \<Rightarrow> jsstr" where
  "pushPercentEncodedByte parts b = parts @ [cu CHR ''%'', HEX_UPPER ! (b div 16 mod 16), HEX_UPPER ! (b mod 16)]"

definition createAsciiAllowTable :: "jsstr \<Rightarrow> bool list" where
  "createAsciiAllowTable chars =
     foldl (\<lambda>table code. if code < 128 then table[code := True] else table) (replicate 128 False) chars"

record uriEncoding =
  allowTable :: "bool list"
  preservePctTriplets :: bool
  normalizePctHexUppercase :: bool

fun encodeLoop :: "uriEncoding \<Rightarrow> nat list \<Rightarrow> jsstr" where
  "encodeLoop opts [] = []"
| "encodeLoop opts (b # bs) =
     (if b < 128 \<and> allowTable opts ! b then b # encodeLoop opts bs
      else
        case bs of
          h1 # h2 # rest \<Rightarrow>
            if preservePctTriplets opts \<and> b = 0x25 \<and> isHexDigitByte h1 \<and> isHexDigitByte h2 then
              (if normalizePctHexUppercase opts
               then [cu CHR ''%'', toUpperHexChar h1, toUpperHexChar h2] else [cu CHR ''%'', h1, h2]) @
              encodeLoop opts rest
            else pushPercentEncodedByte [] b @ encodeLoop opts bs
        | _ \<Rightarrow> pushPercentEncodedByte [] b @ encodeLoop opts bs)"

definition encodeRfc3986 :: "jsstr \<Rightarrow> uriEncoding \<Rightarrow> jsstr" where
  "encodeRfc3986 value opts = (if value = [] then [] else encodeLoop opts (map unat (encodeUtf8 value)))"

text \<open>The bytes of a text, with its escapes resolved.\<close>

fun percentBytes :: "jsstr \<Rightarrow> byte list option" where
  "percentBytes [] = Some []"
| "percentBytes (c # cs) =
     (if c = cu CHR ''%'' then
        (case cs of
           h1 # h2 # rest \<Rightarrow>
             if isHexDigitByte h1 \<and> isHexDigitByte h2
             then map_option ((#) (word_of_nat (parseHex [h1, h2]))) (percentBytes rest) else None
         | _ \<Rightarrow> None)
      else
        case cs of
          d # rest \<Rightarrow>
            if isHighSurrogate c \<and> isLowSurrogate d
            then map_option ((@) (encodeUtf8 [c, d])) (percentBytes rest)
            else map_option ((@) (encodeUtf8 [c])) (percentBytes cs)
        | [] \<Rightarrow> Some (encodeUtf8 [c]))"

definition decodePercentComponent :: "jsstr \<Rightarrow> jsstr option" where
  "decodePercentComponent value =
     (if cu CHR ''%'' \<notin> set value then Some value
      else case percentBytes value of None \<Rightarrow> None | Some bytes \<Rightarrow> decodeUtf8 bytes)"

section \<open>Components of a URI\<close>

definition UNRESERVED_CHARS :: jsstr where
  "UNRESERVED_CHARS = lit ''ABCDEFGHIJKLMNOPQRSTUVWXYZabcdefghijklmnopqrstuvwxyz0123456789-._~''"

definition GEN_DELIMS :: jsstr where
  "GEN_DELIMS = lit '':/?#[]@''"

definition SUB_DELIMS :: jsstr where
  "SUB_DELIMS = lit ''!$&'' @ [39] @ lit ''()*+,;=''"

definition UNRESERVED_TABLE :: "bool list" where
  "UNRESERVED_TABLE = createAsciiAllowTable UNRESERVED_CHARS"

datatype uriComponent = PathComponent | QueryComponent | FragmentComponent | UserinfoComponent

definition COMPONENT_ALLOWED :: "uriComponent \<Rightarrow> jsstr" where
  "COMPONENT_ALLOWED component =
     (case component of
        PathComponent \<Rightarrow> SUB_DELIMS @ lit '':@''
      | QueryComponent \<Rightarrow> SUB_DELIMS @ lit '':@'' @ lit ''/?''
      | FragmentComponent \<Rightarrow> SUB_DELIMS @ lit '':@'' @ lit ''/?''
      | UserinfoComponent \<Rightarrow> SUB_DELIMS @ lit '':'')"

definition COMPONENT_ALLOW_TABLE :: "uriComponent \<Rightarrow> bool list" where
  "COMPONENT_ALLOW_TABLE component = createAsciiAllowTable (UNRESERVED_CHARS @ COMPONENT_ALLOWED component)"

definition DEFAULT_PORTS :: "(jsstr \<times> jsstr) list" where
  "DEFAULT_PORTS =
     [(lit ''http'', lit ''80''), (lit ''https'', lit ''443''), (lit ''ftp'', lit ''21''), (lit ''ws'', lit ''80''),
      (lit ''wss'', lit ''443'')]"

definition isUnreserved :: "jsstr \<Rightarrow> bool" where
  "isUnreserved char = (case char of [code] \<Rightarrow> code < 128 \<and> UNRESERVED_TABLE ! code | _ \<Rightarrow> False)"

definition isReserved :: "jsstr \<Rightarrow> bool" where
  "isReserved char = (case char of [c] \<Rightarrow> c \<in> set (GEN_DELIMS @ SUB_DELIMS) | _ \<Rightarrow> False)"

definition percentEncode :: "jsstr \<Rightarrow> uriComponent \<Rightarrow> jsstr" where
  "percentEncode str component =
     encodeRfc3986 str
       \<lparr>allowTable = COMPONENT_ALLOW_TABLE component, preservePctTriplets = True, normalizePctHexUppercase = True\<rparr>"

text \<open>Here the units are encoded one by one, so each half of a pair is the replacement character.\<close>

fun lenientBytes :: "jsstr \<Rightarrow> byte list" where
  "lenientBytes [] = []"
| "lenientBytes (c # cs) =
     (case cs of
        h1 # h2 # rest \<Rightarrow>
          if c = cu CHR ''%'' \<and> isHexDigitChar [h1] \<and> isHexDigitChar [h2]
          then word_of_nat (parseHex [h1, h2]) # lenientBytes rest
          else (if c < 128 then [word_of_nat c] else encodeUtf8 [c]) @ lenientBytes cs
      | _ \<Rightarrow> (if c < 128 then [word_of_nat c] else encodeUtf8 [c]) @ lenientBytes cs)"

definition percentDecode :: "jsstr \<Rightarrow> jsstr" where
  "percentDecode str =
     (if str = [] \<or> cu CHR ''%'' \<notin> set str then str
      else case decodeUtf8 (lenientBytes str) of Some s \<Rightarrow> s | None \<Rightarrow> str)"

section \<open>Dot segments\<close>

definition removeLastSegment :: "jsstr list \<Rightarrow> jsstr list" where
  "removeLastSegment out = butlast out"

definition segmentEnd :: "jsstr \<Rightarrow> nat" where
  "segmentEnd input =
     (case input of
        [] \<Rightarrow> 0
      | c # cs \<Rightarrow>
          if c = cu CHR ''/'' then Suc (length (takeWhile (\<lambda>x. x \<noteq> cu CHR ''/'') cs))
          else length (takeWhile (\<lambda>x. x \<noteq> cu CHR ''/'') input))"

lemma segmentEnd_pos: "input \<noteq> [] \<Longrightarrow> 0 < segmentEnd input"
  by (cases input) (auto simp: segmentEnd_def)

function dotLoop :: "jsstr \<Rightarrow> jsstr list \<Rightarrow> jsstr list" where
  "dotLoop input out =
     (if input = [] then out
      else if startsWith input (lit ''../'') then dotLoop (drop 3 input) out
      else if startsWith input (lit ''./'') then dotLoop (drop 2 input) out
      else if startsWith input (lit ''/./'') then dotLoop (lit ''/'' @ drop 3 input) out
      else if input = lit ''/.'' then dotLoop (lit ''/'') out
      else if startsWith input (lit ''/../'') then dotLoop (lit ''/'' @ drop 4 input) (removeLastSegment out)
      else if input = lit ''/..'' then dotLoop (lit ''/'') (removeLastSegment out)
      else if input = lit ''.'' \<or> input = lit ''..'' then dotLoop [] out
      else dotLoop (drop (segmentEnd input) input) (out @ [take (segmentEnd input) input]))"
  by pat_completeness auto
termination
  by (relation "measure (\<lambda>(input, _). length input)")
    (auto simp: startsWith_iff intro: diff_less segmentEnd_pos)

declare dotLoop.simps [simp del]

definition removeDotSegments :: "jsstr \<Rightarrow> jsstr" where
  "removeDotSegments path = (if path = [] then [] else concat (dotLoop path []))"

section \<open>Normalization\<close>

fun normalizeEscapes :: "jsstr \<Rightarrow> jsstr" where
  "normalizeEscapes [] = []"
| "normalizeEscapes (c # cs) =
     (case cs of
        h1 # h2 # rest \<Rightarrow>
          if c = cu CHR ''%'' \<and> isHexDigitChar [h1] \<and> isHexDigitChar [h2] then
            (let b = parseHex [h1, h2]
             in if b < 128 \<and> UNRESERVED_TABLE ! b then b # normalizeEscapes rest
                else [cu CHR ''%'', toUpperHexChar h1, toUpperHexChar h2] @ normalizeEscapes rest)
          else c # normalizeEscapes cs
      | _ \<Rightarrow> c # normalizeEscapes cs)"

definition normalizePercentEncoding :: "jsstr \<Rightarrow> jsstr" where
  "normalizePercentEncoding str = (if str = [] \<or> cu CHR ''%'' \<notin> set str then str else normalizeEscapes str)"

definition normalizeUriBasic :: "jsstr \<Rightarrow> jsstr" where
  "normalizeUriBasic uri =
     (let result = normalizePercentEncoding uri
      in case indexOfUnit (cu CHR ''/'') result of
           None \<Rightarrow> result
         | Some pathStart \<Rightarrow>
             let beforePath = take pathStart result;
                 path = drop pathStart result;
                 queryStart = indexOfUnit (cu CHR ''?'') path;
                 fragStart = indexOfUnit (cu CHR ''#'') path;
                 (path1, frag) = (case fragStart of None \<Rightarrow> (path, []) | Some f \<Rightarrow> (take f path, drop f path));
                 (path2, query) =
                   (case queryStart of
                      None \<Rightarrow> (path1, [])
                    | Some q \<Rightarrow>
                        if (case fragStart of None \<Rightarrow> True | Some f \<Rightarrow> q < f)
                        then (take q path1, drop q path1) else (path1, []))
             in beforePath @ removeDotSegments path2 @ query @ frag)"

definition hasUriAuthority :: "jsstr \<Rightarrow> bool" where
  "hasUriAuthority uri =
     (case indexOfUnit (cu CHR '':'') uri of
        None \<Rightarrow> False
      | Some schemeEnd \<Rightarrow> 0 < schemeEnd \<and> startsWith (drop (Suc schemeEnd) uri) (lit ''//''))"

text \<open>What the URL class of the platform reads from a text.\<close>

record urlParts =
  upProtocol :: jsstr
  upUsername :: jsstr
  upPassword :: jsstr
  upHostname :: jsstr
  upPort :: jsstr
  upPathname :: jsstr
  upSearch :: jsstr
  upHash :: jsstr

definition normalizeUri :: "(jsstr \<Rightarrow> urlParts option) \<Rightarrow> jsstr \<Rightarrow> jsstr" where
  "normalizeUri parseUrl uri =
     (if uri = [] then []
      else case parseUrl uri of
        None \<Rightarrow> normalizeUriBasic uri
      | Some url \<Rightarrow>
          let hasAuthority = hasUriAuthority uri;
              scheme = toLower (butlast (upProtocol url));
              host = toLower (upHostname url);
              port = (if map_of DEFAULT_PORTS scheme = Some (upPort url) then [] else upPort url);
              path0 = removeDotSegments (normalizePercentEncoding (upPathname url));
              path = (if hasAuthority \<and> path0 = [] then lit ''/'' else path0);
              query = (if upSearch url = [] then [] else lit ''?'' @ normalizePercentEncoding (tl (upSearch url)));
              frag = (if upHash url = [] then [] else lit ''#'' @ normalizePercentEncoding (tl (upHash url)));
              userinfo =
                (if upUsername url = [] then []
                 else normalizePercentEncoding (upUsername url) @
                   (if upPassword url = [] then [] else lit '':'' @ normalizePercentEncoding (upPassword url)) @ lit ''@'');
              authority =
                (if hasAuthority
                 then lit ''//'' @ userinfo @ host @ (if port = [] then [] else lit '':'' @ port) else [])
          in scheme @ lit '':'' @ authority @ path @ query @ frag)"

definition compareUris :: "(jsstr \<Rightarrow> urlParts option) \<Rightarrow> jsstr \<Rightarrow> jsstr \<Rightarrow> bool" where
  "compareUris parseUrl a b \<longleftrightarrow> a = b \<or> normalizeUri parseUrl a = normalizeUri parseUrl b"

section \<open>JSON Pointers as fragments\<close>

definition URI_FRAGMENT_ALLOW_CHARACTERS :: jsstr where
  "URI_FRAGMENT_ALLOW_CHARACTERS =
     lit ''/ABCDEFGHIJKLMNOPQRSTUVWXYZabcdefghijklmnopqrstuvwxyz0123456789-._~''"

definition toUriFragment :: "jsstr \<Rightarrow> jsstr" where
  "toUriFragment pointer =
     (if pointer = [] then lit ''#''
      else lit ''#'' @ encodeRfc3986 pointer
        \<lparr>allowTable = createAsciiAllowTable URI_FRAGMENT_ALLOW_CHARACTERS, preservePctTriplets = False,
         normalizePctHexUppercase = True\<rparr>)"

definition fromUriFragment :: "jsstr \<Rightarrow> jsstr option" where
  "fromUriFragment fragment =
     (let pointer = (if startsWith fragment (lit ''#'') then drop 1 fragment else fragment)
      in case decodePercentComponent pointer of
           None \<Rightarrow> None
         | Some decoded \<Rightarrow> if decoded = [] \<or> parseJsonPointer decoded \<noteq> None then Some decoded else None)"

end
