(* ===== verification/UriLaws.thy ===== *)
theory UriLaws
  imports Uri Base64
begin

text \<open>
  Laws of \<open>Uri\<close>: what an encoder writes, what the decoders read of it, the paths without dot segments.
\<close>

section \<open>Characters and tables\<close>

lemma allowTable_foldl:
  "length t = 128 \<Longrightarrow> c < 128 \<Longrightarrow>
    foldl (\<lambda>table code. if code < 128 then table[code := True] else table) t chars ! c = (t ! c \<or> c \<in> set chars)"
  by (induction chars arbitrary: t) (auto simp: nth_list_update)

lemma createAsciiAllowTable_nth [simp]: "c < 128 \<Longrightarrow> createAsciiAllowTable chars ! c = (c \<in> set chars)"
  by (simp add: createAsciiAllowTable_def allowTable_foldl)

lemma upperHex_nth: "n < 16 \<Longrightarrow> HEX_UPPER ! n = (if n < 10 then 48 + n else 55 + n)"
  unfolding HEX_UPPER_def lit_simps of_char_def
  by (auto simp: less_Suc_eq numeral_eq_Suc)

text \<open>The two digits of an escape.\<close>

lemma upperHex [simp]:
  assumes "n < 16"
  shows "isHexDigitByte (HEX_UPPER ! n)" "toUpperHexChar (HEX_UPPER ! n) = HEX_UPPER ! n" "hexVal (HEX_UPPER ! n) = n"
    "HEX_UPPER ! n < 128" "HEX_UPPER ! n \<noteq> 37"
  using assms by (auto simp: upperHex_nth isHexDigitByte_def toUpperHexChar_def hexVal_def)

lemma parseHex_pair: "parseHex [a, b] = 16 * hexVal a + hexVal b"
  by (simp add: parseHex_def)

lemma parseHex_upper [simp]: "b < 256 \<Longrightarrow> parseHex [HEX_UPPER ! (b div 16 mod 16), HEX_UPPER ! (b mod 16)] = b"
  by (simp add: parseHex_pair less_mult_imp_div_less)

lemma toUpperHexChar_hex [simp]:
  "isHexDigitByte h \<Longrightarrow> isHexDigitByte (toUpperHexChar h)"
  "toUpperHexChar (toUpperHexChar h) = toUpperHexChar h"
  by (auto simp: isHexDigitByte_def toUpperHexChar_def)

lemma isHexDigitByte_ascii: "isHexDigitByte h \<Longrightarrow> h < 128 \<and> h \<noteq> 37"
  by (auto simp: isHexDigitByte_def)

lemma hexVal_upper [simp]: "isHexDigitByte h \<Longrightarrow> hexVal (toUpperHexChar h) = hexVal h"
  by (auto simp: isHexDigitByte_def toUpperHexChar_def hexVal_def)

section \<open>Texts of ASCII characters\<close>

lemma encodeUtf8_ascii_Cons: "c < 128 \<Longrightarrow> encodeUtf8 (c # s) = word_of_nat c # encodeUtf8 s"
  by (simp add: encodeUtf8_def isHighSurrogate_def isLowSurrogate_def utf8Bytes_def)

lemma encodeUtf8_Nil [simp]: "encodeUtf8 [] = []"
  by (simp add: encodeUtf8_def)

lemma encodeUtf8_ascii: "list_all (\<lambda>c. c < 128) s \<Longrightarrow> encodeUtf8 s = map word_of_nat s"
  by (induction s) (simp_all add: encodeUtf8_ascii_Cons)

lemma bytes_ascii: "list_all (\<lambda>c. c < 128) s \<Longrightarrow> map unat (encodeUtf8 s) = s"
  by (induction s) (simp_all add: encodeUtf8_ascii_Cons unat_of_nat)

lemma ascii_units: "list_all (\<lambda>c. c < 128) s \<Longrightarrow> \<not> hasLoneSurrogate s \<and> list_all (\<lambda>c. c < 0x10000) s"
  by (induction s) (auto simp: isHighSurrogate_def isLowSurrogate_def)

lemma decodeUtf8_ascii: "list_all (\<lambda>c. c < 128) s \<Longrightarrow> decodeUtf8 (map word_of_nat s) = Some s"
  using decode_encode[of s] ascii_units[of s] by (cases s) (auto simp: encodeUtf8_ascii)

section \<open>What an encoder writes\<close>

text \<open>Characters of the table and escapes with two digits, in upper case where the options ask for it.\<close>

fun encodedText :: "bool list \<Rightarrow> jsstr \<Rightarrow> bool" where
  "encodedText table [] = True"
| "encodedText table (c # cs) =
     (if c = 37 then (case cs of h1 # h2 # rest \<Rightarrow>
         isHexDigitByte h1 \<and> isHexDigitByte h2 \<and> toUpperHexChar h1 = h1 \<and> toUpperHexChar h2 = h2 \<and>
         encodedText table rest
       | _ \<Rightarrow> False)
      else c < 128 \<and> table ! c \<and> encodedText table cs)"

lemma encodedText_escape [simp]: "encodedText table (pushPercentEncodedByte [] b @ t) = encodedText table t"
  by (simp add: pushPercentEncodedByte_def)

text \<open>The steps of the loop, and the induction they give.\<close>

lemma encodeLoop_cases:
  obtains (nothing) "bs = []"
    | (allowed) b rest where "bs = b # rest" "b < 128" "allowTable opts ! b"
        "encodeLoop opts bs = b # encodeLoop opts rest"
    | (triplet) h1 h2 rest where "bs = 37 # h1 # h2 # rest" "isHexDigitByte h1" "isHexDigitByte h2" "preservePctTriplets opts"
        "encodeLoop opts bs = (if normalizePctHexUppercase opts then [37, toUpperHexChar h1, toUpperHexChar h2] else [37, h1, h2]) @
          encodeLoop opts rest"
    | (escaped) b rest where "bs = b # rest"
        "encodeLoop opts bs = pushPercentEncodedByte [] b @ encodeLoop opts rest"
proof (cases bs)
  case (Cons b cs)
  consider "b < 128 \<and> allowTable opts ! b"
    | h1 h2 rest where "\<not> (b < 128 \<and> allowTable opts ! b)" "cs = h1 # h2 # rest" "preservePctTriplets opts" "b = 37"
        "isHexDigitByte h1" "isHexDigitByte h2"
    | "\<not> (b < 128 \<and> allowTable opts ! b)" "\<And>h1 h2 rest. cs = h1 # h2 # rest \<Longrightarrow>
        \<not> (preservePctTriplets opts \<and> b = 37 \<and> isHexDigitByte h1 \<and> isHexDigitByte h2)"
    by blast
  then show ?thesis
  proof cases
    case 1
    then show ?thesis using allowed[of b cs] Cons by simp
  next
    case 2
    then show ?thesis using triplet[of h1 h2 rest] Cons by simp
  next
    case 3
    have "encodeLoop opts bs = pushPercentEncodedByte [] b @ encodeLoop opts cs"
      unfolding Cons encodeLoop.simps(2) using 3 by (auto split: list.split simp del: encodeLoop.simps)
    then show ?thesis using escaped Cons by blast
  qed
qed (use nothing in simp)

lemma encodeLoop_encoded:
  assumes "normalizePctHexUppercase opts" and "\<not> allowTable opts ! 37"
  shows "list_all (\<lambda>b. b < 256) bs \<Longrightarrow> encodedText (allowTable opts) (encodeLoop opts bs)"
proof (induction bs rule: length_induct)
  case (1 bs)
  show ?case
  proof (cases rule: encodeLoop_cases[where bs = bs and opts = opts])
    case (allowed b rest)
    then show ?thesis using 1 assms by (cases "b = 37") auto
  next
    case (triplet h1 h2 rest)
    then show ?thesis using 1 assms by simp
  next
    case (escaped b rest)
    then show ?thesis using 1 by simp
  qed simp
qed

lemma encodedText_cases:
  assumes "encodedText table t"
  obtains (nothing) "t = []"
    | (plain) c cs where "t = c # cs" "c \<noteq> 37" "c < 128" "table ! c" "encodedText table cs"
    | (triplet) h1 h2 rest where "t = 37 # h1 # h2 # rest" "isHexDigitByte h1" "isHexDigitByte h2"
        "toUpperHexChar h1 = h1" "toUpperHexChar h2 = h2" "encodedText table rest"
proof (cases t)
  case (Cons c cs)
  show ?thesis
  proof (cases "c = 37")
    case True
    then obtain h1 h2 rest where "cs = h1 # h2 # rest" using assms Cons by (cases cs; cases "tl cs") auto
    then show ?thesis using triplet[of h1 h2 rest] assms Cons True by simp
  qed (use plain[of c cs] assms Cons in simp)
qed (use nothing in simp)

lemma encodeLoop_ascii: "encodedText table t \<Longrightarrow> list_all (\<lambda>c. c < 128) t"
proof (induction t rule: length_induct)
  case (1 t)
  from 1(2) show ?case
    by (cases rule: encodedText_cases) (use 1(1) in \<open>auto dest: isHexDigitByte_ascii\<close>)
qed

text \<open>An encoder that keeps escapes leaves what it wrote as it is.\<close>

lemma encodeLoop_fixed:
  assumes "preservePctTriplets opts" "normalizePctHexUppercase opts" "\<not> allowTable opts ! 37"
  shows "encodedText (allowTable opts) t \<Longrightarrow> encodeLoop opts t = t"
proof (induction t rule: length_induct)
  case (1 t)
  from 1(2) show ?case
    by (cases rule: encodedText_cases) (use 1(1) assms in simp_all)
qed

lemma encodeRfc3986_encoded:
  assumes "normalizePctHexUppercase opts" and "\<not> allowTable opts ! 37"
  shows "encodedText (allowTable opts) (encodeRfc3986 s opts)"
  using encodeLoop_encoded[OF assms unat_byte] by (simp add: encodeRfc3986_def)

lemma encodeRfc3986_fixed:
  assumes "preservePctTriplets opts" "normalizePctHexUppercase opts" "\<not> allowTable opts ! 37"
    and "encodedText (allowTable opts) t"
  shows "encodeRfc3986 t opts = t"
  using encodeLoop_fixed[OF assms] bytes_ascii[OF encodeLoop_ascii[OF assms(4)]] by (simp add: encodeRfc3986_def)

section \<open>Decoding what was encoded\<close>

lemma append_one: "(@) [x] = (#) x"
  by auto

lemma percentBytes_ascii:
  assumes "c < 128" "c \<noteq> 37"
  shows "percentBytes (c # cs) = map_option ((#) (word_of_nat c)) (percentBytes cs)"
proof -
  have "\<not> isHighSurrogate c" "encodeUtf8 [c] = [word_of_nat c]"
    using assms by (simp_all add: encodeUtf8_ascii_Cons isHighSurrogate_def)
  then show ?thesis using assms by (cases cs) (simp_all add: append_one)
qed

lemma percentBytes_escape:
  "b < 256 \<Longrightarrow> percentBytes (pushPercentEncodedByte [] b @ cs) = map_option ((#) (word_of_nat b)) (percentBytes cs)"
  using parseHex_upper[of b] by (simp add: pushPercentEncodedByte_def del: parseHex_upper)

lemma percentBytes_encodeLoop:
  assumes "\<not> allowTable opts ! 37"
  shows "\<not> preservePctTriplets opts \<or> 37 \<notin> set bs \<Longrightarrow> list_all (\<lambda>b. b < 256) bs \<Longrightarrow>
    percentBytes (encodeLoop opts bs) = Some (map word_of_nat bs)"
proof (induction bs rule: length_induct)
  case (1 bs)
  show ?case
  proof (cases rule: encodeLoop_cases[where bs = bs and opts = opts])
    case (allowed b rest)
    then show ?thesis using 1 assms by (cases "b = 37") (auto simp: percentBytes_ascii simp del: percentBytes.simps)
  next
    case (triplet h1 h2 rest)
    then show ?thesis using 1(2) by simp
  next
    case (escaped b rest)
    then show ?thesis using 1 by (auto simp: percentBytes_escape simp del: percentBytes.simps)
  qed simp
qed

lemma percentBytes_plain: "list_all (\<lambda>c. c < 128) t \<Longrightarrow> 37 \<notin> set t \<Longrightarrow> percentBytes t = Some (map word_of_nat t)"
  by (induction t) (auto simp: percentBytes_ascii simp del: percentBytes.simps(2))

definition utf8Text :: "jsstr \<Rightarrow> bool" where
  "utf8Text s \<longleftrightarrow> \<not> hasLoneSurrogate s \<and> list_all (\<lambda>c. c < 0x10000) s \<and> (s = [] \<or> hd s \<noteq> 0xFEFF)"

lemma decodePercent_encodeRfc3986:
  assumes "utf8Text s" and "\<not> allowTable opts ! 37" "normalizePctHexUppercase opts"
    and "\<not> preservePctTriplets opts \<or> 37 \<notin> set (map unat (encodeUtf8 s))"
  shows "decodePercentComponent (encodeRfc3986 s opts) = Some s"
proof -
  let ?t = "encodeLoop opts (map unat (encodeUtf8 s))"
  have d: "decodeUtf8 (encodeUtf8 s) = Some s" using assms(1) by (simp add: utf8Text_def decode_encode)
  have p: "percentBytes ?t = Some (encodeUtf8 s)"
    using percentBytes_encodeLoop[OF assms(2,4) unat_byte] by (simp add: comp_def)
  have a: "list_all (\<lambda>c. c < 128) ?t" using encodeLoop_ascii[OF encodeLoop_encoded[OF assms(3,2) unat_byte]] .
  have "decodePercentComponent ?t = Some s"
  proof (cases "37 \<in> set ?t")
    case False
    then have "encodeUtf8 s = map word_of_nat ?t" using p percentBytes_plain[OF a] by simp
    then show ?thesis using decodeUtf8_ascii[OF a] d False by (simp add: decodePercentComponent_def)
  qed (use p d in \<open>simp add: decodePercentComponent_def\<close>)
  then show ?thesis by (auto simp: encodeRfc3986_def decodePercentComponent_def)
qed

lemma codePoints_small: "n \<in> set (codePoints s) \<Longrightarrow> n < 128 \<Longrightarrow> n \<in> set s"
proof (induction s rule: codePoints.induct)
  case (2 c cs)
  have big: "n \<noteq> 0x10000 + k + l" "n \<noteq> 0xFFFD" for k l using 2(5) by simp_all
  show ?case
  proof (cases "isHighSurrogate c")
    case True
    show ?thesis
    proof (cases cs)
      case (Cons d ds)
      then show ?thesis using 2 True big by (cases "isLowSurrogate d") simp_all
    qed (use 2 True big in simp)
  next
    case False
    then show ?thesis using 2 big by (cases "isLowSurrogate c") auto
  qed
qed simp

lemma utf8Bytes_ascii: "b \<in> set (utf8Bytes n) \<Longrightarrow> b < 128 \<Longrightarrow> n = b"
  by (auto simp: utf8Bytes_def split: if_splits)

lemma encodeUtf8_no_percent:
  assumes "37 \<notin> set s" and "\<not> hasLoneSurrogate s" "list_all (\<lambda>c. c < 0x10000) s"
  shows "37 \<notin> set (map unat (encodeUtf8 s))"
proof
  assume "37 \<in> set (map unat (encodeUtf8 s))"
  then obtain n b where n: "n \<in> set (codePoints s)" "b \<in> set (utf8Bytes n)" "unat (word_of_nat b :: byte) = 37"
    by (auto simp: encodeUtf8_def)
  have "n < 0x110000" using codePoints_scalar[OF assms(2,3)] n(1) by (auto simp: list_all_iff isScalar_def)
  then have "b = 37" using utf8Bytes_small[OF _ n(2)] n(3) by (simp add: unat_of_nat)
  then show False using utf8Bytes_ascii[OF n(2)] codePoints_small[OF n(1)] assms(1) by simp
qed

section \<open>Paths without dot segments\<close>

text \<open>The segments of an absolute path with \<open>.\<close> and \<open>..\<close> resolved; the last one leaves an empty segment.\<close>

fun resolveDots :: "jsstr list \<Rightarrow> jsstr list \<Rightarrow> jsstr list" where
  "resolveDots stack [] = stack"
| "resolveDots stack [s] =
     (if s = lit ''.'' then stack @ [[]]
      else if s = lit ''..'' then butlast stack @ [[]]
      else stack @ [s])"
| "resolveDots stack (s # t # ss) =
     (if s = lit ''.'' then resolveDots stack (t # ss)
      else if s = lit ''..'' then resolveDots (butlast stack) (t # ss)
      else resolveDots (stack @ [s]) (t # ss))"

lemma takeWhile_segment: "47 \<notin> set s \<Longrightarrow> takeWhile (\<lambda>x. x \<noteq> 47) (s @ 47 # r) = s" "47 \<notin> set s \<Longrightarrow> takeWhile (\<lambda>x. x \<noteq> 47) s = s"
  by (induction s) auto

lemma segmentEnd_slash:
  "47 \<notin> set s \<Longrightarrow> segmentEnd (47 # s) = Suc (length s)"
  "47 \<notin> set s \<Longrightarrow> segmentEnd (47 # s @ 47 # r) = Suc (length s)"
  by (simp_all add: segmentEnd_def takeWhile_segment)

lemma dot_prefix:
  assumes "47 \<notin> set s"
  shows "startsWith (47 # s @ 47 # r) (lit ''/./'') \<longleftrightarrow> s = lit ''.''"
    "startsWith (47 # s @ 47 # r) (lit ''/../'') \<longleftrightarrow> s = lit ''..''"
    "47 # s @ 47 # r \<noteq> lit ''/.''" "47 # s @ 47 # r \<noteq> lit ''/..''"
    "\<not> startsWith (47 # s) (lit ''/./'')" "\<not> startsWith (47 # s) (lit ''/../'')"
  using assms by (cases s; cases "tl s"; cases "tl (tl s)"; force simp: startsWith_def)+

lemma dot_head: "\<not> startsWith (47 # s) (lit ''../'')" "\<not> startsWith (47 # s) (lit ''./'')"
    "47 # s \<noteq> lit ''.''" "47 # s \<noteq> lit ''..''"
  by (simp_all add: startsWith_def)

lemma dotLoop_segment:
  assumes "47 \<notin> set s"
  shows "dotLoop (47 # s @ 47 # r) out =
    (if s = lit ''.'' then dotLoop (47 # r) out
     else if s = lit ''..'' then dotLoop (47 # r) (butlast out)
     else dotLoop (47 # r) (out @ [47 # s]))"
  using dot_prefix[OF assms] segmentEnd_slash(2)[OF assms]
  by (subst dotLoop.simps) (simp add: dot_head removeLastSegment_def del: lit_simps, auto)

lemma dotLoop_last:
  assumes "47 \<notin> set s"
  shows "dotLoop (47 # s) out =
    (if s = lit ''.'' then out @ [[47]]
     else if s = lit ''..'' then butlast out @ [[47]]
     else out @ [47 # s])"
proof -
  have other: "dotLoop (47 # t) out' = out' @ [47 # t]" if "47 \<notin> set t" "t \<noteq> lit ''.''" "t \<noteq> lit ''..''" for t out'
  proof -
    have "47 # t \<noteq> lit ''/.''" "47 # t \<noteq> lit ''/..''" using that by auto
    then show ?thesis using dot_prefix(5,6)[OF that(1)] segmentEnd_slash(1)[OF that(1)]
      by (subst dotLoop.simps) (simp add: dot_head dotLoop.simps[of "[]"] del: lit_simps)
  qed
  have dot: "dotLoop (lit ''/.'') out = dotLoop (lit ''/'') out" "dotLoop (lit ''/..'') out = dotLoop (lit ''/'') (butlast out)"
    by (subst dotLoop.simps, simp add: startsWith_def removeLastSegment_def)+
  show ?thesis using other[OF assms] other[of "[]"] dot by auto
qed

lemma dotLoop_resolve:
  assumes "\<forall>s\<in>set ss. 47 \<notin> set s" and "ss \<noteq> []"
  shows "dotLoop (47 # joinWith [47] ss) (map ((#) 47) stack) = map ((#) 47) (resolveDots stack ss)"
  using assms
proof (induction stack ss rule: resolveDots.induct)
  case (2 stack s)
  then show ?case by (auto simp: dotLoop_last map_butlast)
next
  case (3 stack s t ss)
  then show ?case
    using dotLoop_segment[of s "joinWith [47] (t # ss)" "map ((#) 47) stack"]
    by (auto simp: map_butlast)
qed simp

lemma resolveDots_dotless:
  "s \<in> set (resolveDots stack ss) \<Longrightarrow> s \<in> set stack \<or> s = [] \<or> (s \<in> set ss \<and> s \<noteq> lit ''.'' \<and> s \<noteq> lit ''..'')"
  by (induction stack ss rule: resolveDots.induct) (auto split: if_splits dest: in_set_butlastD)

lemma resolveDots_fixed:
  "\<forall>s\<in>set ss. s \<noteq> lit ''.'' \<and> s \<noteq> lit ''..'' \<Longrightarrow> resolveDots stack ss = stack @ ss"
  by (induction stack ss rule: resolveDots.induct) auto

lemma resolveDots_nonempty: "ss \<noteq> [] \<Longrightarrow> resolveDots stack ss \<noteq> []"
  by (induction stack ss rule: resolveDots.induct) auto

lemma concat_slash: "ss \<noteq> [] \<Longrightarrow> concat (map ((#) 47) ss) = 47 # joinWith [47] ss"
  by (induction ss rule: induct_list012) auto

section \<open>Properties\<close>

text \<open>C24 (dots_resolved): Removing the dot segments of an absolute path is what RFC 3986, section 5.2.4, says
  it is: the segments of the path read from left to right, with \<open>.\<close> skipped and \<open>..\<close> taking back the segment
  before it, never above the root, and a last \<open>.\<close> or \<open>..\<close> leaving a slash at the end. The result is an
  absolute path without dot segments, and removing them again does not change it.\<close>

theorem dots_resolved:
  "removeDotSegments (47 # p) = 47 # joinWith [47] (resolveDots [] (splitOn 47 p)) \<and>
   (\<forall>s\<in>set (resolveDots [] (splitOn 47 p)). s \<noteq> lit ''.'' \<and> s \<noteq> lit ''..'' \<and> 47 \<notin> set s) \<and>
   removeDotSegments (removeDotSegments (47 # p)) = removeDotSegments (47 # p)"
proof -
  have resolved: "removeDotSegments (47 # joinWith [47] ss) = 47 # joinWith [47] (resolveDots [] ss)"
    if "\<forall>s\<in>set ss. 47 \<notin> set s" "ss \<noteq> []" for ss
    using dotLoop_resolve[OF that, of "[]"] resolveDots_nonempty[OF that(2), of "[]"]
    by (simp add: removeDotSegments_def concat_slash)
  let ?rs = "resolveDots [] (splitOn 47 p)"
  have plain: "\<forall>s\<in>set ?rs. s \<noteq> lit ''.'' \<and> s \<noteq> lit ''..'' \<and> 47 \<notin> set s"
    using resolveDots_dotless[of _ "[]" "splitOn 47 p"] splitOn_pieces[of _ 47 p] by force
  have one: "removeDotSegments (47 # p) = 47 # joinWith [47] ?rs"
    using resolved[of "splitOn 47 p"] splitOn_pieces[of _ 47 p] by simp
  moreover have "removeDotSegments (47 # joinWith [47] ?rs) = 47 # joinWith [47] ?rs"
    using resolved[of ?rs] plain resolveDots_nonempty[of "splitOn 47 p" "[]"] resolveDots_fixed[of ?rs "[]"] by simp
  ultimately show ?thesis using plain by simp
qed

theorem dots_resolved_witness:
  "removeDotSegments (lit ''/a/./b/../c/..'') = lit ''/a/''"
  using dots_resolved[of "lit ''a/./b/../c/..''"] by simp

text \<open>The tables of the four components and of fragments leave out the percent sign.\<close>

lemma component_percent: "\<not> COMPONENT_ALLOW_TABLE component ! 37"
  by (cases component)
    (simp_all add: COMPONENT_ALLOW_TABLE_def UNRESERVED_CHARS_def COMPONENT_ALLOWED_def SUB_DELIMS_def)

lemma fragment_percent: "\<not> createAsciiAllowTable URI_FRAGMENT_ALLOW_CHARACTERS ! 37"
  by (simp add: URI_FRAGMENT_ALLOW_CHARACTERS_def)



text \<open>C26 (fragment_roundtrip): The fragment form of a JSON Pointer holds only the characters of the table and
  escapes after its sign, and the pointer is read back from it, whatever text without lone surrogates its
  tokens hold.\<close>

theorem fragment_roundtrip:
  assumes "parseJsonPointer p \<noteq> None" and "\<not> hasLoneSurrogate p" "list_all (\<lambda>c. c < 0x10000) p"
  shows "fromUriFragment (toUriFragment p) = Some p \<and>
    (\<exists>t. toUriFragment p = cu CHR ''#'' # t \<and> encodedText (createAsciiAllowTable URI_FRAGMENT_ALLOW_CHARACTERS) t)"
proof (cases "p = []")
  case True
  then show ?thesis by (simp add: toUriFragment_def fromUriFragment_def startsWith_def decodePercentComponent_def)
next
  case False
  let ?opts = "\<lparr>allowTable = createAsciiAllowTable URI_FRAGMENT_ALLOW_CHARACTERS, preservePctTriplets = False,
         normalizePctHexUppercase = True\<rparr>"
  have "hd p = 47" using assms(1) False by (cases p) (auto simp: parseJsonPointer_def startsWith_def Let_def split: if_splits)
  then have "utf8Text p" using assms by (simp add: utf8Text_def)
  then have "decodePercentComponent (encodeRfc3986 p ?opts) = Some p"
    using decodePercent_encodeRfc3986[of p ?opts] fragment_percent by simp
  moreover have "encodedText (allowTable ?opts) (encodeRfc3986 p ?opts)"
    using encodeRfc3986_encoded[of ?opts p] fragment_percent by simp
  ultimately show ?thesis using False assms(1) by (simp add: toUriFragment_def fromUriFragment_def startsWith_def)
qed

theorem fragment_roundtrip_witness:
  "fromUriFragment (toUriFragment (lit ''/a b'')) = Some (lit ''/a b'')"
  by (rule fragment_roundtrip[THEN conjunct1])
    (simp_all add: parseJsonPointer_def startsWith_def isHighSurrogate_def isLowSurrogate_def Let_def)

text \<open>A pair of surrogates beside an escape is decoded to two replacement characters, a query that holds a
  slash loses its dots when the text is no absolute URI, and normalizing twice may decode an escape that
  the first pass put together.\<close>

lemma decode_pair_replaced: "percentDecode ([0xD83D, 0xDE00] @ lit ''%41'') = [0xFFFD, 0xFFFD, 65]"
  by (simp add: percentDecode_def isHexDigitChar_def isHexDigitByte_def parseHex_def hexVal_def encodeUtf8_def
      isHighSurrogate_def isLowSurrogate_def utf8Bytes_def decodeUtf8_def byteOrderMark_def utf8Points.simps utf8Head_def
      isCont_def fromCodePoint_def)

lemma basic_query_rewritten: "normalizeUriBasic (lit ''?q=a/../b'') = lit ''?q=a/b''"
  by (simp add: normalizeUriBasic_def normalizePercentEncoding_def indexOfUnit_def removeDotSegments_def
      dotLoop.simps startsWith_def removeLastSegment_def segmentEnd_def Let_def)

lemma normalize_not_idempotent:
  "normalizePercentEncoding (lit ''%%34%31'') = lit ''%41''" "normalizePercentEncoding (lit ''%41'') = lit ''A''"
  by (simp_all add: normalizePercentEncoding_def isHexDigitChar_def isHexDigitByte_def parseHex_def hexVal_def
      UNRESERVED_TABLE_def UNRESERVED_CHARS_def Let_def)

end
