(* ===== verification/UriTemplate.thy ===== *)
theory UriTemplate
  imports UriLaws
begin

text \<open>
  URI templates (RFC 6570): \<open>src/uri-template.ts\<close> and its types of \<open>src/types/uri.ts\<close>. The set of names
  is the list of its members in the order they were added; a variable bound to no string, array or object
  is absent.
\<close>

section \<open>Templates\<close>

datatype templateOperator = OpSimple | OpReserved | OpFragment | OpLabel | OpPath | OpParam | OpQuery | OpContinue

record varSpec =
  vsName :: jsstr
  vsPrefix :: "nat option"
  vsExplode :: bool

record templateExpression =
  teOperator :: templateOperator
  teVariables :: "varSpec list"

datatype templatePart = TLiteral jsstr | TExpression templateExpression

record uriTemplate =
  utParts :: "templatePart list"
  utVariables :: "jsstr list"

datatype templateValue = TvString jsstr | TvList "jsstr list" | TvAssoc "(jsstr \<times> jsstr) list"

record operatorConfig =
  ocPrefix :: jsstr
  ocSeparator :: jsstr
  ocNamed :: bool
  ocIfEmpty :: jsstr
  ocAllowReserved :: bool

definition config :: "string \<Rightarrow> string \<Rightarrow> bool \<Rightarrow> string \<Rightarrow> bool \<Rightarrow> operatorConfig" where
  "config prefix separator named ifEmpty allowReserved =
     \<lparr>ocPrefix = lit prefix, ocSeparator = lit separator, ocNamed = named, ocIfEmpty = lit ifEmpty,
      ocAllowReserved = allowReserved\<rparr>"

definition OPERATOR_CONFIG :: "templateOperator \<Rightarrow> operatorConfig" where
  "OPERATOR_CONFIG operator =
     (case operator of
        OpSimple \<Rightarrow> config '''' '','' False '''' False
      | OpReserved \<Rightarrow> config '''' '','' False '''' True
      | OpFragment \<Rightarrow> config ''#'' '','' False '''' True
      | OpLabel \<Rightarrow> config ''.'' ''.'' False '''' False
      | OpPath \<Rightarrow> config ''/'' ''/'' False '''' False
      | OpParam \<Rightarrow> config '';'' '';'' True '''' False
      | OpQuery \<Rightarrow> config ''?'' ''&'' True ''='' False
      | OpContinue \<Rightarrow> config ''&'' ''&'' True ''='' False)"

section \<open>Reading\<close>

definition isVarChar :: "cu \<Rightarrow> bool" where
  "isVarChar c \<longleftrightarrow> (0x41 \<le> c \<and> c \<le> 0x5A) \<or> (0x61 \<le> c \<and> c \<le> 0x7A) \<or> (0x30 \<le> c \<and> c \<le> 0x39) \<or> c = cu CHR ''_''"

definition operatorOf :: "cu \<Rightarrow> templateOperator option" where
  "operatorOf c =
     (if c = cu CHR ''+'' then Some OpReserved else if c = cu CHR ''#'' then Some OpFragment
      else if c = cu CHR ''.'' then Some OpLabel else if c = cu CHR ''/'' then Some OpPath
      else if c = cu CHR '';'' then Some OpParam else if c = cu CHR ''?'' then Some OpQuery
      else if c = cu CHR ''&'' then Some OpContinue else None)"

definition SIMPLE_ALLOW_TABLE :: "bool list" where
  "SIMPLE_ALLOW_TABLE = createAsciiAllowTable UNRESERVED_CHARS"

definition RESERVED_ALLOW_TABLE :: "bool list" where
  "RESERVED_ALLOW_TABLE = createAsciiAllowTable (UNRESERVED_CHARS @ GEN_DELIMS @ SUB_DELIMS)"

definition encodeValue :: "jsstr \<Rightarrow> bool \<Rightarrow> jsstr" where
  "encodeValue str allowReserved =
     encodeRfc3986 str
       \<lparr>allowTable = (if allowReserved then RESERVED_ALLOW_TABLE else SIMPLE_ALLOW_TABLE),
        preservePctTriplets = allowReserved, normalizePctHexUppercase = True\<rparr>"

fun varNameLoop :: "bool \<Rightarrow> jsstr \<Rightarrow> bool" where
  "varNameLoop expectVarChar [] = (\<not> expectVarChar)"
| "varNameLoop expectVarChar (c # cs) =
     (if c = cu CHR ''%'' then
        (case cs of
           h1 # h2 # rest \<Rightarrow> isHexDigitChar [h1] \<and> isHexDigitChar [h2] \<and> varNameLoop False rest
         | _ \<Rightarrow> False)
      else if c = cu CHR ''.'' then
        (if expectVarChar then False else if cs = [] then False else varNameLoop True cs)
      else if isVarChar c then varNameLoop False cs
      else False)"

definition isValidVarName :: "jsstr \<Rightarrow> bool" where
  "isValidVarName name \<longleftrightarrow> name \<noteq> [] \<and> varNameLoop True name"

text \<open>The pattern \<open>/^[1-9]\d{0,3}$/\<close>.\<close>

definition prefixText :: "jsstr \<Rightarrow> bool" where
  "prefixText s \<longleftrightarrow> s \<noteq> [] \<and> hd s \<noteq> 48 \<and> list_all isDigit s \<and> length s \<le> 4"

definition parseVarSpec :: "jsstr \<Rightarrow> varSpec option" where
  "parseVarSpec spec =
     (if spec = [] then None
      else
        let explode = (last spec = cu CHR ''*'');
            name = (if explode then butlast spec else spec)
        in case indexOfUnit (cu CHR '':'') name of
             Some colonIndex \<Rightarrow>
               let prefixStr = drop (Suc colonIndex) name; name' = take colonIndex name
               in if \<not> prefixText prefixStr \<or> explode then None
                  else if isValidVarName name'
                  then Some \<lparr>vsName = name', vsPrefix = Some (parseDec prefixStr), vsExplode = explode\<rparr> else None
           | None \<Rightarrow>
               if isValidVarName name then Some \<lparr>vsName = name, vsPrefix = None, vsExplode = explode\<rparr> else None)"

fun parseVarSpecs :: "jsstr list \<Rightarrow> varSpec list option" where
  "parseVarSpecs [] = Some []"
| "parseVarSpecs (s # ss) =
     (case parseVarSpec s of None \<Rightarrow> None | Some v \<Rightarrow> map_option ((#) v) (parseVarSpecs ss))"

definition parseExpression :: "jsstr \<Rightarrow> templateExpression option" where
  "parseExpression content =
     (case content of
        [] \<Rightarrow> None
      | firstChar # rest \<Rightarrow>
          if operatorOf firstChar = None \<and> firstChar \<in> set (lit ''=,!@|'') then None
          else
            let (operator, variableList) =
              (case operatorOf firstChar of Some op \<Rightarrow> (op, rest) | None \<Rightarrow> (OpSimple, content))
            in if variableList = [] then None
               else map_option (\<lambda>vs. \<lparr>teOperator = operator, teVariables = vs\<rparr>)
                 (parseVarSpecs (splitOn (cu CHR '','') variableList)))"

definition addName :: "jsstr list \<Rightarrow> jsstr \<Rightarrow> jsstr list" where
  "addName names name = (if name \<in> set names then names else names @ [name])"

definition pushLiteral :: "templatePart list \<Rightarrow> jsstr \<Rightarrow> templatePart list" where
  "pushLiteral parts literal = (if literal = [] then parts else parts @ [TLiteral literal])"

text \<open>The text that is left, the literal being read, and what was collected.\<close>

function templateLoop :: "jsstr \<Rightarrow> jsstr \<Rightarrow> templatePart list \<Rightarrow> jsstr list \<Rightarrow> uriTemplate option" where
  "templateLoop [] literal parts names = Some \<lparr>utParts = pushLiteral parts literal, utVariables = names\<rparr>"
| "templateLoop (c # cs) literal parts names =
     (if c = cu CHR ''{'' then
        (case indexOfUnit (cu CHR ''}'') cs of
           None \<Rightarrow> None
         | Some closeIndex \<Rightarrow>
             (case parseExpression (take closeIndex cs) of
                None \<Rightarrow> None
              | Some expr \<Rightarrow>
                  templateLoop (drop (Suc closeIndex) cs) [] (pushLiteral parts literal @ [TExpression expr])
                    (foldl addName names (map vsName (teVariables expr)))))
      else if c = cu CHR ''}'' then None
      else templateLoop cs (literal @ [c]) parts names)"
  by pat_completeness auto
termination
  by (relation "measure (\<lambda>(s, _). length s)") auto

definition parseUriTemplate :: "jsstr \<Rightarrow> uriTemplate option" where
  "parseUriTemplate template = templateLoop template [] [] []"

section \<open>Expansion\<close>

definition namedPair :: "operatorConfig \<Rightarrow> jsstr \<Rightarrow> jsstr \<Rightarrow> jsstr" where
  "namedPair cfg encodedName v =
     (if ocNamed cfg
      then (if v = [] then encodedName @ ocIfEmpty cfg
            else encodedName @ lit ''='' @ encodeValue v (ocAllowReserved cfg))
      else encodeValue v (ocAllowReserved cfg))"

definition expandVariable :: "varSpec \<Rightarrow> templateValue option \<Rightarrow> operatorConfig \<Rightarrow> jsstr option" where
  "expandVariable spec value cfg =
     (let encodedName = (if ocNamed cfg then encodeValue (vsName spec) False else []);
          enc = (\<lambda>s. encodeValue s (ocAllowReserved cfg))
      in case value of
           None \<Rightarrow> None
         | Some (TvString v) \<Rightarrow>
             let str = (case vsPrefix spec of Some n \<Rightarrow> (if n < length v then take n v else v) | None \<Rightarrow> v)
             in Some (if ocNamed cfg
                      then (if v = [] then encodedName @ ocIfEmpty cfg else encodedName @ lit ''='' @ enc str)
                      else enc str)
         | Some (TvList vs) \<Rightarrow>
             if vs = [] then None
             else if vsExplode spec then Some (joinWith (ocSeparator cfg) (map (namedPair cfg encodedName) vs))
             else
               let encoded = joinWith (lit '','') (map enc vs)
               in Some (if ocNamed cfg then encodedName @ lit ''='' @ encoded else encoded)
         | Some (TvAssoc entries) \<Rightarrow>
             if entries = [] then None
             else if vsExplode spec then
               Some (joinWith (ocSeparator cfg) (map (\<lambda>(k, v). enc k @ lit ''='' @ enc v) entries))
             else
               let encoded = joinWith (lit '','') (concat (map (\<lambda>(k, v). [enc k, enc v]) entries))
               in Some (if ocNamed cfg then encodedName @ lit ''='' @ encoded else encoded))"

definition expandExpression :: "templateExpression \<Rightarrow> (jsstr \<rightharpoonup> templateValue) \<Rightarrow> jsstr" where
  "expandExpression expr variables =
     (let cfg = OPERATOR_CONFIG (teOperator expr);
          expanded = List.map_filter (\<lambda>spec. expandVariable spec (variables (vsName spec)) cfg) (teVariables expr)
      in if expanded = [] then [] else ocPrefix cfg @ joinWith (ocSeparator cfg) expanded)"

definition expandPart :: "(jsstr \<rightharpoonup> templateValue) \<Rightarrow> templatePart \<Rightarrow> jsstr" where
  "expandPart variables part =
     (case part of TLiteral s \<Rightarrow> s | TExpression expr \<Rightarrow> expandExpression expr variables)"

datatype templateInput = TemplateText jsstr | TemplateParsed uriTemplate

definition expandUriTemplate :: "templateInput \<Rightarrow> (jsstr \<rightharpoonup> templateValue) \<Rightarrow> jsstr" where
  "expandUriTemplate template variables =
     (case template of
        TemplateText t \<Rightarrow>
          (case parseUriTemplate t of
             None \<Rightarrow> t
           | Some parsed \<Rightarrow> concat (map (expandPart variables) (utParts parsed)))
      | TemplateParsed parsed \<Rightarrow> concat (map (expandPart variables) (utParts parsed)))"

definition isValidUriTemplate :: "jsstr \<Rightarrow> bool" where
  "isValidUriTemplate template \<longleftrightarrow> parseUriTemplate template \<noteq> None"

definition getTemplateVariables :: "templateInput \<Rightarrow> jsstr list" where
  "getTemplateVariables template =
     (case template of
        TemplateText t \<Rightarrow> (case parseUriTemplate t of Some parsed \<Rightarrow> utVariables parsed | None \<Rightarrow> [])
      | TemplateParsed parsed \<Rightarrow> utVariables parsed)"

record compiledTemplate =
  ctExpand :: "(jsstr \<rightharpoonup> templateValue) \<Rightarrow> jsstr"
  ctVariables :: "jsstr list"

definition compileUriTemplate :: "jsstr \<Rightarrow> compiledTemplate option" where
  "compileUriTemplate template =
     map_option (\<lambda>parsed. \<lparr>ctExpand = expandUriTemplate (TemplateParsed parsed), ctVariables = utVariables parsed\<rparr>)
       (parseUriTemplate template)"

end
