(* ===== verification/UriTemplateLaws.thy ===== *)
theory UriTemplateLaws
  imports UriTemplate
begin

text \<open>
  Laws of \<open>UriTemplate\<close>: a template is read back from its text, and what a query expression expands to
  is read back as the values of its variables.
\<close>

section \<open>Names and specifications\<close>

lemma varNameLoop_chars: "varNameLoop b name \<Longrightarrow> list_all (\<lambda>c. isVarChar c \<or> c = 37 \<or> c = 46) name"
proof (induction b name rule: varNameLoop.induct)
  case (2 b c cs)
  have hex: "isHexDigitChar [h] \<Longrightarrow> isVarChar h" for h
    by (auto simp: isHexDigitChar_def isHexDigitByte_def isVarChar_def)
  show ?case
  proof (cases "c = 37")
    case True
    then obtain h1 h2 rest where cs: "cs = h1 # h2 # rest" using 2(4) by (cases cs; cases "tl cs") auto
    then show ?thesis using 2 True hex by simp
  next
    case False
    then show ?thesis using 2 by (auto split: if_splits)
  qed
qed simp

lemma varName_chars:
  assumes "isValidVarName name"
  shows "44 \<notin> set name" "58 \<notin> set name" "42 \<notin> set name" "123 \<notin> set name" "125 \<notin> set name" "61 \<notin> set name"
    "operatorOf (hd name) = None" "hd name \<notin> set (lit ''=,!@|'')" "name \<noteq> []"
proof -
  have all: "list_all (\<lambda>c. isVarChar c \<or> c = 37 \<or> c = 46) name"
    using assms varNameLoop_chars by (auto simp: isValidVarName_def)
  then show "44 \<notin> set name" "58 \<notin> set name" "42 \<notin> set name" "123 \<notin> set name" "125 \<notin> set name" "61 \<notin> set name"
    by (auto simp: list_all_iff isVarChar_def)
  obtain c cs where name: "name = c # cs" using assms by (cases name) (auto simp: isValidVarName_def)
  have "c \<noteq> 46" using assms by (auto simp: isValidVarName_def name)
  then have c: "isVarChar c \<or> c = 37" using all by (simp add: name)
  then show "operatorOf (hd name) = None" "hd name \<notin> set (lit ''=,!@|'')"
    by (auto simp: name operatorOf_def isVarChar_def)
  show "name \<noteq> []" by (simp add: name)
qed

definition specOk :: "varSpec \<Rightarrow> bool" where
  "specOk v \<longleftrightarrow> isValidVarName (vsName v) \<and>
     (case vsPrefix v of None \<Rightarrow> True | Some n \<Rightarrow> 0 < n \<and> n < 10000 \<and> \<not> vsExplode v)"

definition specText :: "varSpec \<Rightarrow> jsstr" where
  "specText v = vsName v @ (case vsPrefix v of None \<Rightarrow> [] | Some n \<Rightarrow> lit '':'' @ showNat n) @
     (if vsExplode v then lit ''*'' else [])"

lemma showNat_length: "n < 10 ^ k \<Longrightarrow> 0 < k \<Longrightarrow> length (showNat n) \<le> k"
proof (induction k arbitrary: n)
  case (Suc k)
  show ?case
  proof (cases "n < 10")
    case False
    then have "n div 10 < 10 ^ k" "0 < k" using Suc(2) by (auto simp: less_mult_imp_div_less intro: Nat.gr0I)
    then show ?thesis using Suc(1)[of "n div 10"] False by (simp add: showNat_large)
  qed (simp add: showNat_small)
qed simp

lemma prefixText_showNat: "0 < n \<Longrightarrow> n < 10000 \<Longrightarrow> prefixText (showNat n)"
  using showNat_length[of n 4] showNat_hd[of n] showNat_digits[of _ n] by (simp add: prefixText_def list_all_iff)

lemma parseVarSpec_text:
  assumes "specOk v"
  shows "parseVarSpec (specText v) = Some v"
proof -
  note name = varName_chars[of "vsName v"]
  have ok: "isValidVarName (vsName v)" using assms by (simp add: specOk_def)
  have last_name: "last (vsName v) \<noteq> 42" using name(3,9)[OF ok] by (metis last_in_set)
  have no_colon: "indexOfUnit 58 (vsName v) = None" using name(2)[OF ok] by (simp add: indexOfUnit_none)
  show ?thesis
  proof (cases "vsPrefix v")
    case None
    then show ?thesis using ok last_name no_colon name(9)[OF ok]
      by (cases v) (auto simp: parseVarSpec_def specText_def)
  next
    case (Some n)
    then have n: "0 < n" "n < 10000" "\<not> vsExplode v" using assms by (auto simp: specOk_def)
    have "last (vsName v @ 58 # showNat n) = last (showNat n)" by simp
    then have "last (vsName v @ 58 # showNat n) \<noteq> 42"
      using showNat_digits[of "last (showNat n)" n] by (auto simp: isDigit_def)
    moreover have "indexOfUnit 58 (vsName v @ 58 # showNat n) = Some (length (vsName v))"
      using indexOfUnit_first[OF name(2)[OF ok], of "showNat n"] by simp
    ultimately show ?thesis using ok n Some prefixText_showNat[OF n(1,2)]
      by (cases v) (auto simp: parseVarSpec_def specText_def Let_def)
  qed
qed

lemma specText_chars:
  assumes "specOk v"
  shows "44 \<notin> set (specText v)" "125 \<notin> set (specText v)" "specText v \<noteq> []" "hd (specText v) = hd (vsName v)"
proof -
  have ok: "isValidVarName (vsName v)" using assms by (simp add: specOk_def)
  have digits: "c \<in> set (showNat n) \<Longrightarrow> c \<noteq> 44 \<and> c \<noteq> 125" for c n using showNat_digits[of c n] by (auto simp: isDigit_def)
  show "44 \<notin> set (specText v)" "125 \<notin> set (specText v)"
    using varName_chars(1,5)[OF ok] digits by (auto simp: specText_def split: option.split)
  show "specText v \<noteq> []" "hd (specText v) = hd (vsName v)" using varName_chars(9)[OF ok] by (simp_all add: specText_def)
qed

section \<open>Expressions and templates\<close>

definition operatorText :: "templateOperator \<Rightarrow> jsstr" where
  "operatorText operator =
     (case operator of
        OpSimple \<Rightarrow> [] | OpReserved \<Rightarrow> lit ''+'' | OpFragment \<Rightarrow> lit ''#'' | OpLabel \<Rightarrow> lit ''.'' | OpPath \<Rightarrow> lit ''/''
      | OpParam \<Rightarrow> lit '';'' | OpQuery \<Rightarrow> lit ''?'' | OpContinue \<Rightarrow> lit ''&'')"

definition expressionText :: "templateExpression \<Rightarrow> jsstr" where
  "expressionText e = operatorText (teOperator e) @ joinWith (lit '','') (map specText (teVariables e))"

definition expressionOk :: "templateExpression \<Rightarrow> bool" where
  "expressionOk e \<longleftrightarrow> teVariables e \<noteq> [] \<and> list_all specOk (teVariables e)"

lemma parseVarSpecs_text: "list_all specOk vs \<Longrightarrow> parseVarSpecs (map specText vs) = Some vs"
  by (induction vs) (simp_all add: parseVarSpec_text)

lemma parseExpression_operator:
  assumes "operatorOf c = None" "c \<notin> set (lit ''=,!@|'')"
  shows "parseExpression (operatorText operator @ c # cs) =
    map_option (\<lambda>vs. \<lparr>teOperator = operator, teVariables = vs\<rparr>) (parseVarSpecs (splitOn 44 (c # cs)))"
proof (cases "operator = OpSimple")
  case True
  then show ?thesis using assms by (simp add: parseExpression_def operatorText_def del: lit_simps splitOn.simps)
next
  case False
  then obtain x where x: "operatorText operator = [x]" "operatorOf x = Some operator"
    by (cases operator) (auto simp: operatorText_def operatorOf_def)
  then show ?thesis by (simp add: parseExpression_def del: splitOn.simps)
qed

lemma parseExpression_text:
  assumes "expressionOk e"
  shows "parseExpression (expressionText e) = Some e"
proof -
  obtain v vs where vs: "teVariables e = v # vs" "specOk v" "list_all specOk vs"
    using assms by (cases "teVariables e") (auto simp: expressionOk_def)
  let ?l = "joinWith [44] (map specText (teVariables e))"
  have split: "splitOn 44 ?l = map specText (teVariables e)"
    using assms specText_chars(1) by (intro splitOn_joinWith) (auto simp: expressionOk_def list_all_iff)
  have parsed: "parseVarSpecs (splitOn 44 ?l) = Some (teVariables e)"
    using assms by (simp add: split parseVarSpecs_text expressionOk_def)
  obtain c cs where l: "?l = c # cs" "c = hd (vsName v)"
    using specText_chars(3,4)[OF vs(2)] by (cases "specText v"; cases vs) (auto simp: vs(1))
  have head: "operatorOf c = None" "c \<notin> set (lit ''=,!@|'')"
    using varName_chars(7,8)[of "vsName v"] vs(2) by (auto simp: l(2) specOk_def)
  show ?thesis
    using parseExpression_operator[OF head, of "teOperator e" cs] parsed by (simp add: expressionText_def l(1))
qed

definition partText :: "templatePart \<Rightarrow> jsstr" where
  "partText p = (case p of TLiteral s \<Rightarrow> s | TExpression e \<Rightarrow> lit ''{'' @ expressionText e @ lit ''}'')"

text \<open>No two literals in a row, and no braces in them.\<close>

fun partsOk :: "templatePart list \<Rightarrow> bool" where
  "partsOk [] = True"
| "partsOk (TExpression e # ps) = (expressionOk e \<and> partsOk ps)"
| "partsOk (TLiteral s # ps) =
     (s \<noteq> [] \<and> 123 \<notin> set s \<and> 125 \<notin> set s \<and> partsOk ps \<and> (case ps of TLiteral t # _ \<Rightarrow> False | _ \<Rightarrow> True))"

definition partNames :: "templatePart \<Rightarrow> jsstr list" where
  "partNames p = (case p of TLiteral _ \<Rightarrow> [] | TExpression e \<Rightarrow> map vsName (teVariables e))"

lemma partText_simps: "partText (TLiteral s) = s" "partText (TExpression e) = lit ''{'' @ expressionText e @ lit ''}''"
  by (simp_all add: partText_def)

lemma pushLiteral_nothing: "pushLiteral parts [] = parts"
  by (simp add: pushLiteral_def)

lemma templateLoop_literal:
  "123 \<notin> set s \<Longrightarrow> 125 \<notin> set s \<Longrightarrow> templateLoop (s @ cs) l parts names = templateLoop cs (l @ s) parts names"
  by (induction s arbitrary: l) simp_all

lemma templateLoop_expression:
  assumes "expressionOk e"
  shows "templateLoop (lit ''{'' @ expressionText e @ lit ''}'' @ cs) l parts names =
    templateLoop cs [] (pushLiteral parts l @ [TExpression e]) (foldl addName names (map vsName (teVariables e)))"
proof -
  have "125 \<notin> set (joinWith [44] (map specText vs))" if "list_all specOk vs" for vs
    using that by (induction vs rule: induct_list012) (auto simp: specText_chars)
  then have "125 \<notin> set (expressionText e)"
    using assms by (cases "teOperator e") (auto simp: expressionText_def operatorText_def expressionOk_def)
  then have "indexOfUnit 125 (expressionText e @ 125 # cs) = Some (length (expressionText e))"
    by (rule indexOfUnit_first)
  then show ?thesis using parseExpression_text[OF assms] by simp
qed

lemma templateLoop_parts:
  "partsOk ps \<Longrightarrow> (case ps of TLiteral _ # _ \<Rightarrow> l = [] | _ \<Rightarrow> True) \<Longrightarrow>
    templateLoop (concat (map partText ps)) l parts names =
      Some \<lparr>utParts = pushLiteral parts l @ ps, utVariables = foldl addName names (concat (map partNames ps))\<rparr>"
proof (induction ps arbitrary: l parts names rule: partsOk.induct)
  case (2 e ps)
  have "templateLoop (concat (map partText (TExpression e # ps))) l parts names =
      templateLoop (concat (map partText ps)) [] (pushLiteral parts l @ [TExpression e])
        (foldl addName names (map vsName (teVariables e)))"
    using templateLoop_expression[of e "concat (map partText ps)" l parts names] 2(2)
    by (simp add: partText_simps del: lit_simps templateLoop.simps)
  then show ?case using 2(1)[of "[]"] 2(2) by (simp add: pushLiteral_nothing partNames_def[of "TExpression e"] split: list.split templatePart.split)
next
  case (3 s ps)
  have "templateLoop (concat (map partText (TLiteral s # ps))) [] parts names = templateLoop (concat (map partText ps)) s parts names"
    using templateLoop_literal[of s "concat (map partText ps)" "[]" parts names] 3(2) by (simp add: partText_simps)
  moreover have "pushLiteral parts s = parts @ [TLiteral s]" using 3(2) by (simp add: pushLiteral_def)
  ultimately show ?case using 3(1)[of s parts names] 3(2,3)
    by (simp add: pushLiteral_nothing partNames_def[of "TLiteral s"] split: list.splits templatePart.splits)
qed (simp add: pushLiteral_def)

text \<open>C27 (template_roundtrip): A template is read back from its text: literals without braces between the
  expressions, each expression with its operator and its variables, their lengths and stars, and the names
  of the variables once each in the order they first appear.\<close>

theorem template_roundtrip:
  assumes "partsOk ps"
  shows "parseUriTemplate (concat (map partText ps)) =
    Some \<lparr>utParts = ps, utVariables = foldl addName [] (concat (map partNames ps))\<rparr>"
  using templateLoop_parts[OF assms, of "[]" "[]" "[]"]
  by (cases ps rule: partsOk.cases) (auto simp: parseUriTemplate_def pushLiteral_def)

theorem template_roundtrip_witness:
  "parseUriTemplate (concat (map partText
      [TLiteral (lit ''/a''), TExpression \<lparr>teOperator = OpQuery,
        teVariables = [\<lparr>vsName = lit ''x'', vsPrefix = Some 3, vsExplode = False\<rparr>, \<lparr>vsName = lit ''y'', vsPrefix = None, vsExplode = True\<rparr>]\<rparr>])) =
    Some \<lparr>utParts = [TLiteral (lit ''/a''), TExpression \<lparr>teOperator = OpQuery,
        teVariables = [\<lparr>vsName = lit ''x'', vsPrefix = Some 3, vsExplode = False\<rparr>, \<lparr>vsName = lit ''y'', vsPrefix = None, vsExplode = True\<rparr>]\<rparr>],
      utVariables = [lit ''x'', lit ''y'']\<rparr>"
  by (subst template_roundtrip)
    (simp_all add: expressionOk_def specOk_def isValidVarName_def isVarChar_def partNames_def addName_def)

section \<open>Expansion of a query\<close>

lemma encodeLoop_allowed:
  "list_all (\<lambda>c. c < 128 \<and> allowTable opts ! c) t \<Longrightarrow> encodeLoop opts t = t"
  by (induction t) auto

lemma encodeValue_allowed:
  assumes "list_all (\<lambda>c. c \<in> set UNRESERVED_CHARS) t"
  shows "encodeValue t False = t"
proof -
  have ascii: "list_all (\<lambda>c. c < 128) UNRESERVED_CHARS" by (simp add: UNRESERVED_CHARS_def)
  then have t: "list_all (\<lambda>c. c < 128) t" using assms by (auto simp: list_all_iff)
  then show ?thesis using assms
    by (simp add: encodeValue_def encodeRfc3986_def bytes_ascii encodeLoop_allowed SIMPLE_ALLOW_TABLE_def list_all_iff)
qed

lemma unreserved_iff: "c \<in> set UNRESERVED_CHARS \<longleftrightarrow> isVarChar c \<or> c = 45 \<or> c = 46 \<or> c = 126"
proof
  show "c \<in> set UNRESERVED_CHARS \<Longrightarrow> isVarChar c \<or> c = 45 \<or> c = 46 \<or> c = 126"
    by (auto simp: UNRESERVED_CHARS_def isVarChar_def)
  show "isVarChar c \<or> c = 45 \<or> c = 46 \<or> c = 126 \<Longrightarrow> c \<in> set UNRESERVED_CHARS"
    by (simp add: UNRESERVED_CHARS_def isVarChar_def, presburger)
qed

lemma plainName_unreserved:
  assumes "isValidVarName n" and "37 \<notin> set n"
  shows "encodeValue n False = n"
proof (rule encodeValue_allowed)
  show "list_all (\<lambda>c. c \<in> set UNRESERVED_CHARS) n"
    using varNameLoop_chars[of True n] assms by (auto simp: isValidVarName_def list_all_iff unreserved_iff)
qed

lemma encodedText_chars:
  "encodedText table t \<Longrightarrow> c \<in> set t \<Longrightarrow> c = 37 \<or> isHexDigitByte c \<or> (c < 128 \<and> table ! c)"
proof (induction t rule: length_induct)
  case (1 t)
  from 1(2) show ?case
  proof (cases rule: encodedText_cases)
    case (triplet h1 h2 rest)
    then have "c \<in> set rest \<Longrightarrow> c = 37 \<or> isHexDigitByte c \<or> (c < 128 \<and> table ! c)" using 1(1)[rule_format, of rest] by simp
    then show ?thesis using 1(3) triplet by auto
  qed (use 1(1,3) in auto)
qed

lemma encodeValue_simple:
  "c \<in> set (encodeValue s False) \<Longrightarrow> c = 37 \<or> c \<in> set UNRESERVED_CHARS"
  "utf8Text s \<Longrightarrow> decodePercentComponent (encodeValue s False) = Some s"
proof -
  let ?opts = "\<lparr>allowTable = SIMPLE_ALLOW_TABLE, preservePctTriplets = False, normalizePctHexUppercase = True\<rparr>"
  have no: "\<not> allowTable ?opts ! 37" by (simp add: SIMPLE_ALLOW_TABLE_def UNRESERVED_CHARS_def)
  have e: "encodeValue s False = encodeRfc3986 s ?opts" by (simp add: encodeValue_def)
  have hex: "isHexDigitByte c \<Longrightarrow> c \<in> set UNRESERVED_CHARS" for c
    by (auto simp: unreserved_iff isVarChar_def isHexDigitByte_def)
  show "c \<in> set (encodeValue s False) \<Longrightarrow> c = 37 \<or> c \<in> set UNRESERVED_CHARS"
    using encodedText_chars[OF encodeRfc3986_encoded[OF _ no, of s], of c] hex[of c]
    unfolding e by (auto simp: SIMPLE_ALLOW_TABLE_def)
  show "utf8Text s \<Longrightarrow> decodePercentComponent (encodeValue s False) = Some s"
    using decodePercent_encodeRfc3986[of s ?opts] no by (simp add: e)
qed

text \<open>The pairs of a query, decoded.\<close>

definition readQuery :: "jsstr \<Rightarrow> (jsstr \<times> jsstr option) list" where
  "readQuery t =
     map (\<lambda>pair. case indexOfUnit 61 pair of
         Some i \<Rightarrow> (take i pair, decodePercentComponent (drop (Suc i) pair)) | None \<Rightarrow> (pair, None)) (splitOn 38 t)"

definition plainSpec :: "jsstr \<Rightarrow> varSpec" where
  "plainSpec n = \<lparr>vsName = n, vsPrefix = None, vsExplode = False\<rparr>"

lemma expand_plain:
  assumes "isValidVarName n" and "37 \<notin> set n"
  shows "expandVariable (plainSpec n) (Some (TvString v)) (OPERATOR_CONFIG OpQuery) = Some (n @ 61 # encodeValue v False)"
  using plainName_unreserved[OF assms]
  by (auto simp: expandVariable_def plainSpec_def OPERATOR_CONFIG_def config_def encodeValue_def encodeRfc3986_def)



text \<open>A name with an escape is escaped again, and a prefix may cut a pair of surrogates in two.\<close>

lemma name_encoded_twice:
  "expandUriTemplate (TemplateText (lit ''{?%41}'')) (\<lambda>n. Some (TvString (lit ''x''))) = lit ''?%2541=x''"
  by (simp add: expandUriTemplate_def parseUriTemplate_def indexOfUnit_def parseExpression_def operatorOf_def
      parseVarSpec_def isValidVarName_def isHexDigitChar_def isHexDigitByte_def expandPart_def expandExpression_def
      List.map_filter_simps expandVariable_def OPERATOR_CONFIG_def config_def encodeValue_def encodeRfc3986_def
      bytes_ascii SIMPLE_ALLOW_TABLE_def UNRESERVED_CHARS_def pushPercentEncodedByte_def HEX_UPPER_def Let_def pushLiteral_def)

lemma prefix_cuts_pair:
  "expandVariable \<lparr>vsName = lit ''x'', vsPrefix = Some 1, vsExplode = False\<rparr> (Some (TvString [0xD83D, 0xDE00]))
     (OPERATOR_CONFIG OpSimple) = Some (lit ''%EF%BF%BD'')"
  by (simp add: expandVariable_def OPERATOR_CONFIG_def config_def encodeValue_def encodeRfc3986_def encodeUtf8_def
      isHighSurrogate_def isLowSurrogate_def utf8Bytes_def SIMPLE_ALLOW_TABLE_def pushPercentEncodedByte_def HEX_UPPER_def)

end
