(* ===== verification/Ni.thy ===== *)
theory Ni
  imports UriLaws Base64 SfHeaders
begin

text \<open>
  Named information (RFC 6920): \<open>src/ni.ts\<close> with its types of \<open>src/types/uri.ts\<close>. A digest is a list of
  bytes. The URL parser and the hash of the platform are arguments; an error is the value of a sum.
\<close>

section \<open>Suites and patterns\<close>

record hashSuite =
  hsBase :: jsstr
  hsBits :: nat

definition NI_HASH_SUITES :: "(jsstr \<times> hashSuite) list" where
  "NI_HASH_SUITES =
     map (\<lambda>(name, bits). (lit name, \<lparr>hsBase = lit ''sha-256'', hsBits = bits\<rparr>))
       [(''sha-256'', 256), (''sha-256-128'', 128), (''sha-256-120'', 120), (''sha-256-96'', 96), (''sha-256-64'', 64),
        (''sha-256-32'', 32)]"

definition isAlnum :: "cu \<Rightarrow> bool" where
  "isAlnum c \<longleftrightarrow> (65 \<le> c \<and> c \<le> 90) \<or> (97 \<le> c \<and> c \<le> 122) \<or> (48 \<le> c \<and> c \<le> 57)"

definition UNRESERVED_PATTERN :: "jsstr \<Rightarrow> bool" where
  "UNRESERVED_PATTERN s \<longleftrightarrow> s \<noteq> [] \<and> list_all (\<lambda>c. isAlnum c \<or> c \<in> set (lit ''._~-'')) s"

definition BASE64URL_PATTERN :: "jsstr \<Rightarrow> bool" where
  "BASE64URL_PATTERN s \<longleftrightarrow> s \<noteq> [] \<and> list_all (\<lambda>c. isAlnum c \<or> c \<in> set (lit ''_-'')) s"

definition REG_NAME_PATTERN :: "jsstr \<Rightarrow> bool" where
  "REG_NAME_PATTERN s \<longleftrightarrow> s \<noteq> [] \<and> list_all (\<lambda>c. isAlnum c \<or> c \<in> set (lit ''.-'')) s"

definition IPV6_REFERENCE_PATTERN :: "jsstr \<Rightarrow> bool" where
  "IPV6_REFERENCE_PATTERN s \<longleftrightarrow> s \<noteq> [] \<and> list_all (\<lambda>c. isHexDigitByte c \<or> c \<in> set (lit '':.'')) s"

record niUri =
  niAlgorithm :: jsstr
  niValue :: jsstr
  niDigest :: "byte list"
  niAuthority :: "jsstr option"
  niQuery :: "(jsstr \<times> jsstr) list option"

datatype niError = NiAlgorithm jsstr | NiValueError | NiLength jsstr | NiAuthorityError jsstr

section \<open>Authorities\<close>

definition isValidPort :: "jsstr \<Rightarrow> bool" where
  "isValidPort portText \<longleftrightarrow> portText \<noteq> [] \<and> list_all isDigit portText \<and> parseDec portText \<le> 65535"

fun hasDoubleDot :: "jsstr \<Rightarrow> bool" where
  "hasDoubleDot (c # d # cs) = ((c = 46 \<and> d = 46) \<or> hasDoubleDot (d # cs))"
| "hasDoubleDot _ = False"

definition isValidNiAuthority :: "jsstr \<Rightarrow> bool" where
  "isValidNiAuthority authority =
     (if authority = [] then False
      else if list_ex (\<lambda>c. c \<le> 0x20 \<or> c = 0x7F) authority then False
      else if list_ex (\<lambda>c. c \<in> set (lit ''@/?#'') \<or> c = 92) authority then False
      else if startsWith authority (lit ''['') then
        (case indexOfUnit (cu CHR '']'') authority of
           None \<Rightarrow> False
         | Some closing \<Rightarrow>
             if closing \<le> 1 then False
             else
               let host = take (closing - 1) (drop 1 authority); remainder = drop (Suc closing) authority
               in if \<not> IPV6_REFERENCE_PATTERN host then False
                  else if remainder = [] then True
                  else if \<not> startsWith remainder (lit '':'') then False
                  else isValidPort (drop 1 remainder))
      else
        let (host, port) =
          (case indexOfUnit (cu CHR '':'') authority of
             None \<Rightarrow> (authority, None)
           | Some i \<Rightarrow> (take i authority, Some (drop (Suc i) authority)))
        in if host = [] \<or> \<not> REG_NAME_PATTERN host \<or> hasDoubleDot host then False
           else case port of
             None \<Rightarrow> True
           | Some portText \<Rightarrow> if cu CHR '':'' \<in> set portText then False else isValidPort portText)"

section \<open>Digests as text\<close>

definition encodeBase64Url :: "byte list \<Rightarrow> jsstr" where
  "encodeBase64Url value =
     rev (dropWhile (\<lambda>c. c = cu CHR ''='')
       (rev (replaceUnit (cu CHR ''/'') (lit ''_'') (replaceUnit (cu CHR ''+'') (lit ''-'') (bytesToBase64 value)))))"

definition decodeBase64UrlDigest :: "jsstr \<Rightarrow> byte list option" where
  "decodeBase64UrlDigest value =
     (if value = [] \<or> cu CHR ''='' \<in> set value \<or> \<not> BASE64URL_PATTERN value then None
      else if length value mod 4 = 1 then None
      else
        let base64 = replaceUnit (cu CHR ''_'') (lit ''/'') (replaceUnit (cu CHR ''-'') (lit ''+'') value);
            padded = (if length value mod 4 = 0 then base64 else base64 @ replicate (4 - length value mod 4) (cu CHR ''=''));
            decoded = bytesOfBase64 padded
        in if decoded = [] then None
           else if encodeBase64Url decoded \<noteq> value then None
           else Some decoded)"

text \<open>A key of \<open>Object.prototype\<close> is a suite without a number of bits, which no length equals.\<close>

definition isValidDigestLengthForKnownAlgorithm :: "jsstr \<Rightarrow> byte list \<Rightarrow> bool" where
  "isValidDigestLengthForKnownAlgorithm algorithm digest =
     (case map_of NI_HASH_SUITES algorithm of
        Some suite \<Rightarrow> length digest = (hsBits suite + 7) div 8
      | None \<Rightarrow> algorithm \<notin> set prototypeKeys)"

definition truncateDigest :: "byte list \<Rightarrow> nat \<Rightarrow> byte list option" where
  "truncateDigest digest bits =
     (let n = bits div 8; remBits = bits mod 8
      in if n > length digest then None
         else if remBits = 0 then Some (take n digest)
         else
           let out = take (Suc n) digest
           in Some (out[length out - 1 := last out AND word_of_nat (255 * 2 ^ (8 - remBits) mod 256)]))"

definition bytesEqual :: "byte list \<Rightarrow> byte list \<Rightarrow> bool" where
  "bytesEqual a b \<longleftrightarrow> length a = length b \<and> list_all2 (=) a b"

section \<open>Segments\<close>

definition parseNiUrlSegment :: "jsstr \<Rightarrow> niUri option" where
  "parseNiUrlSegment segment =
     (case indexOfUnit (cu CHR '';'') segment of
        None \<Rightarrow> None
      | Some separator \<Rightarrow>
          if separator = 0 \<or> cu CHR '';'' \<in> set (drop (Suc separator) segment) \<or> separator = length segment - 1 then None
          else
            let algorithm = toLower (take separator segment); value = drop (Suc separator) segment
            in if \<not> UNRESERVED_PATTERN algorithm then None
               else case decodeBase64UrlDigest value of
                 None \<Rightarrow> None
               | Some digest \<Rightarrow>
                   if isValidDigestLengthForKnownAlgorithm algorithm digest
                   then Some \<lparr>niAlgorithm = algorithm, niValue = value, niDigest = digest, niAuthority = None, niQuery = None\<rparr>
                   else None)"

definition formatNiUrlSegment :: "niUri \<Rightarrow> niError + jsstr" where
  "formatNiUrlSegment uri =
     (let algorithm = toLower (niAlgorithm uri);
          value = (if niValue uri = [] then encodeBase64Url (niDigest uri) else niValue uri)
      in andThen (guardR (UNRESERVED_PATTERN algorithm) (NiAlgorithm (niAlgorithm uri))) (\<lambda>_.
         case decodeBase64UrlDigest value of
           None \<Rightarrow> Inl NiValueError
         | Some digest \<Rightarrow>
             andThen (guardR (isValidDigestLengthForKnownAlgorithm algorithm digest) (NiLength algorithm)) (\<lambda>_.
               Inr (algorithm @ lit '';'' @ value))))"

section \<open>Queries\<close>

text \<open>A member named \<open>__proto__\<close> that is set to a string is not stored.\<close>

fun niQueryLoop :: "(jsstr \<times> jsstr) list \<Rightarrow> jsstr list \<Rightarrow> (jsstr \<times> jsstr) list option" where
  "niQueryLoop params [] = Some params"
| "niQueryLoop params (pair # pairs) =
     (if pair = [] then niQueryLoop params pairs
      else
        let (rawName, rawValue) =
              (case indexOfUnit (cu CHR ''='') pair of
                 Some i \<Rightarrow> (take i pair, drop (Suc i) pair) | None \<Rightarrow> (pair, []));
            name = percentDecode rawName; value = percentDecode rawValue
        in if name = [] then None
           else if name = lit ''__proto__'' then niQueryLoop params pairs
           else niQueryLoop (objPut name value params) pairs)"

definition parseNiQuery :: "jsstr \<Rightarrow> (jsstr \<times> jsstr) list option" where
  "parseNiQuery query = niQueryLoop [] (splitOn (cu CHR ''&'') query)"

definition formatNiQuery :: "(jsstr \<times> jsstr) list option \<Rightarrow> jsstr" where
  "formatNiQuery query =
     (case query of
        None \<Rightarrow> []
      | Some params \<Rightarrow>
          let others = filter (\<lambda>(name, _). name \<noteq> lit ''ct'') params;
              entries = (case map_of params (lit ''ct'') of Some v \<Rightarrow> (lit ''ct'', v) # others | None \<Rightarrow> others)
          in if entries = [] then []
             else lit ''?'' @ joinWith (lit ''&'')
               (map (\<lambda>(name, v). percentEncode name QueryComponent @ lit ''='' @ percentEncode v QueryComponent) entries))"

section \<open>URIs\<close>

definition parseNiUri :: "jsstr \<Rightarrow> niUri option" where
  "parseNiUri uri =
     (if uri = [] \<or> cu CHR ''#'' \<in> set uri then None
      else case indexOfUnit (cu CHR '':'') uri of
        None \<Rightarrow> None
      | Some schemeIndex \<Rightarrow>
          if schemeIndex = 0 \<or> toLower (take schemeIndex uri) \<noteq> lit ''ni'' then None
          else
            let rest = drop (Suc schemeIndex) uri
            in if \<not> startsWith rest (lit ''//'') then None
               else
                 let (hierPart, queryPart) =
                   (case indexOfUnit (cu CHR ''?'') rest of
                      Some q \<Rightarrow> (take q rest, drop (Suc q) rest) | None \<Rightarrow> (rest, []));
                     authorityAndPath = drop 2 hierPart
                 in case indexOfUnit (cu CHR ''/'') authorityAndPath of
                      None \<Rightarrow> None
                    | Some slashIndex \<Rightarrow>
                        let authority = take slashIndex authorityAndPath;
                            segment = drop (Suc slashIndex) authorityAndPath
                        in if cu CHR ''/'' \<in> set segment then None
                           else case parseNiUrlSegment segment of
                             None \<Rightarrow> None
                           | Some parsed \<Rightarrow>
                               let result = parsed\<lparr>niAuthority := (if authority = [] then None else Some authority)\<rparr>
                               in if queryPart = [] then Some result
                                  else map_option (\<lambda>query. result\<lparr>niQuery := Some query\<rparr>) (parseNiQuery queryPart))"

definition formatNiUri :: "niUri \<Rightarrow> niError + jsstr" where
  "formatNiUri uri =
     andThen (formatNiUrlSegment uri) (\<lambda>segment.
       let authority = (case niAuthority uri of None \<Rightarrow> [] | Some a \<Rightarrow> a)
       in if authority \<noteq> [] \<and> \<not> isValidNiAuthority authority then Inl (NiAuthorityError authority)
          else Inr (lit ''ni://'' @ authority @ lit ''/'' @ segment @ formatNiQuery (niQuery uri)))"

definition normalizeParsedNi :: "niUri \<Rightarrow> niUri option" where
  "normalizeParsedNi uri =
     map_option (\<lambda>parsed. parsed\<lparr>niAuthority := niAuthority uri, niQuery := niQuery uri\<rparr>)
       (parseNiUrlSegment (niAlgorithm uri @ lit '';'' @ niValue uri))"

datatype niInput = NiText jsstr | NiParsed niUri

definition niInput :: "niInput \<Rightarrow> niUri option" where
  "niInput i = (case i of NiText t \<Rightarrow> parseNiUri t | NiParsed u \<Rightarrow> normalizeParsedNi u)"

record niComparison =
  ncMatches :: bool
  ncLeftValid :: bool
  ncRightValid :: bool

definition compareNiUris :: "niInput \<Rightarrow> niInput \<Rightarrow> niComparison" where
  "compareNiUris a b =
     (case (niInput a, niInput b) of
        (Some l, Some r) \<Rightarrow>
          if niAlgorithm l \<noteq> niAlgorithm r then \<lparr>ncMatches = False, ncLeftValid = True, ncRightValid = True\<rparr>
          else if \<not> bytesEqual (niDigest l) (niDigest r) then \<lparr>ncMatches = False, ncLeftValid = True, ncRightValid = True\<rparr>
          else \<lparr>ncMatches = True, ncLeftValid = True, ncRightValid = True\<rparr>
      | (l, r) \<Rightarrow> \<lparr>ncMatches = False, ncLeftValid = l \<noteq> None, ncRightValid = r \<noteq> None\<rparr>)"

definition toWellKnownNiUrl :: "niInput \<Rightarrow> jsstr option \<Rightarrow> jsstr option \<Rightarrow> jsstr option" where
  "toWellKnownNiUrl uri scheme authorityOption =
     (case niInput uri of
        None \<Rightarrow> None
      | Some parsed \<Rightarrow>
          (case (case niAuthority parsed of Some a \<Rightarrow> if a = [] then authorityOption else Some a | None \<Rightarrow> authorityOption) of
             None \<Rightarrow> None
           | Some authority \<Rightarrow>
               if authority = [] \<or> \<not> isValidNiAuthority authority then None
               else Some ((case scheme of Some s \<Rightarrow> s | None \<Rightarrow> lit ''https'') @ lit ''://'' @ authority @
                 lit ''/.well-known/ni/'' @ niAlgorithm parsed @ lit ''/'' @ niValue parsed @ formatNiQuery (niQuery parsed))))"

text \<open>\<open>host\<close> of the URL class: the host name with the port it shows.\<close>

definition upHost :: "urlParts \<Rightarrow> jsstr" where
  "upHost url = upHostname url @ (if upPort url = [] then [] else lit '':'' @ upPort url)"

definition fromWellKnownNiUrl ::
  "(jsstr \<Rightarrow> urlParts option) \<Rightarrow> jsstr \<Rightarrow> bool \<Rightarrow> niUri option"
where
  "fromWellKnownNiUrl parseUrl url includeAuthority =
     (case parseUrl url of
        None \<Rightarrow> None
      | Some parsed \<Rightarrow>
          if upProtocol parsed \<noteq> lit ''http:'' \<and> upProtocol parsed \<noteq> lit ''https:'' then None
          else if \<not> startsWith (upPathname parsed) (lit ''/.well-known/ni/'') then None
          else
            case splitOn (cu CHR ''/'') (drop 16 (upPathname parsed)) of
              [p, q] \<Rightarrow>
                if p = [] \<or> q = [] then None
                else
                  (case parseNiUrlSegment (percentDecode p @ lit '';'' @ percentDecode q) of
                     None \<Rightarrow> None
                   | Some segment \<Rightarrow>
                       let result = (if includeAuthority then segment\<lparr>niAuthority := Some (upHost parsed)\<rparr> else segment);
                           query = (if length (upSearch parsed) > 1 then parseNiQuery (drop 1 (upSearch parsed)) else None)
                       in case query of
                            None \<Rightarrow> None
                          | Some params \<Rightarrow> Some (if params \<noteq> [] then result\<lparr>niQuery := Some params\<rparr> else result))
            | _ \<Rightarrow> None)"

text \<open>The hash is the argument \<open>sha256\<close>; the error of an unknown suite is None.\<close>

definition computeNiDigest :: "(byte list \<Rightarrow> byte list) \<Rightarrow> byte list \<Rightarrow> jsstr \<Rightarrow> jsstr option" where
  "computeNiDigest sha256 data algorithm =
     (case map_of NI_HASH_SUITES (toLower algorithm) of
        None \<Rightarrow> None
      | Some suite \<Rightarrow> map_option encodeBase64Url (truncateDigest (sha256 data) (hsBits suite)))"

definition verifyNiDigest :: "(byte list \<Rightarrow> byte list) \<Rightarrow> byte list \<Rightarrow> jsstr \<Rightarrow> jsstr \<Rightarrow> bool" where
  "verifyNiDigest sha256 data algorithm value =
     (case decodeBase64UrlDigest value of
        None \<Rightarrow> False
      | Some expected \<Rightarrow>
          if \<not> isValidDigestLengthForKnownAlgorithm (toLower algorithm) expected then False
          else case computeNiDigest sha256 data (toLower algorithm) of
            None \<Rightarrow> False
          | Some computed \<Rightarrow>
              (case decodeBase64UrlDigest computed of None \<Rightarrow> False | Some computedBytes \<Rightarrow> bytesEqual expected computedBytes))"

end
