(* ===== verification/NiLaws.thy ===== *)
theory NiLaws
  imports Ni
begin

text \<open>
  Laws of \<open>Ni\<close>: the unpadded text of a digest, the round trip of URIs and the check of a digest.
\<close>

section \<open>Unpadded base 64\<close>

definition urlChar :: "cu \<Rightarrow> cu" where
  "urlChar c = (if c = 43 then 45 else if c = 47 then 95 else c)"

lemma replaceUnit_map: "replaceUnit a [b] s = map (\<lambda>c. if c = a then b else c) s"
  by (induction s) auto

lemma base64Encode_shape:
  "list_all (\<lambda>b. b < 256) bs \<Longrightarrow>
    \<exists>cs k. base64Encode bs = cs @ replicate k 61 \<and> list_all isB64 cs \<and> length cs mod 4 \<noteq> 1 \<and>
      k = (if length cs mod 4 = 0 then 0 else 4 - length cs mod 4) \<and> (bs \<noteq> [] \<longrightarrow> cs \<noteq> [])"
proof (induction bs rule: base64Encode.induct)
  case (2 a)
  then have "a div 4 < 64" "a mod 4 * 16 < 64" using base64_split[of a 0] by auto
  then show ?case
    by (intro exI[of _ "[b64Char (a div 4), b64Char (a mod 4 * 16)]"] exI[of _ 2]) (simp add: numeral_2_eq_2)
next
  case (3 a b)
  then have "a div 4 < 64" "a mod 4 * 16 + b div 16 < 64" "b mod 16 * 4 < 64"
    using base64_split[of a b] base64_split[of b 0] by auto
  then show ?case
    by (intro exI[of _ "[b64Char (a div 4), b64Char (a mod 4 * 16 + b div 16), b64Char (b mod 16 * 4)]"] exI[of _ 1]) simp
next
  case (4 a b c bs)
  let ?q = "[b64Char (a div 4), b64Char (a mod 4 * 16 + b div 16), b64Char (b mod 16 * 4 + c div 64), b64Char (c mod 64)]"
  have q: "list_all isB64 ?q" using 4(2) base64_split[of a b] base64_split[of c b] base64_split[of b c] by auto
  from 4 obtain cs k where "base64Encode bs = cs @ replicate k 61" "list_all isB64 cs" "length cs mod 4 \<noteq> 1"
    "k = (if length cs mod 4 = 0 then 0 else 4 - length cs mod 4)" by auto
  moreover have "length (?q @ cs) mod 4 = length cs mod 4" by simp
  ultimately show ?case using q by (intro exI[of _ "?q @ cs"] exI[of _ k]) (auto simp del: length_append)
qed auto

lemma encodeBase64Url_shape:
  obtains cs where "bytesToBase64 bytes = cs @ replicate (if length cs mod 4 = 0 then 0 else 4 - length cs mod 4) 61"
    "list_all isB64 cs" "length cs mod 4 \<noteq> 1" "bytes \<noteq> [] \<longrightarrow> cs \<noteq> []" "encodeBase64Url bytes = map urlChar cs"
proof -
  from base64Encode_shape[OF unat_byte, of bytes] obtain cs where cs:
    "bytesToBase64 bytes = cs @ replicate (if length cs mod 4 = 0 then 0 else 4 - length cs mod 4) 61"
    "list_all isB64 cs" "length cs mod 4 \<noteq> 1" "bytes \<noteq> [] \<longrightarrow> cs \<noteq> []"
    by (auto simp: bytesToBase64_def)
  have no_pad: "61 \<notin> set (map urlChar cs)" using cs(2) by (auto simp: urlChar_def list_all_iff isB64_def)
  have strip: "dropWhile (\<lambda>c. c = 61) (replicate k 61 @ rev t) = rev t" if "61 \<notin> set t" for k :: nat and t :: jsstr
  proof -
    have "61 \<notin> set r \<Longrightarrow> dropWhile (\<lambda>c. c = 61) r = r" for r :: jsstr by (cases r) auto
    from this[of "rev t"] that show ?thesis by (induction k) simp_all
  qed
  let ?k = "if length cs mod 4 = 0 then 0 else 4 - length cs mod 4"
  have "replaceUnit 47 [95] (replaceUnit 43 [45] (cs @ replicate k 61)) = map urlChar cs @ replicate k 61" for k
    by (auto simp: replaceUnit_map urlChar_def)
  then have "encodeBase64Url bytes = rev (dropWhile (\<lambda>c. c = 61) (replicate ?k 61 @ rev (map urlChar cs)))"
    unfolding encodeBase64Url_def cs(1) by simp
  then have "encodeBase64Url bytes = map urlChar cs" using strip[OF no_pad] by simp
  then show ?thesis using cs that by blast
qed

lemma decode_encodeBase64Url:
  assumes "bytes \<noteq> []"
  shows "decodeBase64UrlDigest (encodeBase64Url bytes) = Some bytes"
proof -
  obtain cs where cs: "bytesToBase64 bytes = cs @ replicate (if length cs mod 4 = 0 then 0 else 4 - length cs mod 4) 61"
    "list_all isB64 cs" "length cs mod 4 \<noteq> 1" "cs \<noteq> []" "encodeBase64Url bytes = map urlChar cs"
    using encodeBase64Url_shape[of bytes] assms by metis
  have pat: "BASE64URL_PATTERN (map urlChar cs)" "61 \<notin> set (map urlChar cs)"
    using cs(2,4) by (auto simp: BASE64URL_PATTERN_def urlChar_def list_all_iff isB64_def isAlnum_def)
  have again: "replaceUnit 95 [47] (replaceUnit 45 [43] (map urlChar cs)) = cs"
    using cs(2) unfolding replaceUnit_map map_map by (intro map_idI) (auto simp: list_all_iff urlChar_def isB64_def)
  let ?padded = "if length cs mod 4 = 0 then cs else cs @ replicate (4 - length cs mod 4) 61"
  have "?padded = bytesToBase64 bytes" using cs(1) by simp
  then have d: "bytesOfBase64 ?padded = bytes" by (metis bytesOfBase64_toBase64)
  have "decodeBase64UrlDigest (map urlChar cs) = Some bytes"
    using pat cs(3,4,5) assms unfolding decodeBase64UrlDigest_def Let_def lit_simps of_char_def
    by (simp add: again d del: replicate.simps cong: if_cong)
  then show ?thesis by (simp add: cs(5))
qed

lemma decodeBase64UrlDigest_canonical: "decodeBase64UrlDigest v = Some b \<Longrightarrow> v = encodeBase64Url b \<and> b \<noteq> []"
  by (auto simp: decodeBase64UrlDigest_def Let_def split: if_splits)

lemma decodeBase64UrlDigest_chars: "decodeBase64UrlDigest v = Some b \<Longrightarrow> BASE64URL_PATTERN v"
  by (auto simp: decodeBase64UrlDigest_def split: if_splits)

section \<open>Digests\<close>

text \<open>C29 (ni_verify_iff): Whatever hash of 32 bytes the platform has, a value verifies against some data
  exactly when it is the text the digest of the data is given: no other text of the same bytes, no shorter or
  longer one, and none for an unknown suite.\<close>

theorem ni_verify_iff:
  assumes "length (sha256 data) = 32"
  shows "verifyNiDigest sha256 data algorithm value \<longleftrightarrow> computeNiDigest sha256 data algorithm = Some value"
proof -
  have lower: "toLower (toLower s) = toLower s" for s by (simp add: toLower_def lowerUnit_def)
  have known: "\<exists>bits. truncateDigest (sha256 data) (hsBits suite) = Some bits \<and> length bits = (hsBits suite + 7) div 8 \<and> bits \<noteq> []"
    if "map_of NI_HASH_SUITES a = Some suite" for a suite
    using that assms by (auto simp: NI_HASH_SUITES_def truncateDigest_def split: if_splits)
  show ?thesis
  proof (cases "map_of NI_HASH_SUITES (toLower algorithm)")
    case None
    then show ?thesis by (auto simp: verifyNiDigest_def computeNiDigest_def lower split: option.split)
  next
    case (Some suite)
    from known[OF Some] obtain bits where bits: "truncateDigest (sha256 data) (hsBits suite) = Some bits"
      "length bits = (hsBits suite + 7) div 8" "bits \<noteq> []" by blast
    have c: "computeNiDigest sha256 data algorithm = Some (encodeBase64Url bits)"
      "computeNiDigest sha256 data (toLower algorithm) = Some (encodeBase64Url bits)"
      using Some bits(1) by (simp_all add: computeNiDigest_def lower)
    have eq: "bytesEqual a b \<longleftrightarrow> a = b" for a b by (auto simp: bytesEqual_def list_all2_eq dest: list_all2_lengthD)
    show ?thesis
    proof
      assume "verifyNiDigest sha256 data algorithm value"
      then have "decodeBase64UrlDigest value = Some bits"
        by (auto simp: verifyNiDigest_def c decode_encodeBase64Url[OF bits(3)] eq split: option.splits if_splits)
      then show "computeNiDigest sha256 data algorithm = Some value" using decodeBase64UrlDigest_canonical c(1) by auto
    next
      assume "computeNiDigest sha256 data algorithm = Some value"
      then have v: "value = encodeBase64Url bits" using c(1) by simp
      show "verifyNiDigest sha256 data algorithm value"
        by (simp add: verifyNiDigest_def v c decode_encodeBase64Url[OF bits(3)] eq isValidDigestLengthForKnownAlgorithm_def Some bits(2))
    qed
  qed
qed

theorem ni_verify_iff_witness:
  "verifyNiDigest (\<lambda>_. replicate 32 0) [] (lit ''SHA-256-32'') (lit ''AAAAAA'') \<longleftrightarrow>
   computeNiDigest (\<lambda>_. replicate 32 0) [] (lit ''SHA-256-32'') = Some (lit ''AAAAAA'')"
  by (rule ni_verify_iff) simp

section \<open>URIs\<close>

definition niOk :: "niUri \<Rightarrow> bool" where
  "niOk u \<longleftrightarrow> UNRESERVED_PATTERN (niAlgorithm u) \<and> toLower (niAlgorithm u) = niAlgorithm u \<and>
     decodeBase64UrlDigest (niValue u) = Some (niDigest u) \<and>
     isValidDigestLengthForKnownAlgorithm (niAlgorithm u) (niDigest u) \<and>
     (case niAuthority u of None \<Rightarrow> True | Some a \<Rightarrow> isValidNiAuthority a) \<and> niQuery u = None"

lemma parseNiUrlSegment_text:
  assumes "UNRESERVED_PATTERN alg" "toLower alg = alg" "decodeBase64UrlDigest v = Some d"
    "isValidDigestLengthForKnownAlgorithm alg d"
  shows "parseNiUrlSegment (alg @ 59 # v) =
    Some \<lparr>niAlgorithm = alg, niValue = v, niDigest = d, niAuthority = None, niQuery = None\<rparr>"
proof -
  have "59 \<notin> set alg" "alg \<noteq> []" using assms(1) by (auto simp: UNRESERVED_PATTERN_def list_all_iff isAlnum_def)
  moreover have "59 \<notin> set v" "v \<noteq> []"
    using decodeBase64UrlDigest_chars[OF assms(3)] by (auto simp: BASE64URL_PATTERN_def list_all_iff isAlnum_def)
  ultimately show ?thesis using assms indexOfUnit_first[of 59 alg v] by (simp add: parseNiUrlSegment_def)
qed

lemma niAuthority_plain:
  "isValidNiAuthority a \<Longrightarrow> a \<noteq> [] \<and> 47 \<notin> set a \<and> 63 \<notin> set a \<and> 35 \<notin> set a"
  by (auto simp: isValidNiAuthority_def list_ex_iff split: if_splits)

text \<open>A name whose algorithm, digest and authority are valid is written as text that is
  read as the same name.\<close>

theorem ni_roundtrip:
  assumes "niOk u"
  shows "\<exists>t. formatNiUri u = Inr t \<and> parseNiUri t = Some u"
proof -
  define a where "a = (case niAuthority u of None \<Rightarrow> [] | Some a \<Rightarrow> a)"
  let ?seg = "niAlgorithm u @ 59 # niValue u"
  note alg = assms[unfolded niOk_def, THEN conjunct1]
  have chars: "list_all (\<lambda>c. c \<noteq> 35 \<and> c \<noteq> 47 \<and> c \<noteq> 63) ?seg" "niValue u \<noteq> []"
    using assms decodeBase64UrlDigest_chars[of "niValue u"]
    by (auto simp: niOk_def UNRESERVED_PATTERN_def BASE64URL_PATTERN_def list_all_iff isAlnum_def)
  have av: "a \<noteq> [] \<Longrightarrow> isValidNiAuthority a" and aset: "47 \<notin> set a" "63 \<notin> set a" "35 \<notin> set a"
    and again: "(if a = [] then None else Some a) = niAuthority u"
    using assms niAuthority_plain by (auto simp: niOk_def a_def split: option.splits)
  let ?t = "lit ''ni://'' @ a @ lit ''/'' @ ?seg"
  have f: "formatNiUri u = Inr ?t"
    using assms chars(2) av
    by (auto simp: formatNiUri_def formatNiUrlSegment_def niOk_def formatNiQuery_def a_def[symmetric] Let_def)
  have seg: "parseNiUrlSegment ?seg = Some (u\<lparr>niAuthority := None\<rparr>)"
    using assms parseNiUrlSegment_text[of "niAlgorithm u" "niValue u" "niDigest u"] by (cases u) (simp add: niOk_def)
  have no: "63 \<notin> set (47 # 47 # a @ 47 # ?seg)" "35 \<notin> set ?t" "47 \<notin> set ?seg"
    using chars(1) aset by (auto simp: list_all_iff)
  have "indexOfUnit 58 ?t = Some 2" by (simp add: indexOfUnit_def Let_def)
  moreover have "indexOfUnit 63 (47 # 47 # a @ 47 # ?seg) = None" using no(1) indexOfUnit_none by blast
  moreover have "indexOfUnit 47 (a @ 47 # ?seg) = Some (length a)" by (rule indexOfUnit_first[OF aset(1)])
  ultimately have "parseNiUri ?t = Some (u\<lparr>niAuthority := (if a = [] then None else Some a)\<rparr>)"
    using no seg unfolding parseNiUri_def by (simp add: toLower_def lowerUnit_def startsWith_def)
  then show ?thesis using f again by simp
qed

theorem ni_roundtrip_witness:
  "\<exists>t. formatNiUri \<lparr>niAlgorithm = lit ''x'', niValue = encodeBase64Url [1], niDigest = [1], niAuthority = Some (lit ''a:80''),
      niQuery = None\<rparr> = Inr t \<and>
    parseNiUri t = Some \<lparr>niAlgorithm = lit ''x'', niValue = encodeBase64Url [1], niDigest = [1],
      niAuthority = Some (lit ''a:80''), niQuery = None\<rparr>"
proof (rule ni_roundtrip)
  have "isValidNiAuthority (lit ''a:80'')"
    by (simp add: isValidNiAuthority_def startsWith_def indexOfUnit_def REG_NAME_PATTERN_def isAlnum_def isValidPort_def
        isDigit_def parseDec_def digitVal_def)
  moreover have "UNRESERVED_PATTERN (lit ''x'')" "toLower (lit ''x'') = lit ''x''"
    by (simp_all add: UNRESERVED_PATTERN_def isAlnum_def toLower_def lowerUnit_def)
  moreover have "isValidDigestLengthForKnownAlgorithm (lit ''x'') [1]"
    by (simp add: isValidDigestLengthForKnownAlgorithm_def NI_HASH_SUITES_def prototypeKeys_def)
  ultimately show "niOk \<lparr>niAlgorithm = lit ''x'', niValue = encodeBase64Url [1], niDigest = [1],
      niAuthority = Some (lit ''a:80''), niQuery = None\<rparr>"
    using decode_encodeBase64Url[of "[1]"] unfolding niOk_def by simp
qed

text \<open>A well-known URL without a query is never read back, and a value of the query that holds an ampersand
  is written as it is and read as two parameters.\<close>

lemma well_known_needs_query: "parseUrl url = Some p \<Longrightarrow> length (upSearch p) \<le> 1 \<Longrightarrow> fromWellKnownNiUrl parseUrl url b = None"
  by (auto simp: fromWellKnownNiUrl_def Let_def split: list.split option.split)

lemma query_not_escaped:
  "formatNiQuery (Some [(lit ''ct'', lit ''a&b=c'')]) = lit ''?ct=a&b=c''"
  "parseNiQuery (lit ''ct=a&b=c'') = Some [(lit ''ct'', lit ''a''), (lit ''b'', lit ''c'')]"
  by (simp_all add: formatNiQuery_def percentEncode_def encodeRfc3986_def bytes_ascii COMPONENT_ALLOW_TABLE_def
      UNRESERVED_CHARS_def COMPONENT_ALLOWED_def SUB_DELIMS_def parseNiQuery_def indexOfUnit_def percentDecode_def
      objPut_def hasOwnKey_def keyBefore_def isIndexKey_def isDigit_def Let_def)

end
