(* ===== verification/Cookie.thy ===== *)
theory Cookie
  imports HttpDate Uri
begin

text \<open>
  Cookies (RFC 6265): \<open>src/cookie.ts\<close> and \<open>src/types/cookie.ts\<close>. A Map is the list of its entries in the
  order they were set, a Date its time value in milliseconds, None when it is invalid; an error is the text
  that is refused. The URL class of the platform is an argument.
\<close>

section \<open>Values and attributes\<close>

record cookieAttributes =
  caExpires :: "jsDate option"
  caMaxAge :: "jsnum option"
  caDomain :: "jsstr option"
  caPath :: "jsstr option"
  caSecure :: bool
  caHttpOnly :: bool
  caExtensions :: "(jsstr \<times> jsstr option) list option"

record setCookie =
  scName :: jsstr
  scValue :: jsstr
  scAttributes :: cookieAttributes

record storedCookie =
  stName :: jsstr
  stValue :: jsstr
  stDomain :: jsstr
  stPath :: jsstr
  stCreation :: int
  stExpires :: "jsDate option"
  stSecureOnly :: bool
  stHttpOnly :: bool
  stHostOnly :: bool

record cookieHeaderOptions =
  chNow :: "jsDate option"
  chIncludeHttpOnly :: "bool option"
  chIsSecure :: "bool option"

definition MONTHS :: "jsstr list" where
  "MONTHS =
     map lit [''jan'', ''feb'', ''mar'', ''apr'', ''may'', ''jun'', ''jul'', ''aug'', ''sep'', ''oct'', ''nov'', ''dec'']"

definition formatCookieValue :: "jsstr \<Rightarrow> jsstr + jsstr" where
  "formatCookieValue value =
     andThen (assertNoCtl value) (\<lambda>_.
       if \<not> list_ex (\<lambda>c. isJsSpace c \<or> c = cu CHR '';'' \<or> c = cu CHR '','' \<or> c = 34) value \<and> 92 \<notin> set value
       then Inr value else quoteString value)"

definition assertNoSetCookieAttributeDelimiter :: "jsstr \<Rightarrow> jsstr + unit" where
  "assertNoSetCookieAttributeDelimiter value = guardR (cu CHR '';'' \<notin> set value) value"

section \<open>Dates\<close>

definition isDelimiter :: "cu \<Rightarrow> bool" where
  "isDelimiter c \<longleftrightarrow>
     c = 0x09 \<or> (0x20 \<le> c \<and> c \<le> 0x2F) \<or> (0x3B \<le> c \<and> c \<le> 0x40) \<or> (0x5B \<le> c \<and> c \<le> 0x60) \<or> (0x7B \<le> c \<and> c \<le> 0x7E)"

fun tokenLoop :: "jsstr \<Rightarrow> jsstr \<Rightarrow> jsstr list" where
  "tokenLoop current [] = (if current = [] then [] else [current])"
| "tokenLoop current (c # cs) =
     (if isDelimiter c then (if current = [] then tokenLoop [] cs else current # tokenLoop [] cs)
      else tokenLoop (current @ [c]) cs)"

definition tokenizeCookieDate :: "jsstr \<Rightarrow> jsstr list" where
  "tokenizeCookieDate value = tokenLoop [] value"

definition parseDayOfMonth :: "jsstr \<Rightarrow> nat option" where
  "parseDayOfMonth token =
     (if 3 \<le> length token \<and> list_all isDigit token then None
      else
        let digits = takeWhile isDigit (take 2 token)
        in if digits = [] then None else Some (parseDec digits))"

definition parseCookieYear :: "jsstr \<Rightarrow> nat option" where
  "parseCookieYear token =
     (let digits = takeWhile isDigit (take 4 token)
      in if length digits < 2 then None
         else
           let year = parseDec digits
           in Some (if length digits = 2 then (if 70 \<le> year then year + 1900 else year + 2000) else year))"

fun monthLoop :: "nat \<Rightarrow> jsstr list \<Rightarrow> jsstr \<Rightarrow> nat option" where
  "monthLoop i [] lower = None"
| "monthLoop i (m # ms) lower = (if startsWith lower m then Some (i + 1) else monthLoop (Suc i) ms lower)"

definition parseMonth :: "jsstr \<Rightarrow> nat option" where
  "parseMonth token = monthLoop 0 MONTHS (toLower token)"

definition oneOrTwoDigits :: "jsstr \<Rightarrow> bool" where
  "oneOrTwoDigits s \<longleftrightarrow> s \<noteq> [] \<and> length s \<le> 2 \<and> list_all isDigit s"

definition parseTime :: "jsstr \<Rightarrow> (nat \<times> nat \<times> nat) option" where
  "parseTime token =
     (case splitOn (cu CHR '':'') token of
        [h, m, s] \<Rightarrow>
          if oneOrTwoDigits h \<and> oneOrTwoDigits m \<and> oneOrTwoDigits s then Some (parseDec h, parseDec m, parseDec s) else None
      | _ \<Rightarrow> None)"

record cookieDate =
  cdDay :: "nat option"
  cdMonth :: "nat option"
  cdYear :: "nat option"
  cdTime :: "(nat \<times> nat \<times> nat) option"

text \<open>One token goes to the first field that is missing and can take it.\<close>

definition dateToken :: "cookieDate \<Rightarrow> jsstr \<Rightarrow> cookieDate" where
  "dateToken d token =
     (case (if cdTime d = None then parseTime token else None) of
        Some t \<Rightarrow> d\<lparr>cdTime := Some t\<rparr>
      | None \<Rightarrow>
          (case (if cdDay d = None then parseDayOfMonth token else None) of
             Some n \<Rightarrow> d\<lparr>cdDay := Some n\<rparr>
           | None \<Rightarrow>
               (case (if cdMonth d = None then parseMonth token else None) of
                  Some n \<Rightarrow> d\<lparr>cdMonth := Some n\<rparr>
                | None \<Rightarrow>
                    (case (if cdYear d = None then parseCookieYear token else None) of
                       Some n \<Rightarrow> d\<lparr>cdYear := Some n\<rparr>
                     | None \<Rightarrow> d))))"

definition parseCookieDate :: "jsstr \<Rightarrow> jsDate option" where
  "parseCookieDate value =
     (let d = foldl dateToken \<lparr>cdDay = None, cdMonth = None, cdYear = None, cdTime = None\<rparr> (tokenizeCookieDate value)
      in case (cdDay d, cdMonth d, cdYear d, cdTime d) of
           (Some day, Some month, Some year, Some (hour, minute, second)) \<Rightarrow>
             if year < 1601 \<or> 9999 < year then None
             else if day < 1 \<or> 31 < day then None
             else if 23 < hour \<or> 59 < minute \<or> 59 < second then None
             else
               (case dateUTC (int year) (int month - 1) (int day) (int hour) (int minute) (int second) 0 of
                  None \<Rightarrow> None
                | Some t \<Rightarrow>
                    if getUTCFullYear t \<noteq> int year \<or> getUTCMonth t \<noteq> int month - 1 \<or> getUTCDate t \<noteq> int day \<or>
                       getUTCHours t \<noteq> int hour \<or> getUTCMinutes t \<noteq> int minute \<or> getUTCSeconds t \<noteq> int second
                    then None else Some (Some t))
         | _ \<Rightarrow> None)"

definition parseMaxAge :: "jsstr \<Rightarrow> jsnum option" where
  "parseMaxAge value =
     (let trimmed = jsTrim value;
          neg = startsWith trimmed (lit ''-'');
          digits = (if neg then drop 1 trimmed else trimmed)
      in if trimmed = [] \<or> digits = [] \<or> \<not> list_all isDigit digits then None
         else
           let parsed = roundDouble (if neg then - int (parseDec digits) else int (parseDec digits)) 1
           in if isFiniteNum parsed then Some parsed else None)"

section \<open>The Cookie field\<close>

definition setIfAbsent :: "(jsstr \<times> 'v) list \<Rightarrow> jsstr \<Rightarrow> 'v \<Rightarrow> (jsstr \<times> 'v) list" where
  "setIfAbsent m name value = (if name \<in> fst ` set m then m else m @ [(name, value)])"

definition cookiePart :: "(jsstr \<times> jsstr) list \<Rightarrow> jsstr \<Rightarrow> (jsstr \<times> jsstr) list" where
  "cookiePart cookies part =
     (let trimmed = jsTrim part
      in if trimmed = [] then cookies
         else case indexOfUnit (cu CHR ''='') trimmed of
           None \<Rightarrow> cookies
         | Some eqIndex \<Rightarrow>
             let name = jsTrim (take eqIndex trimmed)
             in if name = [] then cookies
                else setIfAbsent cookies name (unquoteLenient (drop (Suc eqIndex) trimmed)))"

definition parseCookie :: "jsstr \<Rightarrow> (jsstr \<times> jsstr) list" where
  "parseCookie header =
     (if header = [] \<or> jsTrim header = [] then []
      else foldl cookiePart [] (splitOn (cu CHR '';'') header))"

definition cookiePair :: "jsstr \<times> jsstr \<Rightarrow> jsstr + jsstr" where
  "cookiePair p =
     andThen (assertHeaderToken (fst p)) (\<lambda>_. andThen (formatCookieValue (snd p)) (\<lambda>v. Inr (fst p @ lit ''='' @ v)))"

definition formatCookie :: "(jsstr \<times> jsstr) list \<Rightarrow> jsstr + jsstr" where
  "formatCookie cookies = andThen (mapR cookiePair cookies) (\<lambda>parts. Inr (joinWith (lit ''; '') parts))"

section \<open>The Set-Cookie field\<close>

definition noAttributes :: cookieAttributes where
  "noAttributes =
     \<lparr>caExpires = None, caMaxAge = None, caDomain = None, caPath = None, caSecure = False, caHttpOnly = False,
      caExtensions = None\<rparr>"

definition setAttribute :: "cookieAttributes \<Rightarrow> jsstr \<Rightarrow> jsstr option \<Rightarrow> cookieAttributes" where
  "setAttribute a nameLower rawValue =
     (let given = (case rawValue of Some v \<Rightarrow> if v = [] then None else Some v | None \<Rightarrow> None)
      in if nameLower = lit ''expires'' then
           (case given of
              None \<Rightarrow> a
            | Some v \<Rightarrow> (case parseCookieDate v of Some d \<Rightarrow> a\<lparr>caExpires := Some d\<rparr> | None \<Rightarrow> a))
         else if nameLower = lit ''max-age'' then
           (case given of
              None \<Rightarrow> a
            | Some v \<Rightarrow> (case parseMaxAge v of Some n \<Rightarrow> a\<lparr>caMaxAge := Some n\<rparr> | None \<Rightarrow> a))
         else if nameLower = lit ''domain'' then
           (case given of
              None \<Rightarrow> a
            | Some v \<Rightarrow>
                let lowered = toLower (jsTrim v);
                    domain = (if startsWith lowered (lit ''.'') then drop 1 lowered else lowered)
                in if domain = [] then a else a\<lparr>caDomain := Some domain\<rparr>)
         else if nameLower = lit ''path'' then
           (case given of None \<Rightarrow> a | Some v \<Rightarrow> a\<lparr>caPath := Some v\<rparr>)
         else if nameLower = lit ''secure'' then a\<lparr>caSecure := True\<rparr>
         else if nameLower = lit ''httponly'' then a\<lparr>caHttpOnly := True\<rparr>
         else
           a\<lparr>caExtensions :=
             Some (objPut nameLower rawValue (case caExtensions a of None \<Rightarrow> [] | Some es \<Rightarrow> es))\<rparr>)"

definition attributePart :: "cookieAttributes \<Rightarrow> jsstr \<Rightarrow> cookieAttributes" where
  "attributePart a part =
     (let trimmed = jsTrim part
      in if trimmed = [] then a
         else
           let attrEq = indexOfUnit (cu CHR ''='') trimmed;
               rawName = jsTrim (case attrEq of None \<Rightarrow> trimmed | Some i \<Rightarrow> take i trimmed);
               rawValue = (case attrEq of None \<Rightarrow> None | Some i \<Rightarrow> Some (jsTrim (drop (Suc i) trimmed)))
           in if rawName = [] then a else setAttribute a (toLower rawName) rawValue)"

definition parseSetCookie :: "jsstr \<Rightarrow> setCookie option" where
  "parseSetCookie header =
     (if header = [] \<or> jsTrim header = [] then None
      else
        let parts = splitOn (cu CHR '';'') header; pair = hd parts
        in if pair = [] then None
           else case indexOfUnit (cu CHR ''='') pair of
             None \<Rightarrow> None
           | Some eqIndex \<Rightarrow>
               let name = jsTrim (take eqIndex pair)
               in if name = [] then None
                  else Some \<lparr>scName = name, scValue = unquoteLenient (jsTrim (drop (Suc eqIndex) pair)),
                    scAttributes = foldl attributePart noAttributes (tl parts)\<rparr>)"

definition mathFloor :: "jsnum \<Rightarrow> jsnum" where
  "mathFloor x = (case x of Fin q \<Rightarrow> Fin (of_int \<lfloor>q\<rfloor>) | _ \<Rightarrow> x)"

text \<open>An attribute with text is refused when it holds a control or a semicolon.\<close>

definition textAttribute :: "jsstr \<Rightarrow> jsstr \<Rightarrow> jsstr + jsstr" where
  "textAttribute name value =
     andThen (assertNoCtl value) (\<lambda>_. andThen (assertNoSetCookieAttributeDelimiter value) (\<lambda>_. Inr (name @ lit ''='' @ value)))"

definition extensionAttribute :: "jsstr \<times> jsstr option \<Rightarrow> jsstr + jsstr" where
  "extensionAttribute p =
     andThen (assertHeaderToken (fst p)) (\<lambda>_.
       case snd p of
         None \<Rightarrow> Inr (fst p)
       | Some v \<Rightarrow> if v = [] then Inr (fst p) else textAttribute (fst p) v)"

definition optionalPart :: "jsstr option \<Rightarrow> (jsstr \<Rightarrow> jsstr + jsstr) \<Rightarrow> jsstr + jsstr list" where
  "optionalPart v f =
     (case v of None \<Rightarrow> Inr [] | Some t \<Rightarrow> if t = [] then Inr [] else andThen (f t) (\<lambda>p. Inr [p]))"

definition formatSetCookie :: "setCookie \<Rightarrow> jsstr + jsstr" where
  "formatSetCookie value =
     (let a = scAttributes value in
      andThen (cookiePair (scName value, scValue value)) (\<lambda>pair.
      andThen (optionalPart (caDomain a) (textAttribute (lit ''Domain''))) (\<lambda>domain.
      andThen (optionalPart (caPath a) (textAttribute (lit ''Path''))) (\<lambda>path.
      andThen (mapR extensionAttribute (case caExtensions a of None \<Rightarrow> [] | Some es \<Rightarrow> es)) (\<lambda>extensions.
        Inr (joinWith (lit ''; '')
          ([pair] @
           (case caExpires a of None \<Rightarrow> [] | Some d \<Rightarrow> [lit ''Expires='' @ formatHTTPDate d]) @
           (case caMaxAge a of None \<Rightarrow> [] | Some n \<Rightarrow> [lit ''Max-Age='' @ numToString (mathFloor n)]) @
           domain @ path @
           (if caSecure a then [lit ''Secure''] else []) @
           (if caHttpOnly a then [lit ''HttpOnly''] else []) @ extensions)))))))"

section \<open>Matching\<close>

definition isIpAddress :: "jsstr \<Rightarrow> bool" where
  "isIpAddress host =
     (if cu CHR '':'' \<in> set host then True
      else
        let parts = splitOn (cu CHR ''.'') host
        in length parts = 4 \<and> list_all (\<lambda>part. part \<noteq> [] \<and> list_all isDigit part \<and> parseDec part \<le> 255) parts)"

definition endsWith :: "jsstr \<Rightarrow> jsstr \<Rightarrow> bool" where
  "endsWith s t \<longleftrightarrow> length t \<le> length s \<and> drop (length s - length t) s = t"

definition domainMatches :: "jsstr \<Rightarrow> jsstr \<Rightarrow> bool" where
  "domainMatches host domain =
     (let normalizedHost = toLower host; normalizedDomain = toLower domain
      in if normalizedDomain = [] then False
         else if normalizedHost = normalizedDomain then True
         else if isIpAddress normalizedHost then False
         else endsWith normalizedHost (lit ''.'' @ normalizedDomain))"

definition lastIndexOfUnit :: "cu \<Rightarrow> jsstr \<Rightarrow> nat option" where
  "lastIndexOfUnit c s =
     (case indexOfUnit c (rev s) of None \<Rightarrow> None | Some i \<Rightarrow> Some (length s - 1 - i))"

definition defaultPath :: "(jsstr \<Rightarrow> urlParts option) \<Rightarrow> jsstr \<Rightarrow> jsstr" where
  "defaultPath parseUrl requestUrl =
     (case parseUrl requestUrl of
        None \<Rightarrow> lit ''/''
      | Some url \<Rightarrow>
          let path = upPathname url
          in if \<not> startsWith path (lit ''/'') then lit ''/''
             else if path = lit ''/'' then lit ''/''
             else case lastIndexOfUnit (cu CHR ''/'') path of
               None \<Rightarrow> lit ''/''
             | Some lastSlash \<Rightarrow> if lastSlash = 0 then lit ''/'' else take lastSlash path)"

definition pathMatches :: "jsstr \<Rightarrow> jsstr \<Rightarrow> bool" where
  "pathMatches requestPath cookiePath =
     (if requestPath = cookiePath then True
      else if \<not> startsWith requestPath cookiePath then False
      else if endsWithUnit cookiePath (cu CHR ''/'') then True
      else length cookiePath < length requestPath \<and> requestPath ! length cookiePath = cu CHR ''/'')"

section \<open>The cookies of a request\<close>

definition dateAtMost :: "jsDate \<Rightarrow> jsDate \<Rightarrow> bool" where
  "dateAtMost a b = (case (a, b) of (Some x, Some y) \<Rightarrow> x \<le> y | _ \<Rightarrow> False)"

definition cookieApplies :: "jsstr \<Rightarrow> jsstr \<Rightarrow> jsDate \<Rightarrow> bool \<Rightarrow> bool \<Rightarrow> storedCookie \<Rightarrow> bool" where
  "cookieApplies host path now isSecure includeHttpOnly cookie =
     (if (case stExpires cookie of Some e \<Rightarrow> dateAtMost e now | None \<Rightarrow> False) then False
      else
        let domain = toLower (stDomain cookie)
        in if (if stHostOnly cookie then host \<noteq> domain else \<not> domainMatches host domain) then False
           else if \<not> pathMatches path (stPath cookie) then False
           else if stSecureOnly cookie \<and> \<not> isSecure then False
           else if stHttpOnly cookie \<and> \<not> includeHttpOnly then False
           else True)"

definition cookieBefore :: "storedCookie \<Rightarrow> storedCookie \<Rightarrow> bool" where
  "cookieBefore a b \<longleftrightarrow>
     length (stPath b) < length (stPath a) \<or>
     (length (stPath b) = length (stPath a) \<and> stCreation a < stCreation b)"

definition buildCookieHeader ::
  "(jsstr \<Rightarrow> urlParts option) \<Rightarrow> jsDate \<Rightarrow> storedCookie list \<Rightarrow> jsstr \<Rightarrow> cookieHeaderOptions \<Rightarrow> jsstr + jsstr option"
where
  "buildCookieHeader parseUrl currentTime cookies requestUrl options =
     (if cookies = [] then Inr None
      else case parseUrl requestUrl of
        None \<Rightarrow> Inl requestUrl
      | Some url \<Rightarrow>
          let host = toLower (upHostname url);
              path = (if upPathname url = [] then lit ''/'' else upPathname url);
              now = (case chNow options of Some d \<Rightarrow> d | None \<Rightarrow> currentTime);
              isSecure = (case chIsSecure options of Some b \<Rightarrow> b | None \<Rightarrow> upProtocol url = lit ''https:'');
              includeHttpOnly = (case chIncludeHttpOnly options of Some b \<Rightarrow> b | None \<Rightarrow> True);
              filtered = filter (cookieApplies host path now isSecure includeHttpOnly) cookies
          in if filtered = [] then Inr None
             else
               andThen (mapR (\<lambda>cookie. cookiePair (stName cookie, stValue cookie)) (stableSort cookieBefore filtered))
                 (\<lambda>parts. Inr (Some (joinWith (lit ''; '') parts))))"

end
