(* ===== verification/CookieLaws.thy ===== *)
theory CookieLaws
  imports Cookie HttpDateLaws HeaderUtilsLaws NegotiateLaws
begin

text \<open>
  Laws of \<open>Cookie\<close>: the round trips of the two fields and of dates, and which cookies a request is sent.
\<close>

section \<open>Dates\<close>

lemma tokenLoop_word: "list_all (\<lambda>c. \<not> isDelimiter c) w \<Longrightarrow> tokenLoop cur (w @ cs) = tokenLoop (cur @ w) cs"
  by (induction w arbitrary: cur) auto

lemma tokenLoop_gap: "list_all (\<lambda>c. \<not> isDelimiter c) w \<Longrightarrow> w \<noteq> [] \<Longrightarrow> tokenLoop [] (w @ 32 # cs) = w # tokenLoop [] cs"
  by (simp add: tokenLoop_word isDelimiter_def)

lemma tokenLoop_comma: "list_all (\<lambda>c. \<not> isDelimiter c) w \<Longrightarrow> w \<noteq> [] \<Longrightarrow> tokenLoop [] (w @ 44 # 32 # cs) = w # tokenLoop [] cs"
  by (simp add: tokenLoop_word isDelimiter_def)

lemma tokenLoop_last: "list_all (\<lambda>c. \<not> isDelimiter c) w \<Longrightarrow> w \<noteq> [] \<Longrightarrow> tokenLoop [] w = [w]"
  using tokenLoop_word[of w "[]" "[]"] by simp

lemma digits_word: "list_all isDigit w \<Longrightarrow> list_all (\<lambda>c. \<not> isDelimiter c) w"
  by (auto simp: list_all_iff isDigit_def isDelimiter_def)

lemma names_word: "i < 7 \<Longrightarrow> list_all (\<lambda>c. \<not> isDelimiter c) (DAY_NAMES ! i)" "j < 12 \<Longrightarrow> list_all (\<lambda>c. \<not> isDelimiter c) (MONTH_NAMES ! j)"
  by (auto simp: DAY_NAMES_def MONTH_NAMES_def less_Suc_eq numeral_eq_Suc isDelimiter_def)

lemma less_7: "i < 7 \<Longrightarrow> i \<in> {0, 1, 2, 3, 4, 5, 6 :: nat}"
  by auto

lemma less_12: "i < 12 \<Longrightarrow> i \<in> {0, 1, 2, 3, 4, 5, 6, 7, 8, 9, 10, 11 :: nat}"
  by simp presburger

lemmas dateReaders = parseTime_def parseDayOfMonth_def parseMonth_def parseCookieYear_def MONTHS_def toLower_def
  lowerUnit_def startsWith_def isDigit_def oneOrTwoDigits_def

lemma dayName_token:
  assumes "i < 7"
  shows "parseTime (DAY_NAMES ! i) = None" "parseDayOfMonth (DAY_NAMES ! i) = None" "parseMonth (DAY_NAMES ! i) = None"
    "parseCookieYear (DAY_NAMES ! i) = None"
  using less_7[OF assms] by (auto simp: DAY_NAMES_def dateReaders)

lemma monthName_token:
  assumes "i < 12"
  shows "parseTime (MONTH_NAMES ! i) = None" "parseMonth (MONTH_NAMES ! i) = Some (i + 1)"
  using less_12[OF assms] by (auto simp: MONTH_NAMES_def dateReaders)

lemma digits_token:
  assumes "list_all isDigit w"
  shows "parseTime w = None" "length w = 2 \<Longrightarrow> parseDayOfMonth w = Some (parseDec w)"
    "length w = 4 \<Longrightarrow> parseCookieYear w = Some (parseDec w)"
proof -
  have t: "takeWhile isDigit w = w" using assms by (simp add: list_all_iff takeWhile_eq_all_conv)
  have "58 \<notin> set w" using assms by (auto simp: list_all_iff isDigit_def)
  then show "parseTime w = None" by (simp add: parseTime_def splitOn_no_sep)
  show "length w = 2 \<Longrightarrow> parseDayOfMonth w = Some (parseDec w)" using t by (cases w) (auto simp: parseDayOfMonth_def Let_def)
  show "length w = 4 \<Longrightarrow> parseCookieYear w = Some (parseDec w)" by (simp add: parseCookieYear_def t Let_def)
qed

lemma time_token:
  assumes "list_all isDigit h" "list_all isDigit m" "list_all isDigit s" "length h = 2" "length m = 2" "length s = 2"
  shows "parseTime (h @ 58 # m @ 58 # s) = Some (parseDec h, parseDec m, parseDec s)"
proof -
  have "58 \<notin> set h" "58 \<notin> set m" "58 \<notin> set s" using assms(1-3) by (auto simp: list_all_iff isDigit_def)
  then have "splitOn 58 (h @ 58 # m @ 58 # s) = [h, m, s]" by (simp add: splitOn_append_sep splitOn_no_sep)
  moreover have "oneOrTwoDigits h" "oneOrTwoDigits m" "oneOrTwoDigits s" using assms by (auto simp: oneOrTwoDigits_def)
  ultimately show ?thesis by (simp add: parseTime_def)
qed

lemma cookieDate_read:
  assumes "1601 \<le> getUTCFullYear t" "getUTCFullYear t \<le> 9999"
  shows "parseCookieDate (formatHTTPDate (Some t)) = Some (Some (t div 1000 * 1000))"
proof -
  note f = fields_small[of t] and i = field_ints[of t]
  let ?w = "DAY_NAMES ! nat (getUTCDay t)" and ?d = "padDec 2 (nat (getUTCDate t))" and ?mo = "MONTH_NAMES ! nat (getUTCMonth t)"
    and ?y = "padDec 4 (nat (getUTCFullYear t))" and ?h = "padDec 2 (nat (getUTCHours t))"
    and ?mi = "padDec 2 (nat (getUTCMinutes t))" and ?s = "padDec 2 (nat (getUTCSeconds t))"
  let ?hms = "?h @ 58 # ?mi @ 58 # ?s"
  have y: "nat (getUTCFullYear t) < 10000" "int (nat (getUTCFullYear t)) = getUTCFullYear t" using assms by auto
  have len: "length ?d = 2" "length ?y = 4" "length ?h = 2" "length ?mi = 2" "length ?s = 2"
    using f y by (auto intro!: length_padDec)
  have shape: "formatHTTPDate (Some t) = ?w @ 44 # 32 # ?d @ 32 # ?mo @ 32 # ?y @ 32 # ?hms @ 32 # lit ''GMT''"
    using assms by (simp add: formatHTTPDate_def yearText_def)
  have "\<not> isDelimiter 58" by (simp add: isDelimiter_def)
  then have words: "?w \<noteq> []" "?mo \<noteq> []" "list_all (\<lambda>c. \<not> isDelimiter c) ?w" "list_all (\<lambda>c. \<not> isDelimiter c) ?mo"
      "list_all (\<lambda>c. \<not> isDelimiter c) ?hms"
    using names_word(1)[OF f(1)] names_word(2)[OF f(2)] names_length(1)[OF f(1)] names_length(2)[OF f(2)]
    by (auto simp: digits_word simp del: names_length)
  have ne: "?d \<noteq> []" "?y \<noteq> []" using len by auto
  have hne: "?hms \<noteq> []" by simp
  have tokens: "tokenizeCookieDate (formatHTTPDate (Some t)) = [?w, ?d, ?mo, ?y, ?hms, lit ''GMT'']"
    unfolding tokenizeCookieDate_def shape
    by (simp only: tokenLoop_comma[OF words(3,1)] tokenLoop_gap[OF digits_word[OF padDec_digits] ne(1)]
        tokenLoop_gap[OF words(4,2)] tokenLoop_gap[OF digits_word[OF padDec_digits] ne(2)] tokenLoop_gap[OF words(5) hne])
      (simp add: isDelimiter_def)
  have read: "foldl dateToken \<lparr>cdDay = None, cdMonth = None, cdYear = None, cdTime = None\<rparr> [?w, ?d, ?mo, ?y, ?hms, lit ''GMT''] =
    \<lparr>cdDay = Some (nat (getUTCDate t)), cdMonth = Some (nat (getUTCMonth t) + 1), cdYear = Some (nat (getUTCFullYear t)),
     cdTime = Some (nat (getUTCHours t), nat (getUTCMinutes t), nat (getUTCSeconds t))\<rparr>"
    using dayName_token[OF f(1)] monthName_token[OF f(2)] digits_token[OF padDec_digits, of 2 "nat (getUTCDate t)"]
      digits_token[OF padDec_digits, of 4 "nat (getUTCFullYear t)"] time_token[OF padDec_digits padDec_digits padDec_digits len(3-5)] len
    by (simp add: dateToken_def)
  note v = whole_second(1)[of t, unfolded validFields_def]
  have utc: "dateUTC (getUTCFullYear t) (getUTCMonth t) (getUTCDate t) (getUTCHours t) (getUTCMinutes t) (getUTCSeconds t) 0 =
      Some (t div 1000 * 1000)"
    using dateUTC_timeOf[OF _ _ _ whole_second(1)[of t]] assms whole_second(2)[of t] by simp
  let ?t = "t div 1000 * 1000"
  have fields: "getUTCFullYear ?t = getUTCFullYear t" "getUTCMonth ?t = getUTCMonth t" "getUTCDate ?t = getUTCDate t"
    "getUTCHours ?t = getUTCHours t" "getUTCMinutes ?t = getUTCMinutes t" "getUTCSeconds ?t = getUTCSeconds t"
    using date_split[OF whole_second(1)[of t]] time_split(2-4)[OF whole_second(1)[of t]] unfolding whole_second(2)[of t] by simp_all
  have date: "\<not> nat (getUTCDate t) < 1" "\<not> 31 < nat (getUTCDate t)" "\<not> 23 < nat (getUTCHours t)" "\<not> 59 < nat (getUTCMinutes t)" "\<not> 59 < nat (getUTCSeconds t)"
    using v by (auto simp: daysInMonth_def split: if_splits)
  have yr: "\<not> nat (getUTCFullYear t) < 1601" "\<not> 9999 < nat (getUTCFullYear t)" using assms by auto
  show ?thesis
    unfolding parseCookieDate_def tokens read Let_def
    using date utc fields y(2) i(2,4-7) yr v by auto
qed

section \<open>Parts\<close>

lemma joinWith_gap: "joinWith [c, 32] (w # ws) = joinWith [c] (w # map (Cons 32) ws)"
  by (induction ws arbitrary: w) (auto simp: joinWith_head)

lemma split_parts:
  assumes "\<forall>w\<in>set (w # ws). 59 \<notin> set w"
  shows "splitOn 59 (joinWith (lit ''; '') (w # ws)) = w # map (Cons 32) ws"
  using splitOn_joinWith[of "w # map (Cons 32) ws" 59] assms by (simp add: joinWith_gap)

lemma jsTrim_gap: "jsTrim (32 # w) = jsTrim w"
  by (simp add: jsTrim_def isJsSpace_def)

text \<open>A value as it is written: bare, or quoted.\<close>

lemma cookieValue_text:
  assumes "formatCookieValue v = Inr t" and "59 \<notin> set v"
  shows "unquoteLenient t = v" "59 \<notin> set t" "t = [] \<or> (\<not> isJsSpace (hd t) \<and> \<not> isJsSpace (last t))"
proof -
  consider "t = v" "\<not> list_ex (\<lambda>c. isJsSpace c \<or> c = 59 \<or> c = 44 \<or> c = 34) v" | "t = [34] @ escapeText v @ [34]"
    using assms(1) quote_text[of v t] by (auto simp: formatCookieValue_def assertNoCtl_def guardR_def split: if_splits)
  then have "unquoteLenient t = v \<and> 59 \<notin> set t \<and> (t = [] \<or> (\<not> isJsSpace (hd t) \<and> \<not> isJsSpace (last t)))"
  proof cases
    case 1
    then have plain: "\<forall>c\<in>set v. \<not> isJsSpace c \<and> c \<noteq> 34" by (auto simp: list_ex_iff)
    then have ends: "v = [] \<or> (\<not> isJsSpace (hd v) \<and> \<not> isJsSpace (last v))" by (cases v) auto
    have "\<not> isQuoted v" using plain by (auto simp: isQuoted_def startsWith_iff)
    then show ?thesis using ends jsTrim_id[OF ends] assms(2) by (simp add: unquoteLenient_def 1(1))
  next
    case 2
    have "unquoteLenient t = v" using lenient_quoted[of v] 2 by (simp add: unquote_def)
    moreover have "set (escapeText v) \<subseteq> insert 92 (set v)" by (induction v) auto
    ultimately show ?thesis using assms(2) by (auto simp: 2 isJsSpace_def)
  qed
  then show "unquoteLenient t = v" "59 \<notin> set t" "t = [] \<or> (\<not> isJsSpace (hd t) \<and> \<not> isJsSpace (last t))" by auto
qed

lemma cookiePair_text:
  assumes "cookiePair (n, v) = Inr p" and "59 \<notin> set v"
  obtains t where "p = n @ 61 # t" "TOKEN_CHARS n" "unquoteLenient t = v" "59 \<notin> set p" "jsTrim p = p" "jsTrim t = t"
proof -
  from assms(1) obtain t where t: "formatCookieValue v = Inr t" "p = n @ 61 # t" and n: "TOKEN_CHARS n"
    by (auto simp: cookiePair_def assertHeaderToken_def err_simps)
  note vt = cookieValue_text[OF t(1) assms(2)]
  have "59 \<notin> set p" using token_plain[OF n] vt(2) t(2) by auto
  moreover have "jsTrim p = p"
    by (rule jsTrim_id) (use token_ends[OF n] token_plain[OF n] vt(3) t(2) in \<open>auto simp: isJsSpace_def\<close>)
  moreover have "jsTrim t = t" using jsTrim_id[OF vt(3)] by simp
  ultimately show ?thesis using that t(2) n vt(1) by blast
qed

section \<open>The Cookie field\<close>

text \<open>C32 (cookie_roundtrip): Cookies with different names whose values hold no semicolon are read back from the
  field that is written for them, in order, whatever else the values hold.\<close>

theorem cookie_roundtrip:
  assumes "formatCookie cookies = Inr h" and "distinct (map fst cookies)" and "list_all (\<lambda>p. cu CHR '';'' \<notin> set (snd p)) cookies"
  shows "parseCookie h = cookies"
proof -
  obtain ps where ps: "mapR cookiePair cookies = Inr ps" "h = joinWith (lit ''; '') ps"
    using assms(1) by (auto simp: formatCookie_def err_simps)
  have pairs: "list_all2 (\<lambda>c p. cookiePair c = Inr p) cookies ps" using ps(1) by (simp add: mapR_eq_Inr)
  have step: "cookiePart m (pre @ p) = setIfAbsent m n v" if "cookiePair (n, v) = Inr p" "59 \<notin> set v" "pre = [] \<or> pre = [32]" for m n v p pre
  proof -
    note h = that
    obtain t where t: "p = n @ 61 # t" "TOKEN_CHARS n" "unquoteLenient t = v" "jsTrim p = p"
      using cookiePair_text[OF h(1,2)] by metis
    have tr: "jsTrim (pre @ p) = p" using h(3) t(4) jsTrim_gap by auto
    have ix: "indexOfUnit 61 p = Some (length n)" using indexOfUnit_first[of 61 n t] token_plain[OF t(2)] t(1) by simp
    have tk: "take (length n) p = n" "drop (Suc (length n)) p = t" "p \<noteq> []" by (simp_all add: t(1))
    show ?thesis using token_trim[OF t(2)] token_plain[OF t(2)] t(3)
      by (simp add: cookiePart_def tr ix tk del: lit_simps)
  qed
  have loop: "foldl cookiePart m (map (Cons 32) qs) = m @ cs"
    if "list_all2 (\<lambda>c p. cookiePair c = Inr p) cs qs" "distinct (map fst (m @ cs))" "list_all (\<lambda>p. 59 \<notin> set (snd p)) cs" for m cs qs
    using that
  proof (induction cs qs arbitrary: m rule: list_all2_induct)
    case (Cons c cs p qs)
    obtain n v where c: "c = (n, v)" by (cases c)
    have "cookiePart m (32 # p) = m @ [(n, v)]"
      using step[of n v p "[32]" m] Cons by (auto simp: c setIfAbsent_def)
    then show ?case using Cons(3)[of "m @ [c]"] Cons(4,5) by (simp add: c)
  qed simp
  show ?thesis
  proof (cases cookies)
    case Nil
    then show ?thesis using pairs ps(2) by (simp add: parseCookie_def)
  next
    case (Cons c cs)
    then obtain p qs where q: "ps = p # qs" "cookiePair c = Inr p" "list_all2 (\<lambda>c p. cookiePair c = Inr p) cs qs"
      using pairs by (auto simp: list_all2_Cons1)
    obtain n v where c: "c = (n, v)" by (cases c)
    have no: "\<forall>w\<in>set ps. 59 \<notin> set w"
    proof
      fix w assume "w \<in> set ps"
      then obtain n' v' where "(n', v') \<in> set cookies" "cookiePair (n', v') = Inr w"
        using pairs by (auto simp: list_all2_conv_all_nth in_set_conv_nth) (metis nth_mem surj_pair)
      then have "cookiePair (n', v') = Inr w" "59 \<notin> set v'" using assms(3) by (auto simp: list_all_iff)
      then show "59 \<notin> set w" using cookiePair_text by metis
    qed
    obtain t where t: "p = n @ 61 # t" "TOKEN_CHARS n" using cookiePair_text[of n v p] q(2) assms(3) Cons c by auto
    have ne: "h \<noteq> []" "jsTrim h \<noteq> []"
    proof -
      obtain x xs where "h = x # xs" "\<not> isJsSpace x"
        using t token_ends[OF t(2)] token_plain[OF t(2)] ps(2) q(1) by (cases n; cases qs) auto
      then show "h \<noteq> []" "jsTrim h \<noteq> []" by (simp_all add: jsTrim_def dropWhile_eq_Nil_conv)
    qed
    have "splitOn 59 h = p # map (Cons 32) qs" using split_parts[of p qs] no ps(2) q(1) by simp
    moreover have "cookiePart [] p = [(n, v)]"
      using step[of n v p "[]" "[]"] q(2) assms(3) by (simp add: c Cons setIfAbsent_def)
    ultimately have "parseCookie h = foldl cookiePart [c] (map (Cons 32) qs)" using ne by (simp add: parseCookie_def c)
    then show ?thesis using loop[OF q(3), of "[c]"] assms(2,3) by (simp add: Cons)
  qed
qed

theorem cookie_roundtrip_witness:
  "parseCookie (lit ''a=1; b=\"x y\"'') = [(lit ''a'', lit ''1''), (lit ''b'', lit ''x y'')]"
  by (rule cookie_roundtrip)
    (simp_all add: formatCookie_def cookiePair_def assertHeaderToken_def assertNoCtl_def isCtl_def TOKEN_CHARS_def TOKEN_CHAR_def
      formatCookieValue_def quoteString_def escapeQuotedString_def isJsSpace_def)

section \<open>The Set-Cookie field\<close>

definition plainText :: "jsstr \<Rightarrow> bool" where
  "plainText v \<longleftrightarrow> v \<noteq> [] \<and> jsTrim v = v \<and> \<not> list_ex isCtl v \<and> 59 \<notin> set v"

definition knownAttributes :: "jsstr list" where
  "knownAttributes = map lit [''expires'', ''max-age'', ''domain'', ''path'', ''secure'', ''httponly'']"

definition extensionOk :: "jsstr \<times> jsstr option \<Rightarrow> bool" where
  "extensionOk e \<longleftrightarrow> TOKEN_CHARS (fst e) \<and> toLower (fst e) = fst e \<and> fst e \<notin> set knownAttributes \<and>
     (case snd e of None \<Rightarrow> True | Some v \<Rightarrow> plainText v)"

text \<open>Attributes as they are after reading: whole seconds, lower case names, no text that is empty.\<close>

definition attributesOk :: "cookieAttributes \<Rightarrow> bool" where
  "attributesOk a \<longleftrightarrow>
     (case caExpires a of None \<Rightarrow> True
      | Some d \<Rightarrow> (case d of None \<Rightarrow> False
          | Some t \<Rightarrow> t mod 1000 = 0 \<and> 1601 \<le> getUTCFullYear t \<and> getUTCFullYear t \<le> 9999)) \<and>
     (case caMaxAge a of None \<Rightarrow> True | Some x \<Rightarrow> \<exists>n. x = Fin (of_int n) \<and> \<bar>n\<bar> < 10 ^ 15) \<and>
     (case caDomain a of None \<Rightarrow> True | Some d \<Rightarrow> plainText d \<and> toLower d = d \<and> \<not> startsWith d (lit ''.'')) \<and>
     (case caPath a of None \<Rightarrow> True | Some q \<Rightarrow> plainText q) \<and>
     (case caExtensions a of None \<Rightarrow> True | Some es \<Rightarrow> es \<noteq> [] \<and> keysOrdered es \<and> list_all extensionOk es)"

lemma attributePart_named:
  assumes "TOKEN_CHARS n" "jsTrim v = v"
  shows "attributePart a (32 # n @ 61 # v) = setAttribute a (toLower n) (Some v)"
proof -
  have "v = [] \<or> \<not> isJsSpace (last v)"
  proof (cases "v = []")
    case False
    have "\<not> isJsSpace (last (jsTrim v))" if "jsTrim v \<noteq> []"
      using that hd_dropWhile[of isJsSpace "rev (dropWhile isJsSpace v)"] by (simp add: jsTrim_def last_rev)
    then show ?thesis using False assms(2) by simp
  qed simp
  then have t: "jsTrim (32 # n @ 61 # v) = n @ 61 # v"
    unfolding jsTrim_gap by (intro jsTrim_id) (use token_ends[OF assms(1)] token_plain[OF assms(1)] in \<open>auto simp: isJsSpace_def\<close>)
  have ix: "indexOfUnit 61 (n @ 61 # v) = Some (length n)" using indexOfUnit_first[of 61 n v] token_plain[OF assms(1)] by simp
  show ?thesis using token_trim[OF assms(1)] token_plain[OF assms(1)] assms(2) by (simp add: attributePart_def t ix)
qed

lemma attributePart_bare:
  assumes "TOKEN_CHARS n"
  shows "attributePart a (32 # n) = setAttribute a (toLower n) None"
proof -
  have "indexOfUnit 61 n = None" using token_plain[OF assms] by (simp add: indexOfUnit_none)
  then show ?thesis using token_trim[OF assms] token_plain[OF assms] jsTrim_gap[of n] by (simp add: attributePart_def)
qed

text \<open>The names that are written.\<close>

lemma written_names:
  "TOKEN_CHARS (lit ''Expires'')" "toLower (lit ''Expires'') = lit ''expires''"
  "TOKEN_CHARS (lit ''Max-Age'')" "toLower (lit ''Max-Age'') = lit ''max-age''"
  "TOKEN_CHARS (lit ''Domain'')" "toLower (lit ''Domain'') = lit ''domain''"
  "TOKEN_CHARS (lit ''Path'')" "toLower (lit ''Path'') = lit ''path''"
  "TOKEN_CHARS (lit ''Secure'')" "toLower (lit ''Secure'') = lit ''secure''"
  "TOKEN_CHARS (lit ''HttpOnly'')" "toLower (lit ''HttpOnly'') = lit ''httponly''"
  by (simp_all add: TOKEN_CHARS_def TOKEN_CHAR_def toLower_def lowerUnit_def)

lemma setAttribute_cases:
  "setAttribute a (lit ''expires'') (Some v) = (case parseCookieDate v of Some d \<Rightarrow> if v = [] then a else a\<lparr>caExpires := Some d\<rparr> | None \<Rightarrow> a)"
  "setAttribute a (lit ''max-age'') (Some v) = (case parseMaxAge v of Some n \<Rightarrow> if v = [] then a else a\<lparr>caMaxAge := Some n\<rparr> | None \<Rightarrow> a)"
  "setAttribute a (lit ''secure'') w = a\<lparr>caSecure := True\<rparr>"
  "setAttribute a (lit ''httponly'') w = a\<lparr>caHttpOnly := True\<rparr>"
  "v \<noteq> [] \<Longrightarrow> setAttribute a (lit ''path'') (Some v) = a\<lparr>caPath := Some v\<rparr>"
  by (auto simp: setAttribute_def split: option.split)

lemma setAttribute_domain:
  assumes "plainText v" "toLower v = v" "\<not> startsWith v (lit ''.'')"
  shows "setAttribute a (lit ''domain'') (Some v) = a\<lparr>caDomain := Some v\<rparr>"
  using assms by (simp add: setAttribute_def plainText_def)

lemma setAttribute_extension:
  assumes "n \<notin> set knownAttributes"
  shows "setAttribute a n w = a\<lparr>caExtensions := Some (objPut n w (case caExtensions a of None \<Rightarrow> [] | Some es \<Rightarrow> es))\<rparr>"
  using assms unfolding setAttribute_def knownAttributes_def by (simp del: lit_simps)

lemma intText_read: "\<bar>n\<bar> < 10 ^ 15 \<Longrightarrow> parseMaxAge (intText n) = Some (Fin (of_int n)) \<and> jsTrim (intText n) = intText n \<and> 59 \<notin> set (intText n)"
proof -
  assume n: "\<bar>n\<bar> < 10 ^ 15"
  have dig: "list_all isDigit (showNat k)" for k using showNat_digits by (auto simp: list_all_iff)
  have sp: "c \<in> set (showNat k) \<Longrightarrow> \<not> isJsSpace c \<and> c \<noteq> 59 \<and> c \<noteq> 45" for c k
    using showNat_digits[of c k] by (auto simp: isDigit_def isJsSpace_def)
  have ends: "\<not> isJsSpace (hd (showNat k))" "\<not> isJsSpace (last (showNat k))" "59 \<notin> set (showNat k)" "hd (showNat k) \<noteq> 45" for k
    using sp[of "hd (showNat k)" k] sp[of "last (showNat k)" k] sp[of 59 k] by auto
  have t: "jsTrim (intText n) = intText n"
    by (rule jsTrim_id) (use ends in \<open>auto simp: intText_def isJsSpace_def\<close>)
  have "\<not> startsWith (showNat k) (lit ''-'')" for k using ends(4)[of k] by (cases "showNat k") (auto simp: startsWith_def)
  then have "parseMaxAge (intText n) = (if isFiniteNum (roundDouble n 1) then Some (roundDouble n 1) else None)"
    unfolding parseMaxAge_def t Let_def using dig by (auto simp: intText_def startsWith_def)
  moreover have "roundDouble n 1 = Fin (of_int n)" using n by (intro roundDouble_int) simp
  ultimately show ?thesis using t ends(3) by (auto simp: intText_def)
qed

lemma date_text: "jsTrim (formatHTTPDate (Some t)) = formatHTTPDate (Some t) \<and> 59 \<notin> set (formatHTTPDate (Some t))"
proof -
  have d: "59 \<notin> set (padDec k n)" for k n using padDec_digits[of k n] by (auto simp: list_all_iff isDigit_def)
  have "\<not> isJsSpace (hd (DAY_NAMES ! i))" "DAY_NAMES ! i \<noteq> []" "59 \<notin> set (DAY_NAMES ! i)" if "i < 7" for i
    using less_7[OF that] by (auto simp: DAY_NAMES_def isJsSpace_def)
  moreover have "59 \<notin> set (MONTH_NAMES ! i)" if "i < 12" for i using less_12[OF that] by (auto simp: MONTH_NAMES_def)
  ultimately show ?thesis using fields_small(1,2)[of t] d
    by (intro conjI jsTrim_id) (auto simp: formatHTTPDate_def yearText_def isJsSpace_def)
qed

text \<open>Each group of parts sets its own attribute.\<close>

definition expiresParts :: "cookieAttributes \<Rightarrow> jsstr list" where
  "expiresParts a = (case caExpires a of None \<Rightarrow> [] | Some d \<Rightarrow> [lit ''Expires='' @ formatHTTPDate d])"

definition maxAgeParts :: "cookieAttributes \<Rightarrow> jsstr list" where
  "maxAgeParts a = (case caMaxAge a of None \<Rightarrow> [] | Some n \<Rightarrow> [lit ''Max-Age='' @ numToString (mathFloor n)])"

definition flagParts :: "bool \<Rightarrow> jsstr \<Rightarrow> jsstr list" where
  "flagParts b name = (if b then [name] else [])"

definition textParts :: "jsstr option \<Rightarrow> jsstr \<Rightarrow> jsstr list" where
  "textParts v name = (case v of None \<Rightarrow> [] | Some t \<Rightarrow> [name @ 61 # t])"

definition extensionPart :: "jsstr \<times> jsstr option \<Rightarrow> jsstr" where
  "extensionPart e = (case snd e of None \<Rightarrow> fst e | Some v \<Rightarrow> fst e @ 61 # v)"

lemma read_expires:
  assumes "attributesOk a" "caExpires b = None"
  shows "foldl attributePart b (map (Cons 32) (expiresParts a)) = b\<lparr>caExpires := caExpires a\<rparr>"
    "\<forall>w\<in>set (expiresParts a). 59 \<notin> set w"
proof -
  have "59 \<notin> set (lit ''Expires='')" by simp
  show "foldl attributePart b (map (Cons 32) (expiresParts a)) = b\<lparr>caExpires := caExpires a\<rparr>"
  proof (cases "caExpires a")
    case None
    then show ?thesis using assms(2) by (cases b) (simp add: expiresParts_def)
  next
    case (Some d)
    then obtain t where t: "d = Some t" "t mod 1000 = 0" "1601 \<le> getUTCFullYear t" "getUTCFullYear t \<le> 9999"
      using assms(1) by (auto simp: attributesOk_def split: option.splits)
    have e: "lit ''Expires='' @ v = lit ''Expires'' @ 61 # v" for v by simp
    have "t div 1000 * 1000 = t" using t(2) by (simp add: minus_mod_eq_div_mult[symmetric])
    then have "parseCookieDate (formatHTTPDate d) = Some d" using cookieDate_read[OF t(3,4)] by (simp add: t(1))
    moreover have "formatHTTPDate d \<noteq> []" by (simp add: t(1) formatHTTPDate_def)
    ultimately show ?thesis
      unfolding expiresParts_def Some e list.map foldl.simps option.case
      using date_text[of t] by (simp add: attributePart_named written_names setAttribute_cases t(1) del: lit_simps)
  qed
  show "\<forall>w\<in>set (expiresParts a). 59 \<notin> set w"
    using assms(1) date_text by (auto simp: expiresParts_def attributesOk_def split: option.splits)
qed

lemma read_maxAge:
  assumes "attributesOk a" "caMaxAge b = None"
  shows "foldl attributePart b (map (Cons 32) (maxAgeParts a)) = b\<lparr>caMaxAge := caMaxAge a\<rparr>"
    "\<forall>w\<in>set (maxAgeParts a). 59 \<notin> set w"
proof -
  have shown: "numToString (mathFloor (Fin (of_int n))) = intText n" if "\<bar>n\<bar> < 10 ^ 15" for n
    using numToString_int[OF that] by (simp add: mathFloor_def)
  show "foldl attributePart b (map (Cons 32) (maxAgeParts a)) = b\<lparr>caMaxAge := caMaxAge a\<rparr>"
  proof (cases "caMaxAge a")
    case None
    then show ?thesis using assms(2) by (cases b) (simp add: maxAgeParts_def)
  next
    case (Some x)
    then obtain n where n: "x = Fin (of_int n)" "\<bar>n\<bar> < 10 ^ 15" using assms(1) by (auto simp: attributesOk_def)
    have e: "lit ''Max-Age='' @ v = lit ''Max-Age'' @ 61 # v" for v by simp
    have "intText n \<noteq> []" by (simp add: intText_def)
    then show ?thesis
      unfolding maxAgeParts_def Some e list.map foldl.simps option.case
      using intText_read[OF n(2)] shown[OF n(2)]
      by (simp add: attributePart_named written_names setAttribute_cases n(1) del: lit_simps)
  qed
  show "\<forall>w\<in>set (maxAgeParts a). 59 \<notin> set w"
    using assms(1) shown intText_read by (auto simp: maxAgeParts_def attributesOk_def split: option.splits)
qed

lemma read_text:
  assumes "attributesOk a"
  shows "caDomain b = None \<Longrightarrow> foldl attributePart b (map (Cons 32) (textParts (caDomain a) (lit ''Domain''))) = b\<lparr>caDomain := caDomain a\<rparr>"
    "caPath b = None \<Longrightarrow> foldl attributePart b (map (Cons 32) (textParts (caPath a) (lit ''Path''))) = b\<lparr>caPath := caPath a\<rparr>"
    "caSecure b = False \<Longrightarrow> foldl attributePart b (map (Cons 32) (flagParts (caSecure a) (lit ''Secure''))) = b\<lparr>caSecure := caSecure a\<rparr>"
    "caHttpOnly b = False \<Longrightarrow> foldl attributePart b (map (Cons 32) (flagParts (caHttpOnly a) (lit ''HttpOnly''))) = b\<lparr>caHttpOnly := caHttpOnly a\<rparr>"
    "\<forall>w\<in>set (textParts (caDomain a) (lit ''Domain'') @ textParts (caPath a) (lit ''Path'') @ flagParts (caSecure a) (lit ''Secure'') @
      flagParts (caHttpOnly a) (lit ''HttpOnly'')). 59 \<notin> set w"
proof -
  note read = textParts_def flagParts_def attributePart_named attributePart_bare written_names setAttribute_cases
    setAttribute_domain
  note ok = assms[unfolded attributesOk_def]
  show "caDomain b = None \<Longrightarrow> foldl attributePart b (map (Cons 32) (textParts (caDomain a) (lit ''Domain''))) = b\<lparr>caDomain := caDomain a\<rparr>"
    using ok by (cases b) (auto simp: read plainText_def simp del: lit_simps split: option.splits)
  show "caPath b = None \<Longrightarrow> foldl attributePart b (map (Cons 32) (textParts (caPath a) (lit ''Path''))) = b\<lparr>caPath := caPath a\<rparr>"
    using ok by (cases b) (auto simp: read plainText_def simp del: lit_simps split: option.splits)
  show "caSecure b = False \<Longrightarrow> foldl attributePart b (map (Cons 32) (flagParts (caSecure a) (lit ''Secure''))) = b\<lparr>caSecure := caSecure a\<rparr>"
    by (cases b) (auto simp: read simp del: lit_simps)
  show "caHttpOnly b = False \<Longrightarrow> foldl attributePart b (map (Cons 32) (flagParts (caHttpOnly a) (lit ''HttpOnly''))) = b\<lparr>caHttpOnly := caHttpOnly a\<rparr>"
    by (cases b) (auto simp: read simp del: lit_simps)
  show "\<forall>w\<in>set (textParts (caDomain a) (lit ''Domain'') @ textParts (caPath a) (lit ''Path'') @ flagParts (caSecure a) (lit ''Secure'') @
      flagParts (caHttpOnly a) (lit ''HttpOnly'')). 59 \<notin> set w"
    using ok by (auto simp: textParts_def flagParts_def plainText_def split: option.splits)
qed

lemma read_extensions_loop:
  "keysOrdered (acc @ es) \<Longrightarrow> list_all extensionOk es \<Longrightarrow> caExtensions b = (if acc = [] then None else Some acc) \<Longrightarrow>
    foldl attributePart b (map (Cons 32) (map extensionPart es)) =
      b\<lparr>caExtensions := if acc @ es = [] then None else Some (acc @ es)\<rparr>"
proof (induction es arbitrary: acc b)
  case Nil
  then show ?case by (cases b) simp
next
  case (Cons e es)
  obtain n v where e: "e = (n, v)" by (cases e)
  have "keysOrdered (acc @ [(n, v)])" using Cons(2) by (auto simp: e keysOrdered_def sorted_wrt_append)
  then have put: "objPut n v acc = acc @ [(n, v)]" using foldl_objPut_append[of acc "[(n, v)]"] by simp
  have ok: "TOKEN_CHARS n" "toLower n = n" "n \<notin> set knownAttributes" "v = None \<or> (\<exists>x. v = Some x \<and> jsTrim x = x)"
    using Cons(3) by (auto simp: e extensionOk_def plainText_def split: option.splits)
  have "attributePart b (32 # extensionPart e) = setAttribute b n v"
    using ok by (auto simp: extensionPart_def e attributePart_named attributePart_bare)
  also have "\<dots> = b\<lparr>caExtensions := Some (acc @ [e])\<rparr>"
    using setAttribute_extension[OF ok(3), of b v] Cons(4) put by (auto simp: e)
  finally show ?case using Cons(1)[of "acc @ [e]" "b\<lparr>caExtensions := Some (acc @ [e])\<rparr>"] Cons(2,3) by simp
qed

definition attributeParts :: "cookieAttributes \<Rightarrow> jsstr list" where
  "attributeParts a = expiresParts a @ maxAgeParts a @ textParts (caDomain a) (lit ''Domain'') @ textParts (caPath a) (lit ''Path'') @
    flagParts (caSecure a) (lit ''Secure'') @ flagParts (caHttpOnly a) (lit ''HttpOnly'') @
    map extensionPart (case caExtensions a of None \<Rightarrow> [] | Some es \<Rightarrow> es)"

lemma optionalPart_text:
  "optionalPart v (textAttribute n) = Inr ps \<Longrightarrow> v = None \<or> (\<exists>t. v = Some t \<and> t \<noteq> []) \<Longrightarrow> ps = textParts v n"
  by (auto simp: optionalPart_def textParts_def textAttribute_def err_simps split: option.splits)

lemma extensionAttribute_text:
  "mapR extensionAttribute es = Inr ps \<Longrightarrow> list_all extensionOk es \<Longrightarrow> ps = map extensionPart es"
proof (induction es arbitrary: ps)
  case (Cons e es)
  have "extensionAttribute e = Inr q \<Longrightarrow> q = extensionPart e" for q
    using Cons(3) by (auto simp: extensionAttribute_def extensionPart_def extensionOk_def plainText_def textAttribute_def err_simps split: option.splits)
  then show ?case using Cons by (auto split: sum.splits)
qed simp

lemma extensions_ok:
  assumes "attributesOk a"
  defines "es \<equiv> (case caExtensions a of None \<Rightarrow> [] | Some es \<Rightarrow> es)"
  shows "list_all extensionOk es" "keysOrdered es" "(if es = [] then None else Some es) = caExtensions a"
  using assms by (auto simp: attributesOk_def keysOrdered_def split: option.splits)

lemma formatSetCookie_text:
  assumes "formatSetCookie c = Inr h" and ok: "attributesOk (scAttributes c)"
  obtains p where "cookiePair (scName c, scValue c) = Inr p" "h = joinWith (lit ''; '') (p # attributeParts (scAttributes c))"
proof -
  let ?a = "scAttributes c"
  let ?es = "case caExtensions ?a of None \<Rightarrow> [] | Some es \<Rightarrow> es"
  from assms(1) obtain p d q x where parts: "cookiePair (scName c, scValue c) = Inr p"
    "optionalPart (caDomain ?a) (textAttribute (lit ''Domain'')) = Inr d" "optionalPart (caPath ?a) (textAttribute (lit ''Path'')) = Inr q"
    "mapR extensionAttribute ?es = Inr x"
    "h = joinWith (lit ''; '') ([p] @ expiresParts ?a @ maxAgeParts ?a @ d @ q @ flagParts (caSecure ?a) (lit ''Secure'') @
      flagParts (caHttpOnly ?a) (lit ''HttpOnly'') @ x)"
    unfolding formatSetCookie_def Let_def andThen_eq_Inr expiresParts_def[symmetric] maxAgeParts_def[symmetric] flagParts_def[symmetric]
    by blast
  have given: "caDomain ?a = None \<or> (\<exists>t. caDomain ?a = Some t \<and> t \<noteq> [])" "caPath ?a = None \<or> (\<exists>t. caPath ?a = Some t \<and> t \<noteq> [])"
    using ok by (auto simp: attributesOk_def plainText_def split: option.splits)
  have "h = joinWith (lit ''; '') (p # attributeParts ?a)"
    unfolding parts(5) optionalPart_text[OF parts(2) given(1)] optionalPart_text[OF parts(3) given(2)]
      extensionAttribute_text[OF parts(4) extensions_ok(1)[OF ok]] attributeParts_def by simp
  then show ?thesis using parts(1) that by blast
qed

lemma attributeParts_read:
  assumes ok: "attributesOk a"
  shows "foldl attributePart noAttributes (map (Cons 32) (attributeParts a)) = a"
proof -
  note none = noAttributes_def
  let ?b1 = "noAttributes\<lparr>caExpires := caExpires a\<rparr>"
  let ?b2 = "?b1\<lparr>caMaxAge := caMaxAge a\<rparr>"
  let ?b3 = "?b2\<lparr>caDomain := caDomain a\<rparr>"
  let ?b4 = "?b3\<lparr>caPath := caPath a\<rparr>"
  let ?b5 = "?b4\<lparr>caSecure := caSecure a\<rparr>"
  let ?b6 = "?b5\<lparr>caHttpOnly := caHttpOnly a\<rparr>"
  have 1: "foldl attributePart noAttributes (map (Cons 32) (expiresParts a)) = ?b1" by (rule read_expires(1)[OF ok]) (simp add: none)
  have 2: "foldl attributePart ?b1 (map (Cons 32) (maxAgeParts a)) = ?b2" by (rule read_maxAge(1)[OF ok]) (simp add: none)
  have 3: "foldl attributePart ?b2 (map (Cons 32) (textParts (caDomain a) (lit ''Domain''))) = ?b3" by (rule read_text(1)[OF ok]) (simp add: none)
  have 4: "foldl attributePart ?b3 (map (Cons 32) (textParts (caPath a) (lit ''Path''))) = ?b4" by (rule read_text(2)[OF ok]) (simp add: none)
  have 5: "foldl attributePart ?b4 (map (Cons 32) (flagParts (caSecure a) (lit ''Secure''))) = ?b5" by (rule read_text(3)[OF ok]) (simp add: none)
  have 6: "foldl attributePart ?b5 (map (Cons 32) (flagParts (caHttpOnly a) (lit ''HttpOnly''))) = ?b6" by (rule read_text(4)[OF ok]) (simp add: none)
  let ?es = "case caExtensions a of None \<Rightarrow> [] | Some es \<Rightarrow> es"
  have 7: "foldl attributePart ?b6 (map (Cons 32) (map extensionPart ?es)) = ?b6\<lparr>caExtensions := if [] @ ?es = [] then None else Some ([] @ ?es)\<rparr>"
    by (rule read_extensions_loop) (use extensions_ok[OF ok] in \<open>simp_all add: none\<close>)
  have "foldl attributePart noAttributes (map (Cons 32) (attributeParts a)) = ?b6\<lparr>caExtensions := caExtensions a\<rparr>"
    unfolding attributeParts_def map_append foldl_append 1 2 3 4 5 6 7 append_Nil extensions_ok(3)[OF ok] ..
  then show ?thesis by (cases a) (simp add: none)
qed

lemma attributeParts_apart:
  assumes ok: "attributesOk a" and "w \<in> set (attributeParts a)"
  shows "59 \<notin> set w"
proof -
  have "59 \<notin> set (extensionPart e)" if "e \<in> set (case caExtensions a of None \<Rightarrow> [] | Some es \<Rightarrow> es)" for e
  proof -
    have "extensionOk e" using that extensions_ok(1)[OF ok] unfolding list_all_iff by blast
    then show ?thesis using token_plain by (auto simp: extensionOk_def extensionPart_def plainText_def split: option.splits)
  qed
  then show ?thesis
    using assms(2) read_expires(2)[OF ok, of noAttributes] read_maxAge(2)[OF ok, of noAttributes] read_text(5)[OF ok]
    unfolding attributeParts_def set_append Un_iff set_map noAttributes_def cookieAttributes.simps by blast
qed



section \<open>Which cookies are sent\<close>

interpretation stored: preference cookieBefore "\<lambda>_. True"
  by unfold_locales (auto simp: cookieBefore_def)

lemma endsWith_iff: "endsWith s t \<longleftrightarrow> (\<exists>p. s = p @ t)"
proof
  show "endsWith s t \<Longrightarrow> \<exists>p. s = p @ t" unfolding endsWith_def by (metis append_take_drop_id)
qed (auto simp: endsWith_def)

text \<open>What RFC 6265 asks of a cookie: sections 5.1.3, 5.1.4 and 5.4.\<close>

definition domainMatch :: "jsstr \<Rightarrow> jsstr \<Rightarrow> bool" where
  "domainMatch host domain \<longleftrightarrow> host = domain \<or> (\<not> isIpAddress host \<and> (\<exists>p. host = p @ lit ''.'' @ domain))"

definition pathMatch :: "jsstr \<Rightarrow> jsstr \<Rightarrow> bool" where
  "pathMatch path cookiePath \<longleftrightarrow>
     (\<exists>r. path = cookiePath @ r \<and> (r = [] \<or> endsWithUnit cookiePath (cu CHR ''/'') \<or> startsWith r (lit ''/'')))"

lemma lower_lower [simp]: "toLower (toLower s) = toLower s"
  by (rule lower_idem)

lemma domainMatches_iff: "domainMatches host domain \<longleftrightarrow> toLower domain \<noteq> [] \<and> domainMatch (toLower host) (toLower domain)"
  by (auto simp: domainMatches_def domainMatch_def endsWith_iff Let_def)

lemma pathMatches_iff: "pathMatches path cookiePath \<longleftrightarrow> pathMatch path cookiePath"
proof -
  have "startsWith r (lit ''/'') \<longleftrightarrow> r \<noteq> [] \<and> r ! 0 = 47" for r by (cases r) (auto simp: startsWith_def)
  then show ?thesis by (auto simp: pathMatches_def pathMatch_def startsWith_iff nth_append)
qed


definition sampleCookie :: storedCookie where
  "sampleCookie = \<lparr>stName = lit ''a'', stValue = lit ''1'', stDomain = lit ''b.c'', stPath = lit ''/'', stCreation = 0,
     stExpires = None, stSecureOnly = False, stHttpOnly = False, stHostOnly = False\<rparr>"

definition sampleUrl :: urlParts where
  "sampleUrl = \<lparr>upProtocol = lit ''http:'', upUsername = [], upPassword = [], upHostname = lit ''a.b.c'', upPort = [],
     upPathname = lit ''/x'', upSearch = [], upHash = []\<rparr>"


text \<open>A semicolon inside quotes ends the value when the field is read, five digits are read as a year of four, and
  letters after a day are ignored.\<close>

lemma quoted_semicolon_lost:
  "formatCookie [(lit ''a'', lit ''x;y'')] = Inr (lit ''a=\"x;y\"'')"
  "parseCookie (lit ''a=\"x;y\"'') = [(lit ''a'', lit ''\"x'')]"
  by (simp_all add: formatCookie_def cookiePair_def assertHeaderToken_def assertNoCtl_def isCtl_def TOKEN_CHARS_def TOKEN_CHAR_def
      formatCookieValue_def quoteString_def escapeQuotedString_def isJsSpace_def parseCookie_def jsTrim_def cookiePart_def
      indexOfUnit_def unquoteLenient_def isQuoted_def startsWith_def endsWithUnit_def setIfAbsent_def Let_def)

lemma long_year_accepted: "parseCookieYear (lit ''20245'') = Some 2024"
  by (simp add: parseCookieYear_def isDigit_def parseDec_def digitVal_def Let_def)

end
