(* ===== verification/Spec2Isabelle.thy ===== *)
theory Spec2Isabelle
  imports JsonPatchLaws JsonMergePatch JsonPathLaws StructuredFieldsLaws RangeLaws CacheControlLaws NegotiateLaws SfHeadersLaws UriTemplateLaws NiLaws CookieLaws
begin

text \<open>
  A verification development for http-rfc-utils, a TypeScript library of parsers, formatters and
  evaluators for HTTP related RFCs.

  Theories.

  \<^item> \<open>Prelude\<close>: the error type as a sum with its bind, generic facts on lists and splitting.
  \<^item> \<open>JsString\<close>, \<open>JsNumber\<close>, \<open>JsValue\<close>: the values of the language: strings as lists of UTF-16 code
    units, doubles by their rational value with correct rounding, heaps of arrays and objects, and the
    JSON trees that acyclic values denote (\<open>unfolds\<close>).
  \<^item> \<open>JsonPointer\<close>: \<open>src/json-pointer.ts\<close> (RFC 6901).
  \<^item> \<open>JsonPatchValue\<close>, \<open>JsonPatch\<close>, \<open>JsonPatchLaws\<close>: \<open>src/json-patch.ts\<close> (RFC 6902).
  \<^item> \<open>JsonMergePatch\<close>: \<open>src/json-merge-patch.ts\<close> (RFC 7396).
  \<^item> \<open>JsonPathLexer\<close>, \<open>JsonPathSyntax\<close>, \<open>JsonPathParser\<close>, \<open>JsonPathParserLaws\<close>, \<open>JsonPathRegex\<close>,
    \<open>JsonPathEval\<close>, \<open>JsonPathEvalLaws\<close>, \<open>JsonPathSpec\<close>, \<open>JsonPathNormal\<close>: \<open>src/jsonpath/\<close> (RFC 9535).
\<close>

section \<open>JSONPath and JSON Pointer\<close>

text \<open>The reference token of a step.\<close>

definition stepToken :: "pathStep \<Rightarrow> jsstr" where
  "stepToken step = (case step of Key k \<Rightarrow> k | Idx n \<Rightarrow> showNat n)"

lemma validIndex_showNat: "isValidArrayIndex (showNat n) \<and> showNat n \<noteq> lit ''-''"
proof -
  obtain d ds where s: "showNat n = d # ds" "isDigit d" "d = 48 \<longrightarrow> n = 0 \<and> ds = []"
    using showNat_first by blast
  moreover have "list_all isDigit ds" using showNat_digits[of _ n] by (simp add: s list_all_iff)
  ultimately show ?thesis by (auto simp: isValidArrayIndex_def isDigit_def)
qed

lemma pointerStep_step:
  assumes "stepValue h v step = Some w"
  shows "pointerStep h v (stepToken step) = w"
proof (cases step)
  case (Key k)
  then obtain ps where ps: "recordOf h v = Some ps" "map_of ps k = Some w"
    using assms by (auto simp: stepValue_Key split: option.splits)
  then have "arrayOf h v = None" "v \<noteq> Null" "v \<noteq> Undefined"
    by (auto simp: recordOf_def arrayOf_def split: jsval.splits option.splits heapobj.splits)
  with ps show ?thesis by (simp add: Key stepToken_def pointerStep_def hasOwnKey_map_of getProp_def)
next
  case (Idx n)
  then obtain vs where vs: "arrayOf h v = Some vs" "n < length vs" "w = vs ! n"
    using assms by (auto simp: stepValue_Idx split: option.splits if_splits)
  then have "v \<noteq> Null" "v \<noteq> Undefined" by (auto simp: arrayOf_def)
  with vs validIndex_showNat[of n] show ?thesis by (auto simp: Idx stepToken_def pointerStep_def Let_def)
qed

lemma pointer_steps:
  "valueAt h v steps = Some w \<Longrightarrow> foldl (pointerStep h) v (map stepToken steps) = w"
  by (induction h v steps rule: valueAt.induct) (auto simp: pointerStep_step split: option.splits)

text \<open>C11 (path_pointer_agree): Whatever a JSONPath query returns, its steps written as a JSON Pointer
  (RFC 6901) evaluate to the same value: the two notations for a location agree.\<close>

theorem path_pointer_agree:
  assumes "wfHeap h" and "queryJsonPathNodes h eng text doc options = Inr (Some ns)" and "(v, path) \<in> set ns"
  shows "\<exists>steps. path = formatNormalizedPath steps \<and>
    evaluateJsonPointer h (formatJsonPointer (map stepToken steps)) doc = v"
proof -
  let ?ctx = "rootContext h eng (resolveEvalLimits options) doc"
  obtain ast nodes where n: "evaluateQuery ast ?ctx = Inr nodes" "ns = map materializeNodePath nodes"
    using assms(2) by (auto simp: queryJsonPathNodes_def queryWith_def split: sum.splits if_splits option.splits)
  obtain node where node: "node \<in> set nodes" "v = nodeValue node" "path = formatNormalizedPath (segments node)"
    using assms(3) by (auto simp: n(2) materializeNodePath_def)
  have "valueAt h doc (segments node) = Some v"
    using evaluateQuery_nodes[OF _ n(1)] assms(1) node(1,2) by (auto simp: nodeOk_def rootContext_def)
  from pointer_steps[OF this]
  have "evaluateJsonPointer h (formatJsonPointer (map stepToken (segments node))) doc = v"
    using parse_format[of "map stepToken (segments node)"]
    by (cases "segments node") (auto simp: evaluateJsonPointer_def formatJsonPointer_def)
  with node(3) show ?thesis by blast
qed

theorem path_pointer_agree_witness:
  "\<exists>steps. formatNormalizedPath [Key (lit ''a'')] = formatNormalizedPath steps \<and>
    evaluateJsonPointer pathHeap (formatJsonPointer (map stepToken steps)) (Ref 0) = Ref 1"
  by (rule path_pointer_agree[OF pathHeap_wf pathText_query]) simp

text \<open>The comparison of JSON Patch \<open>test\<close> (recursive, bounded depth) and the
  comparison of JSONPath filters (an explicit stack, a visit budget) are the same relation: when both
  return on the same pair of trees, they return the same.\<close>

theorem equalities_agree:
  assumes "wfHeap (docHeap ctx)" and "unfolds (docHeap ctx) u i" and "unfolds (docHeap ctx) v j"
    and "deepEqualA ctx u v s = Inr (b, s')" and "depthLE maxPatchDepth j"
  shows "deepEqual i j 0 = Inr b"
  using deepEqual_spec(1)[of i j 0] deepEqual_tree[OF assms(1-4)] unfolds_wf assms by auto

theorem equalities_agree_witness: "deepEqual (JArr [JStr [97]]) (JArr [JStr [97]]) 0 = Inr True"
proof -
  have "wfHeap (docHeap smallContext)" "unfolds (docHeap smallContext) (Ref 0) (JArr [JStr [97]])"
    "unfolds (docHeap smallContext) (Ref 1) (JArr [JStr [97]])"
    by (simp_all add: smallContext_def pairHeap_def wfHeap_def unfolds_simps)
  from equalities_agree[OF this smallContext_equal] show ?thesis by (simp add: maxPatchDepth_def)
qed

end
